(* ===== verification/Sonic_Prelude.thy ===== *)
theory Sonic_Prelude
  imports Complex_Main "HOL-Library.Word"
begin

text \<open>
  The vocabulary every component shares.

  \<^item> JavaScript errors are values: a function that may throw returns \<open>'a result\<close>, the sum of
    \<open>js_error\<close> and its value; \<open>bindR\<close> is sequencing (the first throw wins) and \<open>mapR\<close> runs a
    throwing function along an array.
  \<^item> A \<open>Uint8Array\<close> is a list of \<open>8 word\<close>, so that storing a number into it truncates modulo 256 by
    construction (\<open>of_nat\<close>, \<open>word_of_int\<close>). A string is a list of UTF-16 code units
    (\<open>16 word list\<close>), which is what \<open>length\<close> and \<open>charCodeAt\<close> count; \<open>js\<close> writes an ASCII literal.
  \<^item> \<open>to_int32\<close> and \<open>to_uint32\<close> are ECMAScript's ToInt32 and ToUint32, \<open>round53\<close> is the rounding of
    an integer to the nearest double (ties to even).
  \<^item> Two interfaces used by several components: \<open>offset_codec\<close>, an encoder with a reader that works
    at an offset inside a larger buffer, and \<open>machine_inv\<close>, a step function with an invariant.
\<close>

section \<open>Errors as values\<close>

datatype js_error = Error string | TypeError string | RangeError string

type_synonym 'a result = "js_error + 'a"

definition bindR :: "'a result \<Rightarrow> ('a \<Rightarrow> 'b result) \<Rightarrow> 'b result" where
  "bindR m f = (case m of Inl e \<Rightarrow> Inl e | Inr x \<Rightarrow> f x)"

lemma bindR_simps [simp]: "bindR (Inl e) f = Inl e" "bindR (Inr x) f = f x"
  by (simp_all add: bindR_def)

lemma bindR_cong [fundef_cong]:
  "m = m' \<Longrightarrow> (\<And>x. m' = Inr x \<Longrightarrow> f x = g x) \<Longrightarrow> bindR m f = bindR m' g"
  by (cases m') simp_all

lemma bindR_eq_Inr: "bindR m f = Inr y \<longleftrightarrow> (\<exists>x. m = Inr x \<and> f x = Inr y)"
  by (cases m) simp_all

lemma bindR_eq_Inl: "bindR m f = Inl e \<longleftrightarrow> m = Inl e \<or> (\<exists>x. m = Inr x \<and> f x = Inl e)"
  by (cases m) simp_all

definition is_ok :: "'a result \<Rightarrow> bool" where
  "is_ok r = (case r of Inl _ \<Rightarrow> False | Inr _ \<Rightarrow> True)"

lemma is_ok_simps [simp]: "is_ok (Inr x)" "\<not> is_ok (Inl e)"
  by (simp_all add: is_ok_def)

lemma is_ok_iff: "is_ok r \<longleftrightarrow> (\<exists>x. r = Inr x)"
  by (cases r) simp_all

fun mapR :: "('a \<Rightarrow> 'b result) \<Rightarrow> 'a list \<Rightarrow> 'b list result" where
  "mapR f [] = Inr []"
| "mapR f (x # xs) = bindR (f x) (\<lambda>y. bindR (mapR f xs) (\<lambda>ys. Inr (y # ys)))"

lemma mapR_cong [fundef_cong]:
  "xs = ys \<Longrightarrow> (\<And>x. x \<in> set ys \<Longrightarrow> f x = g x) \<Longrightarrow> mapR f xs = mapR g ys"
proof (induction xs arbitrary: ys)
  case (Cons x xs)
  then show ?case by (cases ys) auto
qed simp

lemma mapR_Inr: "(\<And>x. x \<in> set xs \<Longrightarrow> f x = Inr (g x)) \<Longrightarrow> mapR f xs = Inr (map g xs)"
  by (induction xs) auto

lemma mapR_map: "mapR f (map g xs) = mapR (\<lambda>x. f (g x)) xs"
  by (induction xs) simp_all

lemma mapR_nth: "mapR f xs = Inr ys \<Longrightarrow> i < length xs \<Longrightarrow> f (xs ! i) = Inr (ys ! i)"
  by (induction xs arbitrary: ys i) (auto simp: bindR_eq_Inr nth_Cons split: nat.splits)

lemma mapR_length: "mapR f xs = Inr ys \<Longrightarrow> length ys = length xs"
  by (induction xs arbitrary: ys) (auto simp: bindR_eq_Inr)

text \<open>Code that may throw after it has changed state: the state survives the throw.\<close>

type_synonym ('s, 'a) st_result = "'s \<Rightarrow> 'a result \<times> 's"

definition returnS :: "'a \<Rightarrow> ('s, 'a) st_result" where
  "returnS x s = (Inr x, s)"

definition throwS :: "js_error \<Rightarrow> ('s, 'a) st_result" where
  "throwS e s = (Inl e, s)"

definition liftS :: "'a result \<Rightarrow> ('s, 'a) st_result" where
  "liftS r s = (r, s)"

definition bindS :: "('s, 'a) st_result \<Rightarrow> ('a \<Rightarrow> ('s, 'b) st_result) \<Rightarrow> ('s, 'b) st_result" where
  "bindS m f s = (case m s of (Inl e, s') \<Rightarrow> (Inl e, s') | (Inr x, s') \<Rightarrow> f x s')"

fun mapS :: "('a \<Rightarrow> ('s, 'b) st_result) \<Rightarrow> 'a list \<Rightarrow> ('s, 'b list) st_result" where
  "mapS f [] = returnS []"
| "mapS f (x # xs) = bindS (f x) (\<lambda>y. bindS (mapS f xs) (\<lambda>ys. returnS (y # ys)))"

lemma st_simps [simp]:
  "returnS x s = (Inr x, s)" "throwS e s = (Inl e, s)" "liftS r s = (r, s)"
  "bindS (returnS x) f s = f x s" "bindS (throwS e) f s = (Inl e, s)"
  "bindS (liftS (Inr x)) f s = f x s" "bindS (liftS (Inl e)) f s = (Inl e, s)"
  by (simp_all add: returnS_def throwS_def liftS_def bindS_def)

lemma bindS_eq:
  "bindS m f s = (case m s of (Inl e, s') \<Rightarrow> (Inl e, s') | (Inr x, s') \<Rightarrow> f x s')"
  by (rule bindS_def)

text \<open>An invariant of the state that every step keeps is kept by the whole loop, thrown or not.\<close>

lemma mapS_inv:
  "(\<And>x s. x \<in> set xs \<Longrightarrow> P s \<Longrightarrow> P (snd (f x s))) \<Longrightarrow> P s \<Longrightarrow> P (snd (mapS f xs s))"
proof (induction xs arbitrary: s)
  case (Cons x xs)
  have "P (snd (f x s))" using Cons.prems by simp
  then show ?case
    using Cons.IH Cons.prems(1)
    by (auto simp: bindS_eq split: prod.splits sum.splits) (metis snd_conv)+
qed simp

lemma mapS_length: "mapS f xs s = (Inr ys, s') \<Longrightarrow> length ys = length xs"
  by (induction xs arbitrary: s ys s') (auto simp: bindS_eq split: prod.splits sum.splits)

section \<open>Bytes, strings and 32-bit conversions\<close>

type_synonym u8 = "8 word"
type_synonym jsstr = "16 word list"

definition js :: "string \<Rightarrow> jsstr" where
  "js s = map (\<lambda>c. of_nat (of_char c)) s"

lemma js_simps [simp]: "js [] = []" "js (c # cs) = of_nat (of_char c) # js cs"
  by (simp_all add: js_def)

lemma js_inj: "js s = js t \<longleftrightarrow> s = t"
proof
  have b: "of_char c < (256 :: nat)" for c :: char by (rule nat_of_char_less_256)
  have "c = d" if "of_nat (of_char c) = (of_nat (of_char d) :: 16 word)" for c d :: char
  proof -
    have "unat (of_nat (of_char c) :: 16 word) = of_char c" for c :: char
    proof -
      have "(of_char c :: nat) < 65536" using b [of c] by linarith
      then show ?thesis by (simp add: unat_of_nat take_bit_eq_mod)
    qed
    then have "(of_char c :: nat) = of_char d" using that by metis
    then show ?thesis by simp
  qed
  then have "inj (\<lambda>c :: char. of_nat (of_char c) :: 16 word)" by (intro injI)
  then show "js s = js t \<Longrightarrow> s = t" by (simp add: js_def inj_map_eq_map)
qed simp

definition to_int32 :: "int \<Rightarrow> int" where
  "to_int32 v = signed_take_bit 31 v"

definition to_uint32 :: "int \<Rightarrow> int" where
  "to_uint32 v = take_bit 32 v"

lemma to_int32_id: "- (2 ^ 31) \<le> v \<Longrightarrow> v < 2 ^ 31 \<Longrightarrow> to_int32 v = v"
  unfolding to_int32_def by (rule signed_take_bit_int_eq_self) simp_all

lemma to_uint32_id: "0 \<le> v \<Longrightarrow> v < 2 ^ 32 \<Longrightarrow> to_uint32 v = v"
  unfolding to_uint32_def by (simp add: take_bit_int_eq_self)

text \<open>\<open>data[i]\<close> read by a bitwise operator: out of range it is \<open>undefined\<close>, which \<open>&\<close> takes as 0.\<close>

definition byte_or_zero :: "u8 list \<Rightarrow> int \<Rightarrow> nat" where
  "byte_or_zero bs i = (if 0 \<le> i \<and> i < int (length bs) then unat (bs ! nat i) else 0)"

text \<open>\<open>data.slice(a, b)\<close> and \<open>data.subarray(a, b)\<close> for offsets that are not negative.\<close>

definition js_slice :: "'a list \<Rightarrow> nat \<Rightarrow> nat \<Rightarrow> 'a list" where
  "js_slice xs a b = take (b - a) (drop a xs)"

lemma js_slice_mid: "js_slice (pre @ xs @ rest) (length pre) (length pre + length xs) = xs"
  by (simp add: js_slice_def)

lemma unat_u8_less: "unat (b :: u8) < 256"
  using unsigned_less [of b] by simp

lemma unat_of_nat_u8: "n < 256 \<Longrightarrow> unat (of_nat n :: u8) = n"
  by (simp add: unat_of_nat take_bit_nat_eq_self)

subsection \<open>Rounding an integer to a double\<close>

fun bit_len :: "nat \<Rightarrow> nat" where
  "bit_len n = (if n = 0 then 0 else Suc (bit_len (n div 2)))"

declare bit_len.simps [simp del]

definition round53 :: "nat \<Rightarrow> nat" where
  "round53 n =
     (if n < 2 ^ 53 then n
      else let k = bit_len n - 53; u = 2 ^ k; q = n div u; r = n mod u
           in if 2 * r < u \<or> (2 * r = u \<and> even q) then q * u else (q + 1) * u)"

lemma round53_id: "n < 2 ^ 53 \<Longrightarrow> round53 n = n"
  by (simp add: round53_def)

section \<open>Interfaces\<close>

text \<open>The bytes at an offset of a buffer, for readers that consume a record piece by piece.\<close>

definition at_off :: "'a list \<Rightarrow> nat \<Rightarrow> 'a list \<Rightarrow> bool" where
  "at_off data off xs \<longleftrightarrow> (\<exists>pre rest. data = pre @ xs @ rest \<and> length pre = off)"

lemma at_offI: "at_off (pre @ xs @ rest) (length pre) xs"
  by (auto simp: at_off_def)

lemma at_off_append: "at_off data off (xs @ ys) \<longleftrightarrow> at_off data off xs \<and> at_off data (off + length xs) ys"
proof
  assume "at_off data off (xs @ ys)"
  then obtain pre rest where d: "data = pre @ xs @ ys @ rest" "length pre = off"
    by (auto simp: at_off_def)
  then have "at_off data off xs" by (auto simp: at_off_def)
  moreover have "data = (pre @ xs) @ ys @ rest" "length (pre @ xs) = off + length xs" using d by simp_all
  then have "at_off data (off + length xs) ys" unfolding at_off_def by blast
  ultimately show "at_off data off xs \<and> at_off data (off + length xs) ys" by blast
next
  assume a: "at_off data off xs \<and> at_off data (off + length xs) ys"
  obtain p1 r1 where d1: "data = p1 @ xs @ r1" "length p1 = off" using a unfolding at_off_def by blast
  obtain p2 r2 where d2: "data = p2 @ ys @ r2" "length p2 = off + length xs" using a unfolding at_off_def by blast
  have "(p1 @ xs) @ r1 = p2 @ (ys @ r2)" using d1(1) d2(1) by simp
  then have "p1 @ xs = p2" using d1(2) d2(2) by (subst (asm) append_eq_append_conv) simp_all
  then have "data = p1 @ (xs @ ys) @ r2" using d2(1) by auto
  then show "at_off data off (xs @ ys)" using d1(2) unfolding at_off_def by blast
qed

lemma at_off_Cons: "at_off data off (x # xs) \<longleftrightarrow> off < length data \<and> data ! off = x \<and> at_off data (Suc off) xs"
proof -
  have "at_off data off [x] \<longleftrightarrow> off < length data \<and> data ! off = x"
  proof
    assume "off < length data \<and> data ! off = x"
    then have "data = take off data @ [x] @ drop (Suc off) data" "length (take off data) = off"
      using id_take_nth_drop [of off data] by simp_all
    then show "at_off data off [x]" unfolding at_off_def by blast
  qed (auto simp: at_off_def)
  then show ?thesis using at_off_append [of data off "[x]" xs] by simp
qed

lemma at_off_bound: "at_off data off xs \<Longrightarrow> off + length xs \<le> length data"
  by (auto simp: at_off_def)

lemma at_off_slice: "at_off data off xs \<Longrightarrow> n = off + length xs \<Longrightarrow> js_slice data off n = xs"
  by (auto simp: at_off_def js_slice_def)

text \<open>
  An encoder and a reader at an offset: reading where an encoding starts gives the value and the
  offset just behind it, whatever surrounds it.
\<close>

fun read_n :: "('b list \<Rightarrow> nat \<Rightarrow> (nat \<times> 'a) result) \<Rightarrow> 'b list \<Rightarrow> nat \<Rightarrow> nat \<Rightarrow> ('a list \<times> nat) result"
where
  "read_n rd data off 0 = Inr ([], off)"
| "read_n rd data off (Suc n) =
     bindR (rd data off) (\<lambda>(off', v).
       bindR (read_n rd data off' n) (\<lambda>(vs, off''). Inr (v # vs, off'')))"

locale offset_codec =
  fixes enc :: "'a \<Rightarrow> 'b list"
    and rd :: "'b list \<Rightarrow> nat \<Rightarrow> (nat \<times> 'a) result"
    and ok :: "'a \<Rightarrow> bool"
  assumes rd_enc: "ok v \<Longrightarrow> rd (pre @ enc v @ rest) (length pre) = Inr (length pre + length (enc v), v)"
begin

lemma rd_enc_at:
  "ok v \<Longrightarrow> data = pre @ enc v @ rest \<Longrightarrow> off = length pre \<Longrightarrow>
   rd data off = Inr (off + length (enc v), v)"
  using rd_enc by blast

lemma rd_enc_off: "ok v \<Longrightarrow> at_off data off (enc v) \<Longrightarrow> rd data off = Inr (off + length (enc v), v)"
  unfolding at_off_def using rd_enc by blast

lemma rd_enc_start: "ok v \<Longrightarrow> rd (enc v @ rest) 0 = Inr (length (enc v), v)"
  using rd_enc [of v "[]"] by simp

lemma read_n_enc:
  "(\<And>v. v \<in> set vs \<Longrightarrow> ok v) \<Longrightarrow>
   read_n rd (pre @ concat (map enc vs) @ rest) (length pre) (length vs)
     = Inr (vs, length pre + length (concat (map enc vs)))"
proof (induction vs arbitrary: pre)
  case (Cons v vs)
  have "rd (pre @ enc v @ concat (map enc vs) @ rest) (length pre)
      = Inr (length pre + length (enc v), v)"
    using Cons.prems by (intro rd_enc) simp
  moreover have "read_n rd ((pre @ enc v) @ concat (map enc vs) @ rest) (length (pre @ enc v)) (length vs)
      = Inr (vs, length (pre @ enc v) + length (concat (map enc vs)))"
    using Cons.prems by (intro Cons.IH) simp
  ultimately show ?case by (simp add: add.assoc)
qed simp

lemma enc_inj: "ok v \<Longrightarrow> ok w \<Longrightarrow> enc v @ r1 = enc w @ r2 \<Longrightarrow> v = w \<and> r1 = r2"
proof -
  assume a: "ok v" "ok w" "enc v @ r1 = enc w @ r2"
  from rd_enc_start [OF a(1), of r1] rd_enc_start [OF a(2), of r2] a(3)
  have "v = w" by simp
  with a(3) show ?thesis by simp
qed

end

text \<open>A state with an event-driven step that keeps an invariant keeps it along every run.\<close>

locale machine_inv =
  fixes stp :: "'s \<Rightarrow> 'e \<Rightarrow> 's"
    and inv :: "'s \<Rightarrow> bool"
  assumes keeps: "inv s \<Longrightarrow> inv (stp s e)"
begin

lemma run_inv: "inv s \<Longrightarrow> inv (foldl stp s es)"
  by (induction es arbitrary: s) (auto intro: keeps)

lemma run_inv_prefix: "inv s \<Longrightarrow> inv (foldl stp s (take k es))"
  by (rule run_inv)

end

end
