(* ===== verification/Varint.thy ===== *)
theory Varint
  imports Sonic_Prelude
begin

unbundle bit_operations_syntax

text \<open>
  \<open>projects/ts/src/ws/util/packets/CompressionUtil.ts\<close>: the base-128 variable integers that frame
  every schema record, control frame and handshake, and the packing of eight flags in a byte.
  Numbers are integers here: every caller passes a length, a key, an identifier or a counter.
\<close>

section \<open>Constants and boolean packing\<close>

definition MAX_BYTE :: nat where
  "MAX_BYTE = 255"

definition MAX_USHORT :: nat where
  "MAX_USHORT = 65535"

definition MAX_UVARINT :: nat where
  "MAX_UVARINT = 128 ^ 7 - 1"

fun compressBools_from :: "nat \<Rightarrow> nat \<Rightarrow> bool list \<Rightarrow> nat" where
  "compressBools_from byte index [] = byte"
| "compressBools_from byte index (v # vs) =
     compressBools_from (byte OR push_bit (7 - index) (of_bool v)) (index + 1) vs"

text \<open>The reduce of the source, for arrays of at most eight flags (all its callers).\<close>

definition compressBools :: "bool list \<Rightarrow> nat" where
  "compressBools values = compressBools_from 0 0 values"

definition decompressBools :: "nat \<Rightarrow> bool list" where
  "decompressBools byte = map (\<lambda>index. byte AND push_bit (7 - index) 1 \<noteq> 0) [0..<8]"

lemma decompressBools_bits: "decompressBools byte = map (\<lambda>i. bit byte (7 - i)) [0..<8]"
proof -
  have "(byte AND push_bit k 1 \<noteq> 0) = bit byte k" for k :: nat
    by (metis and_exp_eq_0_iff_not_bit push_bit_of_1)
  then show ?thesis by (simp add: decompressBools_def)
qed

lemma bit_compressBools_from:
  "bit (compressBools_from byte index vs) n \<longleftrightarrow>
     bit byte n \<or> (\<exists>k < length vs. vs ! k \<and> n = 7 - (index + k))"
proof (induction vs arbitrary: byte index)
  case (Cons v vs)
  have "bit (byte OR push_bit (7 - index) (of_bool v)) n \<longleftrightarrow> bit byte n \<or> (v \<and> n = 7 - index)"
    by (cases v) (auto simp: bit_or_iff bit_exp_iff)
  then show ?case
    by (auto simp: Cons.IH less_Suc_eq_0_disj)
qed simp

lemma decompress_compressBools:
  assumes "length bs \<le> 8"
  shows "take (length bs) (decompressBools (compressBools bs)) = bs"
proof (rule nth_equalityI)
  show "length (take (length bs) (decompressBools (compressBools bs))) = length bs"
    using assms by (simp add: decompressBools_bits)
next
  fix i
  assume "i < length (take (length bs) (decompressBools (compressBools bs)))"
  with assms have i: "i < length bs" "i < 8"
    by (simp_all add: decompressBools_bits)
  have eq: "7 - i = 7 - k \<longleftrightarrow> k = i" if "k < length bs" for k
    using that i assms by auto
  have "bit (compressBools bs) (7 - i) \<longleftrightarrow> (\<exists>k < length bs. bs ! k \<and> 7 - i = 7 - k)"
    by (simp add: compressBools_def bit_compressBools_from)
  also have "\<dots> \<longleftrightarrow> bs ! i"
    using eq i by auto
  finally show "take (length bs) (decompressBools (compressBools bs)) ! i = bs ! i"
    using i by (simp add: decompressBools_bits)
qed

lemma compressBools_byte: "compressBools bs < 256"
proof -
  have "\<not> bit (compressBools bs) n" if "8 \<le> n" for n
    using that by (auto simp: compressBools_def bit_compressBools_from)
  then have "take_bit 8 (compressBools bs) = compressBools bs"
    by (intro bit_eqI) (metis bit_take_bit_iff not_less)
  then show ?thesis
    using take_bit_nat_less_exp [of 8 "compressBools bs"] by simp
qed

section \<open>Variable integers\<close>

fun varint_digits :: "nat \<Rightarrow> u8 list" where
  "varint_digits value =
     (let byte = value mod 128; value' = value div 128
      in if value' > 0 then of_nat (byte OR 128) # varint_digits value' else [of_nat byte])"

declare varint_digits.simps [simp del]

definition convertVarInt :: "int \<Rightarrow> u8 list result" where
  "convertVarInt value =
     (if value < 0 \<or> value > int MAX_UVARINT
      then Inl (Error ''Variable Ints must be within range'')
      else Inr (varint_digits (nat value)))"

text \<open>
  The loop of \<open>readVarInt\<close>: \<open>sectors\<close> rounds are left. The running sum is a double, so the eighth
  sector can round (its bits lie above \<open>2 ^ 53\<close>).
\<close>

fun readVarInt_loop :: "u8 list \<Rightarrow> nat \<Rightarrow> nat \<Rightarrow> nat \<Rightarrow> nat \<Rightarrow> (nat \<times> nat) result" where
  "readVarInt_loop data offset value multiplier 0 = Inl (Error ''Variable integer is too long'')"
| "readVarInt_loop data offset value multiplier (Suc sectors) =
     (if offset \<ge> length data then Inl (Error ''Truncated variable integer'')
      else let byte = unat (data ! offset);
               value' = round53 (value + (byte AND 127) * multiplier)
           in if byte AND 128 = 0 then Inr (offset + 1, value')
              else readVarInt_loop data (offset + 1) value' (multiplier * 128) sectors)"

definition readVarInt :: "u8 list \<Rightarrow> nat \<Rightarrow> (nat \<times> nat) result" where
  "readVarInt data offset = readVarInt_loop data offset 0 1 8"

lemma and_127: "(b::nat) AND 127 = b mod 128"
  using take_bit_eq_mask [of 7 b] by (simp add: take_bit_eq_mod mask_eq_exp_minus_1)

lemma byte_and_128: "b < 256 \<Longrightarrow> (b::nat) AND 128 = 0 \<longleftrightarrow> b < 128"
proof -
  assume b: "b < 256"
  have "b AND 128 = 0 \<longleftrightarrow> \<not> bit b 7"
    using and_exp_eq_0_iff_not_bit [of b 7] by simp
  also have "\<dots> \<longleftrightarrow> even (b div 128)"
    by (simp add: bit_iff_odd)
  also have "\<dots> \<longleftrightarrow> b < 128"
  proof -
    have "b div 128 = 0 \<or> b div 128 = 1" using b by auto
    then show ?thesis by auto
  qed
  finally show ?thesis .
qed

lemma or_128: "b < 128 \<Longrightarrow> (b::nat) OR 128 = b + 128"
proof -
  assume b: "b < 128"
  have "b AND 128 = 0" using b by (simp add: byte_and_128)
  then show ?thesis by (simp add: disjunctive_add_eq_or)
qed

text \<open>The digits of \<open>convertVarInt\<close>, least significant group first.\<close>

lemma varint_digits_small: "v < 128 \<Longrightarrow> varint_digits v = [of_nat v]"
  by (subst varint_digits.simps) simp

lemma varint_digits_big:
  "128 \<le> v \<Longrightarrow> varint_digits v = of_nat (v mod 128 + 128) # varint_digits (v div 128)"
  by (subst varint_digits.simps) (simp add: Let_def or_128 div_greater_zero_iff)

lemma varint_digits_length: "0 < length (varint_digits v)"
  by (subst varint_digits.simps) (simp add: Let_def)

lemma varint_digits_length_le: "v < 128 ^ Suc k \<Longrightarrow> length (varint_digits v) \<le> Suc k"
proof (induction k arbitrary: v)
  case 0
  then show ?case by (simp add: varint_digits_small)
next
  case (Suc k)
  show ?case
  proof (cases "v < 128")
    case False
    have "v div 128 < 128 ^ Suc k"
      using Suc.prems by (simp add: less_mult_imp_div_less mult.commute)
    with False show ?thesis
      using Suc.IH [of "v div 128"] by (simp add: varint_digits_big)
  qed (simp add: varint_digits_small)
qed

lemma convertVarInt_ok: "v \<le> MAX_UVARINT \<Longrightarrow> convertVarInt (int v) = Inr (varint_digits v)"
  by (simp add: convertVarInt_def)

lemma convertVarInt_Inr_iff:
  "convertVarInt i = Inr bs \<longleftrightarrow> 0 \<le> i \<and> i \<le> int MAX_UVARINT \<and> bs = varint_digits (nat i)"
  by (auto simp: convertVarInt_def split: if_splits)

lemma readVarInt_loop_digits:
  "v < 128 ^ s \<Longrightarrow> acc + v * 128 ^ j < 2 ^ 53 \<Longrightarrow> 0 < s \<Longrightarrow>
   readVarInt_loop (pre @ varint_digits v @ rest) (length pre) acc (128 ^ j) s
     = Inr (length pre + length (varint_digits v), acc + v * 128 ^ j)"
proof (induction v arbitrary: pre acc j s rule: varint_digits.induct)
  case (1 v)
  obtain s' where s: "s = Suc s'" using "1.prems"(3) by (cases s) auto
  show ?case
  proof (cases "v < 128")
    case True
    then show ?thesis
      using "1.prems"(2)
      by (simp add: s varint_digits_small unat_of_nat_u8 and_127 byte_and_128 round53_id nth_append)
  next
    case False
    let ?b = "v mod 128" and ?w = "v div 128"
    have v: "v = ?b + ?w * 128" by simp
    have e: "acc + ?b * 128 ^ j + ?w * 128 ^ Suc j = acc + v * 128 ^ j"
    proof -
      have "v * 128 ^ j = ?b * 128 ^ j + ?w * 128 ^ Suc j"
        by (subst (1) v) (simp only: add_mult_distrib power_Suc mult.assoc)
      then show ?thesis by simp
    qed
    then have small: "acc + ?b * 128 ^ j < 2 ^ 53"
      using "1.prems"(2) by linarith
    have w: "?w < 128 ^ s'"
      using "1.prems"(1) by (simp add: s less_mult_imp_div_less mult.commute)
    have s': "0 < s'" using w False by (cases s') (simp_all add: div_greater_zero_iff)
    have "readVarInt_loop ((pre @ [of_nat (?b + 128)]) @ varint_digits ?w @ rest)
            (length (pre @ [of_nat (?b + 128) :: u8])) (acc + ?b * 128 ^ j) (128 ^ Suc j) s'
        = Inr (length (pre @ [of_nat (?b + 128) :: u8]) + length (varint_digits ?w),
               acc + ?b * 128 ^ j + ?w * 128 ^ Suc j)"
      using False "1.prems"(2) e by (intro "1.IH" [OF refl refl] w s') (simp_all add: div_greater_zero_iff)
    moreover have "unat (of_nat (?b + 128) :: u8) = ?b + 128"
      by (rule unat_of_nat_u8) (use mod_less_divisor [of 128 v] in linarith)
    ultimately show ?thesis
      using False small e
      by (simp add: s varint_digits_big and_127 byte_and_128 round53_id nth_append mult.commute)
  qed
qed

lemma readVarInt_digits:
  "v \<le> MAX_UVARINT \<Longrightarrow>
   readVarInt (pre @ varint_digits v @ rest) (length pre) = Inr (length pre + length (varint_digits v), v)"
  using readVarInt_loop_digits [of v 8 0 0 pre rest]
  by (simp add: readVarInt_def MAX_UVARINT_def)

interpretation varint: offset_codec varint_digits readVarInt "\<lambda>v. v \<le> MAX_UVARINT"
  by unfold_locales (rule readVarInt_digits)

text \<open>What a successful read says about the buffer.\<close>

lemma readVarInt_loop_bounds:
  "readVarInt_loop data off acc m s = Inr (off', v) \<Longrightarrow>
   off < off' \<and> off' \<le> length data \<and> off' \<le> off + s"
  by (induction data off acc m s rule: readVarInt_loop.induct) (force simp: Let_def split: if_splits)+

lemma readVarInt_bounds:
  "readVarInt data off = Inr (off', v) \<Longrightarrow> off < off' \<and> off' \<le> length data \<and> off' \<le> off + 8"
  unfolding readVarInt_def by (rule readVarInt_loop_bounds)

lemma readVarInt_truncated:
  "(\<And>i. off \<le> i \<Longrightarrow> i < length data \<Longrightarrow> 128 \<le> unat (data ! i)) \<Longrightarrow>
   \<exists>e. readVarInt_loop data off acc m s = Inl e"
proof (induction data off acc m s rule: readVarInt_loop.induct)
  case (2 data off acc m s)
  show ?case
  proof (cases "length data \<le> off")
    case False
    then have "128 \<le> unat (data ! off)" using "2.prems" by simp
    then have "unat (data ! off) AND 128 \<noteq> 0"
      using unat_u8_less [of "data ! off"] by (simp add: byte_and_128)
    with False 2 show ?thesis by (simp add: Let_def)
  qed simp
qed simp

end
