(* ===== verification/Rust_Core.thy ===== *)
theory Rust_Core
  imports Varint
begin

unbundle bit_operations_syntax

text \<open>
  The part of the Rust codec (\<open>projects/core/src\<close>) that is the other end of encoders written in
  TypeScript: 64-bit varints (\<open>primitives/varint.rs\<close>), zigzag (\<open>primitives/zigzag.rs\<close>), length-framed
  batches (\<open>batching\<close>) and object sectors (\<open>ffi/wasm.rs\<close>). A \<open>Reader\<close> is the byte slice and its
  offset; \<open>usize\<close> is 32 bits wide, as in the WASM build.
\<close>

definition rust_read_exact :: "u8 list \<Rightarrow> nat \<Rightarrow> nat \<Rightarrow> (nat \<times> u8 list) result" where
  "rust_read_exact bytes offset len =
     (if len > length bytes - offset then Inl (Error ''UnexpectedEof'')
      else Inr (offset + len, js_slice bytes offset (offset + len)))"

definition rust_read_u8 :: "u8 list \<Rightarrow> nat \<Rightarrow> (nat \<times> u8) result" where
  "rust_read_u8 bytes offset =
     bindR (rust_read_exact bytes offset 1) (\<lambda>(offset', bs). Inr (offset', bs ! 0))"

section \<open>Varints\<close>

text \<open>The argument is a \<open>u64\<close>; nothing here can leave its range.\<close>

function rust_varint_encode :: "nat \<Rightarrow> u8 list" where
  "rust_varint_encode v =
     (let byte = v AND 0x7f; v' = drop_bit 7 v
      in if v' \<noteq> 0 then of_nat (byte OR 0x80) # rust_varint_encode v' else [of_nat byte])"
  by pat_completeness auto
termination
  by (relation "measure id") (auto simp: drop_bit_eq_div div_greater_zero_iff)

declare rust_varint_encode.simps [simp del]

fun rust_varint_loop :: "u8 list \<Rightarrow> nat \<Rightarrow> 64 word \<Rightarrow> nat list \<Rightarrow> (nat \<times> 64 word) result" where
  "rust_varint_loop bytes offset v [] = Inl (Error ''varint exceeds 64 bits'')"
| "rust_varint_loop bytes offset v (shift # shifts) =
     bindR (rust_read_u8 bytes offset) (\<lambda>(offset', byte).
       let v' = v OR push_bit shift (ucast (byte AND 0x7f))
       in if byte AND 0x80 = 0 then Inr (offset', v')
          else rust_varint_loop bytes offset' v' shifts)"

definition rust_varint_decode :: "u8 list \<Rightarrow> nat \<Rightarrow> (nat \<times> 64 word) result" where
  "rust_varint_decode bytes offset = rust_varint_loop bytes offset 0 (map (\<lambda>i. 7 * i) [0..<10])"

section \<open>Zigzag\<close>

definition rust_zigzag_encode :: "64 word \<Rightarrow> 64 word" where
  "rust_zigzag_encode v =
     (let w = ucast v :: 32 word
      in ucast (push_bit 1 w XOR signed_drop_bit 31 w))"

definition rust_zigzag_decode :: "64 word \<Rightarrow> 64 word" where
  "rust_zigzag_decode v =
     (let w = ucast v :: 32 word
      in scast (drop_bit 1 w XOR - (w AND 1)))"

section \<open>Batches and object sectors\<close>

text \<open>\<open>encode_batches\<close>, also the export \<open>frameObject\<close>.\<close>

definition rust_encode_batches :: "u8 list list \<Rightarrow> u8 list" where
  "rust_encode_batches batches = concat (map (\<lambda>b. rust_varint_encode (length b) @ b) batches)"

text \<open>One turn of the loop of \<open>decode_batches_limited\<close>: a length that fits \<open>usize\<close>, then the payload.\<close>

definition rust_read_frame :: "u8 list \<Rightarrow> nat \<Rightarrow> (nat \<times> u8 list) result" where
  "rust_read_frame bytes offset =
     bindR (rust_varint_decode bytes offset) (\<lambda>(offset', len).
       if unat len \<ge> 2 ^ 32 then Inl (Error ''batch length exceeds platform size'')
       else rust_read_exact bytes offset' (unat len))"

lemma rust_read_exact_bounds:
  "rust_read_exact bytes off n = Inr (off', bs) \<Longrightarrow> off' = off + n \<and> (0 < n \<longrightarrow> off' \<le> length bytes)"
  by (auto simp: rust_read_exact_def split: if_splits)

lemma rust_read_u8_bounds:
  "rust_read_u8 bytes off = Inr (off', b) \<Longrightarrow> off' = Suc off \<and> off < length bytes \<and> b = bytes ! off"
  by (auto simp: rust_read_u8_def bindR_eq_Inr rust_read_exact_def js_slice_def split: if_splits)

lemma rust_read_u8_eq:
  "rust_read_u8 bytes off
     = (if off < length bytes then Inr (Suc off, bytes ! off) else Inl (Error ''UnexpectedEof''))"
  by (auto simp: rust_read_u8_def rust_read_exact_def js_slice_def)

lemma rust_varint_loop_bounds:
  "rust_varint_loop bytes off v shifts = Inr (off', w) \<Longrightarrow>
   off < off' \<and> off' \<le> length bytes \<and> off' \<le> off + length shifts"
proof (induction bytes off v shifts rule: rust_varint_loop.induct)
  case (2 bytes off v shift shifts)
  show ?case
    using 2 by (cases "off < length bytes")
      (fastforce simp: rust_read_u8_eq Let_def split: if_splits)+
qed simp

lemma rust_varint_bounds:
  "rust_varint_decode bytes off = Inr (off', w) \<Longrightarrow> off < off' \<and> off' \<le> length bytes"
  unfolding rust_varint_decode_def using rust_varint_loop_bounds by blast

lemma rust_read_frame_bounds:
  "rust_read_frame bytes off = Inr (off', p) \<Longrightarrow> off < off' \<and> off' \<le> length bytes"
  by (auto simp: rust_read_frame_def bindR_eq_Inr rust_read_exact_def split: if_splits
      dest!: rust_varint_bounds)

function rust_decode_batches_from ::
  "u8 list \<Rightarrow> nat \<Rightarrow> nat \<Rightarrow> u8 list list \<Rightarrow> u8 list list result" where
  "rust_decode_batches_from bytes limit offset batches =
     (if length bytes \<le> offset then Inr batches
      else if limit > 0 \<and> length batches \<ge> limit then Inl (Error ''batch exceeds max_batch_size'')
      else bindR (rust_read_frame bytes offset) (\<lambda>(offset', payload).
        rust_decode_batches_from bytes limit offset' (batches @ [payload])))"
  by pat_completeness auto
termination
  by (relation "measure (\<lambda>(bytes, limit, offset, batches). length bytes - offset)")
     (auto dest!: rust_read_frame_bounds)

declare rust_decode_batches_from.simps [simp del]

definition rust_decode_batches_limited :: "u8 list \<Rightarrow> nat \<Rightarrow> u8 list list result" where
  "rust_decode_batches_limited bytes limit = rust_decode_batches_from bytes limit 0 []"

text \<open>
  The branch of \<open>validate_type\<close> for VARINT, UVARINT and DELTAS (\<open>codec/validate.rs\<close>): one varint per value,
  counted, with \<open>in_range\<close> at the end.
\<close>

function rust_count_varints :: "u8 list \<Rightarrow> nat \<Rightarrow> nat \<Rightarrow> nat \<Rightarrow> nat result" where
  "rust_count_varints bytes mx offset count =
     (if length bytes \<le> offset then Inr count
      else bindR (rust_varint_decode bytes offset) (\<lambda>(offset', _).
        if Suc count > mx then Inl (Error ''packet value count exceeds schema maximum'')
        else rust_count_varints bytes mx offset' (Suc count)))"
  by pat_completeness auto
termination
  by (relation "measure (\<lambda>(bytes, mx, offset, count). length bytes - offset)") (auto dest!: rust_varint_bounds)

declare rust_count_varints.simps [simp del]

definition rust_validate_varints :: "u8 list \<Rightarrow> nat \<Rightarrow> nat \<Rightarrow> unit result" where
  "rust_validate_varints bytes mn mx =
     bindR (rust_count_varints bytes mx 0 0) (\<lambda>count.
       if count < mn \<or> count > mx then Inl (Error ''packet value count is outside schema limits'') else Inr ())"

definition rust_unframe_object :: "u8 list \<Rightarrow> nat \<Rightarrow> u8 list list result" where
  "rust_unframe_object bytes n =
     bindR (rust_decode_batches_limited bytes n) (\<lambda>vs.
       if length vs \<noteq> n then Inl (Error ''object field count mismatch'') else Inr vs)"

section \<open>The TypeScript varints are the Rust varints\<close>

lemma rust_varint_encode_eq: "rust_varint_encode v = varint_digits v"
proof (induction v rule: varint_digits.induct)
  case (1 v)
  show ?case
    using "1.IH" [OF refl refl]
    by (subst rust_varint_encode.simps, subst varint_digits.simps)
       (simp add: Let_def and_127 drop_bit_eq_div)
qed

lemma nat_or_push: "a < 2 ^ k \<Longrightarrow> (a :: nat) OR push_bit k b = a + b * 2 ^ k"
proof -
  assume a: "a < 2 ^ k"
  then have "take_bit k a = a" by (simp add: take_bit_nat_eq_self)
  then have high: "bit a n \<Longrightarrow> n < k" for n by (metis bit_take_bit_iff)
  have "a AND push_bit k b = 0"
    by (intro bit_eqI) (auto simp: bit_and_iff bit_push_bit_iff dest: high)
  then show ?thesis by (simp add: disjunctive_add_eq_or [symmetric] push_bit_eq_mult)
qed

lemma word_or_push:
  "a < 2 ^ k \<Longrightarrow> (of_nat a :: 64 word) OR push_bit k (of_nat b) = of_nat (a + b * 2 ^ k)"
  by (simp add: push_bit_of_nat of_nat_or_eq [symmetric] nat_or_push [symmetric] del: of_nat_add)

lemma ucast_and_127: "(ucast (b AND 0x7f :: u8) :: 64 word) = of_nat (unat b mod 128)"
proof -
  have "unat (b AND 0x7f) = unat b AND 127" by (simp add: unsigned_and_eq)
  then show ?thesis by (metis and_127 of_nat_unat)
qed

lemma and_128_iff: "b AND 0x80 = (0 :: u8) \<longleftrightarrow> unat b < 128"
proof -
  have "unat (b AND 0x80) = unat b AND 128" by (simp add: unsigned_and_eq)
  then show ?thesis
    using byte_and_128 [OF unat_u8_less [of b]] by (metis unsigned_0 unsigned_eq_0_iff)
qed

lemma rust_varint_loop_digits:
  "v < 128 ^ n \<Longrightarrow> 0 < n \<Longrightarrow> acc < 2 ^ (7 * j) \<Longrightarrow>
   rust_varint_loop (pre @ varint_digits v @ rest) (length pre) (of_nat acc) (map (\<lambda>i. 7 * i) [j ..< j + n])
     = Inr (length pre + length (varint_digits v), of_nat (acc + v * 2 ^ (7 * j)))"
proof (induction v arbitrary: pre acc j n rule: varint_digits.induct)
  case (1 v)
  obtain n' where n: "n = Suc n'" using "1.prems"(2) by (cases n) auto
  have shifts: "map (\<lambda>i. 7 * i) [j ..< j + n] = 7 * j # map (\<lambda>i. 7 * i) [Suc j ..< Suc j + n']"
    unfolding n by (subst upt_conv_Cons) simp_all
  show ?case
  proof (cases "v < 128")
    case True
    then show ?thesis
      using word_or_push [OF "1.prems"(3), of v]
      by (simp add: shifts rust_read_u8_eq varint_digits_small nth_append ucast_and_127 and_128_iff
          unat_of_nat_u8 Let_def del: of_nat_add)
  next
    case False
    let ?b = "v mod 128" and ?w = "v div 128"
    have e: "acc + ?b * 2 ^ (7 * j) + ?w * 2 ^ (7 * Suc j) = acc + v * 2 ^ (7 * j)"
    proof -
      have v: "v = ?b + ?w * 128" by simp
      have p: "2 ^ (7 * Suc j) = 128 * (2 :: nat) ^ (7 * j)" by (simp add: power_add)
      have "v * 2 ^ (7 * j) = ?b * 2 ^ (7 * j) + ?w * 2 ^ (7 * Suc j)"
        unfolding p by (subst (1) v) (simp only: add_mult_distrib mult.assoc)
      then show ?thesis by simp
    qed
    have w: "?w < 128 ^ n'"
      using "1.prems"(1) by (simp add: n less_mult_imp_div_less mult.commute)
    have n': "0 < n'" using w False by (cases n') (simp_all add: div_greater_zero_iff)
    have acc: "acc + ?b * 2 ^ (7 * j) < 2 ^ (7 * Suc j)"
    proof -
      have "?b * 2 ^ (7 * j) \<le> 127 * 2 ^ (7 * j)"
        by (rule mult_le_mono1) (use mod_less_divisor [of 128 v] in linarith)
      then have "acc + ?b * 2 ^ (7 * j) < 128 * 2 ^ (7 * j)" using "1.prems"(3) by linarith
      then show ?thesis by (simp add: power_add)
    qed
    let ?d = "of_nat (?b + 128) :: u8"
    have u: "unat ?d = ?b + 128"
      by (rule unat_of_nat_u8) (use mod_less_divisor [of 128 v] in linarith)
    have "rust_varint_loop ((pre @ [?d]) @ varint_digits ?w @ rest) (length (pre @ [?d]))
            (of_nat (acc + ?b * 2 ^ (7 * j))) (map (\<lambda>i. 7 * i) [Suc j ..< Suc j + n'])
        = Inr (length (pre @ [?d]) + length (varint_digits ?w),
               of_nat (acc + ?b * 2 ^ (7 * j) + ?w * 2 ^ (7 * Suc j)))"
      using False by (intro "1.IH" [OF refl refl] w n' acc) (simp add: div_greater_zero_iff)
    then have ih: "rust_varint_loop (pre @ ?d # varint_digits ?w @ rest) (Suc (length pre))
            (of_nat (acc + ?b * 2 ^ (7 * j))) (map (\<lambda>i. 7 * i) [Suc j ..< Suc j + n'])
        = Inr (Suc (length pre + length (varint_digits ?w)), of_nat (acc + v * 2 ^ (7 * j)))"
      unfolding e by simp
    have m: "(?b + 128) mod 128 = ?b" by simp
    show ?thesis
      unfolding shifts rust_varint_loop.simps varint_digits_big [OF False [unfolded not_less]]
        rust_read_u8_eq Let_def
      using word_or_push [OF "1.prems"(3), of ?b] ih
      by (simp add: nth_append ucast_and_127 and_128_iff u m del: of_nat_add)
  qed
qed

lemma rust_varint_decode_digits:
  assumes "v < 2 ^ 64"
  shows "rust_varint_decode (pre @ varint_digits v @ rest) (length pre)
    = Inr (length pre + length (varint_digits v), of_nat v)"
proof -
  have "v < 128 ^ 10" using assms by simp
  then show ?thesis
    using rust_varint_loop_digits [of v 10 0 0 pre rest] by (simp add: rust_varint_decode_def)
qed

interpretation rust_varint: offset_codec rust_varint_encode
  "\<lambda>bytes off. bindR (rust_varint_decode bytes off) (\<lambda>(off', v). Inr (off', unat v))"
  "\<lambda>v. v < 2 ^ 64"
  by unfold_locales (simp add: rust_varint_encode_eq rust_varint_decode_digits unat_of_nat take_bit_nat_eq_self)

interpretation frame: offset_codec "\<lambda>p. varint_digits (length p) @ p" rust_read_frame
  "\<lambda>p. length p < 2 ^ 32"
proof
  fix p pre rest :: "u8 list"
  assume p: "length p < 2 ^ 32"
  then have u: "unat (of_nat (length p) :: 64 word) = length p"
    by (simp add: unat_of_nat take_bit_nat_eq_self)
  let ?d = "varint_digits (length p)"
  have "js_slice (pre @ ?d @ p @ rest) (length (pre @ ?d)) (length (pre @ ?d) + length p) = p"
    using js_slice_mid [of "pre @ ?d" p rest] by simp
  then show "rust_read_frame (pre @ (?d @ p) @ rest) (length pre) = Inr (length pre + length (?d @ p), p)"
    using p rust_varint_decode_digits [of "length p" pre "p @ rest"]
    by (simp add: rust_read_frame_def u rust_read_exact_def add.assoc)
qed

lemma rust_decode_batches_frames:
  assumes "\<forall>p \<in> set ps. length p < 2 ^ 32"
  shows "rust_decode_batches_from (pre @ concat (map (\<lambda>p. varint_digits (length p) @ p) ps)) limit (length pre) acc
    = (if limit = 0 \<or> length acc + length ps \<le> limit \<or> ps = [] then Inr (acc @ ps)
       else Inl (Error ''batch exceeds max_batch_size''))"
  using assms
proof (induction ps arbitrary: pre acc)
  case Nil
  then show ?case by (subst rust_decode_batches_from.simps) simp
next
  case (Cons p ps)
  let ?enc = "\<lambda>p. varint_digits (length p) @ p"
  let ?bytes = "pre @ concat (map ?enc (p # ps))"
  have l: "\<not> length ?bytes \<le> length pre"
    using varint_digits_length [of "length p"] by simp
  have r: "rust_read_frame ?bytes (length pre) = Inr (length pre + length (?enc p), p)"
    using frame.rd_enc [of p pre "concat (map ?enc ps)"] Cons.prems by simp
  have "rust_decode_batches_from ((pre @ ?enc p) @ concat (map ?enc ps)) limit (length (pre @ ?enc p)) (acc @ [p])
      = (if limit = 0 \<or> length (acc @ [p]) + length ps \<le> limit \<or> ps = [] then Inr ((acc @ [p]) @ ps)
         else Inl (Error ''batch exceeds max_batch_size''))"
    using Cons.prems by (intro Cons.IH) simp
  then have "rust_decode_batches_from ?bytes limit (length pre + length (?enc p)) (acc @ [p])
      = (if limit = 0 \<or> length (acc @ [p]) + length ps \<le> limit \<or> ps = [] then Inr ((acc @ [p]) @ ps)
         else Inl (Error ''batch exceeds max_batch_size''))"
    by simp
  then show ?case
    using l by (subst rust_decode_batches_from.simps, unfold r) auto
qed

lemma rust_decode_batches:
  assumes "\<forall>p \<in> set ps. length p < 2 ^ 32"
  shows "rust_decode_batches_limited (rust_encode_batches ps) limit
    = (if limit = 0 \<or> length ps \<le> limit then Inr ps else Inl (Error ''batch exceeds max_batch_size''))"
  using rust_decode_batches_frames [OF assms, of "[]" limit "[]"]
  by (auto simp: rust_decode_batches_limited_def rust_encode_batches_def rust_varint_encode_eq)

text \<open>
  Framing the sectors of an object and unframing them with the number of fields gives the
  sectors back; any other number of fields is an error.
\<close>

theorem rust_object_sectors:
  assumes "\<forall>p \<in> set ps. length p < 2 ^ 32"
  shows "rust_unframe_object (rust_encode_batches ps) n = Inr vs \<longleftrightarrow> n = length ps \<and> vs = ps"
  using rust_decode_batches [OF assms, of n] by (auto simp: rust_unframe_object_def)

lemma rust_object_sectors_witness:
  "rust_unframe_object (rust_encode_batches [[1, 2], []]) 2 = Inr [[1, 2], []]"
  by (subst rust_object_sectors) simp_all

end
