(* ===== verification/Js_Value.thy ===== *)
theory Js_Value
  imports Sonic_Prelude
begin

text \<open>
  JavaScript values as the codecs and the packet layer see them. A number is a double: a rational or
  one of the infinities or NaN (the two zeros are one value here). Objects are the list of their own
  enumerable entries in the order \<open>Object.keys\<close> gives: array-index keys ascending, then the others
  by insertion. \<open>obj_set\<close> is the assignment \<open>obj[key] = v\<close>, whose target \<open>__proto__\<close> is no own entry.
\<close>

datatype jsnum = Fin rat | PosInf | NegInf | NotNum

datatype jsval =
    JUndef
  | JNull
  | JBool bool
  | JNum jsnum
  | JStr jsstr
  | JArr "jsval list"
  | JObj "(jsstr \<times> jsval) list"
  | JBytes "u8 list"

definition rat_is_int :: "rat \<Rightarrow> bool" where
  "rat_is_int r \<longleftrightarrow> of_int \<lfloor>r\<rfloor> = r"

lemma rat_is_int_of_int [simp]: "rat_is_int (of_int i)"
  by (simp add: rat_is_int_def)

lemma rat_is_int_numeral [simp]: "rat_is_int (numeral n)" "rat_is_int (- numeral n)"
    "rat_is_int 0" "rat_is_int 1" "rat_is_int (-1)"
  using rat_is_int_of_int [of "numeral n"] rat_is_int_of_int [of "- numeral n"]
    rat_is_int_of_int [of 0] rat_is_int_of_int [of 1] rat_is_int_of_int [of "-1"] by simp_all

text \<open>\<open>Math.round\<close>: to the nearest integer, halves upwards.\<close>

definition js_round :: "rat \<Rightarrow> int" where
  "js_round r = \<lfloor>r + 1 / 2\<rfloor>"

lemma js_round_int [simp]: "js_round (of_int i) = i"
  by (simp add: js_round_def floor_unique)

lemma js_round_bounds: "of_int (js_round r) - 1 / 2 \<le> r \<and> r < of_int (js_round r) + 1 / 2"
  unfolding js_round_def by (simp add: algebra_simps) linarith

section \<open>Decimal strings\<close>

fun js_of_nat :: "nat \<Rightarrow> jsstr" where
  "js_of_nat n = (if n < 10 then [of_nat (48 + n)] else js_of_nat (n div 10) @ [of_nat (48 + n mod 10)])"

declare js_of_nat.simps [simp del]

lemma js_of_nat_nonempty [simp]: "js_of_nat n \<noteq> []"
  by (subst js_of_nat.simps) simp

lemma js_of_nat_inj: "js_of_nat m = js_of_nat n \<Longrightarrow> m = n"
proof (induction m arbitrary: n rule: js_of_nat.induct)
  case (1 m)
  have digit: "of_nat (48 + a) = (of_nat (48 + b) :: 16 word) \<longleftrightarrow> a = b" if "a < 10" "b < 10" for a b
  proof -
    have "unat (of_nat (48 + a) :: 16 word) = 48 + a" "unat (of_nat (48 + b) :: 16 word) = 48 + b"
      using that by (simp_all add: unat_of_nat take_bit_nat_eq_self del: of_nat_add)
    then show ?thesis by (metis add_left_cancel)
  qed
  have long: "2 \<le> length (js_of_nat k)" if "10 \<le> k" for k
    using that by (subst js_of_nat.simps) (simp add: Suc_leI)
  have short: "length (js_of_nat k) = 1" if "k < 10" for k
    using that by (subst js_of_nat.simps) simp
  show ?case
  proof (cases "m < 10")
    case True
    then have "n < 10" using "1.prems" short [of m] long [of n] by (cases "n < 10") auto
    then show ?thesis
      using "1.prems" True digit [of m n] js_of_nat.simps [of m] js_of_nat.simps [of n]
      by (simp del: of_nat_add)
  next
    case False
    then have "10 \<le> n" using "1.prems" short [of n] long [of m] by (cases "n < 10") auto
    then have "js_of_nat (m div 10) = js_of_nat (n div 10)" "m mod 10 = n mod 10"
      using "1.prems" False digit [of "m mod 10" "n mod 10"] js_of_nat.simps [of m] js_of_nat.simps [of n]
      by (simp_all del: of_nat_add)
    then have "m div 10 = n div 10" using "1.IH" False by blast
    with \<open>m mod 10 = n mod 10\<close> show ?thesis by (metis div_mult_mod_eq)
  qed
qed

text \<open>Array-index keys: canonical decimals below \<open>2 ^ 32 - 1\<close>.\<close>

fun dec_value :: "nat \<Rightarrow> jsstr \<Rightarrow> nat option" where
  "dec_value acc [] = Some acc"
| "dec_value acc (u # us) =
     (if 48 \<le> unat u \<and> unat u \<le> 57 then dec_value (acc * 10 + (unat u - 48)) us else None)"

definition index_key :: "jsstr \<Rightarrow> nat option" where
  "index_key k =
     (case k of [] \<Rightarrow> None
      | u # us \<Rightarrow> if unat u = 48 \<and> us \<noteq> [] then None
          else case dec_value 0 k of None \<Rightarrow> None
               | Some i \<Rightarrow> if i < 2 ^ 32 - 1 then Some i else None)"

section \<open>Splitting and joining\<close>

definition comma :: "16 word" where
  "comma = 44"

fun js_split :: "16 word \<Rightarrow> jsstr \<Rightarrow> jsstr list" where
  "js_split c [] = [[]]"
| "js_split c (u # us) =
     (if u = c then [] # js_split c us else (u # hd (js_split c us)) # tl (js_split c us))"

fun js_join :: "16 word \<Rightarrow> jsstr list \<Rightarrow> jsstr" where
  "js_join c [] = []"
| "js_join c [s] = s"
| "js_join c (s # t # ss) = s @ [c] @ js_join c (t # ss)"

lemma js_split_nonempty [simp]: "js_split c s \<noteq> []"
  by (cases s) simp_all

lemma js_split_plain: "c \<notin> set s \<Longrightarrow> js_split c s = [s]"
  by (induction s) auto

lemma js_split_prefix: "c \<notin> set s \<Longrightarrow> js_split c (s @ c # t) = s # js_split c t"
  by (induction s) auto

lemma js_split_join: "ss \<noteq> [] \<Longrightarrow> (\<And>s. s \<in> set ss \<Longrightarrow> c \<notin> set s) \<Longrightarrow> js_split c (js_join c ss) = ss"
  by (induction c ss rule: js_join.induct) (simp_all add: js_split_plain js_split_prefix)

section \<open>Objects\<close>

definition proto_key :: jsstr where
  "proto_key = js ''__proto__''"

definition key_before :: "jsstr \<Rightarrow> jsstr \<Rightarrow> bool" where
  "key_before k l =
     (case index_key l of
        None \<Rightarrow> True
      | Some j \<Rightarrow> (case index_key k of None \<Rightarrow> False | Some i \<Rightarrow> i < j))"

definition obj_get :: "(jsstr \<times> jsval) list \<Rightarrow> jsstr \<Rightarrow> jsval" where
  "obj_get kvs k = (case map_of kvs k of None \<Rightarrow> JUndef | Some v \<Rightarrow> v)"

fun obj_insert :: "nat \<Rightarrow> (jsstr \<times> jsval) \<Rightarrow> (jsstr \<times> jsval) list \<Rightarrow> (jsstr \<times> jsval) list" where
  "obj_insert i kv [] = [kv]"
| "obj_insert i kv ((l, w) # kvs) =
     (case index_key l of
        None \<Rightarrow> kv # (l, w) # kvs
      | Some j \<Rightarrow> if i < j then kv # (l, w) # kvs else (l, w) # obj_insert i kv kvs)"

definition obj_set :: "(jsstr \<times> jsval) list \<Rightarrow> jsstr \<Rightarrow> jsval \<Rightarrow> (jsstr \<times> jsval) list" where
  "obj_set kvs k v =
     (if k = proto_key then kvs
      else if k \<in> set (map fst kvs) then map (\<lambda>(l, w). if l = k then (l, v) else (l, w)) kvs
      else case index_key k of None \<Rightarrow> kvs @ [(k, v)] | Some i \<Rightarrow> obj_insert i (k, v) kvs)"

text \<open>Defining an own property, as \<open>Object.fromEntries\<close> does: here \<open>__proto__\<close> is an ordinary key.\<close>

definition obj_define :: "(jsstr \<times> jsval) list \<Rightarrow> jsstr \<Rightarrow> jsval \<Rightarrow> (jsstr \<times> jsval) list" where
  "obj_define kvs k v =
     (if k \<in> set (map fst kvs) then map (\<lambda>(l, w). if l = k then (l, v) else (l, w)) kvs
      else case index_key k of None \<Rightarrow> kvs @ [(k, v)] | Some i \<Rightarrow> obj_insert i (k, v) kvs)"

definition from_entries :: "(jsstr \<times> jsval) list \<Rightarrow> jsval" where
  "from_entries entries = JObj (foldl (\<lambda>o' (k, v). obj_define o' k v) [] entries)"

text \<open>The entry lists that are the keys of a JavaScript object, in its order.\<close>

definition obj_wf :: "(jsstr \<times> jsval) list \<Rightarrow> bool" where
  "obj_wf kvs \<longleftrightarrow> distinct (map fst kvs) \<and> sorted_wrt key_before (map fst kvs)"

lemma obj_insert_last:
  "index_key k = Some i \<Longrightarrow> (\<And>l. l \<in> set (map fst kvs) \<Longrightarrow> key_before l k) \<Longrightarrow>
   obj_insert i (k, v) kvs = kvs @ [(k, v)]"
proof (induction kvs)
  case (Cons lw kvs)
  obtain l w where lw: "lw = (l, w)" by (cases lw)
  have "key_before l k" using Cons.prems(2) lw by simp
  then obtain j where "index_key l = Some j" "j < i"
    using Cons.prems(1) by (auto simp: key_before_def split: option.splits)
  moreover have "obj_insert i (k, v) kvs = kvs @ [(k, v)]"
    using Cons.prems by (intro Cons.IH) auto
  ultimately show ?case by (simp add: lw)
qed simp

lemma obj_set_last:
  "obj_wf (kvs @ [(k, v)]) \<Longrightarrow> k \<noteq> proto_key \<Longrightarrow> obj_set kvs k v = kvs @ [(k, v)]"
  by (auto simp: obj_set_def obj_wf_def sorted_wrt_append intro!: obj_insert_last split: option.splits)

lemma obj_wf_prefix: "obj_wf (kvs @ rest) \<Longrightarrow> obj_wf kvs"
  by (simp add: obj_wf_def sorted_wrt_append)

lemma map_of_obj_insert:
  "k \<notin> set (map fst kvs) \<Longrightarrow> map_of (obj_insert i (k, v) kvs) = (map_of kvs)(k \<mapsto> v)"
  by (induction kvs) (auto split: option.splits)

lemma map_of_update_entry:
  "k \<in> set (map fst kvs) \<Longrightarrow>
   map_of (map (\<lambda>(l, w). if l = k then (l, v) else (l, w)) kvs) = (map_of kvs)(k \<mapsto> v)"
proof (induction kvs)
  case (Cons lw kvs)
  obtain l w where lw: "lw = (l, w)" by (cases lw)
  show ?case
  proof (cases "k \<in> set (map fst kvs)")
    case True
    then show ?thesis using Cons.IH by (auto simp: lw)
  next
    case False
    then have "map (\<lambda>(l, w). if l = k then (l, v) else (l, w)) kvs = kvs"
      by (intro map_idI) force
    then show ?thesis using False Cons.prems by (auto simp: lw fun_eq_iff)
  qed
qed simp

lemma map_of_obj_define: "map_of (obj_define kvs k v) = (map_of kvs)(k \<mapsto> v)"
proof -
  have "map_of (kvs @ [(k, v)]) = (map_of kvs)(k \<mapsto> v)" if "k \<notin> set (map fst kvs)"
  proof
    fix l
    have "map_of kvs k = None" using that by (simp add: map_of_eq_None_iff)
    then show "map_of (kvs @ [(k, v)]) l = ((map_of kvs)(k \<mapsto> v)) l"
      by (simp add: map_add_def split: option.split)
  qed
  then show ?thesis
    using map_of_update_entry [of k kvs v] map_of_obj_insert [of k kvs _ v]
    by (simp add: obj_define_def split: option.split)
qed

text \<open>The fields of an object built from entries, whatever order its keys are kept in.\<close>

lemma obj_get_from_entries:
  "from_entries entries = JObj kvs \<Longrightarrow> map_of kvs = map_of (rev entries)"
proof (induction entries arbitrary: kvs rule: rev_induct)
  case Nil
  then show ?case by (simp add: from_entries_def)
next
  case (snoc e entries)
  then show ?case by (cases e) (auto simp: from_entries_def map_of_obj_define)
qed

end
