(* ===== verification/Native.thy ===== *)
theory Native
  imports Rust_Core Js_Value
begin

unbundle bit_operations_syntax

text \<open>
  \<open>projects/ts/src/native/wrapper.ts\<close>: the TypeScript side of the codec. The loaded codec module is the
  parameter \<open>core\<close> of every function, as in the source; integer varints and uncompressed batches are
  encoded in TypeScript. Loading the module (fetch, WASM instantiation) is not modelled.
  \<open>with_rust base\<close> is a codec module whose varints, sectors and uncompressed batches are the Rust
  functions of \<open>Rust_Core\<close>, the rest being those of any module \<open>base\<close>. Counts that Rust takes as a \<open>u32\<close> are
  converted like JavaScript does (\<open>to_uint32\<close>).
\<close>

section \<open>Packet types and the codec module\<close>

abbreviation (input) PT_NONE :: nat where "PT_NONE \<equiv> 0"
abbreviation (input) PT_RAW :: nat where "PT_RAW \<equiv> 1"
abbreviation (input) PT_STRINGS_ASCII :: nat where "PT_STRINGS_ASCII \<equiv> 2"
abbreviation (input) PT_STRINGS_UTF16 :: nat where "PT_STRINGS_UTF16 \<equiv> 3"
abbreviation (input) PT_ENUMS :: nat where "PT_ENUMS \<equiv> 4"
abbreviation (input) PT_BYTES :: nat where "PT_BYTES \<equiv> 5"
abbreviation (input) PT_UBYTES :: nat where "PT_UBYTES \<equiv> 6"
abbreviation (input) PT_SHORTS :: nat where "PT_SHORTS \<equiv> 7"
abbreviation (input) PT_USHORTS :: nat where "PT_USHORTS \<equiv> 8"
abbreviation (input) PT_VARINT :: nat where "PT_VARINT \<equiv> 9"
abbreviation (input) PT_UVARINT :: nat where "PT_UVARINT \<equiv> 10"
abbreviation (input) PT_DELTAS :: nat where "PT_DELTAS \<equiv> 11"
abbreviation (input) PT_FLOATS :: nat where "PT_FLOATS \<equiv> 12"
abbreviation (input) PT_DOUBLES :: nat where "PT_DOUBLES \<equiv> 13"
abbreviation (input) PT_BOOLEANS :: nat where "PT_BOOLEANS \<equiv> 14"
abbreviation (input) PT_JSON :: nat where "PT_JSON \<equiv> 16"
abbreviation (input) PT_HEX :: nat where "PT_HEX \<equiv> 17"

record native_core =
  encodeSigned :: "nat \<Rightarrow> jsval list \<Rightarrow> u8 list result"
  decodeSigned :: "nat \<Rightarrow> u8 list \<Rightarrow> jsval list result"
  encodeUnsigned :: "nat \<Rightarrow> jsval list \<Rightarrow> u8 list result"
  decodeUnsigned :: "nat \<Rightarrow> u8 list \<Rightarrow> jsval list result"
  encodeFloats :: "nat \<Rightarrow> jsval list \<Rightarrow> u8 list result"
  decodeFloats :: "nat \<Rightarrow> u8 list \<Rightarrow> jsval list result"
  encodeStrings :: "nat \<Rightarrow> jsval list \<Rightarrow> u8 list result"
  decodeStrings :: "nat \<Rightarrow> u8 list \<Rightarrow> jsval list result"
  encodeBooleans :: "jsval list \<Rightarrow> u8 list result"
  decodeBooleans :: "u8 list \<Rightarrow> int \<Rightarrow> jsval list result"
  decodeRaw :: "u8 list \<Rightarrow> u8 list result"
  encodeHex :: "jsstr \<Rightarrow> u8 list result"
  decodeHex :: "u8 list \<Rightarrow> jsstr result"
  frameObject :: "u8 list list \<Rightarrow> u8 list result"
  unframeObject :: "u8 list \<Rightarrow> nat \<Rightarrow> u8 list list result"
  encodeBatch :: "u8 list list \<Rightarrow> bool \<Rightarrow> u8 list result"
  decodeBatch :: "u8 list \<Rightarrow> bool \<Rightarrow> nat \<Rightarrow> nat option \<Rightarrow> u8 list list result"
  deflateRaw :: "u8 list \<Rightarrow> u8 list result"
  inflateRaw :: "u8 list \<Rightarrow> nat option \<Rightarrow> u8 list result"
  validateEncoded :: "nat \<Rightarrow> u8 list \<Rightarrow> int \<Rightarrow> int \<Rightarrow> bool \<Rightarrow> bool \<Rightarrow> nat option \<Rightarrow> unit result"
  validateEnum :: "u8 list \<Rightarrow> nat \<Rightarrow> int \<Rightarrow> int \<Rightarrow> unit result"
  validateObject :: "u8 list \<Rightarrow> nat list \<Rightarrow> int list \<Rightarrow> int list \<Rightarrow> nat list \<Rightarrow> unit result"

record enum_pkg =
  enum_tag :: jsstr
  enum_values :: "jsval list"

section \<open>Integer varints\<close>

definition js_values :: "jsval \<Rightarrow> jsval list" where
  "js_values input = (case input of JArr vs \<Rightarrow> vs | v \<Rightarrow> [v])"

definition zigzag32 :: "int \<Rightarrow> int" where
  "zigzag32 integer = to_uint32 (to_int32 (to_int32 integer * 2) XOR drop_bit 31 (to_int32 integer))"

definition clamp32 :: "int \<Rightarrow> int" where
  "clamp32 original = max (- (2 ^ 31)) (min (2 ^ 31 - 1) original)"

definition encodeIntegerVarint :: "bool \<Rightarrow> jsval \<Rightarrow> u8 list result" where
  "encodeIntegerVarint sgnd v =
     (case v of
        JNum (Fin r) \<Rightarrow>
          if \<not> rat_is_int r then Inl (TypeError ''VARINT requires integer values'')
          else let original = \<lfloor>r\<rfloor>
            in if \<not> sgnd \<and> (original < 0 \<or> original > 0xffffffff)
               then Inl (RangeError ''UVARINT value must be between 0 and 4294967295'')
               else Inr (varint_digits (nat (if sgnd then zigzag32 (clamp32 original) else original)))
      | _ \<Rightarrow> Inl (TypeError ''VARINT requires integer values''))"

text \<open>
  The scratch buffer of the source has five bytes per value; \<open>encodeIntegerVarint_length\<close> shows that
  they are enough, so no store is dropped.
\<close>

definition encodeIntegerVarints :: "jsval \<Rightarrow> bool \<Rightarrow> u8 list result" where
  "encodeIntegerVarints input sgnd =
     bindR (mapR (encodeIntegerVarint sgnd) (js_values input)) (\<lambda>bs. Inr (concat bs))"

section \<open>Batches\<close>

fun length_bytes :: "nat \<Rightarrow> nat" where
  "length_bytes n = (if n \<ge> 128 then Suc (length_bytes (n div 128)) else 0)"

declare length_bytes.simps [simp del]

definition batch_size :: "u8 list list \<Rightarrow> nat" where
  "batch_size payloads = sum_list (map (\<lambda>p. length p + 1 + length_bytes (length p)) payloads)"

definition encodeNativeBatch :: "u8 list list \<Rightarrow> bool \<Rightarrow> native_core \<Rightarrow> u8 list result" where
  "encodeNativeBatch payloads compressed core =
     (if \<not> compressed then Inr (concat (map (\<lambda>p. varint_digits (length p) @ p) payloads))
      else encodeBatch core payloads compressed)"

text \<open>\<open>maxBatchSize\<close> is \<open>Infinity\<close> on clients: \<open>None\<close>.\<close>

definition decodeNativeBatch ::
  "u8 list \<Rightarrow> bool \<Rightarrow> int option \<Rightarrow> nat option \<Rightarrow> native_core \<Rightarrow> u8 list list result" where
  "decodeNativeBatch data compressed maxBatchSize maxOutputSize core =
     (let nativeLimit = (case maxBatchSize of None \<Rightarrow> 0 | Some n \<Rightarrow> if n > 0 then nat n else 0)
      in decodeBatch core data compressed nativeLimit maxOutputSize)"

section \<open>Encoding and decoding by type\<close>

text \<open>
  Strict equality on the values an enum can hold (primitives), where NaN counts as equal to itself.
\<close>

definition enum_same :: "jsval \<Rightarrow> jsval \<Rightarrow> bool" where
  "enum_same candidate v =
     (case candidate of JArr _ \<Rightarrow> False | JObj _ \<Rightarrow> False | JBytes _ \<Rightarrow> False | _ \<Rightarrow> candidate = v)"

fun findIndex :: "('a \<Rightarrow> bool) \<Rightarrow> 'a list \<Rightarrow> nat option" where
  "findIndex P [] = None"
| "findIndex P (x # xs) = (if P x then Some 0 else map_option Suc (findIndex P xs))"

definition enumIndex :: "enum_pkg \<Rightarrow> jsval \<Rightarrow> nat result" where
  "enumIndex pkg v =
     (case findIndex (\<lambda>c. enum_same c v) (enum_values pkg) of
        None \<Rightarrow> Inl (Error ''Value does not exist in enum'')
      | Some i \<Rightarrow> Inr i)"

text \<open>Storing a number into a byte: its integer part modulo 256, 0 for the others.\<close>

definition num_to_u8 :: "jsval \<Rightarrow> u8 result" where
  "num_to_u8 v =
     (case v of
        JNum (Fin r) \<Rightarrow> Inr (word_of_int (if r < 0 then - \<lfloor>- r\<rfloor> else \<lfloor>r\<rfloor>))
      | JNum _ \<Rightarrow> Inr 0
      | _ \<Rightarrow> Inl (TypeError ''a number array is expected''))"

definition encodeNative ::
  "nat \<Rightarrow> jsval \<Rightarrow> enum_pkg option \<Rightarrow> native_core \<Rightarrow> u8 list result" where
  "encodeNative ty input enumData core =
     (if ty = PT_NONE then
        (if input = JNull \<or> input = JUndef \<or> input = JArr [] then Inr []
         else Inl (TypeError ''NONE only accepts null, undefined, or an empty array''))
      else if ty = PT_RAW \<or> ty = PT_JSON then
        (case input of JBytes bs \<Rightarrow> Inr bs | JArr vs \<Rightarrow> mapR num_to_u8 vs
         | _ \<Rightarrow> Inl (TypeError ''RAW requires a Uint8Array or number array''))
      else if ty = PT_BYTES \<or> ty = PT_SHORTS \<or> ty = PT_DELTAS then encodeSigned core ty (js_values input)
      else if ty = PT_VARINT then encodeIntegerVarints input True
      else if ty = PT_UBYTES \<or> ty = PT_USHORTS then encodeUnsigned core ty (js_values input)
      else if ty = PT_UVARINT then encodeIntegerVarints input False
      else if ty = PT_FLOATS \<or> ty = PT_DOUBLES then encodeFloats core ty (js_values input)
      else if ty = PT_STRINGS_ASCII \<or> ty = PT_STRINGS_UTF16 then encodeStrings core ty (js_values input)
      else if ty = PT_BOOLEANS then encodeBooleans core (js_values input)
      else if ty = PT_HEX then
        (case (case input of JArr [] \<Rightarrow> JUndef | JArr (v # _) \<Rightarrow> v | v \<Rightarrow> v) of
           JStr hex \<Rightarrow> encodeHex core hex
         | _ \<Rightarrow> Inl (TypeError ''HEX requires one string''))
      else if ty = PT_ENUMS then
        (case enumData of None \<Rightarrow> Inl (Error ''ENUMS requires an EnumPackage'')
         | Some pkg \<Rightarrow> bindR (mapR (enumIndex pkg) (js_values input)) (\<lambda>is. Inr (map of_nat is)))
      else Inl (Error ''Unknown packet type''))"

definition decodeNative ::
  "nat \<Rightarrow> u8 list \<Rightarrow> int \<Rightarrow> enum_pkg option \<Rightarrow> native_core \<Rightarrow> jsval result" where
  "decodeNative ty data dataMax enumData core =
     (let arr = (\<lambda>r. bindR r (\<lambda>vs. Inr (JArr vs)))
      in if ty = PT_NONE then
           (if data \<noteq> [] then Inl (Error ''NONE packet contains data'') else Inr JUndef)
         else if ty = PT_RAW \<or> ty = PT_JSON then bindR (decodeRaw core data) (\<lambda>bs. Inr (JBytes bs))
         else if ty = PT_BYTES \<or> ty = PT_SHORTS \<or> ty = PT_VARINT \<or> ty = PT_DELTAS
           then arr (decodeSigned core ty data)
         else if ty = PT_UBYTES \<or> ty = PT_USHORTS \<or> ty = PT_UVARINT
           then arr (decodeUnsigned core ty data)
         else if ty = PT_FLOATS \<or> ty = PT_DOUBLES then arr (decodeFloats core ty data)
         else if ty = PT_STRINGS_ASCII \<or> ty = PT_STRINGS_UTF16 then arr (decodeStrings core ty data)
         else if ty = PT_BOOLEANS then arr (decodeBooleans core data dataMax)
         else if ty = PT_HEX then bindR (decodeHex core data) (\<lambda>s. Inr (JStr s))
         else if ty = PT_ENUMS then
           (case enumData of None \<Rightarrow> Inl (Error ''ENUMS requires an EnumPackage'')
            | Some pkg \<Rightarrow>
                arr (mapR (\<lambda>index. if unat index \<ge> length (enum_values pkg)
                                   then Inl (Error ''Enum index is out of range'')
                                   else Inr (enum_values pkg ! unat index)) data))
         else Inl (Error ''Unknown packet type''))"

definition validateNative ::
  "nat \<Rightarrow> u8 list \<Rightarrow> int \<Rightarrow> int \<Rightarrow> bool \<Rightarrow> bool \<Rightarrow> nat option \<Rightarrow> enum_pkg option \<Rightarrow> native_core \<Rightarrow> unit result" where
  "validateNative ty data dataMin dataMax compressed batched maxBatchSize enumData core =
     (if ty = PT_ENUMS then
        (case enumData of None \<Rightarrow> Inl (Error ''ENUMS requires an EnumPackage'')
         | Some pkg \<Rightarrow> validateEnum core data (length (enum_values pkg)) dataMin dataMax)
      else validateEncoded core ty data dataMin dataMax compressed batched maxBatchSize)"

section \<open>Objects\<close>

record native_schema =
  ns_types :: "nat list"
  ns_mins :: "int list"
  ns_maxes :: "int list"
  ns_enums :: "enum_pkg list"

text \<open>The package of each field: the enum packages are used up in field order.\<close>

fun field_enums :: "nat list \<Rightarrow> enum_pkg list \<Rightarrow> enum_pkg option list" where
  "field_enums [] pkgs = []"
| "field_enums (ty # tys) pkgs =
     (if ty = PT_ENUMS
      then (case pkgs of [] \<Rightarrow> None # field_enums tys [] | p # ps \<Rightarrow> Some p # field_enums tys ps)
      else None # field_enums tys pkgs)"

definition encodeNativeObject :: "native_schema \<Rightarrow> jsval list \<Rightarrow> native_core \<Rightarrow> u8 list result" where
  "encodeNativeObject schema flds core =
     (if length flds \<noteq> length (ns_types schema) then Inl (Error ''Object field count does not match schema'')
      else bindR (mapR (\<lambda>(ty, field, pkg). encodeNative ty field pkg core)
                       (zip (ns_types schema) (zip flds (field_enums (ns_types schema) (ns_enums schema)))))
             (\<lambda>sectors. frameObject core sectors))"

definition decodeNativeObject :: "native_schema \<Rightarrow> u8 list \<Rightarrow> native_core \<Rightarrow> jsval list result" where
  "decodeNativeObject schema data core =
     bindR (unframeObject core data (length (ns_types schema))) (\<lambda>sectors.
       mapR (\<lambda>(sector, ty, mx, pkg). decodeNative ty sector mx pkg core)
            (zip sectors (zip (ns_types schema) (zip (ns_maxes schema)
               (field_enums (ns_types schema) (ns_enums schema))))))"

definition validateNativeObject :: "native_schema \<Rightarrow> u8 list \<Rightarrow> native_core \<Rightarrow> unit result" where
  "validateNativeObject schema data core =
     validateObject core data (ns_types schema) (ns_mins schema) (ns_maxes schema)
       (map (\<lambda>p. length (enum_values p)) (ns_enums schema))"

section \<open>A codec module with the Rust functions\<close>

function rust_integers_from :: "u8 list \<Rightarrow> nat \<Rightarrow> 64 word list result" where
  "rust_integers_from bytes offset =
     (if length bytes \<le> offset then Inr []
      else bindR (rust_varint_decode bytes offset) (\<lambda>(offset', n).
        bindR (rust_integers_from bytes offset') (\<lambda>ns. Inr (n # ns))))"
  by pat_completeness auto
termination
  by (relation "measure (\<lambda>(bytes, offset). length bytes - offset)") (auto dest!: rust_varint_bounds)

declare rust_integers_from.simps [simp del]

definition rust_decode_varint :: "u8 list \<Rightarrow> jsval list result" where
  "rust_decode_varint bytes =
     bindR (rust_integers_from bytes 0) (\<lambda>ns.
       Inr (map (\<lambda>n. JNum (Fin (of_int (sint (rust_zigzag_decode n))))) ns))"

definition rust_decode_uvarint :: "u8 list \<Rightarrow> jsval list result" where
  "rust_decode_uvarint bytes =
     bindR (rust_integers_from bytes 0) (\<lambda>ns.
       Inr (map (\<lambda>n. JNum (Fin (of_nat (round53 (unat n))))) ns))"

definition with_rust :: "native_core \<Rightarrow> native_core" where
  "with_rust base = base\<lparr>
     decodeSigned := (\<lambda>ty bs. if ty = PT_VARINT then rust_decode_varint bs else decodeSigned base ty bs),
     decodeUnsigned := (\<lambda>ty bs. if ty = PT_UVARINT then rust_decode_uvarint bs else decodeUnsigned base ty bs),
     decodeRaw := Inr,
     validateEncoded := (\<lambda>ty bs mn mx compressed batched limit.
       if ty \<in> {PT_VARINT, PT_UVARINT, PT_DELTAS} \<and> \<not> compressed \<and> \<not> batched
       then rust_validate_varints bs (nat (to_uint32 mn)) (nat (to_uint32 mx))
       else validateEncoded base ty bs mn mx compressed batched limit),
     frameObject := (\<lambda>ps. Inr (rust_encode_batches ps)),
     unframeObject := (\<lambda>bs n. rust_unframe_object bs (nat (to_uint32 (int n)))),
     encodeBatch := (\<lambda>ps compressed. if compressed then encodeBatch base ps True
                                       else Inr (rust_encode_batches ps)),
     decodeBatch := (\<lambda>bs compressed limit out. if compressed then decodeBatch base bs True limit out
                                                 else rust_decode_batches_limited bs (nat (to_uint32 (int limit))))\<rparr>"

section \<open>The TypeScript encoders against the Rust decoders\<close>

lemma rust_integers_digits:
  "\<forall>v \<in> set vs. v < 2 ^ 64 \<Longrightarrow>
   rust_integers_from (pre @ concat (map varint_digits vs)) (length pre) = Inr (map of_nat vs)"
proof (induction vs arbitrary: pre)
  case Nil
  then show ?case by (subst rust_integers_from.simps) simp
next
  case (Cons v vs)
  have "rust_integers_from ((pre @ varint_digits v) @ concat (map varint_digits vs))
          (length (pre @ varint_digits v)) = Inr (map of_nat vs)"
    using Cons.prems by (intro Cons.IH) simp
  then show ?case
    using rust_varint_decode_digits [of v pre "concat (map varint_digits vs)"] Cons.prems
      varint_digits_length [of v]
    by (subst rust_integers_from.simps) simp
qed

lemma clamp32_range: "- (2 ^ 31) \<le> clamp32 i" "clamp32 i < 2 ^ 31"
  by (simp_all add: clamp32_def)

lemma zigzag32_eq:
  assumes "- (2 ^ 31) \<le> i" "i < 2 ^ 31"
  shows "zigzag32 i = (if 0 \<le> i then 2 * i else - 2 * i - 1)"
proof -
  have i: "to_int32 i = i" using assms by (rule to_int32_id)
  have "i div 2 ^ 31 = (if 0 \<le> i then 0 else - 1)"
    using assms by (auto simp: div_pos_pos_trivial intro!: int_div_neg_eq [of "2 ^ 31" _ "2 ^ 31 + i"])
  then have d: "drop_bit 31 i = (if 0 \<le> i then 0 else - 1)"
    by (simp add: drop_bit_eq_div)
  have t: "to_uint32 (to_int32 x) = to_uint32 x" for x
    by (simp add: to_uint32_def to_int32_def take_bit_signed_take_bit)
  have "to_uint32 (NOT (to_int32 x)) = to_uint32 (NOT x)" for x
    by (simp add: to_uint32_def to_int32_def take_bit_not_iff take_bit_signed_take_bit)
  moreover have "to_uint32 (i * 2) = 2 * i" if "0 \<le> i"
    using that assms by (subst to_uint32_id) simp_all
  moreover have "to_uint32 (- (i * 2) - 1) = - 2 * i - 1" if "\<not> 0 \<le> i"
    using that assms by (subst to_uint32_id) simp_all
  ultimately show ?thesis
    by (auto simp: zigzag32_def i d t not_int_def)
qed

lemma zigzag32_range:
  assumes "- (2 ^ 31) \<le> i" "i < 2 ^ 31"
  shows "0 \<le> zigzag32 i" "zigzag32 i < 2 ^ 32"
  using zigzag32_eq [OF assms] assms by auto

lemma rust_zigzag_decode_32:
  assumes "- (2 ^ 31) \<le> i" "i < 2 ^ 31"
  shows "sint (rust_zigzag_decode (of_nat (nat (zigzag32 i)))) = i"
proof -
  define w :: "32 word" where "w = ucast (of_nat (nat (zigzag32 i)) :: 64 word)"
  have u: "uint w = zigzag32 i"
    using zigzag32_range [OF assms]
    by (simp add: w_def unsigned_ucast_eq uint_word_of_int_eq take_bit_int_eq_self)
  have s: "sint (scast (word_of_int i :: 32 word) :: 64 word) = i"
    using assms by (simp add: scast_eq sint_sbintrunc' signed_take_bit_int_eq_self)
  have "uint (w AND 1) = uint w AND uint (1 :: 32 word)" by (rule unsigned_and_eq)
  then have one: "uint (w AND 1) = zigzag32 i mod 2" by (simp only: u unsigned_1 and_one_eq)
  have half: "uint (drop_bit 1 w) = zigzag32 i div 2"
    by (simp add: uint_div_distrib u drop_bit_eq_div)
  have "drop_bit 1 w XOR - (w AND 1) = word_of_int i"
  proof (cases "0 \<le> i")
    case True
    then have z: "zigzag32 i = 2 * i" using zigzag32_eq [OF assms] by simp
    have "uint (w AND 1) = uint (0 :: 32 word)" using one by (simp only: z) simp
    then have o: "w AND 1 = 0" by (simp only: word_uint_eq_iff)
    have "uint (drop_bit 1 w) = i" unfolding half z by simp
    then have d: "drop_bit 1 w = word_of_int i"
      using word_of_int_uint [of "drop_bit 1 w"] by simp
    show ?thesis unfolding o d by simp
  next
    case False
    then have z: "zigzag32 i = - 2 * i - 1" using zigzag32_eq [OF assms] by simp
    have "zigzag32 i mod 2 = 1" "zigzag32 i div 2 = - i - 1" unfolding z by presburger+
    then have "uint (w AND 1) = uint (1 :: 32 word)" and h: "uint (drop_bit 1 w) = - i - 1"
      using one half by simp_all
    then have o: "w AND 1 = 1" by (simp only: word_uint_eq_iff)
    have d: "drop_bit 1 w = word_of_int (- i - 1)"
      using word_of_int_uint [of "drop_bit 1 w"] unfolding h by (rule sym)
    have n: "word_of_int (- i - 1) = NOT (word_of_int i :: 32 word)" by (simp add: not_eq_complement)
    show ?thesis unfolding o d n by simp
  qed
  then show ?thesis using s by (simp add: rust_zigzag_decode_def Let_def flip: w_def)
qed

lemma encodeIntegerVarint_signed:
  "encodeIntegerVarint True (JNum (Fin (of_int i))) = Inr (varint_digits (nat (zigzag32 (clamp32 i))))"
  by (simp add: encodeIntegerVarint_def Let_def)

lemma encodeIntegerVarint_unsigned:
  "0 \<le> i \<Longrightarrow> i < 2 ^ 32 \<Longrightarrow>
   encodeIntegerVarint False (JNum (Fin (of_int i))) = Inr (varint_digits (nat i))"
  by (simp add: encodeIntegerVarint_def Let_def)

lemma encodeIntegerVarint_length:
  assumes "encodeIntegerVarint sgnd v = Inr bs"
  shows "length bs \<le> 5"
proof -
  obtain n where "bs = varint_digits n" "n < 2 ^ 32"
    using assms zigzag32_range [OF clamp32_range]
    by (auto simp: encodeIntegerVarint_def Let_def nat_less_iff split: jsval.splits jsnum.splits if_splits)
  then show ?thesis using varint_digits_length_le [of n 4] by simp
qed

definition js_ints :: "int list \<Rightarrow> jsval" where
  "js_ints is = JArr (map (\<lambda>i. JNum (Fin (of_int i))) is)"

lemma rust_count_digits:
  "\<forall>v \<in> set vs. v < 2 ^ 64 \<Longrightarrow> count + length vs \<le> mx \<Longrightarrow>
   rust_count_varints (pre @ concat (map varint_digits vs)) mx (length pre) count = Inr (count + length vs)"
proof (induction vs arbitrary: pre count)
  case Nil
  then show ?case by (subst rust_count_varints.simps) simp
next
  case (Cons v vs)
  have "rust_count_varints ((pre @ varint_digits v) @ concat (map varint_digits vs)) mx
      (length (pre @ varint_digits v)) (Suc count) = Inr (Suc count + length vs)"
    using Cons.prems by (intro Cons.IH) auto
  then show ?case
    using rust_varint_decode_digits [of v pre "concat (map varint_digits vs)"] Cons.prems
      varint_digits_length [of v]
    by (subst rust_count_varints.simps) simp
qed

lemma varints_through_rust:
  "\<exists>bs. encodeIntegerVarints (js_ints is) True = Inr bs
     \<and> (\<forall>mx pkg. decodeNative PT_VARINT bs mx pkg (with_rust base) = Inr (js_ints (map clamp32 is)))
     \<and> (\<forall>mn mx. mn \<le> length is \<and> length is \<le> mx \<longrightarrow> rust_validate_varints bs mn mx = Inr ())"
proof -
  let ?ns = "map (\<lambda>i. nat (zigzag32 (clamp32 i))) is"
  have e: "encodeIntegerVarints (js_ints is) True = Inr (concat (map varint_digits ?ns))"
    by (simp add: encodeIntegerVarints_def js_ints_def js_values_def mapR_map comp_def
        encodeIntegerVarint_signed mapR_Inr)
  have b: "\<forall>n \<in> set ?ns. n < 2 ^ 64"
    using zigzag32_range [OF clamp32_range] by (auto simp: nat_less_iff intro: order.strict_trans [where b = "2 ^ 32"])
  have "rust_integers_from ([] @ concat (map varint_digits ?ns)) (length ([] :: u8 list)) = Inr (map of_nat ?ns)"
    using b by (rule rust_integers_digits)
  then have d: "decodeNative PT_VARINT (concat (map varint_digits ?ns)) mx pkg (with_rust base)
      = Inr (js_ints (map clamp32 is))" for mx pkg
    by (simp add: decodeNative_def with_rust_def rust_decode_varint_def js_ints_def comp_def
        rust_zigzag_decode_32 [OF clamp32_range] del: of_int_sint)
  have "rust_validate_varints (concat (map varint_digits ?ns)) mn mx = Inr ()"
    if "mn \<le> length is" "length is \<le> mx" for mn mx
  proof -
    have "rust_count_varints ([] @ concat (map varint_digits ?ns)) mx (length ([] :: u8 list)) 0 = Inr (0 + length ?ns)"
      using b that by (intro rust_count_digits) simp_all
    then show ?thesis using that by (simp add: rust_validate_varints_def)
  qed
  then show ?thesis using e d by blast
qed

text \<open>
  A VARINT array encoded in TypeScript is decoded by the Rust codec to the integers clamped to
  32 bits: within the int32 range the values survive, beyond it they saturate silently.
\<close>

theorem varint_cross_language:
  "\<exists>bs. encodeIntegerVarints (js_ints is) True = Inr bs
     \<and> decodeNative PT_VARINT bs 0 None (with_rust base) = Inr (js_ints (map clamp32 is))"
  using varints_through_rust by blast

text \<open>UVARINT arrays of 32-bit values survive the same trip unchanged.\<close>

theorem uvarint_cross_language:
  assumes "\<forall>i \<in> set is. 0 \<le> i \<and> i < 2 ^ 32"
  shows "\<exists>bs. encodeIntegerVarints (js_ints is) False = Inr bs
     \<and> decodeNative PT_UVARINT bs 0 None (with_rust base) = Inr (js_ints is)"
proof -
  let ?ns = "map nat is"
  have "encodeIntegerVarints (js_ints is) False = Inr (concat (map varint_digits ?ns))"
    using assms by (simp add: encodeIntegerVarints_def js_ints_def js_values_def mapR_map comp_def
        encodeIntegerVarint_unsigned mapR_Inr [where g = "\<lambda>i. varint_digits (nat i)"])
  moreover have n: "\<forall>n \<in> set ?ns. n < 2 ^ 32" using assms by (auto simp: nat_less_iff)
  then have "rust_integers_from ([] @ concat (map varint_digits ?ns)) (length ([] :: u8 list)) = Inr (map of_nat ?ns)"
    by (intro rust_integers_digits) fastforce
  moreover have "map (\<lambda>n. JNum (Fin (of_nat (round53 (unat (of_nat n :: 64 word)))))) ?ns
      = map (\<lambda>i. JNum (Fin (of_int i))) is"
    using assms by (auto simp: unat_of_nat take_bit_nat_eq_self round53_id nat_less_iff)
  ultimately show ?thesis
    by (simp add: decodeNative_def with_rust_def rust_decode_uvarint_def js_ints_def comp_def)
qed

lemma uvarint_cross_language_witness:
  "\<forall>base. \<exists>bs. encodeIntegerVarints (js_ints [0, 300]) False = Inr bs
     \<and> decodeNative PT_UVARINT bs 0 None (with_rust base) = Inr (js_ints [0, 300])"
  by (rule allI) (rule uvarint_cross_language, simp)

lemma length_bytes_digits: "length (varint_digits n) = Suc (length_bytes n)"
proof (induction n rule: length_bytes.induct)
  case (1 n)
  then show ?case
    by (cases "n < 128") (simp_all add: varint_digits_small varint_digits_big length_bytes.simps [of n])
qed

lemma encode_batch_plain: "encodeNativeBatch ps False core = Inr (rust_encode_batches ps)"
  by (simp add: encodeNativeBatch_def rust_encode_batches_def rust_varint_encode_eq)

lemma to_uint32_facts: "to_uint32 0 = 0" "0 < to_uint32 n \<longleftrightarrow> to_uint32 n \<noteq> 0" "0 \<le> to_uint32 n"
  using take_bit_nonnegative [of 32 n] by (auto simp: to_uint32_def simp del: take_bit_nonnegative)

text \<open>The receiver's limit refuses a batch of \<open>k\<close> payloads.\<close>

definition batch_refused :: "int option \<Rightarrow> nat \<Rightarrow> bool" where
  "batch_refused limit k =
     (case limit of None \<Rightarrow> False | Some n \<Rightarrow> 0 < n \<and> 0 < to_uint32 n \<and> to_uint32 n < int k)"

lemma decode_batch_plain:
  assumes "\<forall>p \<in> set ps. length p < 2 ^ 32"
  shows "decodeNativeBatch (rust_encode_batches ps) False limit out (with_rust base)
      = (if batch_refused limit (length ps)
         then Inl (Error ''batch exceeds max_batch_size'') else Inr ps)"
  by (auto simp: batch_refused_def decodeNativeBatch_def with_rust_def rust_decode_batches [OF assms] Let_def le_nat_iff nat_eq_iff
      to_uint32_facts split: option.splits)

text \<open>
  C29: The buffer \<open>encodeNativeBatch\<close> allocates has exactly the bytes the loop writes, and the Rust
  decoder gives the payloads back as long as the receiver's batch limit allows their number (0, a
  negative limit and Infinity mean none); over the limit the whole batch is refused. The decoder takes the
  limit as a \<open>u32\<close>, so a multiple of \<open>2\<^sup>3\<^sup>2\<close> means none as well.
\<close>

theorem batch_cross_language:
  assumes "\<forall>p \<in> set ps. length p < 2 ^ 32"
  shows "\<exists>bs. encodeNativeBatch ps False core = Inr bs \<and> length bs = batch_size ps
     \<and> decodeNativeBatch bs False limit out (with_rust base)
         = (if batch_refused limit (length ps)
            then Inl (Error ''batch exceeds max_batch_size'') else Inr ps)"
proof -
  have "length (rust_encode_batches ps) = batch_size ps"
    by (induction ps) (simp_all add: rust_encode_batches_def rust_varint_encode_eq batch_size_def length_bytes_digits)
  then show ?thesis using encode_batch_plain decode_batch_plain [OF assms] by blast
qed

lemma batch_cross_language_witness:
  "\<forall>base core. \<exists>bs. encodeNativeBatch [[1, 2], []] False core = Inr bs \<and> length bs = batch_size [[1, 2], []]
     \<and> decodeNativeBatch bs False (Some 1) None (with_rust base)
         = (if batch_refused (Some 1) (length [[1, 2 :: u8], []])
            then Inl (Error ''batch exceeds max_batch_size'') else Inr [[1, 2], []])"
  by (intro allI) (rule batch_cross_language, simp)

end
