(* ===== verification/Text_Codec.thy ===== *)
theory Text_Codec
  imports Sonic_Prelude
begin

text \<open>
  Strings as code points and as UTF-8: \<open>projects/ts/src/ws/util/StringUtil.ts\<close> and what the program
  uses of the platform's \<open>TextEncoder\<close> and \<open>TextDecoder\<close> (the WHATWG Encoding Standard: a lone
  surrogate is encoded as U+FFFD, malformed input decodes to U+FFFD, a leading byte order mark is
  dropped). The result of the theory is that decoding an encoded string gives it back when it has no
  lone surrogate and does not start with U+FEFF.
\<close>

section \<open>Code points\<close>

definition is_high :: "16 word \<Rightarrow> bool" where
  "is_high u \<longleftrightarrow> 0xD800 \<le> unat u \<and> unat u < 0xDC00"

definition is_low :: "16 word \<Rightarrow> bool" where
  "is_low u \<longleftrightarrow> 0xDC00 \<le> unat u \<and> unat u < 0xE000"

text \<open>\<open>Array.from(text, ch => ch.codePointAt(0))\<close>: string iteration joins surrogate pairs.\<close>

fun processCharCodes :: "jsstr \<Rightarrow> nat list" where
  "processCharCodes [] = []"
| "processCharCodes [u] = [unat u]"
| "processCharCodes (u # v # us) =
     (if is_high u \<and> is_low v
      then (0x10000 + (unat u - 0xD800) * 0x400 + (unat v - 0xDC00)) # processCharCodes us
      else unat u # processCharCodes (v # us))"

definition utf16_of :: "nat \<Rightarrow> jsstr" where
  "utf16_of c =
     (if c < 0x10000 then [of_nat c]
      else [of_nat (0xD800 + (c - 0x10000) div 0x400), of_nat (0xDC00 + (c - 0x10000) mod 0x400)])"

text \<open>\<open>String.fromCodePoint(...codes)\<close>.\<close>

definition convertCharCodes :: "nat list \<Rightarrow> jsstr result" where
  "convertCharCodes codes =
     (if \<forall>c \<in> set codes. c \<le> 0x10FFFF then Inr (concat (map utf16_of codes))
      else Inl (RangeError ''Invalid code point''))"

definition as8String :: "u8 list \<Rightarrow> jsstr result" where
  "as8String data = convertCharCodes (map unat data)"

definition is_surrogate :: "nat \<Rightarrow> bool" where
  "is_surrogate c \<longleftrightarrow> 0xD800 \<le> c \<and> c < 0xE000"

definition is_scalar :: "nat \<Rightarrow> bool" where
  "is_scalar c \<longleftrightarrow> c \<le> 0x10FFFF \<and> \<not> is_surrogate c"

text \<open>A string without lone surrogates.\<close>

definition well_formed :: "jsstr \<Rightarrow> bool" where
  "well_formed s \<longleftrightarrow> list_all is_scalar (processCharCodes s)"

lemma unat_u16_less: "unat (u :: 16 word) < 65536"
  using unsigned_less [of u] by simp

lemma unat_of_nat_u16: "n < 65536 \<Longrightarrow> unat (of_nat n :: 16 word) = n"
  by (simp add: unat_of_nat take_bit_nat_eq_self)

lemma utf16_of_pair:
  assumes "is_high u" "is_low v"
  shows "utf16_of (0x10000 + (unat u - 0xD800) * 0x400 + (unat v - 0xDC00)) = [u, v]"
proof -
  let ?a = "unat u - 0xD800" and ?b = "unat v - 0xDC00"
  have b: "?b < 0x400" using assms by (auto simp: is_low_def)
  have "(0x10000 + ?a * 0x400 + ?b - 0x10000) div 0x400 = ?a"
       "(0x10000 + ?a * 0x400 + ?b - 0x10000) mod 0x400 = ?b"
    using b by (simp_all add: add.commute)
  moreover have "0xD800 + ?a = unat u" "0xDC00 + ?b = unat v"
    using assms by (auto simp: is_high_def is_low_def)
  ultimately show ?thesis by (simp add: utf16_of_def del: add_diff_cancel_left')
qed

lemma utf16_processCharCodes: "concat (map utf16_of (processCharCodes s)) = s"
  by (induction s rule: processCharCodes.induct)
     (auto simp: utf16_of_pair, auto simp: utf16_of_def unat_u16_less)

lemma processCharCodes_bound: "c \<in> set (processCharCodes s) \<Longrightarrow> c \<le> 0x10FFFF"
proof (induction s rule: processCharCodes.induct)
  case (2 u)
  then show ?case using unat_u16_less [of u] by simp
next
  case (3 u v us)
  then show ?case using unat_u16_less [of u] unat_u16_less [of v]
    by (auto simp: is_high_def is_low_def split: if_splits)
qed simp

lemma convert_processCharCodes: "convertCharCodes (processCharCodes s) = Inr s"
  using processCharCodes_bound by (auto simp: convertCharCodes_def utf16_processCharCodes)

text \<open>A tag written one byte per code point reads back exactly when it is Latin-1.\<close>

definition latin1 :: "jsstr \<Rightarrow> bool" where
  "latin1 s \<longleftrightarrow> (\<forall>u \<in> set s. unat u < 256)"

lemma latin1_code_points: "latin1 s \<Longrightarrow> processCharCodes s = map unat s"
  by (induction s rule: processCharCodes.induct) (auto simp: latin1_def is_high_def)

lemma as8String_latin1:
  assumes "latin1 s"
  shows "as8String (map of_nat (processCharCodes s)) = Inr s"
proof -
  have "map (unat \<circ> (of_nat :: nat \<Rightarrow> u8)) (processCharCodes s) = processCharCodes s"
  proof (rule map_idI)
    fix n
    assume "n \<in> set (processCharCodes s)"
    then have "n < 256" using assms by (auto simp: latin1_code_points latin1_def)
    then show "(unat \<circ> (of_nat :: nat \<Rightarrow> u8)) n = n" by (simp add: unat_of_nat_u8)
  qed
  then show ?thesis by (simp add: as8String_def convert_processCharCodes)
qed

section \<open>UTF-8\<close>

definition utf8_of :: "nat \<Rightarrow> u8 list" where
  "utf8_of c = map of_nat
     (if c < 0x80 then [c]
      else if c < 0x800 then [0xC0 + c div 64, 0x80 + c mod 64]
      else if c < 0x10000 then [0xE0 + c div 4096, 0x80 + c div 64 mod 64, 0x80 + c mod 64]
      else [0xF0 + c div 262144, 0x80 + c div 4096 mod 64, 0x80 + c div 64 mod 64, 0x80 + c mod 64])"

definition utf8_encode :: "jsstr \<Rightarrow> u8 list" where
  "utf8_encode s = concat (map (\<lambda>c. utf8_of (if is_surrogate c then 0xFFFD else c)) (processCharCodes s))"

text \<open>
  The decoder's state: bytes still needed, the code point so far, and the bounds of the next
  continuation byte. \<open>utf8_lead\<close> handles a byte where a character starts.
\<close>

type_synonym utf8_state = "nat \<times> nat \<times> nat \<times> nat"

definition utf8_ground :: utf8_state where
  "utf8_ground = (0, 0, 0x80, 0xBF)"

definition utf8_lead :: "nat \<Rightarrow> nat list \<times> utf8_state" where
  "utf8_lead b =
     (if b < 0x80 then ([b], utf8_ground)
      else if 0xC2 \<le> b \<and> b \<le> 0xDF then ([], (1, b mod 32, 0x80, 0xBF))
      else if 0xE0 \<le> b \<and> b \<le> 0xEF
        then ([], (2, b mod 16, if b = 0xE0 then 0xA0 else 0x80, if b = 0xED then 0x9F else 0xBF))
      else if 0xF0 \<le> b \<and> b \<le> 0xF4
        then ([], (3, b mod 8, if b = 0xF0 then 0x90 else 0x80, if b = 0xF4 then 0x8F else 0xBF))
      else ([0xFFFD], utf8_ground))"

fun utf8_go :: "utf8_state \<Rightarrow> u8 list \<Rightarrow> nat list" where
  "utf8_go (need, cp, lo, hi) [] = (if need = 0 then [] else [0xFFFD])"
| "utf8_go (need, cp, lo, hi) (b # bs) =
     (if need = 0 then fst (utf8_lead (unat b)) @ utf8_go (snd (utf8_lead (unat b))) bs
      else if unat b < lo \<or> hi < unat b
        then 0xFFFD # fst (utf8_lead (unat b)) @ utf8_go (snd (utf8_lead (unat b))) bs
      else let cp' = cp * 64 + unat b mod 64
           in if need = 1 then cp' # utf8_go utf8_ground bs
              else utf8_go (need - 1, cp', 0x80, 0xBF) bs)"

definition utf8_points :: "u8 list \<Rightarrow> nat list" where
  "utf8_points bs =
     (case utf8_go utf8_ground bs of c # cs \<Rightarrow> if c = 0xFEFF then cs else c # cs | [] \<Rightarrow> [])"

definition utf8_decode :: "u8 list \<Rightarrow> jsstr" where
  "utf8_decode bs = concat (map utf16_of (utf8_points bs))"

lemma mod_base: "h < m \<Longrightarrow> (k * m + h) mod m = (h :: nat)"
  by simp

lemma utf8_lead_2: "2 \<le> h \<Longrightarrow> h < 32 \<Longrightarrow> utf8_lead (192 + h) = ([], (1, h, 0x80, 0xBF))"
  using mod_base [of h 32 6] by (simp add: utf8_lead_def)

lemma utf8_lead_3:
  "h < 16 \<Longrightarrow> utf8_lead (224 + h) =
     ([], (2, h, if h = 0 then 0xA0 else 0x80, if h = 13 then 0x9F else 0xBF))"
  using mod_base [of h 16 14] by (simp add: utf8_lead_def)

lemma utf8_lead_4:
  "h < 5 \<Longrightarrow> utf8_lead (240 + h) =
     ([], (3, h, if h = 0 then 0x90 else 0x80, if h = 4 then 0x8F else 0xBF))"
  using mod_base [of h 8 30] by (simp add: utf8_lead_def)

lemma utf8_tail: "t < 64 \<Longrightarrow> (128 + t) mod 64 = (t :: nat)"
  using mod_base [of t 64 2] by simp

lemma utf8_go_of_nat:
  "n < 256 \<Longrightarrow> utf8_go (need, cp, lo, hi) (of_nat n # bs) =
     (if need = 0 then fst (utf8_lead n) @ utf8_go (snd (utf8_lead n)) bs
      else if n < lo \<or> hi < n then 0xFFFD # fst (utf8_lead n) @ utf8_go (snd (utf8_lead n)) bs
      else if need = 1 then (cp * 64 + n mod 64) # utf8_go utf8_ground bs
      else utf8_go (need - 1, cp * 64 + n mod 64, 0x80, 0xBF) bs)"
  by (simp add: unat_of_nat_u8 Let_def)

lemma utf8_go_of:
  assumes "is_scalar c"
  shows "utf8_go utf8_ground (utf8_of c @ rest) = c # utf8_go utf8_ground rest"
proof -
  have c: "c < 0x110000" "\<not> (0xD800 \<le> c \<and> c < 0xE000)"
    using assms by (auto simp: is_scalar_def is_surrogate_def)
  consider "c < 0x80" | "0x80 \<le> c" "c < 0x800" | "0x800 \<le> c" "c < 0x10000" | "0x10000 \<le> c"
    by linarith
  then show ?thesis
  proof cases
    case 1
    then show ?thesis
      by (simp add: utf8_of_def utf8_ground_def utf8_lead_def unat_of_nat_u8)
  next
    case 2
    let ?h = "c div 64"
    have h: "2 \<le> ?h" "?h < 32" using 2 by auto
    have l: "utf8_lead (192 + ?h) = ([], (1, ?h, 0x80, 0xBF))"
      using h by (rule utf8_lead_2)
    have t: "c mod 64 < 64" by simp
    have m: "(128 + c mod 64) mod 64 = c mod 64" using t by (rule utf8_tail)
    show ?thesis
      using 2 h t l m
      by (simp add: utf8_of_def utf8_ground_def utf8_go_of_nat del: of_nat_add utf8_go.simps)
  next
    case 3
    define t m h where "t = c mod 64" and "m = c div 64 mod 64" and "h = c div 64 div 64"
    have d: "c div 4096 = h" by (simp add: h_def div_mult2_eq [symmetric])
    have e: "c = (h * 64 + m) * 64 + t" by (simp add: t_def m_def h_def)
    have t: "t < 64" "m < 64" by (simp_all add: t_def m_def)
    have e': "c = h * 4096 + m * 64 + t" by (simp add: e)
    have h: "h < 16" using 3 e' by linarith
    have lo: "32 \<le> m" if "h = 0" using that 3 e' t by linarith
    have hi: "m < 32" if "h = 13" using that c e' t by linarith
    have of: "utf8_of c = map of_nat [224 + h, 128 + m, 128 + t]"
      using 3 by (simp add: utf8_of_def d t_def m_def del: of_nat_add)
    show ?thesis
      unfolding of using e h t lo hi utf8_lead_3 [OF h] utf8_tail [OF t(1)] utf8_tail [OF t(2)]
      by (auto simp: utf8_ground_def utf8_go_of_nat simp del: of_nat_add utf8_go.simps)
  next
    case 4
    define t m k h where "t = c mod 64" and "m = c div 64 mod 64" and "k = c div 64 div 64 mod 64"
      and "h = c div 64 div 64 div 64"
    have d: "c div 4096 = c div 64 div 64" "c div 262144 = h"
      by (simp_all add: h_def div_mult2_eq [symmetric])
    have e: "c = ((h * 64 + k) * 64 + m) * 64 + t" by (simp add: t_def m_def k_def h_def)
    have t: "t < 64" "m < 64" "k < 64" by (simp_all add: t_def m_def k_def)
    have e': "c = h * 262144 + k * 4096 + m * 64 + t" by (simp add: e)
    have h: "h < 5" using c e' by linarith
    have lo: "16 \<le> k" if "h = 0" using that 4 e' t by linarith
    have hi: "k < 16" if "h = 4" using that c e' t by linarith
    have of: "utf8_of c = map of_nat [240 + h, 128 + k, 128 + m, 128 + t]"
      using 4 by (simp add: utf8_of_def d t_def m_def k_def del: of_nat_add)
    show ?thesis
      unfolding of
      using e h t lo hi utf8_lead_4 [OF h] utf8_tail [OF t(1)] utf8_tail [OF t(2)] utf8_tail [OF t(3)]
      by (auto simp: utf8_ground_def utf8_go_of_nat simp del: of_nat_add utf8_go.simps)
  qed
qed

lemma utf8_go_encode:
  "list_all is_scalar cs \<Longrightarrow> utf8_go utf8_ground (concat (map utf8_of cs)) = cs"
proof (induction cs)
  case Nil
  then show ?case by (simp add: utf8_ground_def)
next
  case (Cons c cs)
  then show ?case by (simp add: utf8_go_of)
qed

lemma utf8_encode_well_formed:
  "well_formed s \<Longrightarrow> utf8_encode s = concat (map utf8_of (processCharCodes s))"
  unfolding utf8_encode_def well_formed_def
  by (rule arg_cong [where f = concat]) (auto simp: list_all_iff is_scalar_def)

definition starts_with_bom :: "jsstr \<Rightarrow> bool" where
  "starts_with_bom s \<longleftrightarrow> (case s of u # _ \<Rightarrow> unat u = 0xFEFF | [] \<Rightarrow> False)"

lemma processCharCodes_hd_bom:
  "processCharCodes s = 0xFEFF # cs \<Longrightarrow> starts_with_bom s"
  by (cases s rule: processCharCodes.cases) (auto simp: starts_with_bom_def split: if_splits)

lemma utf8_decode_encode:
  assumes "well_formed s" "\<not> starts_with_bom s"
  shows "utf8_decode (utf8_encode s) = s"
proof -
  have "utf8_go utf8_ground (utf8_encode s) = processCharCodes s"
    using assms(1) by (simp add: utf8_encode_well_formed utf8_go_encode well_formed_def)
  then have "utf8_points (utf8_encode s) = processCharCodes s"
    using assms(2) processCharCodes_hd_bom by (auto simp: utf8_points_def split: list.splits)
  then show ?thesis by (simp add: utf8_decode_def utf16_processCharCodes)
qed

lemma utf8_decode_bom:
  assumes "well_formed s" "starts_with_bom s"
  shows "utf8_decode (utf8_encode s) = tl s"
proof -
  obtain u us where s: "s = u # us" "unat u = 0xFEFF"
    using assms(2) by (auto simp: starts_with_bom_def split: list.splits)
  have p: "processCharCodes s = 0xFEFF # processCharCodes us"
    using s by (cases us) (auto simp: is_high_def)
  have "utf8_go utf8_ground (utf8_encode s) = processCharCodes s"
    using assms(1) by (simp add: utf8_encode_well_formed utf8_go_encode well_formed_def)
  with p s show ?thesis by (simp add: utf8_decode_def utf8_points_def utf16_processCharCodes)
qed

end
