(* ===== verification/Enums.thy ===== *)
theory Enums
  imports Native Varint Text_Codec
begin

text \<open>
  \<open>projects/ts/src/ws/util/enums\<close>: enum packages, their registry and their bytes in a schema. The three
  module-level objects are the record \<open>enum_registry\<close>; they are plain objects, so a lookup can also
  find what \<open>Object.prototype\<close> holds (\<open>object_prototype_keys\<close>).

  Number and object printing and parsing of the language are the fields of \<open>js_lib\<close>. Two laws are used,
  each for the values at hand: \<open>lib_number_text\<close>, that \<open>parseFloat(String(n))\<close> is \<open>n\<close>, and \<open>lib_json\<close>,
  that \<open>JSON.parse(JSON.stringify(v))\<close> is \<open>v\<close> and that the text is well formed.
\<close>

record js_lib =
  num_text :: "jsnum \<Rightarrow> jsstr"
  parse_float :: "jsstr \<Rightarrow> jsnum"
  text_num :: "jsstr \<Rightarrow> jsnum"
  obj_text :: "jsval \<Rightarrow> jsstr"
  json_stringify :: "jsval \<Rightarrow> jsstr"
  json_parse :: "jsstr \<Rightarrow> jsval result"

definition lib_number_text :: "js_lib \<Rightarrow> jsnum \<Rightarrow> bool" where
  "lib_number_text lib n \<longleftrightarrow> parse_float lib (num_text lib n) = n"

definition lib_json :: "js_lib \<Rightarrow> jsval \<Rightarrow> bool" where
  "lib_json lib v \<longleftrightarrow> json_parse lib (json_stringify lib v) = Inr v
     \<and> well_formed (json_stringify lib v) \<and> \<not> starts_with_bom (json_stringify lib v)"

section \<open>Language primitives\<close>

definition js_String :: "js_lib \<Rightarrow> jsval \<Rightarrow> jsstr" where
  "js_String lib v =
     (case v of
        JUndef \<Rightarrow> js ''undefined'' | JNull \<Rightarrow> js ''null''
      | JBool b \<Rightarrow> (if b then js ''true'' else js ''false'')
      | JNum n \<Rightarrow> num_text lib n | JStr s \<Rightarrow> s | w \<Rightarrow> obj_text lib w)"

definition js_truthy :: "jsval \<Rightarrow> bool" where
  "js_truthy v =
     (case v of JUndef \<Rightarrow> False | JNull \<Rightarrow> False | JBool b \<Rightarrow> b
      | JNum n \<Rightarrow> n \<noteq> Fin 0 \<and> n \<noteq> NotNum | JStr s \<Rightarrow> s \<noteq> [] | _ \<Rightarrow> True)"

definition nullish :: "jsval \<Rightarrow> bool" where
  "nullish v \<longleftrightarrow> v = JUndef \<or> v = JNull"

definition js_Number :: "js_lib \<Rightarrow> jsval \<Rightarrow> jsnum" where
  "js_Number lib v =
     (case v of JNum n \<Rightarrow> n | JBool b \<Rightarrow> Fin (of_bool b) | JStr s \<Rightarrow> text_num lib s
      | JNull \<Rightarrow> Fin 0 | JUndef \<Rightarrow> NotNum | w \<Rightarrow> text_num lib (obj_text lib w))"

text \<open>\<open>a == b\<close> on primitives.\<close>

definition loose_eq :: "js_lib \<Rightarrow> jsval \<Rightarrow> jsval \<Rightarrow> bool" where
  "loose_eq lib a b =
     (if nullish a \<or> nullish b then nullish a \<and> nullish b
      else case (a, b) of
          (JStr s, JStr t) \<Rightarrow> s = t
        | _ \<Rightarrow> js_Number lib a = js_Number lib b \<and> js_Number lib a \<noteq> NotNum)"

definition object_prototype_keys :: "jsstr list" where
  "object_prototype_keys = map js
     [''__proto__'', ''constructor'', ''hasOwnProperty'', ''isPrototypeOf'', ''propertyIsEnumerable'',
      ''toLocaleString'', ''toString'', ''valueOf'', ''__defineGetter__'', ''__defineSetter__'',
      ''__lookupGetter__'', ''__lookupSetter__'']"

section \<open>Packages\<close>

definition getTypedIndex :: "jsval \<Rightarrow> nat" where
  "getTypedIndex v =
     (case v of JStr _ \<Rightarrow> 0 | JNum _ \<Rightarrow> 1 | JBool _ \<Rightarrow> 2 | JUndef \<Rightarrow> 3 | _ \<Rightarrow> 4)"

definition type_conversion :: "js_lib \<Rightarrow> nat \<Rightarrow> jsstr \<Rightarrow> jsval result" where
  "type_conversion lib ty d =
     (if ty = 0 then Inr (JStr d) else if ty = 1 then Inr (JNum (parse_float lib d))
      else if ty = 2 then Inr (JBool (d = js ''true'')) else if ty = 3 then Inr JUndef
      else if ty = 4 then Inr JNull
      else Inl (TypeError ''TYPE_CONVERSION_MAP[valueType] is not a function''))"

text \<open>The numbers of \<open>serialize()\<close>; the caller stores them into bytes.\<close>

definition enum_value_codes :: "js_lib \<Rightarrow> jsval \<Rightarrow> nat list" where
  "enum_value_codes lib v =
     [length (js_String lib v), getTypedIndex v] @ processCharCodes (js_String lib v)"

definition enum_serialize :: "js_lib \<Rightarrow> enum_pkg \<Rightarrow> nat list" where
  "enum_serialize lib pkg =
     [length (enum_tag pkg)] @ processCharCodes (enum_tag pkg) @ [length (enum_values pkg)]
       @ concat (map (enum_value_codes lib) (enum_values pkg))"

section \<open>The registry\<close>

definition MAX_ENUM_SIZE :: nat where
  "MAX_ENUM_SIZE = MAX_BYTE"

record enum_registry =
  set_packages :: "(jsstr \<times> enum_pkg) list"
  enum_tag_to_key :: "(jsstr \<times> (jsstr \<times> nat) list) list"
  enum_key_to_tag :: "(jsstr \<times> jsval list) list"

definition empty_registry :: enum_registry where
  "empty_registry = \<lparr>set_packages = [], enum_tag_to_key = [], enum_key_to_tag = []\<rparr>"

fun find_mismatch :: "js_lib \<Rightarrow> jsval list \<Rightarrow> jsval list \<Rightarrow> jsval" where
  "find_mismatch lib [] vs = JUndef"
| "find_mismatch lib (n # ns) [] = (if loose_eq lib JUndef n then find_mismatch lib ns [] else n)"
| "find_mismatch lib (n # ns) (v # vs) = (if loose_eq lib v n then find_mismatch lib ns vs else n)"

text \<open>
  \<open>Object.fromEntries\<close> lets a later pair with the same key win; the entries are kept with the last
  one first, so that \<open>map_of\<close> finds it.
\<close>

definition DefineEnum ::
  "js_lib \<Rightarrow> jsstr \<Rightarrow> jsval list \<Rightarrow> enum_registry \<Rightarrow> (enum_pkg \<times> enum_registry) result" where
  "DefineEnum lib tg vals reg =
     (case map_of (set_packages reg) tg of
        Some setPkg \<Rightarrow>
          if js_truthy (find_mismatch lib (enum_values setPkg) vals)
          then Inl (Error ''Pre-existing enum package is set and different!'')
          else Inr (setPkg, reg)
      | None \<Rightarrow>
          if tg \<in> set object_prototype_keys then Inl (TypeError ''setPkg.values.find is not a function'')
          else if length vals > MAX_ENUM_SIZE then Inl (Error ''An enum can only hold 255 possible values.'')
          else let pkg = \<lparr>enum_tag = tg, enum_values = vals\<rparr>
            in Inr (pkg, \<lparr>set_packages = (tg, pkg) # set_packages reg,
                          enum_tag_to_key = (tg, rev (zip (map (js_String lib) vals) [0 ..< length vals]))
                                              # enum_tag_to_key reg,
                          enum_key_to_tag = (tg, vals) # enum_key_to_tag reg\<rparr>))"

text \<open>\<open>Inr None\<close>: the value names an inherited method, and the method is returned.\<close>

definition WrapEnum :: "js_lib \<Rightarrow> jsstr \<Rightarrow> jsval \<Rightarrow> enum_registry \<Rightarrow> nat option result" where
  "WrapEnum lib tg v reg =
     (case map_of (enum_tag_to_key reg) tg of
        None \<Rightarrow> Inl (TypeError ''ENUM_TAG_TO_KEY[tag] is not an object'')
      | Some keys \<Rightarrow>
          (case map_of keys (js_String lib v) of
             Some i \<Rightarrow> Inr (Some i)
           | None \<Rightarrow> if js_String lib v \<in> set object_prototype_keys then Inr None
                     else Inl (Error ''Value does not exist in enum'')))"

definition DeWrapEnum :: "jsstr \<Rightarrow> nat \<Rightarrow> enum_registry \<Rightarrow> jsval result" where
  "DeWrapEnum tg i reg =
     (case map_of (enum_key_to_tag reg) tg of
        None \<Rightarrow> Inl (TypeError ''ENUM_KEY_TO_TAG[tag] is undefined'')
      | Some vals \<Rightarrow> Inr (if i < length vals then vals ! i else JUndef))"

text \<open>The three objects have the same tags and agree with the packages.\<close>

definition registry_ok :: "js_lib \<Rightarrow> enum_registry \<Rightarrow> bool" where
  "registry_ok lib reg \<longleftrightarrow>
     list_all (\<lambda>(tg, pkg). enum_tag pkg = tg \<and> length (enum_values pkg) \<le> MAX_ENUM_SIZE) (set_packages reg)
     \<and> enum_tag_to_key reg = map (\<lambda>(tg, pkg). (tg, rev (zip (map (js_String lib) (enum_values pkg))
                                                            [0 ..< length (enum_values pkg)]))) (set_packages reg)
     \<and> enum_key_to_tag reg = map (\<lambda>(tg, pkg). (tg, enum_values pkg)) (set_packages reg)"

lemma registry_ok_empty: "registry_ok lib empty_registry"
  by (simp add: registry_ok_def empty_registry_def)

lemma map_of_map_snd: "map_of (map (\<lambda>(k, v). (k, f v)) xs) k = map_option f (map_of xs k)"
  by (induction xs) auto

lemma DefineEnum_keeps:
  "registry_ok lib reg \<Longrightarrow> DefineEnum lib tg vals reg = Inr (pkg, reg') \<Longrightarrow> registry_ok lib reg'"
  by (auto simp: DefineEnum_def registry_ok_def Let_def split: option.splits if_splits)

lemma registry_package:
  "registry_ok lib reg \<Longrightarrow> map_of (set_packages reg) tg = Some pkg \<Longrightarrow>
   enum_tag pkg = tg \<and> length (enum_values pkg) \<le> MAX_ENUM_SIZE
   \<and> map_of (enum_tag_to_key reg) tg
       = Some (rev (zip (map (js_String lib) (enum_values pkg)) [0 ..< length (enum_values pkg)]))
   \<and> map_of (enum_key_to_tag reg) tg = Some (enum_values pkg)"
  using map_of_SomeD [of "set_packages reg" tg pkg]
  by (auto simp: registry_ok_def list_all_iff map_of_map_snd)

text \<open>
  Every call of \<open>DefineEnum\<close>, failed or not, keeps the three registry objects consistent with each
  other, with at most 255 values under a tag.
\<close>

definition define_step :: "js_lib \<Rightarrow> enum_registry \<Rightarrow> jsstr \<times> jsval list \<Rightarrow> enum_registry" where
  "define_step lib reg d =
     (case DefineEnum lib (fst d) (snd d) reg of Inl _ \<Rightarrow> reg | Inr (_, reg') \<Rightarrow> reg')"

interpretation enum_defs: machine_inv "define_step lib" "registry_ok lib" for lib
  by unfold_locales (auto simp: define_step_def DefineEnum_keeps split: sum.splits)

text \<open>
  After any sequence of enum definitions, wrapping a value of a defined enum gives an index, and
  unwrapping the index gives the value back, provided no two values of the enum print alike.
\<close>

theorem enum_wrap_unwrap:
  assumes "reg = foldl (define_step lib) empty_registry defs"
    and "map_of (set_packages reg) tg = Some pkg"
    and "distinct (map (js_String lib) (enum_values pkg))"
    and "v \<in> set (enum_values pkg)"
  shows "\<exists>i. WrapEnum lib tg v reg = Inr (Some i) \<and> i < 255 \<and> DeWrapEnum tg i reg = Inr v"
proof -
  have "registry_ok lib reg"
    unfolding assms(1) by (rule enum_defs.run_inv) (rule registry_ok_empty)
  note pkg = registry_package [OF this assms(2)]
  obtain i where i: "i < length (enum_values pkg)" "v = enum_values pkg ! i"
    using assms(4) by (metis in_set_conv_nth)
  let ?zs = "zip (map (js_String lib) (enum_values pkg)) [0 ..< length (enum_values pkg)]"
  have "(js_String lib v, i) \<in> set ?zs" using i by (auto simp: set_zip intro: exI [of _ i])
  moreover have "distinct (map fst (rev ?zs))" using assms(3) by (simp add: rev_map [symmetric])
  ultimately have "map_of (rev ?zs) (js_String lib v) = Some i" by simp
  then show ?thesis
    using pkg i by (auto simp: WrapEnum_def DeWrapEnum_def MAX_ENUM_SIZE_def MAX_BYTE_def)
qed

definition plain_lib :: js_lib where
  "plain_lib = \<lparr>num_text = (\<lambda>n. case n of Fin r \<Rightarrow> js_of_nat (nat \<lfloor>r\<rfloor>) | _ \<Rightarrow> []),
                parse_float = (\<lambda>s. case dec_value 0 s of Some n \<Rightarrow> Fin (of_nat n) | None \<Rightarrow> NotNum),
                text_num = (\<lambda>s. case dec_value 0 s of Some n \<Rightarrow> Fin (of_nat n) | None \<Rightarrow> NotNum),
                obj_text = (\<lambda>_. []),
                json_stringify = (\<lambda>_. js ''{}''),
                json_parse = (\<lambda>s. if s = js ''{}'' then Inr (JObj []) else Inl (Error ''SyntaxError''))\<rparr>"

lemma enum_wrap_unwrap_witness:
  "\<exists>i. WrapEnum plain_lib (js ''t'') (JBool True)
         (foldl (define_step plain_lib) empty_registry [(js ''t'', [JNull, JBool True])]) = Inr (Some i)
     \<and> i < 255
     \<and> DeWrapEnum (js ''t'') i
         (foldl (define_step plain_lib) empty_registry [(js ''t'', [JNull, JBool True])]) = Inr (JBool True)"
  by (rule enum_wrap_unwrap [OF refl, where pkg = "\<lparr>enum_tag = js ''t'', enum_values = [JNull, JBool True]\<rparr>"])
     (simp_all add: define_step_def DefineEnum_def empty_registry_def object_prototype_keys_def
        MAX_ENUM_SIZE_def MAX_BYTE_def Let_def js_String_def)

text \<open>
  The check that a redefined enum has the same values misses differences: \<open>find\<close> returns the first
  mismatching old value, which can be falsy, and values added at the end are never compared. The old
  package is returned as if it were the new one.
\<close>

theorem enum_redefinition_unnoticed:
  assumes "map_of (set_packages reg) tg = Some \<lparr>enum_tag = tg, enum_values = [JNum (Fin 0)]\<rparr>"
  shows "DefineEnum lib tg [JStr (js ''x''), JStr (js ''y'')] reg
    = Inr (\<lparr>enum_tag = tg, enum_values = [JNum (Fin 0)]\<rparr>, reg)"
  using assms by (simp add: DefineEnum_def js_truthy_def)

lemma enum_redefinition_unnoticed_witness:
  "DefineEnum plain_lib (js ''t'') [JStr (js ''x''), JStr (js ''y'')]
     (define_step plain_lib empty_registry (js ''t'', [JNum (Fin 0)]))
   = Inr (\<lparr>enum_tag = js ''t'', enum_values = [JNum (Fin 0)]\<rparr>,
          define_step plain_lib empty_registry (js ''t'', [JNum (Fin 0)]))"
  by (rule enum_redefinition_unnoticed)
     (simp add: define_step_def DefineEnum_def empty_registry_def object_prototype_keys_def
        MAX_ENUM_SIZE_def MAX_BYTE_def Let_def)

end
