(* ===== verification/Json_Number.thy ===== *)
theory Json_Number
  imports Varint Js_Value
begin

unbundle bit_operations_syntax

text \<open>
  The number codecs of \<open>projects/ts/src/ws/util/JSONUtil.ts\<close>: zigzag on ToInt32 values, the 32-bit
  variable integers and single-precision floats. \<open>Math.log2\<close> is the exact logarithm here (\<open>flog2\<close> is
  its floor); every other step of the float codec is exact in doubles.
\<close>

section \<open>Integers\<close>

definition mapZigZag :: "int \<Rightarrow> int" where
  "mapZigZag value = to_int32 (to_int32 value * 2) XOR drop_bit 31 (to_int32 value)"

definition demapZigZag :: "int \<Rightarrow> int" where
  "demapZigZag value = to_int32 (drop_bit 1 (to_uint32 value) XOR - (to_int32 value AND 1))"

function json_digits :: "nat \<Rightarrow> u8 list" where
  "json_digits value =
     (let byte = take_bit 7 value; value' = take_bit 32 value div 128
      in if value' > 0 then of_nat (byte OR 128) # json_digits value' else [of_nat byte])"
  by pat_completeness auto
termination
proof (relation "measure id")
  fix v b w :: nat
  assume "w = take_bit 32 v div 128" "w > 0"
  then have "w < take_bit 32 v" by auto
  then show "(w, v) \<in> measure id"
    unfolding in_measure id_apply using take_bit_nat_less_eq_self by (rule order.strict_trans2)
qed simp

declare json_digits.simps [simp del]

definition json_convertVarInt :: "int \<Rightarrow> u8 list result" where
  "json_convertVarInt value =
     (if value < 0 then Inl (Error ''Invalid JSON variable integer'') else Inr (json_digits (nat value)))"

function json_readVarInt_loop :: "u8 list \<Rightarrow> int \<Rightarrow> int \<Rightarrow> nat \<Rightarrow> (int \<times> int) result" where
  "json_readVarInt_loop data offset value shift =
     (if offset \<ge> int (length data) \<or> shift > 28 then Inl (Error ''Invalid JSON variable integer'')
      else let byte = byte_or_zero data offset;
               value' = value + to_int32 (push_bit shift (int (byte AND 127)))
           in if byte AND 128 = 0 then Inr (offset + 1, value')
              else json_readVarInt_loop data (offset + 1) value' (shift + 7))"
  by pat_completeness auto
termination
  by (relation "measure (\<lambda>(data, offset, value, shift). 35 - shift)") auto

declare json_readVarInt_loop.simps [simp del]

definition json_readVarInt :: "u8 list \<Rightarrow> int \<Rightarrow> (int \<times> int) result" where
  "json_readVarInt data offset = json_readVarInt_loop data offset 0 0"

lemma mapZigZag_eq:
  assumes "- (2 ^ 30) \<le> v" "v < 2 ^ 30"
  shows "mapZigZag v = (if 0 \<le> v then 2 * v else - 2 * v - 1)"
proof -
  have v: "to_int32 v = v" "to_int32 (v * 2) = v * 2"
    using assms by (auto intro!: to_int32_id)
  have "v div 2 ^ 31 = (if 0 \<le> v then 0 else - 1)"
    using assms by (auto simp: div_pos_pos_trivial intro!: int_div_neg_eq [of "2 ^ 31" _ "2 ^ 31 + v"])
  then have "drop_bit 31 v = (if 0 \<le> v then 0 else - 1)"
    by (simp add: drop_bit_eq_div)
  then show ?thesis by (simp add: mapZigZag_def v not_int_def)
qed

lemma mapZigZag_range:
  assumes "- (2 ^ 30) \<le> v" "v < 2 ^ 30"
  shows "0 \<le> mapZigZag v" "mapZigZag v < 2 ^ 31"
  using assms mapZigZag_eq [OF assms] by auto

lemma demap_mapZigZag:
  assumes "- (2 ^ 30) \<le> v" "v < 2 ^ 30"
  shows "demapZigZag (mapZigZag v) = v"
proof -
  let ?n = "mapZigZag v"
  note n = mapZigZag_range [OF assms]
  have u: "to_uint32 ?n = ?n" "to_int32 ?n = ?n"
    using n by (auto intro: to_uint32_id to_int32_id)
  show ?thesis
  proof (cases "0 \<le> v")
    case True
    then have "?n = 2 * v" using mapZigZag_eq [OF assms] by simp
    then show ?thesis
      using assms u by (simp add: demapZigZag_def drop_bit_eq_div and_one_eq to_int32_id)
  next
    case False
    then have e: "?n = - 2 * v - 1" using mapZigZag_eq [OF assms] by simp
    have "?n div 2 = - v - 1" "?n AND 1 = 1"
      unfolding e by (simp_all add: and_one_eq) presburger+
    then show ?thesis
      using assms False u by (simp add: demapZigZag_def drop_bit_eq_div not_int_def to_int32_id)
  qed
qed

lemma json_digits_eq: "v < 2 ^ 32 \<Longrightarrow> json_digits v = varint_digits v"
proof (induction v rule: varint_digits.induct)
  case (1 v)
  have t: "take_bit 32 v = v" using "1.prems" by (simp add: take_bit_nat_eq_self)
  have m: "take_bit 7 v = v mod 128" by (simp add: take_bit_eq_mod)
  show ?case
    using "1.IH" [OF refl refl] "1.prems"
    by (subst json_digits.simps, subst varint_digits.simps) (simp add: t m Let_def)
qed


lemma to_int32_group:
  assumes "n * 128 ^ j < 2 ^ 31"
  shows "to_int32 (int n * 128 ^ j) = int n * 128 ^ j"
proof -
  have "int (n * 128 ^ j) < int (2 ^ 31)" using assms by (simp only: of_nat_less_iff)
  then have "int n * 128 ^ j < 2 ^ 31" by simp
  moreover have "0 \<le> int n * 128 ^ j" by simp
  ultimately show ?thesis by (intro to_int32_id) linarith+
qed

lemma json_read_loop_digits:
  "v * 128 ^ j < 2 ^ 31 \<Longrightarrow> 7 * j \<le> 28 \<Longrightarrow>
   json_readVarInt_loop (pre @ varint_digits v @ rest) (int (length pre)) acc (7 * j)
     = Inr (int (length pre + length (varint_digits v)), acc + int (v * 128 ^ j))"
proof (induction v arbitrary: pre acc j rule: varint_digits.induct)
  case (1 v)
  let ?b = "v mod 128" and ?w = "v div 128"
  have p: "push_bit (7 * j) n = n * 128 ^ j" for n :: int
    by (simp add: push_bit_eq_mult power_mult)
  show ?case
  proof (cases "v < 128")
    case True
    have "to_int32 (int v * 128 ^ j) = int v * 128 ^ j"
      using "1.prems"(1) by (rule to_int32_group)
    with True show ?thesis
      using "1.prems"(2)
      by (subst json_readVarInt_loop.simps)
         (simp add: varint_digits_small byte_or_zero_def unat_of_nat_u8 and_127 byte_and_128 p nth_append)
  next
    case False
    have v: "v = ?b + ?w * 128" by simp
    have d: "v * 128 ^ j = ?b * 128 ^ j + ?w * 128 ^ Suc j"
      by (subst (1) v) (simp only: add_mult_distrib power_Suc mult.assoc)
    then have "?b * 128 ^ j < 2 ^ 31"
      using "1.prems"(1) by linarith
    then have t: "to_int32 (int ?b * 128 ^ j) = int ?b * 128 ^ j"
      by (rule to_int32_group)
    have w: "0 < ?w" using False by (simp add: div_greater_zero_iff)
    have prem: "?w * 128 ^ Suc j < 2 ^ 31" using "1.prems"(1) d by linarith
    have j: "7 * Suc j \<le> 28"
    proof (rule ccontr)
      assume "\<not> 7 * Suc j \<le> 28"
      then have "5 \<le> Suc j" by simp
      then have "(128 :: nat) ^ 5 \<le> 128 ^ Suc j" by (rule power_increasing) simp
      also have "\<dots> \<le> ?w * 128 ^ Suc j" using w by simp
      finally show False using prem by simp
    qed
    have u: "unat (of_nat (?b + 128) :: u8) = ?b + 128"
      by (rule unat_of_nat_u8) (use mod_less_divisor [of 128 v] in linarith)
    have ih: "json_readVarInt_loop ((pre @ [of_nat (?b + 128)]) @ varint_digits ?w @ rest)
            (int (length (pre @ [of_nat (?b + 128) :: u8]))) (acc + int ?b * 128 ^ j) (7 * Suc j)
        = Inr (int (length (pre @ [of_nat (?b + 128) :: u8]) + length (varint_digits ?w)),
               acc + int ?b * 128 ^ j + int (?w * 128 ^ Suc j))"
      using w prem j by (intro "1.IH" [OF refl refl])
    have e: "acc + int ?b * 128 ^ j + int (?w * 128 ^ Suc j) = acc + int (v * 128 ^ j)"
      unfolding d by simp
    have ih': "json_readVarInt_loop (pre @ of_nat (?b + 128) # varint_digits ?w @ rest)
            (int (length pre) + 1) (acc + int ?b * 128 ^ j) (7 * j + 7)
        = Inr (int (length pre + Suc (length (varint_digits ?w))), acc + int (v * 128 ^ j))"
      using ih unfolding e by (simp add: add.commute)
    show ?thesis
      using False "1.prems"(2) u t
      by (subst json_readVarInt_loop.simps)
         (simp add: varint_digits_big byte_or_zero_def and_127 byte_and_128 p nth_append
               ih' [unfolded of_nat_mult of_nat_power] del: of_nat_add)
  qed
qed

lemma json_readVarInt_digits:
  "v < 2 ^ 31 \<Longrightarrow>
   json_readVarInt (pre @ varint_digits v @ rest) (int (length pre))
     = Inr (int (length pre + length (varint_digits v)), int v)"
  using json_read_loop_digits [of v 0 pre rest 0] by (simp add: json_readVarInt_def)

lemma json_convertVarInt_ok:
  "0 \<le> i \<Longrightarrow> i < 2 ^ 32 \<Longrightarrow> json_convertVarInt i = Inr (varint_digits (nat i))"
  by (simp add: json_convertVarInt_def json_digits_eq nat_less_iff)


section \<open>Floats\<close>

text \<open>\<open>Math.floor(Math.log2(r))\<close> for a positive number.\<close>

definition flog2 :: "rat \<Rightarrow> int" where
  "flog2 r =
     (let (p, q) = quotient_of r;
          e = int (bit_len (nat p)) - int (bit_len (nat q))
      in if r < 2 powi e then e - 1 else e)"

definition convertFloat :: "jsnum \<Rightarrow> u8 list" where
  "convertFloat v =
     (case v of
        NotNum \<Rightarrow> [0x7f, 0x80, 0, 1]
      | PosInf \<Rightarrow> [0x7f, 0x80, 0, 0]
      | NegInf \<Rightarrow> [0xff, 0x80, 0, 0]
      | Fin r \<Rightarrow>
          (let sign = (if r < 0 then 1 else 0 :: nat); a = \<bar>r\<bar>
           in if a = 0 then [0, 0, 0, 0]
              else let exponent = flog2 a
                   in if exponent > 127 \<or> exponent < - 126
                      then [if sign = 1 then 0xff else 0x7f, 0x80, 0, 0]
                      else let mantissa = nat (take_bit 23 (js_round ((a / 2 powi exponent - 1) * 2 ^ 23)));
                               bits = push_bit 31 sign OR push_bit 23 (nat (exponent + 127)) OR mantissa
                           in [of_nat (drop_bit 24 bits), of_nat (take_bit 8 (drop_bit 16 bits)),
                               of_nat (take_bit 8 (drop_bit 8 bits)), of_nat (take_bit 8 bits)]))"

text \<open>The four bytes, missing ones read as 0 by the shifts.\<close>

definition deconvertFloat :: "u8 list \<Rightarrow> jsnum" where
  "deconvertFloat bytes =
     (let b = (\<lambda>i. byte_or_zero bytes i);
          bits = push_bit 24 (b 0) OR push_bit 16 (b 1) OR push_bit 8 (b 2) OR b 3;
          sign = drop_bit 31 bits;
          rawExponent = take_bit 8 (drop_bit 23 bits);
          fraction = take_bit 23 bits;
          mantissa = (if rawExponent = 0 then 0 else 1) + of_nat fraction / 2 ^ 23 :: rat
      in if rawExponent = 0xff
         then (if mantissa = 0 then (if sign \<noteq> 0 then NegInf else PosInf) else NotNum)
         else let v = mantissa * 2 powi (if rawExponent = 0 then - 126 else int rawExponent - 127)
              in Fin (if sign \<noteq> 0 then - v else v))"

lemma bit_len_0 [simp]: "bit_len 0 = 0"
  by (simp add: bit_len.simps)

lemma bit_len_bounds: "0 < n \<Longrightarrow> 2 ^ (bit_len n - 1) \<le> n \<and> n < 2 ^ bit_len n \<and> 0 < bit_len n"
proof (induction n rule: bit_len.induct)
  case (1 n)
  show ?case
  proof (cases "n = 1")
    case True
    then show ?thesis by (simp add: bit_len.simps)
  next
    case False
    let ?k = "bit_len (n div 2)"
    have n: "0 < n div 2" using 1 False by (simp add: div_greater_zero_iff)
    have l: "bit_len n = Suc ?k" using "1.prems" by (simp add: bit_len.simps [of n])
    have ih: "2 ^ (?k - 1) \<le> n div 2" "n div 2 < 2 ^ ?k" "0 < ?k"
      using "1.IH" "1.prems" n by simp_all
    have "(2 :: nat) ^ ?k = 2 * 2 ^ (?k - 1)" using ih(3) by (cases ?k) simp_all
    then have "2 ^ ?k \<le> n" using ih(1) by linarith
    moreover have "n < 2 * 2 ^ ?k" using ih(2) by linarith
    ultimately show ?thesis by (simp add: l)
  qed
qed

lemma flog2_bounds:
  assumes "0 < r"
  shows "2 powi flog2 r \<le> r" "r < 2 powi (flog2 r + 1)"
proof -
  obtain p q where pq: "quotient_of r = (p, q)" by (cases "quotient_of r")
  have q: "0 < q" and r: "r = of_int p / of_int q"
    using pq quotient_of_denom_pos quotient_of_div by blast+
  have p: "0 < p" using assms q unfolding r by (simp add: zero_less_divide_iff)
  define m n where "m = bit_len (nat p)" and "n = bit_len (nat q)"
  have m: "2 ^ (m - 1) \<le> nat p" "nat p < 2 ^ m" "0 < m"
    and n: "2 ^ (n - 1) \<le> nat q" "nat q < 2 ^ n" "0 < n"
    using bit_len_bounds [of "nat p"] bit_len_bounds [of "nat q"] p q by (simp_all add: m_def n_def)
  have P: "(2 :: rat) powi (int m - 1) \<le> of_int p" "of_int p < (2 :: rat) powi int m"
  proof -
    have "of_nat (2 ^ (m - 1)) \<le> (of_nat (nat p) :: rat)" using m(1) by (simp only: of_nat_le_iff)
    moreover have "(2 :: rat) powi (int m - 1) = 2 ^ (m - 1)"
      using m(3) by (cases m) (simp_all add: power_int_of_nat)
    ultimately show "(2 :: rat) powi (int m - 1) \<le> of_int p" using p by simp
    have "(of_nat (nat p) :: rat) < of_nat (2 ^ m)" using m(2) by (simp only: of_nat_less_iff)
    then show "of_int p < (2 :: rat) powi int m" using p by simp
  qed
  have Q: "(2 :: rat) powi (int n - 1) \<le> of_int q" "of_int q < (2 :: rat) powi int n"
  proof -
    have "of_nat (2 ^ (n - 1)) \<le> (of_nat (nat q) :: rat)" using n(1) by (simp only: of_nat_le_iff)
    moreover have "(2 :: rat) powi (int n - 1) = 2 ^ (n - 1)"
      using n(3) by (cases n) (simp_all add: power_int_of_nat)
    ultimately show "(2 :: rat) powi (int n - 1) \<le> of_int q" using q by simp
    have "(of_nat (nat q) :: rat) < of_nat (2 ^ n)" using n(2) by (simp only: of_nat_less_iff)
    then show "of_int q < (2 :: rat) powi int n" using q by simp
  qed
  define e where "e = int m - int n"
  have low: "2 powi (e - 1) \<le> r"
  proof -
    have "(2 :: rat) powi (e - 1) * of_int q \<le> 2 powi (e - 1) * 2 powi int n"
      using Q(2) by (intro mult_left_mono order.strict_implies_order) simp_all
    also have "\<dots> = 2 powi (int m - 1)"
      using power_int_add [of "2 :: rat" "e - 1" "int n"] by (simp add: e_def)
    also note P(1)
    finally have "2 powi (e - 1) * (of_int q :: rat) \<le> of_int p" .
    then show ?thesis using q by (simp add: r pos_le_divide_eq)
  qed
  have high: "r < 2 powi (e + 1)"
  proof -
    note P(2)
    also have "2 powi int m = 2 powi (e + 1) * (2 :: rat) powi (int n - 1)"
      using power_int_add [of "2 :: rat" "e + 1" "int n - 1"] by (simp add: e_def)
    also have "\<dots> \<le> 2 powi (e + 1) * of_int q"
      using Q(1) by (intro mult_left_mono) simp_all
    finally have "of_int p < 2 powi (e + 1) * (of_int q :: rat)" .
    then show ?thesis using q by (simp add: r pos_divide_less_eq)
  qed
  have f: "flog2 r = (if r < 2 powi e then e - 1 else e)"
    by (simp add: flog2_def pq e_def m_def n_def)
  show "2 powi flog2 r \<le> r" "r < 2 powi (flog2 r + 1)"
    using low high by (auto simp: f)
qed

lemma flog2_unique:
  assumes "2 powi e \<le> r" "r < 2 powi (e + 1)"
  shows "flog2 r = e"
proof -
  have r: "0 < r" by (rule less_le_trans [OF _ assms(1)]) simp
  have "(2 :: rat) powi e < 2 powi (flog2 r + 1)" "(2 :: rat) powi flog2 r < 2 powi (e + 1)"
    using assms flog2_bounds [OF r] by linarith+
  then have "e < flog2 r + 1" "flog2 r < e + 1"
    using power_int_increasing [of _ _ "2 :: rat"] by (meson leD leI one_le_numeral)+
  then show ?thesis by simp
qed


lemma float_bytes:
  assumes "bits < 2 ^ 32"
  shows "push_bit 24 (drop_bit 24 bits) OR push_bit 16 (take_bit 8 (drop_bit 16 bits))
       OR push_bit 8 (take_bit 8 (drop_bit 8 bits)) OR take_bit 8 bits = (bits :: nat)"
proof (rule bit_eqI)
  fix n :: nat
  consider "n < 8" | "8 \<le> n" "n < 16" | "16 \<le> n" "n < 24" | "24 \<le> n" by linarith
  then show "bit (push_bit 24 (drop_bit 24 bits) OR push_bit 16 (take_bit 8 (drop_bit 16 bits))
       OR push_bit 8 (take_bit 8 (drop_bit 8 bits)) OR take_bit 8 bits) n = bit bits n"
    by cases (auto simp: bit_or_iff bit_push_bit_iff bit_drop_bit_eq bit_take_bit_iff)
qed

lemma float_fields:
  assumes "s < 2" "x < 256" "m < 2 ^ 23"
  defines "bits \<equiv> push_bit 31 s OR push_bit 23 x OR (m :: nat)"
  shows "drop_bit 31 bits = s" "take_bit 8 (drop_bit 23 bits) = x" "take_bit 23 bits = m"
    "bits < 2 ^ 32"
proof -
  have t: "take_bit 1 s = s" "take_bit 8 x = x" "take_bit 23 m = m"
    using assms by (simp_all add: take_bit_nat_eq_self)
  have high: "bit s n \<Longrightarrow> n < 1" "bit x n \<Longrightarrow> n < 8" "bit m n \<Longrightarrow> n < 23" for n
    using t by (metis bit_take_bit_iff)+
  show "drop_bit 31 bits = s" "take_bit 8 (drop_bit 23 bits) = x" "take_bit 23 bits = m"
    unfolding bits_def
    by (rule bit_eqI; auto simp: bit_or_iff bit_push_bit_iff bit_drop_bit_eq bit_take_bit_iff
        dest: high)+
  have "take_bit 32 bits = bits"
    unfolding bits_def
    by (rule bit_eqI; auto simp: bit_or_iff bit_push_bit_iff bit_take_bit_iff dest: high)
  then show "bits < 2 ^ 32"
    by (metis take_bit_nat_less_exp)
qed

lemma deconvertFloat_fields:
  assumes "s < 2" "0 < x" "x < 255" "m < 2 ^ 23"
    and bits: "bits = push_bit 31 s OR push_bit 23 x OR (m :: nat)"
  shows "deconvertFloat [of_nat (drop_bit 24 bits), of_nat (take_bit 8 (drop_bit 16 bits)),
             of_nat (take_bit 8 (drop_bit 8 bits)), of_nat (take_bit 8 bits)]
       = (let v = (1 + of_nat m / 2 ^ 23) * 2 powi (int x - 127)
          in Fin (if s \<noteq> 0 then - v else v))"
proof -
  have f: "drop_bit 31 bits = s" "take_bit 8 (drop_bit 23 bits) = x" "take_bit 23 bits = m"
    "bits < 2 ^ 32"
    unfolding bits using assms(1-4) by (intro float_fields; simp)+
  have b: "drop_bit 24 bits < 256" "take_bit 8 k < 256" for k :: nat
    using f(4) take_bit_nat_less_exp [of 8 k] by (simp_all add: drop_bit_eq_div less_mult_imp_div_less)
  have bytes: "byte_or_zero [of_nat (drop_bit 24 bits), c1, c2, c3] 0 = drop_bit 24 bits"
    "byte_or_zero [c0, of_nat (take_bit 8 k), c2, c3] 1 = take_bit 8 k"
    "byte_or_zero [c0, c1, of_nat (take_bit 8 k), c3] 2 = take_bit 8 k"
    "byte_or_zero [c0, c1, c2, of_nat (take_bit 8 k)] 3 = take_bit 8 k" for c0 c1 c2 c3 :: u8 and k :: nat
    using b by (simp_all add: byte_or_zero_def unat_of_nat_u8 del: of_nat_take_bit)
  show ?thesis
    unfolding deconvertFloat_def Let_def bytes float_bytes [OF f(4)] f(1-3)
    using assms(1-4) by simp
qed

text \<open>The significand that is stored: 24 bits, the first implicit.\<close>

definition float_mantissa :: "rat \<Rightarrow> int" where
  "float_mantissa a = js_round ((a / 2 powi flog2 a - 1) * 2 ^ 23)"

lemma float_mantissa_bounds:
  assumes "0 < a"
  shows "0 \<le> float_mantissa a" "float_mantissa a \<le> 2 ^ 23"
    "\<bar>(1 + of_int (float_mantissa a) / 2 ^ 23) * 2 powi flog2 a - a\<bar> \<le> 2 powi (flog2 a - 24)"
proof -
  let ?e = "(2 :: rat) powi flog2 a" and ?m = "float_mantissa a"
  have e: "0 < ?e" by simp
  define z where "z = a / ?e"
  have "1 \<le> z" "z < 2"
    using flog2_bounds [OF assms]
    by (simp_all add: z_def pos_le_divide_eq pos_divide_less_eq power_int_add)
  define y where "y = (z - 1) * 2 ^ 23"
  have y: "0 \<le> y" "y < 2 ^ 23" using \<open>1 \<le> z\<close> \<open>z < 2\<close> by (simp_all add: y_def)
  have m: "?m = js_round y" by (simp add: float_mantissa_def y_def z_def)
  have r: "of_int ?m - 1 / 2 \<le> y" "y < of_int ?m + 1 / 2"
    using js_round_bounds [of y] by (simp_all add: m)
  have "(- 1 :: rat) < of_int ?m" using r(2) y(1) by linarith
  then show "0 \<le> ?m" by linarith
  have "of_int ?m < (of_int (2 ^ 23 + 1) :: rat)" using r(1) y(2) by simp
  then show "?m \<le> 2 ^ 23" by (simp only: of_int_less_iff)
  have "1 + y / 2 ^ 23 = z" unfolding y_def by (subst nonzero_mult_div_cancel_right) simp_all
  then have a: "a = (1 + y / 2 ^ 23) * ?e" by (simp add: z_def)
  have "(1 + of_int ?m / 2 ^ 23) * ?e - a = (of_int ?m - y) / 2 ^ 23 * ?e"
    by (subst (2) a) (simp add: field_simps)
  moreover have "\<bar>(of_int ?m - y) / 2 ^ 23 * ?e\<bar> = \<bar>of_int ?m - y\<bar> / 2 ^ 23 * ?e"
    by (simp add: abs_mult)
  moreover have "\<bar>of_int ?m - y\<bar> \<le> 1 / 2" unfolding abs_le_iff using r by linarith
  then have "\<bar>of_int ?m - y\<bar> / 2 ^ 23 * ?e \<le> (1 / 2) / 2 ^ 23 * ?e"
    by (intro mult_right_mono divide_right_mono) simp_all
  moreover have "(1 / 2) / 2 ^ 23 * ?e = 2 powi (flog2 a - 24)"
    by (simp add: power_int_diff)
  ultimately show "\<bar>(1 + of_int ?m / 2 ^ 23) * ?e - a\<bar> \<le> 2 powi (flog2 a - 24)" by metis
qed

definition float_normal :: "rat \<Rightarrow> bool" where
  "float_normal r \<longleftrightarrow> r \<noteq> 0 \<and> - 126 \<le> flog2 \<bar>r\<bar> \<and> flog2 \<bar>r\<bar> \<le> 127"

lemma convertFloat_length [simp]: "length (convertFloat v) = 4"
  by (simp add: convertFloat_def Let_def split: jsnum.splits)

lemma deconvert_convertFloat:
  assumes "float_normal r" "float_mantissa \<bar>r\<bar> < 2 ^ 23"
  shows "deconvertFloat (convertFloat (Fin r)) =
           Fin (sgn r * (1 + of_int (float_mantissa \<bar>r\<bar>) / 2 ^ 23) * 2 powi flog2 \<bar>r\<bar>)"
proof -
  let ?e = "flog2 \<bar>r\<bar>" and ?m = "float_mantissa \<bar>r\<bar>"
  let ?s = "if r < 0 then 1 else 0 :: nat"
  have r: "r \<noteq> 0" "\<not> (?e > 127 \<or> ?e < - 126)" using assms(1) by (auto simp: float_normal_def)
  have m: "0 \<le> ?m" using float_mantissa_bounds(1) r(1) by simp
  have t: "nat (take_bit 23 ?m) = nat ?m"
    using m assms(2) by (simp add: take_bit_int_eq_self)
  have x: "nat (?e + 127) < 255" "0 < nat (?e + 127)" "int (nat (?e + 127)) - 127 = ?e"
    using r(2) by auto
  define bits where "bits = push_bit 31 ?s OR push_bit 23 (nat (?e + 127)) OR nat ?m"
  have conv: "convertFloat (Fin r) = [of_nat (drop_bit 24 bits), of_nat (take_bit 8 (drop_bit 16 bits)),
      of_nat (take_bit 8 (drop_bit 8 bits)), of_nat (take_bit 8 bits)]"
    unfolding convertFloat_def jsnum.case Let_def float_mantissa_def [symmetric] t bits_def [symmetric]
    using r by (simp del: of_nat_take_bit)
  have mm: "nat ?m < 2 ^ 23" using assms(2) m by (simp add: nat_less_iff)
  have s: "?s < 2" by simp
  show ?thesis
    unfolding conv deconvertFloat_fields [OF s x(2,1) mm bits_def] Let_def x(3)
    using m r(1) by (simp add: sgn_if algebra_simps)
qed

definition float32_exact :: "rat \<Rightarrow> bool" where
  "float32_exact r \<longleftrightarrow>
     float_normal r \<and> rat_is_int ((\<bar>r\<bar> / 2 powi flog2 \<bar>r\<bar> - 1) * 2 ^ 23)"

lemma deconvert_float32:
  assumes "float32_exact r"
  shows "deconvertFloat (convertFloat (Fin r)) = Fin r"
proof -
  let ?e = "flog2 \<bar>r\<bar>" and ?m = "float_mantissa \<bar>r\<bar>"
  have n: "float_normal r" using assms by (simp add: float32_exact_def)
  then have r: "0 < \<bar>r\<bar>" by (simp add: float_normal_def)
  define y where "y = (\<bar>r\<bar> / 2 powi ?e - 1) * 2 ^ 23"
  have y: "y = of_int \<lfloor>y\<rfloor>" using assms unfolding float32_exact_def rat_is_int_def y_def by (elim conjE) (rule sym)
  then have m: "of_int ?m = y"
    by (metis float_mantissa_def js_round_int y_def)
  define z where "z = \<bar>r\<bar> / 2 powi ?e"
  have "z < 2"
    using flog2_bounds(2) [OF r] by (simp add: z_def pos_divide_less_eq power_int_add)
  then have "y < 2 ^ 23" by (simp add: y_def z_def [symmetric])
  then have "of_int ?m < (of_int (2 ^ 23) :: rat)" by (simp add: m)
  then have "?m < 2 ^ 23" by (simp only: of_int_less_iff)
  note deconvert_convertFloat [OF n this]
  moreover have "(1 + of_int ?m / 2 ^ 23) * 2 powi ?e = \<bar>r\<bar>"
    unfolding m y_def by (subst nonzero_mult_div_cancel_right) simp_all
  ultimately show ?thesis
    by (simp add: mult.assoc sgn_if abs_if split: if_splits)
qed

end
