(* ===== verification/Js_Double.thy ===== *)
theory Js_Double
  imports Json_Number
begin

text \<open>
  Arithmetic on doubles: the exact rational result rounded to 53 significant bits, ties to even, with
  gradual underflow and overflow to the infinities (IEEE 754 binary64, as ECMAScript prescribes).
\<close>

definition round_even :: "rat \<Rightarrow> int" where
  "round_even x =
     (let f = \<lfloor>x\<rfloor>; d = x - of_int f
      in if d < 1 / 2 \<or> (d = 1 / 2 \<and> even f) then f else f + 1)"

definition to_double :: "rat \<Rightarrow> jsnum" where
  "to_double r =
     (if r = 0 then Fin 0
      else let e = max (flog2 \<bar>r\<bar>) (- 1022);
               ulp = 2 powi (e - 52);
               v = of_int (round_even (r / ulp)) * ulp
           in if \<bar>v\<bar> \<ge> 2 powi 1024 then (if r < 0 then NegInf else PosInf) else Fin v)"

definition num_neg :: "jsnum \<Rightarrow> jsnum" where
  "num_neg a = (case a of Fin r \<Rightarrow> Fin (- r) | PosInf \<Rightarrow> NegInf | NegInf \<Rightarrow> PosInf | NotNum \<Rightarrow> NotNum)"

definition num_add :: "jsnum \<Rightarrow> jsnum \<Rightarrow> jsnum" where
  "num_add a b =
     (case (a, b) of
        (Fin r, Fin s) \<Rightarrow> to_double (r + s)
      | (NotNum, _) \<Rightarrow> NotNum | (_, NotNum) \<Rightarrow> NotNum
      | (PosInf, NegInf) \<Rightarrow> NotNum | (NegInf, PosInf) \<Rightarrow> NotNum
      | (PosInf, _) \<Rightarrow> PosInf | (NegInf, _) \<Rightarrow> NegInf
      | (_, i) \<Rightarrow> i)"

definition num_sub :: "jsnum \<Rightarrow> jsnum \<Rightarrow> jsnum" where
  "num_sub a b = num_add a (num_neg b)"

definition num_sgn :: "jsnum \<Rightarrow> int" where
  "num_sgn a = (case a of Fin r \<Rightarrow> (if r < 0 then - 1 else if r = 0 then 0 else 1) | PosInf \<Rightarrow> 1 | NegInf \<Rightarrow> - 1 | NotNum \<Rightarrow> 0)"

definition num_mul :: "jsnum \<Rightarrow> jsnum \<Rightarrow> jsnum" where
  "num_mul a b =
     (case (a, b) of
        (Fin r, Fin s) \<Rightarrow> to_double (r * s)
      | (NotNum, _) \<Rightarrow> NotNum | (_, NotNum) \<Rightarrow> NotNum
      | _ \<Rightarrow> (let s = num_sgn a * num_sgn b in if s = 0 then NotNum else if s > 0 then PosInf else NegInf))"

text \<open>A zero divisor is taken as +0.\<close>

definition num_div :: "jsnum \<Rightarrow> jsnum \<Rightarrow> jsnum" where
  "num_div a b =
     (case (a, b) of
        (NotNum, _) \<Rightarrow> NotNum | (_, NotNum) \<Rightarrow> NotNum
      | (Fin r, Fin s) \<Rightarrow> if s \<noteq> 0 then to_double (r / s)
                          else if r = 0 then NotNum else if r < 0 then NegInf else PosInf
      | (Fin _, _) \<Rightarrow> Fin 0
      | (_, Fin s) \<Rightarrow> if s < 0 then num_neg a else a
      | _ \<Rightarrow> NotNum)"

definition num_less :: "jsnum \<Rightarrow> jsnum \<Rightarrow> bool" where
  "num_less a b =
     (case (a, b) of
        (Fin r, Fin s) \<Rightarrow> r < s
      | (NotNum, _) \<Rightarrow> False | (_, NotNum) \<Rightarrow> False
      | (NegInf, NegInf) \<Rightarrow> False | (NegInf, _) \<Rightarrow> True
      | (_, PosInf) \<Rightarrow> a \<noteq> PosInf
      | _ \<Rightarrow> False)"

definition num_round :: "jsnum \<Rightarrow> jsnum" where
  "num_round a = (case a of Fin r \<Rightarrow> Fin (of_int (js_round r)) | i \<Rightarrow> i)"

definition num_finite :: "jsnum \<Rightarrow> bool" where
  "num_finite a = (case a of Fin _ \<Rightarrow> True | _ \<Rightarrow> False)"

definition num_truthy :: "jsnum \<Rightarrow> bool" where
  "num_truthy a \<longleftrightarrow> a \<noteq> Fin 0 \<and> a \<noteq> NotNum"

lemma round_even_ge: "of_int a \<le> x \<Longrightarrow> a \<le> round_even x"
  by (auto simp: round_even_def Let_def le_floor_iff add_increasing2)

lemma round_even_le: "x \<le> of_int b \<Longrightarrow> round_even x \<le> b"
proof -
  assume x: "x \<le> of_int b"
  show ?thesis
  proof (cases "x = of_int b")
    case False
    then have "\<lfloor>x\<rfloor> < b" using x by (simp add: floor_less_iff)
    then show ?thesis by (auto simp: round_even_def Let_def)
  qed (simp add: round_even_def Let_def)
qed

lemma round_even_int [simp]: "round_even (of_int i) = i"
  by (simp add: round_even_def Let_def)

lemma to_double_bound:
  assumes "\<bar>r\<bar> \<le> 2 powi k" "- 1022 \<le> k" "k < 1024"
  shows "\<exists>v. to_double r = Fin v \<and> \<bar>v\<bar> \<le> 2 powi k"
proof (cases "r = 0")
  case False
  define e where "e = max (flog2 \<bar>r\<bar>) (- 1022)"
  define u where "u = (2 :: rat) powi (e - 52)"
  have u: "0 < u" by (simp add: u_def)
  have "2 powi flog2 \<bar>r\<bar> \<le> \<bar>r\<bar>" using flog2_bounds(1) [of "\<bar>r\<bar>"] False by simp
  then have "(2 :: rat) powi flog2 \<bar>r\<bar> \<le> 2 powi k" using assms(1) by linarith
  then have "flog2 \<bar>r\<bar> \<le> k"
    using power_int_strict_increasing [of k "flog2 \<bar>r\<bar>" "2 :: rat"] by (meson leD leI one_less_numeral_iff semiring_norm(76))
  then have ek: "e \<le> k" using assms(2) by (simp add: e_def)
  define N where "N = (2 :: int) ^ nat (k - e + 52)"
  have N: "of_int N * u = 2 powi k"
  proof -
    have "of_int N = (2 :: rat) powi (k - e + 52)"
      using ek by (simp add: N_def power_int_def)
    then show ?thesis
      using power_int_add [of "2 :: rat" "k - e + 52" "e - 52"] by (simp add: u_def)
  qed
  have q: "\<bar>r / u\<bar> \<le> of_int N"
    using assms(1) u by (simp add: N [symmetric] pos_divide_le_eq)
  have "of_int (- N) \<le> r / u" "r / u \<le> of_int N"
    using q by (simp_all only: of_int_minus abs_le_iff) linarith+
  then have m: "\<bar>round_even (r / u)\<bar> \<le> N"
    using round_even_ge [of "- N" "r / u"] round_even_le [of "r / u" N] by (simp add: abs_le_iff)
  define v where "v = of_int (round_even (r / u)) * u"
  have "\<bar>v\<bar> = of_int \<bar>round_even (r / u)\<bar> * u" using u by (simp add: v_def abs_mult)
  also have "\<dots> \<le> of_int N * u" using m u by (intro mult_right_mono) simp_all
  finally have v: "\<bar>v\<bar> \<le> 2 powi k" by (simp add: N)
  also have "\<dots> < 2 powi 1024" using assms(3) by (intro power_int_strict_increasing) simp_all
  finally have "\<not> 2 powi 1024 \<le> \<bar>v\<bar>" by simp
  then have "to_double r = Fin v"
    using False by (simp add: to_double_def Let_def flip: e_def u_def v_def)
  with v show ?thesis by blast
qed (simp add: to_double_def)

text \<open>A number whose quotient by the unit in the last place is an integer is not rounded.\<close>

lemma to_double_exact:
  assumes "r = of_int m * 2 powi j" "\<bar>m\<bar> \<le> 2 ^ 53" "- 1022 \<le> j" "j \<le> 900"
  shows "to_double r = Fin r"
proof (cases "r = 0")
  case False
  define e where "e = max (flog2 \<bar>r\<bar>) (- 1022)"
  define u where "u = (2 :: rat) powi (e - 52)"
  have u: "0 < u" by (simp add: u_def)
  have low: "2 powi flog2 \<bar>r\<bar> \<le> \<bar>r\<bar>" using flog2_bounds(1) [of "\<bar>r\<bar>"] False by simp
  have "\<bar>r\<bar> = of_int \<bar>m\<bar> * 2 powi j" by (simp add: assms(1) abs_mult)
  also have "\<dots> \<le> 2 ^ 53 * 2 powi j"
    using assms(2) by (intro mult_right_mono) (simp_all flip: of_int_abs add: of_int_le_numeral_power_cancel_iff)
  also have "\<dots> = 2 powi (j + 53)" by (simp add: power_int_add)
  finally have up: "\<bar>r\<bar> \<le> 2 powi (j + 53)" .
  have "\<exists>i. r / u = of_int i"
  proof (cases "\<bar>m\<bar> = 2 ^ 53")
    case True
    then have "\<bar>r\<bar> = 2 powi (j + 53)" by (simp add: assms(1) abs_mult power_int_add flip: of_int_abs)
    then have "flog2 \<bar>r\<bar> = j + 53" by (intro flog2_unique) (simp_all add: power_int_add)
    then have "e = j + 53" using assms(3) by (simp add: e_def)
    then have "u = 2 powi j * 2" by (simp add: u_def power_int_add)
    moreover have "even m" using True by (metis dvd_abs_iff even_numeral even_power zero_less_numeral)
    ultimately show ?thesis by (intro exI [of _ "m div 2"]) (auto simp: assms(1) elim!: evenE)
  next
    case m: False
    then have "\<bar>m\<bar> < 2 ^ 53" using assms(2) by linarith
    then have "(of_int \<bar>m\<bar> :: rat) < of_int (2 ^ 53)" by (simp only: of_int_less_iff)
    then have "\<bar>r\<bar> < 2 powi (j + 53)" by (simp add: assms(1) abs_mult power_int_add)
    with low have "(2 :: rat) powi flog2 \<bar>r\<bar> < 2 powi (j + 53)" by linarith
    then have "flog2 \<bar>r\<bar> < j + 53"
      using power_int_increasing [of "j + 53" "flog2 \<bar>r\<bar>" "2 :: rat"] by (meson leD leI one_le_numeral)
    then have ej: "e - 52 \<le> j" using assms(3) by (simp add: e_def)
    have "2 powi j = 2 ^ nat (j - (e - 52)) * u"
      using power_int_add [of "2 :: rat" "j - (e - 52)" "e - 52"] ej by (simp add: u_def power_int_def)
    then show ?thesis
      using u by (intro exI [of _ "m * 2 ^ nat (j - (e - 52))"]) (simp add: assms(1))
  qed
  then obtain i where i: "r / u = of_int i" by blast
  then have r: "of_int (round_even (r / u)) * u = r" using u by (simp add: i) (simp flip: i)
  have "(2 :: rat) powi (j + 53) < 2 powi 1024" using assms(4) by (intro power_int_strict_increasing) simp_all
  with up have "\<not> 2 powi 1024 \<le> \<bar>r\<bar>" by simp
  then show ?thesis
    using False r by (simp add: to_double_def Let_def flip: e_def u_def)
qed (simp add: to_double_def)

lemma to_double_int: "\<bar>i\<bar> \<le> 2 ^ 53 \<Longrightarrow> to_double (of_int i) = Fin (of_int i)"
  by (rule to_double_exact [of _ i 0]) simp_all

end
