(* ===== verification/Buffer_Util.thy ===== *)
theory Buffer_Util
  imports Sonic_Prelude
begin

text \<open>
  \<open>projects/ts/src/ws/util/BufferUtil.ts\<close>: cutting an array into chunks and putting the packet key
  in front of a payload. With a chunk size of 0 the source's loop never ends on a non-empty array:
  that is the value \<open>None\<close> of \<open>splitArray\<close>.
\<close>

fun chunks :: "nat \<Rightarrow> 'a list \<Rightarrow> 'a list list" where
  "chunks n xs = (if n = 0 \<or> xs = [] then [] else take n xs # chunks n (drop n xs))"

declare chunks.simps [simp del]

definition splitArray :: "'a list \<Rightarrow> nat \<Rightarrow> 'a list list option" where
  "splitArray arr n = (if arr \<noteq> [] \<and> n = 0 then None else Some (chunks n arr))"

definition toPacketBuffer :: "nat \<Rightarrow> u8 list \<Rightarrow> u8 list" where
  "toPacketBuffer code data = of_nat code # data"

definition splitBuffer :: "u8 list \<Rightarrow> nat \<Rightarrow> nat list list option" where
  "splitBuffer arr x = splitArray (map unat arr) x"

lemma chunks_Nil [simp]: "chunks n [] = []"
  by (simp add: chunks.simps)

lemma chunks_step: "0 < n \<Longrightarrow> xs \<noteq> [] \<Longrightarrow> chunks n xs = take n xs # chunks n (drop n xs)"
  by (simp add: chunks.simps [of n xs])

lemma concat_chunks: "0 < n \<Longrightarrow> concat (chunks n xs) = xs"
  by (induction n xs rule: chunks.induct) (subst chunks.simps, auto)

lemma chunks_length: "0 < n \<Longrightarrow> c \<in> set (chunks n xs) \<Longrightarrow> 0 < length c \<and> length c \<le> n"
proof (induction n xs rule: chunks.induct)
  case (1 n xs)
  then show ?case
    by (cases "xs = []") (auto simp: chunks_step)
qed

lemma toPacketBuffer_parts:
  "code < 256 \<Longrightarrow> unat (hd (toPacketBuffer code data)) = code \<and> tl (toPacketBuffer code data) = data"
  by (simp add: toPacketBuffer_def unat_of_nat_u8)

end
