(* ===== verification/Json_Codec.thy ===== *)
theory Json_Codec
  imports Json_Number Text_Codec Buffer_Util
begin

unbundle bit_operations_syntax

text \<open>
  \<open>compressJSON\<close> and \<open>decompressJSON\<close> of \<open>projects/ts/src/ws/util/JSONUtil.ts\<close>. An encoded value has
  five parts: the byte lengths of the boolean bitmap and of the type map, the two maps (one bit per
  boolean, three bits per value in preorder), and the payload. The encoder's three growing arrays
  are the triple an encoding contributes (\<open>json_writer\<close>); the decoder's three cursors are the
  record \<open>json_dec\<close> (the unread types and booleans stand for the two indices).
\<close>

section \<open>Bit strings\<close>

definition byte_bits :: "nat \<Rightarrow> bool list" where
  "byte_bits b = map (\<lambda>i. bit b (7 - i)) [0..<8]"

definition bytesToBits :: "u8 list \<Rightarrow> bool list" where
  "bytesToBits bytes = concat (map (\<lambda>b. byte_bits (unat b)) bytes)"

text \<open>\<open>parseInt(bits, 2)\<close> and the padding of a last group on the right.\<close>

definition bits_val :: "bool list \<Rightarrow> nat" where
  "bits_val bs = foldl (\<lambda>a b. 2 * a + of_bool b) 0 bs"

definition padEnd :: "nat \<Rightarrow> bool list \<Rightarrow> bool list" where
  "padEnd n bs = bs @ replicate (n - length bs) False"

definition bitsToBytes :: "bool list \<Rightarrow> u8 list" where
  "bitsToBytes bits = map (\<lambda>g. of_nat (bits_val (padEnd 8 g))) (chunks 8 bits)"

definition type_bits :: "nat \<Rightarrow> bool list" where
  "type_bits t = [bit t 2, bit t 1, bit t 0]"

definition packTypeBits :: "nat list \<Rightarrow> u8 list" where
  "packTypeBits types = bitsToBytes (concat (map type_bits types))"

text \<open>
  The caller passes \<open>typeBytes.length * 8 / 3\<close>, so the loop runs the ceiling of that; the last slice
  may have fewer than three bits.
\<close>

definition unpackTypeBits :: "u8 list \<Rightarrow> nat list" where
  "unpackTypeBits bytes =
     (let bitStr = bytesToBits bytes
      in map (\<lambda>i. bits_val (js_slice bitStr (i * 3) (i * 3 + 3))) [0 ..< (length bytes * 8 + 2) div 3])"

section \<open>Strings\<close>

definition js_rel :: "nat \<Rightarrow> int \<Rightarrow> nat" where
  "js_rel len a = (if a < 0 then nat (int len + a) else min (nat a) len)"

definition js_subarray :: "'a list \<Rightarrow> int \<Rightarrow> int \<Rightarrow> 'a list" where
  "js_subarray xs a b = js_slice xs (js_rel (length xs) a) (js_rel (length xs) b)"

definition encodeString :: "jsstr \<Rightarrow> u8 list result" where
  "encodeString str =
     (let data = utf8_encode str
      in bindR (json_convertVarInt (int (length data))) (\<lambda>len. Inr (len @ data)))"

definition decodeString :: "u8 list \<Rightarrow> int \<Rightarrow> (jsstr \<times> int) result" where
  "decodeString bytes offset =
     bindR (json_readVarInt bytes offset) (\<lambda>(off, len).
       Inr (utf8_decode (js_subarray bytes off (off + len)), off + len - offset))"

section \<open>Encoding\<close>

type_synonym json_writer = "bool list \<times> u8 list \<times> nat list"

definition wr_app :: "json_writer \<Rightarrow> json_writer \<Rightarrow> json_writer" where
  "wr_app a b = (case a of (b1, p1, t1) \<Rightarrow> case b of (b2, p2, t2) \<Rightarrow> (b1 @ b2, p1 @ p2, t1 @ t2))"

definition encodeNumber :: "jsnum \<Rightarrow> json_writer result" where
  "encodeNumber n =
     (case n of
        Fin r \<Rightarrow> if rat_is_int r
                 then bindR (json_convertVarInt (mapZigZag \<lfloor>r\<rfloor>)) (\<lambda>p. Inr ([], p, [2]))
                 else Inr ([], convertFloat n, [3])
      | _ \<Rightarrow> Inr ([], convertFloat n, [3]))"

text \<open>A typed array is \<open>typeof 'object'\<close>: its keys are its indices.\<close>

function encodeValue :: "jsval \<Rightarrow> json_writer result"
  and encodeItems :: "jsval list \<Rightarrow> json_writer result"
  and encodeEntries :: "(jsstr \<times> jsval) list \<Rightarrow> json_writer result"
where
  "encodeValue JNull = Inr ([], [], [0])"
| "encodeValue (JBool b) = Inr ([b], [], [1])"
| "encodeValue (JNum n) = encodeNumber n"
| "encodeValue (JStr s) = bindR (encodeString s) (\<lambda>p. Inr ([], p, [4]))"
| "encodeValue (JArr items) =
     bindR (json_convertVarInt (int (length items))) (\<lambda>p.
       bindR (encodeItems items) (\<lambda>w. Inr (wr_app ([], p, [5]) w)))"
| "encodeValue (JObj kvs) =
     bindR (json_convertVarInt (int (length kvs))) (\<lambda>p.
       bindR (encodeEntries kvs) (\<lambda>w. Inr (wr_app ([], p, [6]) w)))"
| "encodeValue (JBytes bs) =
     bindR (json_convertVarInt (int (length bs))) (\<lambda>p.
       bindR (mapR (\<lambda>(i, b). bindR (encodeString (js_of_nat i)) (\<lambda>k.
                bindR (encodeNumber (Fin (of_nat (unat b)))) (\<lambda>w. Inr (wr_app ([], k, []) w))))
               (enumerate 0 bs))
         (\<lambda>ws. Inr (foldl wr_app ([], p, [6]) ws)))"
| "encodeValue JUndef = Inl (Error ''Unsupported type'')"
| "encodeItems [] = Inr ([], [], [])"
| "encodeItems (v # vs) =
     bindR (encodeValue v) (\<lambda>w. bindR (encodeItems vs) (\<lambda>ws. Inr (wr_app w ws)))"
| "encodeEntries [] = Inr ([], [], [])"
| "encodeEntries ((k, v) # kvs) =
     bindR (encodeString k) (\<lambda>p. bindR (encodeValue v) (\<lambda>w.
       bindR (encodeEntries kvs) (\<lambda>ws. Inr (wr_app (wr_app ([], p, []) w) ws))))"
  by pat_completeness auto
termination
  by (relation "measure (\<lambda>x. case x of Inl v \<Rightarrow> size v | Inr (Inl vs) \<Rightarrow> size_list size vs
        | Inr (Inr kvs) \<Rightarrow> size_list (size_prod (\<lambda>_. 0) size) kvs)") auto

definition compressJSON :: "jsval \<Rightarrow> u8 list result" where
  "compressJSON value =
     bindR (encodeValue value) (\<lambda>(bools, payload, typeList).
       let boolBytes = map (\<lambda>slice. of_nat (compressBools slice)) (chunks 8 bools);
           typeBytes = packTypeBits typeList
       in bindR (json_convertVarInt (int (length boolBytes))) (\<lambda>h1.
            bindR (json_convertVarInt (int (length typeBytes))) (\<lambda>h2.
              Inr (h1 @ h2 @ boolBytes @ typeBytes @ payload))))"

section \<open>Decoding\<close>

record json_dec =
  dec_offset :: int
  dec_types :: "nat list"
  dec_bools :: "bool list"

primrec dec_items ::
  "(json_dec \<Rightarrow> (jsval \<times> json_dec) result) \<Rightarrow> nat \<Rightarrow> json_dec \<Rightarrow> (jsval list \<times> json_dec) result" where
  "dec_items dec 0 s = Inr ([], s)"
| "dec_items dec (Suc n) s =
     bindR (dec s) (\<lambda>(v, s'). bindR (dec_items dec n s') (\<lambda>(vs, s''). Inr (v # vs, s'')))"

primrec dec_entries ::
  "u8 list \<Rightarrow> (json_dec \<Rightarrow> (jsval \<times> json_dec) result) \<Rightarrow> nat \<Rightarrow> (jsstr \<times> jsval) list \<Rightarrow> json_dec
     \<Rightarrow> ((jsstr \<times> jsval) list \<times> json_dec) result" where
  "dec_entries bytes dec 0 obj s = Inr (obj, s)"
| "dec_entries bytes dec (Suc n) obj s =
     bindR (decodeString bytes (dec_offset s)) (\<lambda>(key, keyLen).
       bindR (dec (s\<lparr>dec_offset := dec_offset s + keyLen\<rparr>)) (\<lambda>(v, s').
         dec_entries bytes dec n (obj_set obj key v) s'))"

text \<open>The argument counts the levels left: \<open>decodeValue(depth)\<close> has \<open>501 - depth\<close> of them.\<close>

primrec decodeValue :: "nat \<Rightarrow> u8 list \<Rightarrow> json_dec \<Rightarrow> (jsval \<times> json_dec) result" where
  "decodeValue 0 bytes s = Inl (Error ''JSON array too deep.'')"
| "decodeValue (Suc levels) bytes s0 =
     (case dec_types s0 of
        [] \<Rightarrow> Inl (Error ''Unknown type'')
      | ty # tys \<Rightarrow>
          (let s = s0\<lparr>dec_types := tys\<rparr>; offset = dec_offset s
           in if ty = 0 then Inr (JNull, s)
              else if ty = 1 then
                Inr (case dec_bools s of [] \<Rightarrow> (JUndef, s) | b # bs \<Rightarrow> (JBool b, s\<lparr>dec_bools := bs\<rparr>))
              else if ty = 2 then
                bindR (json_readVarInt bytes offset) (\<lambda>(off, n).
                  Inr (JNum (Fin (of_int (demapZigZag n))), s\<lparr>dec_offset := off\<rparr>))
              else if ty = 3 then
                Inr (JNum (deconvertFloat (js_subarray bytes offset (offset + 4))),
                     s\<lparr>dec_offset := offset + 4\<rparr>)
              else if ty = 4 then
                bindR (decodeString bytes offset) (\<lambda>(v, len).
                  Inr (JStr v, s\<lparr>dec_offset := offset + len\<rparr>))
              else if ty = 5 then
                bindR (json_readVarInt bytes offset) (\<lambda>(off, len).
                  bindR (dec_items (decodeValue levels bytes) (nat len) (s\<lparr>dec_offset := off\<rparr>))
                    (\<lambda>(vs, s'). Inr (JArr vs, s')))
              else if ty = 6 then
                bindR (json_readVarInt bytes offset) (\<lambda>(off, numKeys).
                  bindR (dec_entries bytes (decodeValue levels bytes) (nat numKeys) []
                          (s\<lparr>dec_offset := off\<rparr>))
                    (\<lambda>(kvs, s'). Inr (JObj kvs, s')))
              else Inl (Error ''Unknown type'')))"

definition decompressJSON :: "u8 list \<Rightarrow> jsval result" where
  "decompressJSON bytes =
     bindR (json_readVarInt bytes 0) (\<lambda>(off1, boolByteLen).
       bindR (json_readVarInt bytes off1) (\<lambda>(off2, typeByteLen).
         let boolStream = concat (map (\<lambda>i. decompressBools (byte_or_zero bytes (off2 + int i)))
                                      [0 ..< nat boolByteLen]);
             offset = off2 + int (nat boolByteLen);
             typeList = unpackTypeBits (js_subarray bytes offset (offset + typeByteLen))
         in bindR (decodeValue 501 bytes
                    \<lparr>dec_offset = offset + typeByteLen, dec_types = typeList, dec_bools = boolStream\<rparr>)
              (\<lambda>(v, _). Inr v)))"

section \<open>The bit maps\<close>

lemma chunks_padded:
  assumes "\<And>c. length c \<le> 8 \<Longrightarrow> length (f c) = 8 \<and> take (length c) (f c) = c"
  shows "\<exists>pad. concat (map f (chunks 8 xs)) = xs @ pad"
proof (induction xs rule: length_induct)
  case (1 xs)
  show ?case
  proof (cases "xs = []")
    case False
    then have c: "chunks 8 xs = take 8 xs # chunks 8 (drop 8 xs)" by (simp add: chunks_step)
    have f: "length (f (take 8 xs)) = 8" "take (length (take 8 xs)) (f (take 8 xs)) = take 8 xs"
      using assms [of "take 8 xs"] by simp_all
    show ?thesis
    proof (cases "8 \<le> length xs")
      case True
      obtain pad where "concat (map f (chunks 8 (drop 8 xs))) = drop 8 xs @ pad"
        using "1.IH" False by (metis True diff_less length_drop length_greater_0_conv zero_less_numeral)
      moreover have "f (take 8 xs) = take 8 xs" using f True by simp
      ultimately show ?thesis unfolding c by simp (metis append_assoc append_take_drop_id)
    next
      case False
      then have t: "take 8 xs = xs" "drop 8 xs = []" by simp_all
      have "f xs = xs @ drop (length xs) (f xs)"
        using f(2) unfolding t by (metis append_take_drop_id)
      then show ?thesis unfolding c t by auto
    qed
  qed simp
qed

lemma bits_val_snoc [simp]: "bits_val (bs @ [b]) = 2 * bits_val bs + of_bool b"
  by (simp add: bits_val_def)

lemma bits_val_Nil [simp]: "bits_val [] = 0"
  by (simp add: bits_val_def)

lemma bits_val_less: "bits_val bs < 2 ^ length bs"
  by (induction bs rule: rev_induct) auto

lemma bit_bits_val: "i < length bs \<Longrightarrow> bit (bits_val bs) (length bs - 1 - i) = bs ! i"
proof (induction bs arbitrary: i rule: rev_induct)
  case (snoc b bs)
  show ?case
  proof (cases "i < length bs")
    case True
    then obtain k where k: "length bs - i = Suc k" "length bs - 1 - i = k"
      by (metis Suc_diff_Suc diff_Suc_1 diff_commute)
    then show ?thesis
      using snoc.IH [OF True] True by (simp add: nth_append bit_Suc)
  next
    case False
    then have "i = length bs" using snoc.prems by simp
    then show ?thesis by (simp add: bit_0)
  qed
qed simp

lemma byte_bits_val: "length g = 8 \<Longrightarrow> byte_bits (unat (of_nat (bits_val g) :: u8)) = g"
proof -
  assume g: "length g = 8"
  have "bits_val g < 256" using bits_val_less [of g] g by simp
  then have "unat (of_nat (bits_val g) :: u8) = bits_val g" by (rule unat_of_nat_u8)
  then show ?thesis
    using g bit_bits_val [of _ g] by (intro nth_equalityI) (simp_all add: byte_bits_def)
qed

lemma bytesToBits_bitsToBytes: "\<exists>pad. bytesToBits (bitsToBytes bits) = bits @ pad"
proof -
  let ?f = "\<lambda>g. byte_bits (unat (of_nat (bits_val (padEnd 8 g)) :: u8))"
  have "length (?f c) = 8 \<and> take (length c) (?f c) = c" if "length c \<le> 8" for c
  proof -
    have "?f c = padEnd 8 c" using that by (intro byte_bits_val) (simp add: padEnd_def)
    then show ?thesis using that by (simp add: padEnd_def)
  qed
  then show ?thesis
    using chunks_padded [of ?f bits] by (simp add: bytesToBits_def bitsToBytes_def comp_def)
qed

lemma bool_stream:
  "\<exists>pad. concat (map (\<lambda>slice. decompressBools (compressBools slice)) (chunks 8 bools)) = bools @ pad"
  by (rule chunks_padded) (simp add: decompress_compressBools, simp add: decompressBools_def)

lemma type_bits_val: "t < 8 \<Longrightarrow> bits_val (type_bits t) = t"
proof -
  assume "t < 8"
  then consider "t = 0" | "t = 1" | "t = 2" | "t = 3" | "t = 4" | "t = 5" | "t = 6" | "t = 7" by linarith
  then show ?thesis by cases (simp_all add: type_bits_def bits_val_def bit_iff_odd)
qed

lemma concat_type_bits:
  "length (concat (map type_bits ts)) = 3 * length ts"
  "i < length ts \<Longrightarrow> take 3 (drop (i * 3) (concat (map type_bits ts) @ pad)) = type_bits (ts ! i)"
proof -
  show "length (concat (map type_bits ts)) = 3 * length ts"
    by (induction ts) (simp_all add: type_bits_def)
  show "i < length ts \<Longrightarrow> take 3 (drop (i * 3) (concat (map type_bits ts) @ pad)) = type_bits (ts ! i)"
  proof (induction ts arbitrary: i)
    case (Cons t ts)
    have l: "length (type_bits t) = 3" by (simp add: type_bits_def)
    show ?case
    proof (cases i)
      case (Suc k)
      then have "drop (i * 3) (type_bits t @ xs) = drop (k * 3) xs" for xs by (simp add: l)
      then show ?thesis using Cons.IH [of k] Cons.prems Suc by (simp del: drop_append take_append)
    qed (simp add: l)
  qed simp
qed

lemma unpack_packTypeBits:
  assumes "\<And>t. t \<in> set ts \<Longrightarrow> t < 8"
  shows "\<exists>pad. unpackTypeBits (packTypeBits ts) = ts @ pad"
proof -
  let ?bits = "concat (map type_bits ts)" and ?bytes = "packTypeBits ts"
  obtain pad where pad: "bytesToBits ?bytes = ?bits @ pad"
    using bytesToBits_bitsToBytes [of ?bits] by (auto simp: packTypeBits_def)
  have "length (bytesToBits bs) = 8 * length bs" for bs
    by (induction bs) (simp_all add: bytesToBits_def byte_bits_def)
  from this [of ?bytes] have len: "3 * length ts \<le> 8 * length ?bytes"
    by (simp add: pad concat_type_bits(1))
  have "take (length ts) (unpackTypeBits ?bytes) = ts"
  proof (rule nth_equalityI)
    show "length (take (length ts) (unpackTypeBits ?bytes)) = length ts"
      using len by (simp add: unpackTypeBits_def Let_def)
  next
    fix i
    assume "i < length (take (length ts) (unpackTypeBits ?bytes))"
    then have i: "i < length ts" "i < (length ?bytes * 8 + 2) div 3"
      using len by (simp_all add: unpackTypeBits_def Let_def)
    then show "take (length ts) (unpackTypeBits ?bytes) ! i = ts ! i"
      using concat_type_bits(2) [OF i(1), of pad] assms
      by (simp add: unpackTypeBits_def Let_def js_slice_def pad type_bits_val)
  qed
  then show ?thesis by (metis append_take_drop_id)
qed

section \<open>The round trip\<close>

fun json_depth :: "jsval \<Rightarrow> nat" where
  "json_depth (JArr vs) = Suc (foldr max (map json_depth vs) 0)"
| "json_depth (JObj kvs) = Suc (foldr max (map (\<lambda>kv. json_depth (snd kv)) kvs) 0)"
| "json_depth _ = 1"

text \<open>
  The values the format carries faithfully: integers of 31 bits, single-precision normal numbers,
  strings without lone surrogates or a leading byte order mark, and records without \<open>__proto__\<close>.
\<close>

definition json_str_ok :: "jsstr \<Rightarrow> bool" where
  "json_str_ok s \<longleftrightarrow> well_formed s \<and> \<not> starts_with_bom s \<and> length (utf8_encode s) < 2 ^ 31"

definition json_num_ok :: "jsnum \<Rightarrow> bool" where
  "json_num_ok n =
     (case n of
        Fin r \<Rightarrow> if rat_is_int r then - (2 ^ 30) \<le> r \<and> r < 2 ^ 30 else float32_exact r
      | _ \<Rightarrow> False)"

fun json_ok :: "jsval \<Rightarrow> bool" where
  "json_ok JUndef = False"
| "json_ok JNull = True"
| "json_ok (JBool _) = True"
| "json_ok (JNum n) = json_num_ok n"
| "json_ok (JStr s) = json_str_ok s"
| "json_ok (JArr vs) = (length vs < 2 ^ 31 \<and> list_all json_ok vs)"
| "json_ok (JObj kvs) =
     (length kvs < 2 ^ 31 \<and> obj_wf kvs
        \<and> list_all (\<lambda>kv. json_str_ok (fst kv) \<and> fst kv \<noteq> proto_key \<and> json_ok (snd kv)) kvs)"
| "json_ok (JBytes _) = False"

lemma js_subarray_mid:
  "a = int (length pre) \<Longrightarrow> b = a + int (length xs) \<Longrightarrow> js_subarray (pre @ xs @ rest) a b = xs"
  by (simp add: js_subarray_def js_rel_def nat_add_distrib js_slice_mid)

lemma encodeString_ok:
  "json_str_ok s \<Longrightarrow> encodeString s = Inr (varint_digits (length (utf8_encode s)) @ utf8_encode s)"
  by (simp add: encodeString_def json_str_ok_def Let_def json_convertVarInt_ok)

lemma decodeString_enc:
  assumes "json_str_ok s" "encodeString s = Inr p"
  shows "decodeString (pre @ p @ rest) (int (length pre)) = Inr (s, int (length p))"
proof -
  let ?u = "utf8_encode s"
  let ?d = "varint_digits (length ?u)"
  have u: "length ?u < 2 ^ 31" "utf8_decode ?u = s"
    using assms(1) by (simp_all add: json_str_ok_def utf8_decode_encode)
  have p: "p = ?d @ ?u" using assms encodeString_ok by simp
  have "js_subarray (pre @ p @ rest) (int (length pre + length ?d))
          (int (length pre + length ?d) + int (length ?u)) = ?u"
    using js_subarray_mid [of _ "pre @ ?d" _ ?u rest] by (simp add: p)
  then show ?thesis
    using json_readVarInt_digits [OF u(1), of pre "?u @ rest"] u(2)
    by (simp add: decodeString_def p)
qed

interpretation json_str: offset_codec
  "\<lambda>s. varint_digits (length (utf8_encode s)) @ utf8_encode s"
  "\<lambda>bytes off. bindR (decodeString bytes (int off)) (\<lambda>(s, n). Inr (off + nat n, s))"
  json_str_ok
  using decodeString_enc [OF _ encodeString_ok] by unfold_locales force

lemma encodeNumber_ok:
  "json_num_ok n \<Longrightarrow> \<exists>p t. encodeNumber n = Inr ([], p, [t]) \<and>
     (\<forall>levels pre rest off tys bls. off = int (length pre) \<longrightarrow>
        decodeValue (Suc levels) (pre @ p @ rest) \<lparr>dec_offset = off, dec_types = t # tys, dec_bools = bls\<rparr>
          = Inr (JNum n, \<lparr>dec_offset = int (length pre + length p), dec_types = tys, dec_bools = bls\<rparr>))"
proof -
  assume ok: "json_num_ok n"
  then obtain r where n: "n = Fin r" by (cases n) (simp_all add: json_num_ok_def)
  show ?thesis
  proof (cases "rat_is_int r")
    case True
    define i where "i = \<lfloor>r\<rfloor>"
    have r: "r = of_int i" using True unfolding rat_is_int_def i_def by (rule sym)
    have "of_int (- (2 ^ 30)) \<le> (of_int i :: rat)" "(of_int i :: rat) < of_int (2 ^ 30)"
      using ok True by (simp_all add: json_num_ok_def n r)
    then have i: "- (2 ^ 30) \<le> i" "i < 2 ^ 30"
      by (simp_all only: of_int_le_iff of_int_less_iff)
    note z = mapZigZag_range [OF i] demap_mapZigZag [OF i]
    show ?thesis
      unfolding n r using z
      by (simp add: encodeNumber_def json_convertVarInt_ok json_readVarInt_digits Let_def nat_less_iff)
  next
    case False
    then have "float32_exact r" using ok by (simp add: json_num_ok_def n)
    then have d: "deconvertFloat (convertFloat (Fin r)) = Fin r" by (rule deconvert_float32)
    have "js_subarray (pre @ convertFloat (Fin r) @ rest) (int (length pre)) (int (length pre) + 4)
        = convertFloat (Fin r)" for pre rest
      by (rule js_subarray_mid) simp_all
    then show ?thesis
      using False by (simp add: encodeNumber_def n Let_def d add.commute)
  qed
qed

lemma foldr_max_le: "foldr max xs 0 \<le> n \<longleftrightarrow> (\<forall>x \<in> set xs. x \<le> (n :: nat))"
  by (induction xs) auto

text \<open>A step of the decoder that consumes exactly one contribution of the encoder.\<close>

definition consumes :: "(u8 list \<Rightarrow> json_dec \<Rightarrow> ('a \<times> json_dec) result) \<Rightarrow> 'a \<Rightarrow> json_writer \<Rightarrow> bool" where
  "consumes dec v w =
     (case w of (b, p, t) \<Rightarrow> \<forall>pre rest tys bls off. off = int (length pre) \<longrightarrow>
        dec (pre @ p @ rest) \<lparr>dec_offset = off, dec_types = t @ tys, dec_bools = b @ bls\<rparr>
          = Inr (v, \<lparr>dec_offset = int (length pre + length p), dec_types = tys, dec_bools = bls\<rparr>))"

lemma consumesD:
  "consumes dec v (b, p, t) \<Longrightarrow> off = int (length pre) \<Longrightarrow> bytes = pre @ p @ rest \<Longrightarrow>
   off' = int (length pre + length p) \<Longrightarrow> tys' = t @ tys \<Longrightarrow> bls' = b @ bls \<Longrightarrow>
   dec bytes \<lparr>dec_offset = off, dec_types = tys', dec_bools = bls'\<rparr>
     = Inr (v, \<lparr>dec_offset = off', dec_types = tys, dec_bools = bls\<rparr>)"
  by (simp add: consumes_def)

definition writes :: "json_writer result \<Rightarrow> (json_writer \<Rightarrow> bool) \<Rightarrow> bool" where
  "writes r P = (case r of Inl _ \<Rightarrow> False | Inr w \<Rightarrow> (\<forall>t \<in> set (snd (snd w)). t < 8) \<and> P w)"

lemma writes_Inr [simp]: "writes (Inr (b, p, t)) P \<longleftrightarrow> (\<forall>x \<in> set t. x < 8) \<and> P (b, p, t)"
  by (simp add: writes_def)

lemma writesE:
  assumes "writes r P"
  obtains b p t where "r = Inr (b, p, t)" "\<forall>x \<in> set t. x < 8" "P (b, p, t)"
  using assms by (auto simp: writes_def split: sum.splits)

lemma consumes_items_Cons:
  assumes "consumes dec v (b, p, t)" "consumes (\<lambda>bytes. dec_items (dec bytes) n) vs (bs, ps, ts)"
  shows "consumes (\<lambda>bytes. dec_items (dec bytes) (Suc n)) (v # vs) (b @ bs, p @ ps, t @ ts)"
  unfolding consumes_def prod.case
proof (intro allI impI)
  fix pre rest :: "u8 list" and tys :: "nat list" and bls :: "bool list" and off :: int
  assume off: "off = int (length pre)"
  let ?s = "\<lparr>dec_offset = int (length pre + length p), dec_types = ts @ tys, dec_bools = bs @ bls\<rparr>"
  have "dec (pre @ (p @ ps) @ rest) \<lparr>dec_offset = off, dec_types = (t @ ts) @ tys, dec_bools = (b @ bs) @ bls\<rparr>
      = Inr (v, ?s)"
    using off by (intro consumesD [OF assms(1), where pre = pre and rest = "ps @ rest"]) simp_all
  moreover have "dec_items (dec (pre @ (p @ ps) @ rest)) n ?s
      = Inr (vs, \<lparr>dec_offset = int (length pre + length (p @ ps)), dec_types = tys, dec_bools = bls\<rparr>)"
    by (intro consumesD [OF assms(2), where pre = "pre @ p" and rest = rest]) simp_all
  ultimately show "dec_items (dec (pre @ (p @ ps) @ rest)) (Suc n)
        \<lparr>dec_offset = off, dec_types = (t @ ts) @ tys, dec_bools = (b @ bs) @ bls\<rparr>
      = Inr (v # vs, \<lparr>dec_offset = int (length pre + length (p @ ps)), dec_types = tys, dec_bools = bls\<rparr>)"
    by simp
qed

lemma consumes_entries_Cons:
  assumes "json_str_ok k" "encodeString k = Inr pk" "consumes dec v (b, p, t)"
    and "consumes (\<lambda>bytes. dec_entries bytes (dec bytes) n (obj_set obj k v)) kvs (bs, ps, ts)"
  shows "consumes (\<lambda>bytes. dec_entries bytes (dec bytes) (Suc n) obj) kvs
           (b @ bs, pk @ p @ ps, t @ ts)"
  unfolding consumes_def prod.case
proof (intro allI impI)
  fix pre rest :: "u8 list" and tys :: "nat list" and bls :: "bool list" and off :: int
  assume off: "off = int (length pre)"
  let ?bytes = "pre @ (pk @ p @ ps) @ rest"
  let ?s = "\<lparr>dec_offset = int (length pre + length pk + length p), dec_types = ts @ tys, dec_bools = bs @ bls\<rparr>"
  have "decodeString ?bytes off = Inr (k, int (length pk))"
    using decodeString_enc [OF assms(1,2), of pre "p @ ps @ rest"] off by simp
  moreover have "dec ?bytes \<lparr>dec_offset = off + int (length pk), dec_types = (t @ ts) @ tys, dec_bools = (b @ bs) @ bls\<rparr>
      = Inr (v, ?s)"
    using off by (intro consumesD [OF assms(3), where pre = "pre @ pk" and rest = "ps @ rest"]) simp_all
  moreover have "dec_entries ?bytes (dec ?bytes) n (obj_set obj k v) ?s
      = Inr (kvs, \<lparr>dec_offset = int (length pre + length (pk @ p @ ps)), dec_types = tys, dec_bools = bls\<rparr>)"
    by (intro consumesD [OF assms(4), where pre = "pre @ pk @ p" and rest = rest]) simp_all
  ultimately show "dec_entries ?bytes (dec ?bytes) (Suc n) obj
        \<lparr>dec_offset = off, dec_types = (t @ ts) @ tys, dec_bools = (b @ bs) @ bls\<rparr>
      = Inr (kvs, \<lparr>dec_offset = int (length pre + length (pk @ p @ ps)), dec_types = tys, dec_bools = bls\<rparr>)"
    by simp
qed

lemma consumes_array:
  assumes "n < 2 ^ 31" "consumes (\<lambda>bytes. dec_items (decodeValue levels bytes) n) vs (b, p, t)"
  shows "consumes (decodeValue (Suc levels)) (JArr vs) (b, varint_digits n @ p, 5 # t)"
  unfolding consumes_def prod.case
proof (intro allI impI)
  fix pre rest :: "u8 list" and tys :: "nat list" and bls :: "bool list" and off :: int
  assume off: "off = int (length pre)"
  let ?d = "varint_digits n"
  let ?bytes = "pre @ (?d @ p) @ rest"
  have "json_readVarInt ?bytes off = Inr (int (length pre + length ?d), int n)"
    using json_readVarInt_digits [OF assms(1), of pre "p @ rest"] off by simp
  moreover have "dec_items (decodeValue levels ?bytes) n
        \<lparr>dec_offset = int (length pre + length ?d), dec_types = t @ tys, dec_bools = b @ bls\<rparr>
      = Inr (vs, \<lparr>dec_offset = int (length pre + length (?d @ p)), dec_types = tys, dec_bools = bls\<rparr>)"
    by (intro consumesD [OF assms(2), where pre = "pre @ ?d" and rest = rest]) simp_all
  ultimately show "decodeValue (Suc levels) ?bytes
        \<lparr>dec_offset = off, dec_types = (5 # t) @ tys, dec_bools = b @ bls\<rparr>
      = Inr (JArr vs, \<lparr>dec_offset = int (length pre + length (?d @ p)), dec_types = tys, dec_bools = bls\<rparr>)"
    by simp
qed

lemma consumes_object:
  assumes "n < 2 ^ 31" "consumes (\<lambda>bytes. dec_entries bytes (decodeValue levels bytes) n []) kvs (b, p, t)"
  shows "consumes (decodeValue (Suc levels)) (JObj kvs) (b, varint_digits n @ p, 6 # t)"
  unfolding consumes_def prod.case
proof (intro allI impI)
  fix pre rest :: "u8 list" and tys :: "nat list" and bls :: "bool list" and off :: int
  assume off: "off = int (length pre)"
  let ?d = "varint_digits n"
  let ?bytes = "pre @ (?d @ p) @ rest"
  have "json_readVarInt ?bytes off = Inr (int (length pre + length ?d), int n)"
    using json_readVarInt_digits [OF assms(1), of pre "p @ rest"] off by simp
  moreover have "dec_entries ?bytes (decodeValue levels ?bytes) n []
        \<lparr>dec_offset = int (length pre + length ?d), dec_types = t @ tys, dec_bools = b @ bls\<rparr>
      = Inr (kvs, \<lparr>dec_offset = int (length pre + length (?d @ p)), dec_types = tys, dec_bools = bls\<rparr>)"
    by (intro consumesD [OF assms(2), where pre = "pre @ ?d" and rest = rest]) simp_all
  ultimately show "decodeValue (Suc levels) ?bytes
        \<lparr>dec_offset = off, dec_types = (6 # t) @ tys, dec_bools = b @ bls\<rparr>
      = Inr (JObj kvs, \<lparr>dec_offset = int (length pre + length (?d @ p)), dec_types = tys, dec_bools = bls\<rparr>)"
    by simp
qed

lemma encode_consumes:
  "json_ok v \<Longrightarrow>
     writes (encodeValue v) (\<lambda>w. \<forall>levels. json_depth v \<le> levels \<longrightarrow> consumes (decodeValue levels) v w)"
  "list_all json_ok vs \<Longrightarrow>
     writes (encodeItems vs) (\<lambda>w. \<forall>levels. (\<forall>v \<in> set vs. json_depth v \<le> levels) \<longrightarrow>
       consumes (\<lambda>bytes. dec_items (decodeValue levels bytes) (length vs)) vs w)"
  "list_all (\<lambda>kv. json_str_ok (fst kv) \<and> fst kv \<noteq> proto_key \<and> json_ok (snd kv)) kvs \<Longrightarrow>
     writes (encodeEntries kvs) (\<lambda>w. \<forall>levels obj. (\<forall>kv \<in> set kvs. json_depth (snd kv) \<le> levels) \<longrightarrow>
       obj_wf (obj @ kvs) \<longrightarrow>
       consumes (\<lambda>bytes. dec_entries bytes (decodeValue levels bytes) (length kvs) obj) (obj @ kvs) w)"
proof (induction v and vs and kvs rule: encodeValue_encodeItems_encodeEntries.induct)
  case 1
  show ?case by (auto simp: consumes_def Suc_le_eq gr0_conv_Suc)
next
  case (2 b)
  show ?case by (auto simp: consumes_def Suc_le_eq gr0_conv_Suc)
next
  case (3 n)
  then obtain p t where e: "encodeNumber n = Inr ([], p, [t])" and
    d: "consumes (decodeValue (Suc levels)) (JNum n) ([], p, [t])" for levels
    using encodeNumber_ok [of n] by (auto simp: consumes_def)
  have "t < 8" using e by (auto simp: encodeNumber_def bindR_eq_Inr split: jsnum.splits if_splits)
  then show ?case using d by (auto simp: e Suc_le_eq gr0_conv_Suc)
next
  case (4 s)
  then have ok: "json_str_ok s" by simp
  note e = encodeString_ok [OF ok]
  show ?case
    using decodeString_enc [OF ok e] by (auto simp: e consumes_def Suc_le_eq gr0_conv_Suc)
next
  case (5 items)
  then have n: "length items < 2 ^ 31" and ok: "list_all json_ok items" by simp_all
  note c = json_convertVarInt_ok [of "int (length items)"]
  from "5.IH" [of "varint_digits (length items)"] n ok
  obtain b p t where w: "encodeItems items = Inr (b, p, t)" "\<forall>x \<in> set t. x < 8"
    "\<And>levels. \<forall>v \<in> set items. json_depth v \<le> levels \<Longrightarrow>
       consumes (\<lambda>bytes. dec_items (decodeValue levels bytes) (length items)) items (b, p, t)"
    by (auto elim!: writesE simp: c)
  have "consumes (decodeValue levels) (JArr items) (b, varint_digits (length items) @ p, 5 # t)"
    if l: "json_depth (JArr items) \<le> levels" for levels
  proof -
    obtain k where k: "levels = Suc k" using l by (cases levels) simp_all
    have "\<forall>v \<in> set items. json_depth v \<le> k" using l by (simp add: k foldr_max_le)
    then show ?thesis unfolding k by (intro consumes_array n w)
  qed
  then show ?case using n w(1,2) by (simp add: c wr_app_def)
next
  case (6 kvs)
  then have n: "length kvs < 2 ^ 31" and wf: "obj_wf kvs"
    and ok: "list_all (\<lambda>kv. json_str_ok (fst kv) \<and> fst kv \<noteq> proto_key \<and> json_ok (snd kv)) kvs" by simp_all
  note c = json_convertVarInt_ok [of "int (length kvs)"]
  from "6.IH" [of "varint_digits (length kvs)"] n ok
  obtain b p t where w: "encodeEntries kvs = Inr (b, p, t)" "\<forall>x \<in> set t. x < 8"
    "\<And>levels obj. \<forall>kv \<in> set kvs. json_depth (snd kv) \<le> levels \<Longrightarrow> obj_wf (obj @ kvs) \<Longrightarrow>
       consumes (\<lambda>bytes. dec_entries bytes (decodeValue levels bytes) (length kvs) obj) (obj @ kvs) (b, p, t)"
    by (auto elim!: writesE simp: c)
  have "consumes (decodeValue levels) (JObj kvs) (b, varint_digits (length kvs) @ p, 6 # t)"
    if l: "json_depth (JObj kvs) \<le> levels" for levels
  proof -
    obtain k where k: "levels = Suc k" using l by (cases levels) simp_all
    have "\<forall>kv \<in> set kvs. json_depth (snd kv) \<le> k" using l by (simp add: k foldr_max_le)
    then show ?thesis unfolding k using w(3) [of k "[]"] wf n by (intro consumes_object) simp_all
  qed
  then show ?case using n w(1,2) by (simp add: c wr_app_def)
next
  case 9
  show ?case by (simp add: consumes_def)
next
  case (10 v vs)
  from "10.prems" "10.IH"(1)
  obtain b p t where v: "encodeValue v = Inr (b, p, t)" "\<forall>x \<in> set t. x < 8"
    "\<And>levels. json_depth v \<le> levels \<Longrightarrow> consumes (decodeValue levels) v (b, p, t)"
    by (auto elim!: writesE)
  from "10.prems" "10.IH"(2) [OF v(1)]
  obtain bs ps ts where vs: "encodeItems vs = Inr (bs, ps, ts)" "\<forall>x \<in> set ts. x < 8"
    "\<And>levels. \<forall>v \<in> set vs. json_depth v \<le> levels \<Longrightarrow>
       consumes (\<lambda>bytes. dec_items (decodeValue levels bytes) (length vs)) vs (bs, ps, ts)"
    by (auto elim!: writesE)
  show ?case
    using v(2) vs(2)
    by (auto simp: v(1) vs(1) wr_app_def simp del: dec_items.simps intro!: consumes_items_Cons v(3) vs(3))
next
  case 11
  show ?case by (simp add: consumes_def)
next
  case (12 k v kvs)
  then have k: "json_str_ok k" "k \<noteq> proto_key" by simp_all
  note ek = encodeString_ok [OF k(1)]
  from "12.prems" "12.IH"(1) [OF ek]
  obtain b p t where v: "encodeValue v = Inr (b, p, t)" "\<forall>x \<in> set t. x < 8"
    "\<And>levels. json_depth v \<le> levels \<Longrightarrow> consumes (decodeValue levels) v (b, p, t)"
    by (auto elim!: writesE)
  from "12.prems" "12.IH"(2) [OF ek v(1)]
  obtain bs ps ts where kvs: "encodeEntries kvs = Inr (bs, ps, ts)" "\<forall>x \<in> set ts. x < 8"
    "\<And>levels obj. \<forall>kv \<in> set kvs. json_depth (snd kv) \<le> levels \<Longrightarrow> obj_wf (obj @ kvs) \<Longrightarrow>
       consumes (\<lambda>bytes. dec_entries bytes (decodeValue levels bytes) (length kvs) obj) (obj @ kvs) (bs, ps, ts)"
    by (auto elim!: writesE)
  have "consumes (\<lambda>bytes. dec_entries bytes (decodeValue levels bytes) (Suc (length kvs)) obj)
          (obj @ (k, v) # kvs)
          (b @ bs, (varint_digits (length (utf8_encode k)) @ utf8_encode k) @ p @ ps, t @ ts)"
    if "json_depth v \<le> levels" "\<forall>kv \<in> set kvs. json_depth (snd kv) \<le> levels" "obj_wf (obj @ (k, v) # kvs)"
    for levels obj
  proof -
    have "obj_set obj k v = obj @ [(k, v)]"
      using that(3) k(2) obj_wf_prefix [of "obj @ [(k, v)]" kvs] by (intro obj_set_last) simp_all
    then show ?thesis
      using kvs(3) [of levels "obj @ [(k, v)]"] that
      by (intro consumes_entries_Cons [OF k(1) ek v(3)]) simp_all
  qed
  then show ?case
    using v(2) kvs(2) by (auto simp: v(1) kvs(1) ek wr_app_def simp del: dec_entries.simps)
qed simp_all

lemma json_str_ok_ascii:
  assumes "\<forall>u \<in> set s. unat u < 128" "length s < 2 ^ 31"
  shows "json_str_ok s"
proof -
  have p: "processCharCodes s = map unat s"
    using assms(1) by (intro latin1_code_points) (auto simp: latin1_def)
  have sc: "is_scalar (unat u) \<and> utf8_of (unat u) = [of_nat (unat u)]" if "u \<in> set s" for u
    using assms(1) that by (auto simp: is_scalar_def is_surrogate_def utf8_of_def)
  then have wf: "well_formed s" by (simp add: well_formed_def p list_all_iff)
  have "utf8_encode s = concat (map (\<lambda>u. [of_nat (unat u)]) s)"
    unfolding utf8_encode_well_formed [OF wf] p map_map comp_def
    using sc by (intro arg_cong [where f = concat] map_cong) simp_all
  then have "length (utf8_encode s) = length s" by (simp add: length_concat comp_def)
  moreover have "\<not> starts_with_bom s"
    using assms(1) by (auto simp: starts_with_bom_def split: list.splits)
  ultimately show ?thesis using assms(2) wf by (simp add: json_str_ok_def)
qed

lemma decompress_layout:
  assumes "length bools < 2 ^ 31" "length types < 2 ^ 31"
  shows "decompressJSON (varint_digits (length bools) @ varint_digits (length types)
             @ bools @ types @ payload)
    = bindR (decodeValue 501
               ((varint_digits (length bools) @ varint_digits (length types) @ bools @ types) @ payload)
               \<lparr>dec_offset = int (length (varint_digits (length bools) @ varint_digits (length types)
                                            @ bools @ types)),
                dec_types = unpackTypeBits types,
                dec_bools = concat (map (\<lambda>b. decompressBools (unat b)) bools)\<rparr>)
        (\<lambda>(v, _). Inr v)"
proof -
  let ?a = "varint_digits (length bools)" and ?b = "varint_digits (length types)"
  let ?bytes = "?a @ ?b @ bools @ types @ payload"
  have r1: "json_readVarInt ?bytes 0 = Inr (int (length ?a), int (length bools))"
    using json_readVarInt_digits [OF assms(1), of "[]"] by simp
  have r2: "json_readVarInt ?bytes (int (length ?a))
      = Inr (int (length ?a + length ?b), int (length types))"
    using json_readVarInt_digits [OF assms(2), of ?a] by simp
  have "map (\<lambda>i. decompressBools (byte_or_zero ?bytes (int (length ?a + length ?b) + int i))) [0 ..< length bools]
      = map (\<lambda>b. decompressBools (unat b)) bools"
  proof (rule nth_equalityI)
    fix i
    assume "i < length (map (\<lambda>i. decompressBools (byte_or_zero ?bytes
      (int (length ?a + length ?b) + int i))) [0 ..< length bools])"
    then have i: "i < length bools" by simp
    then have "byte_or_zero ?bytes (int (length ?a + length ?b) + int i) = unat (bools ! i)"
      by (simp add: byte_or_zero_def nth_append nat_add_distrib)
    then show "map (\<lambda>i. decompressBools (byte_or_zero ?bytes
          (int (length ?a + length ?b) + int i))) [0 ..< length bools] ! i
        = map (\<lambda>b. decompressBools (unat b)) bools ! i"
      using i by simp
  qed simp
  moreover have "js_subarray ?bytes (int (length (?a @ ?b @ bools)))
      (int (length (?a @ ?b @ bools)) + int (length types)) = types"
    using js_subarray_mid [of _ "?a @ ?b @ bools" _ types payload] by simp
  ultimately show ?thesis
    by (simp add: decompressJSON_def r1 r2 Let_def algebra_simps)
qed

lemma json_roundtrip_core:
  assumes "json_ok v" "json_depth v \<le> 501"
  shows "\<exists>bytes. compressJSON v = Inr bytes \<and> (length bytes < 2 ^ 31 \<longrightarrow> decompressJSON bytes = Inr v)"
proof -
  obtain b p t where e: "encodeValue v = Inr (b, p, t)" "\<forall>x \<in> set t. x < 8"
    and d: "consumes (decodeValue 501) v (b, p, t)"
    using encode_consumes(1) [OF assms(1)] assms(2) by (auto elim!: writesE)
  define bools where "bools = map (\<lambda>slice. of_nat (compressBools slice) :: u8) (chunks 8 b)"
  define types where "types = packTypeBits t"
  define h where "h n = (if n < 2 ^ 32 then varint_digits n else json_digits n)" for n
  have h: "json_convertVarInt (int n) = Inr (h n)" for n
    by (simp add: h_def json_convertVarInt_def json_digits_eq)
  define bytes where "bytes = h (length bools) @ h (length types) @ bools @ types @ p"
  have c: "compressJSON v = Inr bytes"
    by (simp add: compressJSON_def e(1) h Let_def bytes_def bools_def types_def del: length_map)
  moreover have "decompressJSON bytes = Inr v" if l: "length bytes < 2 ^ 31"
  proof -
    have n: "length bools < 2 ^ 31" "length types < 2 ^ 31" using l by (simp_all add: bytes_def)
    obtain tys where tys: "unpackTypeBits types = t @ tys"
      using unpack_packTypeBits [of t] e(2) by (auto simp: types_def)
    obtain bls where "concat (map (\<lambda>slice. decompressBools (compressBools slice)) (chunks 8 b)) = b @ bls"
      using bool_stream by blast
    then have bls: "concat (map (\<lambda>x. decompressBools (unat x)) bools) = b @ bls"
      by (simp add: bools_def comp_def unat_of_nat_u8 compressBools_byte)
    let ?pre = "varint_digits (length bools) @ varint_digits (length types) @ bools @ types"
    have "decodeValue 501 (?pre @ p)
        \<lparr>dec_offset = int (length ?pre), dec_types = t @ tys, dec_bools = b @ bls\<rparr>
      = Inr (v, \<lparr>dec_offset = int (length ?pre + length p), dec_types = tys, dec_bools = bls\<rparr>)"
      by (rule consumesD [OF d, where pre = ?pre and rest = "[]"]) simp_all
    then show ?thesis
      using n decompress_layout [OF n, of p] by (simp add: bytes_def h_def tys bls)
  qed
  ultimately show ?thesis by blast
qed

text \<open>
  C7: Every value the format carries (31-bit integers, single-precision numbers, well-formed strings,
  arrays and records nested at most 501 levels) is compressed without an error, and decompressing
  the bytes gives the same value back.
\<close>

theorem json_roundtrip:
  assumes "json_ok v" "json_depth v \<le> 501"
  shows "\<exists>bytes. compressJSON v = Inr bytes \<and> (length bytes < 2 ^ 31 \<longrightarrow> decompressJSON bytes = Inr v)"
  using json_roundtrip_core [OF assms] .

definition json_sample :: jsval where
  "json_sample = JObj [(js ''7'', JArr [JBool True, JNull, JNum (Fin (- 300))]), (js ''k'', JStr (js ''hi'')),
                       (js ''z'', JArr [JNum (Fin (3 / 2)), JObj []])]"

lemma json_roundtrip_witness:
  "\<exists>bytes. compressJSON json_sample = Inr bytes
     \<and> (length bytes < 2 ^ 31 \<longrightarrow> decompressJSON bytes = Inr json_sample)"
proof (rule json_roundtrip)
  have "flog2 (3 / 2 :: rat) = 0" by (rule flog2_unique) simp_all
  then have "json_num_ok (Fin (3 / 2))"
    by (auto simp: json_num_ok_def float32_exact_def float_normal_def)
  moreover have "obj_wf [(js ''7'', v1), (js ''k'', v2), (js ''z'', v3)]" for v1 v2 v3
    by (simp add: obj_wf_def key_before_def index_key_def)
  moreover have "json_num_ok (Fin (- 300))" by (simp add: json_num_ok_def)
  moreover have "json_str_ok (js ''7'')" "json_str_ok (js ''k'')" "json_str_ok (js ''z'')"
    "json_str_ok (js ''hi'')"
    by (rule json_str_ok_ascii; simp)+
  ultimately show "json_ok json_sample" by (simp add: json_sample_def proto_key_def obj_wf_def)
  show "json_depth json_sample \<le> 501" by (simp add: json_sample_def)
qed

section \<open>Hostile input and lossy values\<close>

lemma dec_items_all:
  "dec_items dec n s = Inr (vs, s') \<Longrightarrow> (\<And>s1 v s2. dec s1 = Inr (v, s2) \<Longrightarrow> P v) \<Longrightarrow> \<forall>v \<in> set vs. P v"
proof (induction n arbitrary: s vs)
  case (Suc n)
  then show ?case by (auto simp: bindR_eq_Inr)
qed simp

lemma obj_insert_set: "set (obj_insert i kv kvs) = insert kv (set kvs)"
  by (induction kvs rule: obj_insert.induct [of _ i kv]) (auto split: option.splits)

lemma obj_set_values: "kv \<in> set (obj_set obj k v) \<Longrightarrow> kv \<in> set obj \<or> snd kv = v"
  by (auto simp: obj_set_def obj_insert_set split: if_splits option.splits)

lemma dec_entries_all:
  "dec_entries bytes dec n obj s = Inr (kvs, s') \<Longrightarrow> (\<And>s1 v s2. dec s1 = Inr (v, s2) \<Longrightarrow> P v) \<Longrightarrow>
   \<forall>kv \<in> set obj. P (snd kv) \<Longrightarrow> \<forall>kv \<in> set kvs. P (snd kv)"
proof (induction n arbitrary: s obj)
  case (Suc n)
  from Suc.prems(1) obtain key len v s1 where v: "dec (s\<lparr>dec_offset := dec_offset s + len\<rparr>) = Inr (v, s1)"
    and r: "dec_entries bytes dec n (obj_set obj key v) s1 = Inr (kvs, s')"
    by (auto simp: bindR_eq_Inr)
  have "\<forall>kv \<in> set (obj_set obj key v). P (snd kv)"
    using Suc.prems(2) [OF v] Suc.prems(3) by (metis obj_set_values)
  then show ?case by (intro Suc.IH [OF r] Suc.prems(2))
qed simp

lemma decodeValue_depth: "decodeValue levels bytes s = Inr (v, s') \<Longrightarrow> json_depth v \<le> levels"
proof (induction levels arbitrary: s v s')
  case (Suc levels)
  have items: "\<forall>v \<in> set vs. json_depth v \<le> levels"
    if "dec_items (decodeValue levels bytes) n s1 = Inr (vs, s2)" for n s1 vs s2
    using that Suc.IH by (rule dec_items_all)
  have entries: "\<forall>kv \<in> set kvs. json_depth (snd kv) \<le> levels"
    if "dec_entries bytes (decodeValue levels bytes) n [] s1 = Inr (kvs, s2)" for n s1 kvs s2
    using that Suc.IH by (rule dec_entries_all) simp_all
  show ?case
    using Suc.prems
    by (auto simp: bindR_eq_Inr foldr_max_le Let_def split: list.splits if_splits
        dest!: items entries)
qed simp

text \<open>Whatever bytes arrive, a decoded value is nested at most 501 levels.\<close>

theorem json_decoded_depth:
  "decompressJSON bytes = Inr v \<Longrightarrow> json_depth v \<le> 501"
  by (auto simp: decompressJSON_def bindR_eq_Inr Let_def dest: decodeValue_depth)

lemma json_decoded_depth_witness: "json_depth (JArr [JStr []]) \<le> 501"
proof (rule json_decoded_depth)
  show "decompressJSON [0, 1, 0xB0, 1, 0] = Inr (JArr [JStr []])" by code_simp
qed

text \<open>
  Integers are encoded through 32-bit arithmetic: two integers that differ by a multiple of
  \<open>2 ^ 32\<close> compress to the same bytes (or to the same error), so \<open>2 ^ 32\<close> is sent as 0.
\<close>

theorem json_int_wraps:
  "compressJSON (JNum (Fin (of_int (i + k * 2 ^ 32)))) = compressJSON (JNum (Fin (of_int i)))"
proof -
  have "to_int32 (i + k * 2 ^ 32) = to_int32 i"
    unfolding to_int32_def signed_take_bit_eq_iff_take_bit_eq take_bit_eq_mod
    by (simp add: mult.commute [of k])
  then have "mapZigZag (i + k * 2 ^ 32) = mapZigZag i" by (simp add: mapZigZag_def)
  moreover have "\<lfloor>of_int (i + k * 2 ^ 32) :: rat\<rfloor> = i + k * 2 ^ 32" by (rule floor_of_int)
  ultimately show ?thesis
    by (simp add: compressJSON_def encodeNumber_def rat_is_int_of_int del: of_int_add of_int_mult)
qed

lemma json_convertVarInt_small: "n < 128 \<Longrightarrow> json_convertVarInt (int n) = Inr [of_nat n]"
  by (simp add: json_convertVarInt_ok varint_digits_small)

lemma json_nan_bytes:
  assumes "encodeNumber n = Inr ([], [b, 0x80, 0, 0], [3])" "b = 0x7f \<or> b = 0xff"
  shows "bindR (compressJSON (JNum n)) decompressJSON = Inr (JNum NotNum)"
proof -
  have t: "packTypeBits [3] = [0x60]" "unpackTypeBits [0x60] = [3, 0, 0]" by code_simp+
  have d: "decodeValue 501 bytes \<lparr>dec_offset = 3, dec_types = [3, 0, 0], dec_bools = []\<rparr>
      = Inr (JNum (deconvertFloat (js_subarray bytes 3 7)),
             \<lparr>dec_offset = 7, dec_types = [0, 0], dec_bools = []\<rparr>)" for bytes
    using decodeValue.simps(2) [of 500] by simp
  have v: "varint_digits 0 = [0]" "varint_digits (Suc 0) = [1]" by (simp_all add: varint_digits_small)
  have c: "compressJSON (JNum n) = Inr ([0] @ [1] @ [] @ [0x60] @ [b, 0x80, 0, 0])"
    using json_convertVarInt_small [of 0] json_convertVarInt_small [of 1]
    by (simp add: compressJSON_def assms(1) t Let_def)
  have f: "deconvertFloat [b, 0x80, 0, 0] = NotNum"
    using assms(2) by (auto simp: deconvertFloat_def byte_or_zero_def Let_def)
  have s: "js_subarray [0, 1, 0x60, b, 0x80, 0, 0] 3 7 = [b, 0x80, 0, 0]"
    by (simp add: js_subarray_def js_rel_def js_slice_def)
  show ?thesis
    using decompress_layout [of "[]" "[0x60]" "[b, 0x80, 0, 0]"]
    unfolding c by (simp add: t v d f s)
qed

lemma encodeNumber_out_of_range:
  assumes "\<not> rat_is_int r" "flog2 \<bar>r\<bar> > 127 \<or> flog2 \<bar>r\<bar> < - 126"
  shows "encodeNumber (Fin r) = Inr ([], [if r < 0 then 0xff else 0x7f, 0x80, 0, 0], [3])"
proof -
  have "r \<noteq> 0" using assms(1) by auto
  then show ?thesis using assms by (simp add: encodeNumber_def convertFloat_def Let_def)
qed

text \<open>
  Both infinities, and every number whose exponent is out of single range, come back as NaN: the
  decoder's significand already has its implicit 1 when it is compared with 0.
\<close>

theorem json_infinity_is_nan:
  "bindR (compressJSON (JNum PosInf)) decompressJSON = Inr (JNum NotNum)
   \<and> bindR (compressJSON (JNum NegInf)) decompressJSON = Inr (JNum NotNum)
   \<and> bindR (compressJSON (JNum (Fin (2 powi (- 127))))) decompressJSON = Inr (JNum NotNum)"
proof (intro conjI)
  show "bindR (compressJSON (JNum PosInf)) decompressJSON = Inr (JNum NotNum)"
    by (rule json_nan_bytes [of _ "0x7f"]) (simp_all add: encodeNumber_def convertFloat_def)
  show "bindR (compressJSON (JNum NegInf)) decompressJSON = Inr (JNum NotNum)"
    by (rule json_nan_bytes [of _ "0xff"]) (simp_all add: encodeNumber_def convertFloat_def)
  let ?r = "2 powi (- 127) :: rat"
  have l: "flog2 \<bar>?r\<bar> = - 127" by (rule flog2_unique) simp_all
  have "\<lfloor>?r\<rfloor> = 0" by (simp add: floor_eq_iff)
  then have "\<not> rat_is_int ?r" by (simp add: rat_is_int_def)
  then have "encodeNumber (Fin ?r) = Inr ([], [0x7f, 0x80, 0, 0], [3])"
    using l by (subst encodeNumber_out_of_range) simp_all
  then show "bindR (compressJSON (JNum (Fin ?r))) decompressJSON = Inr (JNum NotNum)"
    by (rule json_nan_bytes) simp
qed

end
