(* ===== verification/Packets.thy ===== *)
theory Packets
  imports Enums Js_Double Json_Codec
begin

text \<open>
  \<open>projects/ts/src/ws/packets/Packets.ts\<close>: the packet definition built from a schema, the mapping of
  application values to wire values and back, and the whole receive path \<open>listen\<close>. The one mutable
  part used here, the quantization error of each sender, is an explicit state (\<open>qerrs\<close>); it survives a
  throw. Schema bytes are in \<open>Packet_Wire\<close>.
\<close>

section \<open>Schemas and packets\<close>

datatype arguable = AType nat | AEnum enum_pkg

record quantization =
  q_scale :: jsnum
  q_track :: bool

record group_info =
  g_parent :: jsstr
  g_variant :: "jsstr option"
  g_isParent :: bool
  g_permutation :: "jsstr list option"

record packet_schema =
  ps_object :: bool
  ps_types :: "nat list"
  ps_enumData :: "enum_pkg list"
  ps_async :: bool
  ps_dataMin :: "int list"
  ps_dataMax :: "int list"
  ps_rateLimit :: int
  ps_dontSpread :: bool
  ps_autoFlatten :: bool
  ps_rereference :: bool
  ps_dataBatching :: "nat option"
  ps_maxBatchSize :: int
  ps_gzip :: bool
  ps_fields :: "jsstr list option"
  ps_quantized :: "quantization option"
  ps_valueMin :: "jsnum option"
  ps_valueMax :: "jsnum option"
  ps_group :: "group_info option"
  ps_constructorName :: "jsstr option"
  ps_replay :: bool

definition convertType :: "arguable \<Rightarrow> nat \<times> enum_pkg list" where
  "convertType t = (case t of AType n \<Rightarrow> (n, []) | AEnum pkg \<Rightarrow> (PT_ENUMS, [pkg]))"

text \<open>The types of a schema and the enum packages collected from them, in order.\<close>

definition convertTypes :: "arguable list \<Rightarrow> nat list \<times> enum_pkg list" where
  "convertTypes ts = (map (fst \<circ> convertType) ts, concat (map (snd \<circ> convertType) ts))"

record packet =
  pk_tag :: jsstr
  pk_enabled :: bool
  pk_client :: bool
  pk_object :: bool
  pk_types :: "nat list"
  pk_enumData :: "enum_pkg list"
  pk_async :: bool
  pk_dataMin :: "int list"
  pk_dataMax :: "int list"
  pk_minSize :: int
  pk_maxSize :: int
  pk_rateLimit :: int
  pk_dontSpread :: bool
  pk_autoFlatten :: bool
  pk_rereference :: bool
  pk_dataBatching :: "nat option"
  pk_maxBatchSize :: "int option"
  pk_gzip :: bool
  pk_fields :: "jsstr list option"
  pk_quantized :: "quantization option"
  pk_valueMin :: "jsnum option"
  pk_valueMax :: "jsnum option"
  pk_parent :: "jsstr option"
  pk_variant :: "jsstr option"
  pk_isParent :: bool
  pk_permutation :: "jsstr list option"
  pk_constructorName :: "jsstr option"
  pk_replay :: bool

text \<open>Limits of NONE are zero; for a single type that happens after the size limits were copied.\<close>

definition zero_none :: "nat list \<Rightarrow> int list \<Rightarrow> int list" where
  "zero_none types limits = map (\<lambda>(ty, n). if ty = PT_NONE then 0 else n) (zip types limits)"

definition new_packet :: "jsstr \<Rightarrow> packet_schema \<Rightarrow> bool \<Rightarrow> bool \<Rightarrow> packet" where
  "new_packet tg schema enabled client =
     (let types = ps_types schema
      in \<lparr>pk_tag = tg, pk_enabled = enabled, pk_client = client,
          pk_object = ps_object schema, pk_types = types, pk_enumData = ps_enumData schema,
          pk_async = ps_async schema,
          pk_dataMin = zero_none types (ps_dataMin schema),
          pk_dataMax = zero_none types (ps_dataMax schema),
          pk_minSize = (if ps_object schema then int (length types) else hd (ps_dataMin schema)),
          pk_maxSize = (if ps_object schema then int (length types) else hd (ps_dataMax schema)),
          pk_rateLimit = ps_rateLimit schema, pk_dontSpread = ps_dontSpread schema,
          pk_autoFlatten = ps_autoFlatten schema, pk_rereference = ps_rereference schema,
          pk_dataBatching = ps_dataBatching schema,
          pk_maxBatchSize = (if client then None else Some (ps_maxBatchSize schema)),
          pk_gzip = ps_gzip schema, pk_fields = ps_fields schema,
          pk_quantized = ps_quantized schema,
          pk_valueMin = ps_valueMin schema, pk_valueMax = ps_valueMax schema,
          pk_parent = map_option g_parent (ps_group schema),
          pk_variant = Option.bind (ps_group schema) g_variant,
          pk_isParent = (case ps_group schema of None \<Rightarrow> False | Some g \<Rightarrow> g_isParent g),
          pk_permutation = Option.bind (ps_group schema) g_permutation,
          pk_constructorName = ps_constructorName schema, pk_replay = ps_replay schema\<rparr>)"

section \<open>Records\<close>

text \<open>Own enumerable entries of what \<open>typeof\<close> calls an object and is no array.\<close>

definition record_entries :: "jsval \<Rightarrow> (jsstr \<times> jsval) list option" where
  "record_entries v =
     (case v of JObj kvs \<Rightarrow> Some kvs
      | JBytes bs \<Rightarrow> Some (map (\<lambda>(i, b). (js_of_nat i, JNum (Fin (of_nat (unat b))))) (enumerate 0 bs))
      | _ \<Rightarrow> None)"

definition recordValues :: "jsstr list \<Rightarrow> (jsstr \<times> jsval) list \<Rightarrow> jsval list" where
  "recordValues flds rec = map (obj_get rec) flds"

definition assertRecord :: "packet \<Rightarrow> jsval \<Rightarrow> jsval list result" where
  "assertRecord p record =
     (case pk_fields p of
        None \<Rightarrow> Inl (Error ''requires schema'')
      | Some flds \<Rightarrow>
          (case record_entries record of
             None \<Rightarrow> Inl (Error ''requires an object record'')
           | Some kvs \<Rightarrow>
               let keys = map fst kvs
               in if \<exists>f \<in> set flds. f \<notin> set keys then Inl (Error ''is missing schema field(s)'')
                  else if length keys \<noteq> length flds \<and> filter (\<lambda>k. k \<notin> set flds) keys \<noteq> []
                  then Inl (Error ''has unknown schema field(s)'')
                  else Inr (recordValues flds kvs)))"

text \<open>User classes are a parameter: the registry maps a name to its constructor.\<close>

type_synonym ctor_registry = "(jsstr \<times> (jsval \<Rightarrow> jsval result)) list"

definition resolvePacketConstructor :: "ctor_registry \<Rightarrow> jsstr \<Rightarrow> (jsval \<Rightarrow> jsval result) result" where
  "resolvePacketConstructor ctors nm =
     (case map_of ctors nm of None \<Rightarrow> Inl (Error ''Packet constructor is not registered locally'') | Some c \<Rightarrow> Inr c)"

definition construct :: "ctor_registry \<Rightarrow> packet \<Rightarrow> jsval \<Rightarrow> jsval result" where
  "construct ctors p vals =
     (case pk_constructorName p of
        None \<Rightarrow> Inr vals
      | Some nm \<Rightarrow> if nm = [] then Inr vals
                   else bindR (resolvePacketConstructor ctors nm) (\<lambda>c. c vals))"

section \<open>Numbers\<close>

type_synonym qerrs = "int \<Rightarrow> jsnum option"

datatype direction = Send | Receive

definition logicalValue :: "packet \<Rightarrow> direction \<Rightarrow> int \<Rightarrow> jsval \<Rightarrow> (qerrs, jsval) st_result" where
  "logicalValue p direction stateKey v errs =
     (let scale = (case pk_quantized p of Some q \<Rightarrow> if num_truthy (q_scale q) then Some (q_scale q) else None
                                        | None \<Rightarrow> None);
          track = (case pk_quantized p of Some q \<Rightarrow> q_track q | None \<Rightarrow> False)
      in case v of
           JNum n \<Rightarrow>
             if \<not> num_finite n then (Inl (Error ''value must be a finite number''), errs)
             else let logical = (case (direction, scale) of (Receive, Some s) \<Rightarrow> num_div n s | _ \<Rightarrow> n)
               in if (case pk_valueMin p of Some m \<Rightarrow> num_less logical m | None \<Rightarrow> False)
                  then (Inl (Error ''value is below minimum''), errs)
                  else if (case pk_valueMax p of Some m \<Rightarrow> num_less m logical | None \<Rightarrow> False)
                  then (Inl (Error ''value exceeds maximum''), errs)
                  else (case (direction, scale) of
                          (Send, Some s) \<Rightarrow>
                            let err = (if track then (case errs stateKey of Some e \<Rightarrow> e | None \<Rightarrow> Fin 0) else Fin 0);
                                adjusted = num_add (num_mul logical s) err;
                                wire = num_round adjusted
                            in (Inr (JNum wire),
                                if track then errs(stateKey := Some (num_sub adjusted wire)) else errs)
                        | _ \<Rightarrow> (Inr (JNum logical), errs))
         | _ \<Rightarrow> (Inl (Error ''value must be a finite number''), errs))"

definition logical_values :: "packet \<Rightarrow> direction \<Rightarrow> int \<Rightarrow> jsval list \<Rightarrow> (qerrs, jsval list) st_result" where
  "logical_values p direction stateKey vals = mapS (logicalValue p direction stateKey) vals"

definition numeric :: "packet \<Rightarrow> bool" where
  "numeric p \<longleftrightarrow> pk_quantized p \<noteq> None \<or> pk_valueMin p \<noteq> None \<or> pk_valueMax p \<noteq> None"

definition clearQuantizationState :: "int \<Rightarrow> qerrs \<Rightarrow> qerrs" where
  "clearQuantizationState stateKey errs = errs(stateKey := None)"

section \<open>Sending\<close>

definition js_index :: "jsval \<Rightarrow> nat \<Rightarrow> jsval result" where
  "js_index v i =
     (case v of
        JArr vs \<Rightarrow> Inr (if i < length vs then vs ! i else JUndef)
      | JStr s \<Rightarrow> Inr (if i < length s then JStr [s ! i] else JUndef)
      | JBytes bs \<Rightarrow> Inr (if i < length bs then JNum (Fin (of_nat (unat (bs ! i)))) else JUndef)
      | JObj kvs \<Rightarrow> Inr (obj_get kvs (js_of_nat i))
      | JUndef \<Rightarrow> Inl (TypeError ''Cannot read properties of undefined'')
      | JNull \<Rightarrow> Inl (TypeError ''Cannot read properties of null'')
      | _ \<Rightarrow> Inr JUndef)"

definition arr_get :: "jsval list \<Rightarrow> nat \<Rightarrow> jsval" where
  "arr_get vs i = (if i < length vs then vs ! i else JUndef)"

definition flatten_row :: "packet \<Rightarrow> int \<Rightarrow> jsval \<Rightarrow> (qerrs, jsval list) st_result" where
  "flatten_row p stateKey row =
     bindS (liftS (assertRecord p row)) (\<lambda>mapped.
       if numeric p then logical_values p Send stateKey mapped else returnS mapped)"

definition prepareSend :: "packet \<Rightarrow> int \<Rightarrow> jsval list \<Rightarrow> (qerrs, jsval list) st_result" where
  "prepareSend p stateKey vals =
     (if pk_object p then
        (case pk_fields p of
           Some flds \<Rightarrow>
             if pk_autoFlatten p then
               (case vals of
                  [JArr rows] \<Rightarrow>
                    bindS (liftS (mapR (assertRecord p) rows)) (\<lambda>mapped.
                      returnS (map (\<lambda>column. JArr (map (\<lambda>row. arr_get row column) mapped)) [0 ..< length flds]))
                | _ \<Rightarrow> throwS (Error ''autoTranspose requires one array of records''))
             else returnS vals
         | None \<Rightarrow> returnS vals)
      else if pk_autoFlatten p then
        (case vals of
           [JArr rows] \<Rightarrow>
             (case pk_fields p of
                None \<Rightarrow> throwS (TypeError ''Cannot read properties of undefined'')
              | Some flds \<Rightarrow>
                  bindS (mapS (flatten_row p stateKey) rows) (\<lambda>flat.
                    if flds = [] then throwS (Error ''flat value count must be divisible by schema length'')
                    else returnS (concat flat)))
         | _ \<Rightarrow> throwS (Error ''autoFlatten requires one array of records''))
      else
        bindS (case (pk_fields p, vals) of
                 (Some _, [v]) \<Rightarrow> if record_entries v \<noteq> None then liftS (assertRecord p v) else returnS vals
               | _ \<Rightarrow> returnS vals)
          (\<lambda>flat. if numeric p then logical_values p Send stateKey flat else returnS flat))"

definition is_js_int :: "jsval \<Rightarrow> bool" where
  "is_js_int v = (case v of JNum (Fin r) \<Rightarrow> rat_is_int r | _ \<Rightarrow> False)"

definition enum_from_index :: "enum_pkg \<Rightarrow> jsval \<Rightarrow> jsval result" where
  "enum_from_index pkg v =
     (case v of
        JNum (Fin r) \<Rightarrow>
          if \<not> rat_is_int r \<or> r < 0 \<or> r \<ge> of_nat (length (enum_values pkg))
          then Inl (Error ''Invalid wrapped enum index'')
          else Inr (enum_values pkg ! nat \<lfloor>r\<rfloor>)
      | _ \<Rightarrow> Inl (Error ''Invalid wrapped enum index''))"

fun native_fields :: "nat list \<Rightarrow> enum_pkg list \<Rightarrow> jsval list \<Rightarrow> jsval list result" where
  "native_fields tys pkgs [] = Inr []"
| "native_fields [] pkgs (field # flds) = bindR (native_fields [] pkgs flds) (\<lambda>vs. Inr (field # vs))"
| "native_fields (ty # tys) pkgs (field # flds) =
     (if ty = PT_JSON then
        bindR (compressJSON field) (\<lambda>bs. bindR (native_fields tys pkgs flds) (\<lambda>vs. Inr (JBytes bs # vs)))
      else if ty = PT_ENUMS then
        (case pkgs of
           [] \<Rightarrow> (if js_values field = [] then bindR (native_fields tys [] flds) (\<lambda>vs. Inr (JArr [] # vs))
                  else if is_js_int (hd (js_values field)) \<and> (\<forall>r. hd (js_values field) = JNum (Fin r) \<longrightarrow> r \<ge> 0)
                  then Inl (TypeError ''Cannot read properties of undefined'')
                  else Inl (Error ''Invalid wrapped enum index''))
         | pkg # pkgs' \<Rightarrow>
             bindR (mapR (enum_from_index pkg) (js_values field)) (\<lambda>es.
               bindR (native_fields tys pkgs' flds) (\<lambda>vs. Inr (JArr es # vs))))
      else bindR (native_fields tys pkgs flds) (\<lambda>vs. Inr (field # vs)))"

definition packet_native_schema :: "packet \<Rightarrow> native_schema" where
  "packet_native_schema p =
     \<lparr>ns_types = pk_types p, ns_mins = pk_dataMin p, ns_maxes = pk_dataMax p,
      ns_enums = pk_enumData p\<rparr>"

definition pk_type :: "packet \<Rightarrow> nat" where
  "pk_type p = hd (pk_types p)"

definition pk_enum :: "packet \<Rightarrow> enum_pkg option" where
  "pk_enum p = (case pk_enumData p of [] \<Rightarrow> None | e # _ \<Rightarrow> Some e)"

definition processSend :: "native_core \<Rightarrow> packet \<Rightarrow> jsval list \<Rightarrow> u8 list result" where
  "processSend core p data =
     (if pk_object p then
        bindR (native_fields (pk_types p) (pk_enumData p) data) (\<lambda>nativeData.
          encodeNativeObject (packet_native_schema p) nativeData core)
      else
        bindR (if pk_type p = PT_JSON then compressJSON (JArr data)
               else if pk_type p = PT_ENUMS then mapR num_to_u8 data
               else let input = (case data of [JBytes bs] \<Rightarrow> if pk_type p = PT_RAW then JBytes bs else JArr data
                                            | _ \<Rightarrow> JArr data)
                 in encodeNative (pk_type p) input (pk_enum p) core)
          (\<lambda>encoded. if pk_gzip p \<and> pk_dataBatching p = Some 0 then deflateRaw core encoded else Inr encoded))"

section \<open>Receiving\<close>

definition json_field :: "nat \<Rightarrow> jsval \<Rightarrow> jsval result" where
  "json_field ty field =
     (if ty = PT_JSON then (case field of JBytes bs \<Rightarrow> decompressJSON bs | _ \<Rightarrow> Inl (TypeError ''not bytes''))
      else Inr field)"

definition processReceive :: "native_core \<Rightarrow> packet \<Rightarrow> u8 list \<Rightarrow> jsval result" where
  "processReceive core p data =
     (if pk_object p then
        bindR (decodeNativeObject (packet_native_schema p) data core) (\<lambda>fs.
          bindR (mapR (\<lambda>(ty, f). json_field ty f) (zip (pk_types p) fs)) (\<lambda>vs. Inr (JArr vs)))
      else if pk_type p = PT_JSON then decompressJSON data
      else decodeNative (pk_type p) data (hd (pk_dataMax p)) (pk_enum p) core)"

definition json_count :: "jsval \<Rightarrow> int" where
  "json_count v = (case v of JArr vs \<Rightarrow> int (length vs) | _ \<Rightarrow> 1)"

definition json_count_ok :: "jsval \<Rightarrow> int \<Rightarrow> int \<Rightarrow> unit result" where
  "json_count_ok v mn mx =
     (if json_count v < mn \<or> json_count v > mx
      then Inl (Error ''JSON value count is outside schema limits'') else Inr ())"

definition validate_packet :: "native_core \<Rightarrow> packet \<Rightarrow> u8 list \<Rightarrow> u8 list result" where
  "validate_packet core p data =
     (if pk_object p then
        bindR (validateNativeObject (packet_native_schema p) data core) (\<lambda>_.
          bindR (decodeNativeObject (packet_native_schema p) data core) (\<lambda>fs.
            bindR (mapR (\<lambda>(ty, mn, mx, f).
                     if ty \<noteq> PT_JSON then Inr ()
                     else bindR (json_field ty f) (\<lambda>v. json_count_ok v mn mx))
                   (zip (pk_types p) (zip (pk_dataMin p) (zip (pk_dataMax p) fs))))
              (\<lambda>_. Inr data)))
      else
        bindR (if pk_gzip p \<and> pk_dataBatching p = Some 0 then inflateRaw core data None else Inr data) (\<lambda>decoded.
          bindR (if pk_type p = PT_JSON
                 then bindR (decompressJSON decoded) (\<lambda>v. json_count_ok v (hd (pk_dataMin p)) (hd (pk_dataMax p)))
                 else validateNative (pk_type p) decoded (hd (pk_dataMin p)) (hd (pk_dataMax p))
                        False False None (pk_enum p) core)
            (\<lambda>_. Inr decoded)))"

definition js_length :: "jsval \<Rightarrow> jsval result" where
  "js_length v =
     (case v of
        JArr vs \<Rightarrow> Inr (JNum (Fin (of_nat (length vs))))
      | JStr s \<Rightarrow> Inr (JNum (Fin (of_nat (length s))))
      | JBytes bs \<Rightarrow> Inr (JNum (Fin (of_nat (length bs))))
      | JObj kvs \<Rightarrow> Inr (obj_get kvs (js ''length''))
      | JUndef \<Rightarrow> Inl (TypeError ''Cannot read properties of undefined'')
      | JNull \<Rightarrow> Inl (TypeError ''Cannot read properties of null'')
      | _ \<Rightarrow> Inr JUndef)"

definition to_length :: "js_lib \<Rightarrow> jsval \<Rightarrow> nat" where
  "to_length lib v =
     (case js_Number lib v of Fin r \<Rightarrow> min (nat \<lfloor>r\<rfloor>) (2 ^ 53 - 1) | PosInf \<Rightarrow> 2 ^ 53 - 1 | _ \<Rightarrow> 0)"

definition permutation :: "packet \<Rightarrow> jsval option" where
  "permutation p =
     (case pk_permutation p of
        None \<Rightarrow> None
      | Some vals \<Rightarrow>
          let variant = (case pk_variant p of None \<Rightarrow> [] | Some v \<Rightarrow> v);
              enabled = (if variant = [] then [] else js_split comma variant)
          in Some (from_entries (map (\<lambda>v. (v, JBool (v \<in> set enabled))) vals)))"

definition record_of_row :: "jsstr list \<Rightarrow> jsval list \<Rightarrow> jsval" where
  "record_of_row flds vals = from_entries (map (\<lambda>(i, f). (f, arr_get vals i)) (enumerate 0 flds))"

text \<open>\<open>UnFlattenData\<close> of \<open>PacketUtils.ts\<close>; on a typed array \<open>map\<close> stores its results into bytes.\<close>

definition UnFlattenData :: "js_lib \<Rightarrow> jsval list \<Rightarrow> jsval result" where
  "UnFlattenData lib arr =
     (let row = (\<lambda>i. bindR (mapR (\<lambda>column. js_index column i) arr) (\<lambda>vs. Inr (JArr vs)))
      in case arr_get arr 0 of
           JUndef \<Rightarrow> Inr (JArr [])
         | JNull \<Rightarrow> Inr (JArr [])
         | JArr vs \<Rightarrow> bindR (mapR row [0 ..< length vs]) (\<lambda>rows. Inr (JArr rows))
         | JBytes bs \<Rightarrow>
             bindR (mapR (\<lambda>i. bindR (row i) (\<lambda>r. num_to_u8 (JNum (text_num lib (obj_text lib r))))) [0 ..< length bs])
               (\<lambda>out. Inr (JBytes out))
         | _ \<Rightarrow> Inl (TypeError ''arr[0].map is not a function''))"

text \<open>\<open>columns.some(column => column.length !== count)\<close>, left to right; NaN differs from itself.\<close>

fun columns_match :: "jsval \<Rightarrow> jsval list \<Rightarrow> unit result" where
  "columns_match count [] = Inr ()"
| "columns_match count (c # cs) =
     bindR (js_length c) (\<lambda>l.
       if l = count \<and> l \<noteq> JNum NotNum then columns_match count cs
       else Inl (Error ''autoTranspose columns have different lengths''))"

definition transpose_receive :: "js_lib \<Rightarrow> ctor_registry \<Rightarrow> packet \<Rightarrow> jsstr list \<Rightarrow> jsval list \<Rightarrow> jsval result" where
  "transpose_receive lib ctors p flds columns =
     bindR (if nullish (arr_get columns 0) then Inr (JNum (Fin 0))
            else bindR (js_length (arr_get columns 0)) (\<lambda>n. Inr (if nullish n then JNum (Fin 0) else n))) (\<lambda>count.
       bindR (columns_match count columns) (\<lambda>_.
         bindR (mapR (\<lambda>row.
                  bindR (mapR (\<lambda>(column, f). bindR (js_index (arr_get columns column) row) (\<lambda>v. Inr (f, v)))
                           (enumerate 0 flds))
                    (\<lambda>entries. construct ctors p (from_entries entries))) [0 ..< to_length lib count])
                (\<lambda>rows. Inr (JArr rows))))"

definition finishReceive :: "js_lib \<Rightarrow> ctor_registry \<Rightarrow> packet \<Rightarrow> jsval \<Rightarrow> jsval result" where
  "finishReceive lib ctors p decoded =
     (if pk_object p then
        (let columns = (case decoded of JArr cs \<Rightarrow> cs | _ \<Rightarrow> [])
         in case pk_fields p of
              Some flds \<Rightarrow> if pk_autoFlatten p then transpose_receive lib ctors p flds columns else Inr decoded
            | None \<Rightarrow> if pk_autoFlatten p then UnFlattenData lib columns else Inr decoded)
      else
        bindR (if numeric p then fst (logical_values p Receive (- 1) (js_values decoded) (\<lambda>_. None))
               else Inr (js_values decoded)) (\<lambda>vals.
          if pk_autoFlatten p then
            (case pk_fields p of
               None \<Rightarrow> Inl (TypeError ''Cannot read properties of undefined'')
             | Some flds \<Rightarrow>
                 let width = length flds
                 in if width = 0 \<or> length vals mod width \<noteq> 0
                    then Inl (Error ''flat value count is not divisible by schema length'')
                    else bindR (mapR (\<lambda>row. construct ctors p (record_of_row flds (drop (row * width) vals)))
                                 [0 ..< length vals div width])
                           (\<lambda>rows. Inr (JArr rows)))
          else (case pk_fields p of
                  Some flds \<Rightarrow> construct ctors p (record_of_row flds vals)
                | None \<Rightarrow> Inr decoded)))"

text \<open>Spreading a value into call arguments.\<close>

definition js_spread :: "jsval \<Rightarrow> jsval list result" where
  "js_spread v =
     (case v of
        JArr vs \<Rightarrow> Inr vs
      | JStr s \<Rightarrow> Inr (map (\<lambda>c. JStr (utf16_of c)) (processCharCodes s))
      | JBytes bs \<Rightarrow> Inr (map (\<lambda>b. JNum (Fin (of_nat (unat b)))) bs)
      | _ \<Rightarrow> Inl (TypeError ''Spread syntax requires an iterable''))"

text \<open>A validator receives the spread values or the one value; \<open>Inl\<close> of the result is a refusal.\<close>

type_synonym validator = "jsval list \<Rightarrow> bool result"

definition listen_body ::
  "js_lib \<Rightarrow> native_core \<Rightarrow> ctor_registry \<Rightarrow> packet \<Rightarrow> validator option \<Rightarrow> u8 list
     \<Rightarrow> (string + jsval \<times> bool) result" where
  "listen_body lib core ctors p customValidator v =
     bindR (validate_packet core p v) (\<lambda>dcData.
     bindR (processReceive core p dcData) (\<lambda>processed.
     bindR (finishReceive lib ctors p processed) (\<lambda>usable.
     bindR (case customValidator of
              None \<Rightarrow> Inr True
            | Some val \<Rightarrow> if \<not> pk_dontSpread p \<and> pk_fields p = None then bindR (js_spread usable) val
                          else val [usable]) (\<lambda>passed.
       if \<not> passed then Inr (Inl ''Didn't pass custom validator'')
       else let delivered = (if pk_isParent p
                then JObj ([(js ''variant'', JStr []), (js ''payload'', usable)] @
                           (case permutation p of None \<Rightarrow> [] | Some pv \<Rightarrow> [(js ''permutation'', pv)]))
                else usable)
            in Inr (Inr (delivered, if pk_isParent p \<or> pk_fields p \<noteq> None then False else \<not> pk_dontSpread p))))))"

definition error_text :: "js_error \<Rightarrow> string" where
  "error_text e = (case e of Error m \<Rightarrow> ''Error: Error: '' @ m | TypeError m \<Rightarrow> ''Error: TypeError: '' @ m
                           | RangeError m \<Rightarrow> ''Error: RangeError: '' @ m)"

text \<open>\<open>listen\<close> catches every throw: its result is a message or the values and whether to spread them.\<close>

definition listen ::
  "js_lib \<Rightarrow> native_core \<Rightarrow> ctor_registry \<Rightarrow> packet \<Rightarrow> validator option \<Rightarrow> u8 list \<Rightarrow> string + jsval \<times> bool" where
  "listen lib core ctors p customValidator v =
     (case listen_body lib core ctors p customValidator v of Inl e \<Rightarrow> Inl (error_text e) | Inr r \<Rightarrow> r)"

end
