(* ===== verification/Variant_Permutation.thy ===== *)
theory Variant_Permutation
  imports Js_Value "HOL-Library.Product_Lexorder" "HOL-Library.List_Lexorder"
begin

unbundle bit_operations_syntax

text \<open>
  \<open>projects/ts/src/ws/util/packets/VariantPermutation.ts\<close>: the valid combinations of the values of a
  packet group and the two ways of naming one of them. Shifts are the 32-bit shifts of JavaScript
  (the count modulo 32). The cache \<open>generated\<close> is left out: \<open>generate\<close> is a function of the two arrays.
\<close>

record vperm =
  vp_values :: "jsstr list"
  vp_opposites :: "(nat \<times> nat) list"

definition js_int_of :: "jsnum \<Rightarrow> int option" where
  "js_int_of v = (case v of Fin r \<Rightarrow> if rat_is_int r then Some \<lfloor>r\<rfloor> else None | _ \<Rightarrow> None)"

text \<open>An opposite pair as given, and the indexes it means when both are valid.\<close>

definition opposite_pair :: "nat \<Rightarrow> jsnum \<times> jsnum \<Rightarrow> (nat \<times> nat) result" where
  "opposite_pair n p =
     (case (js_int_of (fst p), js_int_of (snd p)) of
        (Some l, Some r) \<Rightarrow>
          if l < 0 \<or> r < 0 \<or> l \<ge> int n \<or> r \<ge> int n \<or> l = r
          then Inl (Error ''Variant permutation opposite indexes are invalid'')
          else Inr (nat l, nat r)
      | _ \<Rightarrow> Inl (Error ''Variant permutation opposite indexes are invalid''))"

definition new_vperm :: "jsstr list \<Rightarrow> (jsnum \<times> jsnum) list \<Rightarrow> vperm result" where
  "new_vperm vals opps =
     (if vals = [] \<or> list_ex (\<lambda>v. v = [] \<or> comma \<in> set v) vals
      then Inl (Error ''Variant permutation values must be non-empty strings without commas'')
      else if \<not> distinct vals then Inl (Error ''Variant permutation values must be unique'')
      else bindR (mapR (opposite_pair (length vals)) opps) (\<lambda>ps.
        Inr \<lparr>vp_values = vals, vp_opposites = ps\<rparr>))"

definition containsOpposites :: "vperm \<Rightarrow> nat list \<Rightarrow> bool" where
  "containsOpposites vp indexes = list_ex (\<lambda>(a, b). a \<in> set indexes \<and> b \<in> set indexes) (vp_opposites vp)"

text \<open>\<open>groupOrder.set\<close> where the key is new; then the indexes outside of every pair.\<close>

definition set_new :: "nat \<Rightarrow> nat \<Rightarrow> (nat \<rightharpoonup> nat) \<Rightarrow> (nat \<rightharpoonup> nat)" where
  "set_new k v m = (if m k = None then m(k \<mapsto> v) else m)"

fun pair_groups :: "nat \<Rightarrow> (nat \<times> nat) list \<Rightarrow> (nat \<rightharpoonup> nat) \<Rightarrow> (nat \<rightharpoonup> nat)" where
  "pair_groups g [] m = m"
| "pair_groups g ((a, b) # ps) m = pair_groups (Suc g) ps (set_new b g (set_new a g m))"

fun rest_groups :: "nat \<Rightarrow> nat list \<Rightarrow> (nat \<rightharpoonup> nat) \<Rightarrow> (nat \<rightharpoonup> nat)" where
  "rest_groups g [] m = m"
| "rest_groups g (i # is) m = (if m i = None then rest_groups (Suc g) is (m(i \<mapsto> g)) else rest_groups g is m)"

definition createGroupOrder :: "vperm \<Rightarrow> (nat \<rightharpoonup> nat)" where
  "createGroupOrder vp =
     rest_groups (length (vp_opposites vp)) [0 ..< length (vp_values vp)]
       (pair_groups 0 (vp_opposites vp) Map.empty)"

definition orderIndexes :: "vperm \<Rightarrow> nat list \<Rightarrow> nat list" where
  "orderIndexes vp indexes = sort_key (\<lambda>i. (the (createGroupOrder vp i), i)) indexes"

definition mask_indexes :: "nat \<Rightarrow> nat \<Rightarrow> nat list" where
  "mask_indexes n m = filter (\<lambda>i. bit m (i mod 32)) [0 ..< n]"

definition mask_total :: "nat \<Rightarrow> int" where
  "mask_total n = to_int32 (2 ^ (n mod 32))"

definition index_lists :: "vperm \<Rightarrow> nat list list" where
  "index_lists vp =
     map (orderIndexes vp)
       (filter (\<lambda>is. \<not> containsOpposites vp is)
         (map (mask_indexes (length (vp_values vp))) [1 ..< nat (mask_total (length (vp_values vp)))]))"

definition variant_name :: "vperm \<Rightarrow> nat list \<Rightarrow> jsstr" where
  "variant_name vp is = js_join comma (map ((!) (vp_values vp)) is)"

definition generate :: "vperm \<Rightarrow> jsstr list" where
  "generate vp = map (variant_name vp) (sort_key (\<lambda>is. (length is, is)) (index_lists vp))"

section \<open>Naming a combination\<close>

datatype selection = Flags "jsval list" | Named "(jsstr \<times> jsval) list"

definition is_bool :: "jsval \<Rightarrow> bool" where
  "is_bool v = (case v of JBool _ \<Rightarrow> True | _ \<Rightarrow> False)"

text \<open>The checks on a selection, shared with \<open>PacketHolder.getPermutationVariant\<close>: the enabled values in order.\<close>

definition enabled_values :: "jsstr list \<Rightarrow> selection \<Rightarrow> jsstr list result" where
  "enabled_values vals sel =
     (case sel of
        Flags fs \<Rightarrow>
          if length fs \<noteq> length vals \<or> list_ex (\<lambda>v. \<not> is_bool v) fs
          then Inl (Error ''Variant permutation requires one boolean flag per value'')
          else Inr (map fst (filter (\<lambda>(v, f). f = JBool True) (zip vals fs)))
      | Named kvs \<Rightarrow>
          if length kvs \<noteq> length vals \<or> list_ex (\<lambda>(k, v). k \<notin> set vals \<or> \<not> is_bool v) kvs
          then Inl (Error ''Variant permutation object must define every known key as a boolean'')
          else Inr (filter (\<lambda>v. obj_get kvs v = JBool True) vals))"

definition names_enabled :: "jsstr list \<Rightarrow> jsstr \<Rightarrow> bool" where
  "names_enabled enabled candidate =
     (let parts = js_split comma candidate
      in length parts = length enabled \<and> list_all (\<lambda>v. v \<in> set enabled) parts)"

definition vp_resolve :: "vperm \<Rightarrow> selection \<Rightarrow> jsstr result" where
  "vp_resolve vp sel =
     bindR (enabled_values (vp_values vp) sel) (\<lambda>enabled.
       if enabled = [] then Inr []
       else case find (names_enabled enabled) (generate vp) of
              Some v \<Rightarrow> Inr v
            | None \<Rightarrow> Inl (Error ''Variant permutation contains an invalid or opposite combination''))"

definition vp_expand :: "vperm \<Rightarrow> jsstr \<Rightarrow> jsval result" where
  "vp_expand vp variant =
     (let enabled = (if variant = [] then [] else js_split comma variant)
      in if enabled \<noteq> [] \<and> variant \<notin> set (generate vp) then Inl (Error ''Unknown generated permutation'')
         else Inr (from_entries (map (\<lambda>v. (v, JBool (v \<in> set enabled))) (vp_values vp))))"

definition WASD :: "vperm result" where
  "WASD = new_vperm [js ''W'', js ''A'', js ''S'', js ''D''] [(Fin 0, Fin 2), (Fin 1, Fin 3)]"

definition Arrows :: "vperm result" where
  "Arrows = new_vperm [js ''Up'', js ''Left'', js ''Down'', js ''Right''] [(Fin 0, Fin 2), (Fin 1, Fin 3)]"

section \<open>Properties\<close>

text \<open>What the constructor establishes.\<close>

definition vperm_ok :: "vperm \<Rightarrow> bool" where
  "vperm_ok vp \<longleftrightarrow> vp_values vp \<noteq> [] \<and> (\<forall>v \<in> set (vp_values vp). v \<noteq> [] \<and> comma \<notin> set v)
     \<and> distinct (vp_values vp)
     \<and> (\<forall>(a, b) \<in> set (vp_opposites vp). a < length (vp_values vp) \<and> b < length (vp_values vp) \<and> a \<noteq> b)"

lemma opposite_pair_ok: "opposite_pair n p = Inr (a, b) \<Longrightarrow> a < n \<and> b < n \<and> a \<noteq> b"
  by (auto simp: opposite_pair_def split: option.splits if_splits)

lemma new_vperm_ok:
  assumes "new_vperm vals opps = Inr vp"
  shows "vperm_ok vp"
proof -
  obtain ps where ps: "mapR (opposite_pair (length vals)) opps = Inr ps"
    and vp: "vp = \<lparr>vp_values = vals, vp_opposites = ps\<rparr>"
    and vals: "vals \<noteq> []" "\<not> list_ex (\<lambda>v. v = [] \<or> comma \<in> set v) vals" "distinct vals"
    using assms by (auto simp: new_vperm_def bindR_eq_Inr split: if_splits)
  have "a < length vals \<and> b < length vals \<and> a \<noteq> b" if m: "(a, b) \<in> set ps" for a b
  proof -
    obtain i where i: "i < length ps" "ps ! i = (a, b)" using m by (auto simp: in_set_conv_nth)
    then have "opposite_pair (length vals) (opps ! i) = Inr (a, b)"
      using mapR_nth [OF ps] mapR_length [OF ps] by simp
    then show ?thesis by (rule opposite_pair_ok)
  qed
  then show ?thesis using vals by (auto simp: vperm_ok_def vp list_ex_iff)
qed

lemma orderIndexes_set [simp]: "set (orderIndexes vp is) = set is"
  by (simp add: orderIndexes_def)

lemma orderIndexes_length [simp]: "length (orderIndexes vp is) = length is"
  by (simp add: orderIndexes_def)

lemma orderIndexes_distinct [simp]: "distinct (orderIndexes vp is) = distinct is"
  by (simp add: orderIndexes_def)

lemma mask_total_small: "n < 31 \<Longrightarrow> mask_total n = 2 ^ n"
proof -
  assume n: "n < 31"
  then have "(2 :: int) ^ n < 2 ^ 31" by (rule power_strict_increasing) simp
  then have "to_int32 (2 ^ n) = 2 ^ n" by (intro to_int32_id) (simp_all add: order_trans [of _ 0])
  then show ?thesis using n by (simp add: mask_total_def)
qed

text \<open>Every subset of at most 30 indexes is the mask of one turn of the loop.\<close>

lemma mask_of_subset:
  fixes n :: nat and P :: "nat \<Rightarrow> bool"
  assumes "n \<le> 30"
  defines "m \<equiv> horner_sum of_bool 2 (map P [0 ..< n]) :: nat"
  shows "mask_indexes n m = filter P [0 ..< n]" "m < 2 ^ n" "filter P [0 ..< n] \<noteq> [] \<Longrightarrow> 1 \<le> m"
proof -
  have b: "bit m i \<longleftrightarrow> i < n \<and> P i" for i
    by (auto simp: m_def bit_horner_sum_bit_iff)
  show f: "mask_indexes n m = filter P [0 ..< n]"
    unfolding mask_indexes_def using assms(1) by (intro filter_cong) (auto simp: b)
  have "take_bit n m = m"
    by (intro bit_eqI) (auto simp: bit_take_bit_iff b)
  then show "m < 2 ^ n" by (metis take_bit_nat_less_exp)
  have "mask_indexes n 0 = []" by (simp add: mask_indexes_def)
  then show "1 \<le> m" if "filter P [0 ..< n] \<noteq> []"
    using that f by (cases "m = 0") (simp_all add: Suc_le_eq)
qed

lemma index_lists_contains:
  assumes "length (vp_values vp) \<le> 30" "filter P [0 ..< length (vp_values vp)] \<noteq> []"
    and "\<not> containsOpposites vp (filter P [0 ..< length (vp_values vp)])"
  shows "orderIndexes vp (filter P [0 ..< length (vp_values vp)]) \<in> set (index_lists vp)"
proof -
  let ?n = "length (vp_values vp)"
  have "nat (mask_total ?n) = 2 ^ ?n" using assms(1) by (simp add: mask_total_small nat_power_eq)
  then have "\<exists>m \<in> set [1 ..< nat (mask_total ?n)]. filter P [0 ..< ?n] = mask_indexes ?n m"
    using mask_of_subset [OF assms(1), of P] assms(2)
    by (intro bexI [of _ "horner_sum of_bool 2 (map P [0 ..< ?n])"]) (auto simp: nat_power_eq)
  then show ?thesis using assms(3) by (auto simp: index_lists_def)
qed

lemma index_lists_member:
  assumes "is \<in> set (index_lists vp)"
  shows "set is \<subseteq> {..< length (vp_values vp)}" "distinct is" "\<not> containsOpposites vp is"
  using assms
  by (auto simp: index_lists_def mask_indexes_def containsOpposites_def list_ex_iff)

lemma set_generate: "set (generate vp) = variant_name vp ` set (index_lists vp)"
  by (simp add: generate_def)

lemma split_variant_name:
  assumes "vperm_ok vp" "is \<noteq> []" "set is \<subseteq> {..< length (vp_values vp)}"
  shows "js_split comma (variant_name vp is) = map ((!) (vp_values vp)) is" "variant_name vp is \<noteq> []"
proof -
  have el: "vp_values vp ! i \<noteq> [] \<and> comma \<notin> set (vp_values vp ! i)" if "i \<in> set is" for i
    using assms(1,3) that by (auto simp: vperm_ok_def)
  show sp: "js_split comma (variant_name vp is) = map ((!) (vp_values vp)) is"
    unfolding variant_name_def using assms(2) el by (intro js_split_join) auto
  show "variant_name vp is \<noteq> []"
  proof
    assume "variant_name vp is = []"
    then have "map ((!) (vp_values vp)) is = [[]]" using sp by simp
    then show False using el by (cases "is") auto
  qed
qed

text \<open>An index list is named by the values it holds, so the names of \<open>generate\<close> say which values are on.\<close>

lemma generate_member:
  assumes "vperm_ok vp" "v \<in> set (generate vp)" "v \<noteq> []"
  shows "\<exists>is. v = variant_name vp is \<and> is \<in> set (index_lists vp) \<and> is \<noteq> []
    \<and> js_split comma v = map ((!) (vp_values vp)) is"
proof -
  obtain "is" where i: "v = variant_name vp is" "is \<in> set (index_lists vp)"
    using assms(2) by (auto simp: set_generate)
  have "is \<noteq> []" using assms(3) i(1) by (auto simp: variant_name_def)
  then show ?thesis using split_variant_name [OF assms(1)] index_lists_member(1) i by blast
qed

definition flags_of :: "bool list \<Rightarrow> selection" where
  "flags_of bs = Flags (map JBool bs)"

definition compatible :: "vperm \<Rightarrow> bool list \<Rightarrow> bool" where
  "compatible vp bs \<longleftrightarrow> (\<forall>(a, b) \<in> set (vp_opposites vp). \<not> (bs ! a \<and> bs ! b))"

lemma enabled_flags:
  assumes "length bs = length vals"
  shows "enabled_values vals (flags_of bs) = Inr (map ((!) vals) (filter ((!) bs) [0 ..< length vals]))"
proof -
  have z: "zip vals (map JBool bs) = map (\<lambda>i. (vals ! i, JBool (bs ! i))) [0 ..< length vals]"
    using assms by (intro nth_equalityI) auto
  show ?thesis
    using assms by (simp add: enabled_values_def flags_of_def list_ex_iff is_bool_def z filter_map comp_def)
qed

lemma filter_nonempty_flags: "length bs = n \<Longrightarrow> filter ((!) bs) [0 ..< n] = [] \<longleftrightarrow> True \<notin> set bs"
  by (auto simp: filter_empty_conv in_set_conv_nth)

text \<open>The candidate \<open>find\<close> stops at has exactly the enabled values.\<close>

lemma found_is_enabled:
  assumes ok: "vperm_ok vp" and v: "v \<in> set (generate vp)" "names_enabled (map ((!) (vp_values vp)) ks) v"
    and ks: "ks \<noteq> []" "distinct ks" "set ks \<subseteq> {..< length (vp_values vp)}"
  shows "v \<noteq> [] \<and> set (js_split comma v) = (!) (vp_values vp) ` set ks"
proof -
  have inj: "inj_on ((!) (vp_values vp)) {..< length (vp_values vp)}"
    using ok by (auto simp: vperm_ok_def inj_on_def nth_eq_iff_index_eq)
  have ne: "v \<noteq> []"
  proof
    assume "v = []"
    then have "[] \<in> (!) (vp_values vp) ` set ks" using v(2) by (simp add: names_enabled_def)
    then obtain i where "i < length (vp_values vp)" "vp_values vp ! i = []" using ks(3) by auto
    then show False using ok by (metis nth_mem vperm_ok_def)
  qed
  then obtain "is" where i: "is \<in> set (index_lists vp)" "js_split comma v = map ((!) (vp_values vp)) is"
    using generate_member [OF ok v(1)] by blast
  note m = index_lists_member [OF i(1)]
  have "(!) (vp_values vp) ` set is \<subseteq> (!) (vp_values vp) ` set ks" "length is = length ks"
    using v(2) by (auto simp: names_enabled_def i(2) list_all_iff)
  moreover have "card ((!) (vp_values vp) ` set is) = length is" "card ((!) (vp_values vp) ` set ks) = length ks"
    using m ks inj by (simp_all add: card_image inj_on_subset distinct_card)
  ultimately have "(!) (vp_values vp) ` set is = (!) (vp_values vp) ` set ks"
    by (intro card_subset_eq) auto
  then show ?thesis using ne by (simp add: i(2))
qed

text \<open>
  With at most 30 values, every combination of flags without an opposite pair has a variant: the
  name \<open>resolve\<close> finds is one of the generated variants (or empty when nothing is on), and expanding it
  gives the flags back.
\<close>

theorem permutation_roundtrip:
  assumes "new_vperm vals opps = Inr vp" "length vals \<le> 30"
    and "length bs = length vals" "compatible vp bs"
  shows "\<exists>v. vp_resolve vp (flags_of bs) = Inr v \<and> v \<in> insert [] (set (generate vp))
    \<and> vp_expand vp v = Inr (from_entries (zip vals (map JBool bs)))"
proof -
  have ok: "vperm_ok vp" using new_vperm_ok [OF assms(1)] .
  have vals: "vp_values vp = vals" using assms(1) by (auto simp: new_vperm_def bindR_eq_Inr split: if_splits)
  let ?ks = "filter ((!) bs) [0 ..< length vals]"
  let ?en = "map ((!) vals) ?ks"
  have e: "enabled_values (vp_values vp) (flags_of bs) = Inr ?en"
    using enabled_flags assms(3) vals by simp
  have res: "vp_resolve vp (flags_of bs) = (if ?en = [] then Inr []
     else case find (names_enabled ?en) (generate vp) of Some v \<Rightarrow> Inr v
       | None \<Rightarrow> Inl (Error ''Variant permutation contains an invalid or opposite combination''))"
    by (simp add: vp_resolve_def e)
  have flags: "(vals ! i \<in> (!) vals ` set ?ks) = bs ! i" if "i < length vals" for i
  proof -
    have "distinct vals" using ok by (simp add: vals vperm_ok_def)
    then have "vals ! i = vals ! k \<longleftrightarrow> i = k" if "k < length vals" for k
      using that \<open>i < length vals\<close> by (simp add: nth_eq_iff_index_eq)
    then show ?thesis using that by (auto simp: image_iff)
  qed
  have entries: "map (\<lambda>v. (v, JBool (v \<in> (!) vals ` set ?ks))) vals = zip vals (map JBool bs)"
  proof (rule nth_equalityI)
    fix i
    assume "i < length (map (\<lambda>v. (v, JBool (v \<in> (!) vals ` set ?ks))) vals)"
    then have i: "i < length vals" by simp
    show "map (\<lambda>v. (v, JBool (v \<in> (!) vals ` set ?ks))) vals ! i = zip vals (map JBool bs) ! i"
      using assms(3) flags [OF i] by (simp only: nth_map i nth_zip length_map)
  qed (simp add: assms(3))
  show ?thesis
  proof (cases "?ks = []")
    case True
    then have "(!) vals ` set ?ks = {}" by (metis image_is_empty set_empty)
    then have "vp_expand vp [] = Inr (from_entries (zip vals (map JBool bs)))"
      using entries by (simp add: vp_expand_def vals)
    moreover have "vp_resolve vp (flags_of bs) = Inr []" using res True by simp
    ultimately show ?thesis by blast
  next
    case False
    have "\<not> containsOpposites vp ?ks"
      using assms(4) by (auto simp: containsOpposites_def list_ex_iff compatible_def)
    then have mem: "orderIndexes vp ?ks \<in> set (index_lists vp)"
      using index_lists_contains [of vp "(!) bs"] False assms(2) by (simp add: vals)
    then have gen: "variant_name vp (orderIndexes vp ?ks) \<in> set (generate vp)" by (simp add: set_generate)
    have "js_split comma (variant_name vp (orderIndexes vp ?ks)) = map ((!) vals) (orderIndexes vp ?ks)"
      using split_variant_name(1) [OF ok _ index_lists_member(1) [OF mem]] False vals
      by (metis length_0_conv orderIndexes_length)
    then have "names_enabled ?en (variant_name vp (orderIndexes vp ?ks))"
      by (simp add: names_enabled_def list_all_iff)
    then obtain v where v: "find (names_enabled ?en) (generate vp) = Some v"
      using gen by (cases "find (names_enabled ?en) (generate vp)") (auto simp: find_None_iff)
    then have vg: "v \<in> set (generate vp)" "names_enabled ?en v"
      by (auto simp: find_Some_iff)
    have ks: "distinct ?ks" "set ?ks \<subseteq> {..< length vals}" by auto
    have sp: "v \<noteq> [] \<and> set (js_split comma v) = (!) vals ` set ?ks"
      by (rule found_is_enabled [OF ok vg(1), of ?ks, unfolded vals, OF vg(2) False ks])
    have "vp_resolve vp (flags_of bs) = Inr v" using res v False by simp
    moreover have "vp_expand vp v = Inr (from_entries (zip vals (map JBool bs)))"
      using sp vg(1) entries by (simp add: vp_expand_def vals)
    ultimately show ?thesis using vg(1) by blast
  qed
qed

lemma permutation_roundtrip_witness:
  "\<exists>v. vp_resolve \<lparr>vp_values = [js ''W'', js ''S''], vp_opposites = [(0, 1)]\<rparr> (flags_of [True, False]) = Inr v
    \<and> v \<in> insert [] (set (generate \<lparr>vp_values = [js ''W'', js ''S''], vp_opposites = [(0, 1)]\<rparr>))
    \<and> vp_expand \<lparr>vp_values = [js ''W'', js ''S''], vp_opposites = [(0, 1)]\<rparr> v
      = Inr (from_entries (zip [js ''W'', js ''S''] (map JBool [True, False])))"
proof (rule permutation_roundtrip)
  show "new_vperm [js ''W'', js ''S''] [(Fin 0, Fin 1)] = Inr \<lparr>vp_values = [js ''W'', js ''S''], vp_opposites = [(0, 1)]\<rparr>"
    by (simp add: new_vperm_def js_def comma_def opposite_pair_def js_int_of_def)
qed (simp_all add: compatible_def)

text \<open>
  No generated variant turns two opposite values on.
\<close>

theorem generate_no_opposites:
  assumes "new_vperm vals opps = Inr vp" "v \<in> set (generate vp)" "v \<noteq> []"
    and "(a, b) \<in> set (vp_opposites vp)"
  shows "\<not> (vals ! a \<in> set (js_split comma v) \<and> vals ! b \<in> set (js_split comma v))"
proof -
  have ok: "vperm_ok vp" using new_vperm_ok [OF assms(1)] .
  have vals: "vp_values vp = vals" using assms(1) by (auto simp: new_vperm_def bindR_eq_Inr split: if_splits)
  obtain "is" where i: "is \<in> set (index_lists vp)" "js_split comma v = map ((!) vals) is"
    using generate_member [OF ok assms(2,3)] vals by auto
  have "a < length vals" "b < length vals" using ok assms(4) by (auto simp: vperm_ok_def vals)
  moreover have "set is \<subseteq> {..< length vals}" "distinct vals"
    using index_lists_member(1) [OF i(1)] ok by (simp_all add: vals vperm_ok_def)
  ultimately have "vals ! k \<in> set (map ((!) vals) is) \<longleftrightarrow> k \<in> set is" if "k \<in> {a, b}" for k
    using that by (auto simp: nth_eq_iff_index_eq subset_iff)
  then show ?thesis
    using index_lists_member(3) [OF i(1)] assms(4)
    by (auto simp: i(2) containsOpposites_def list_ex_iff)
qed

lemma generate_no_opposites_witness:
  "\<not> (js ''W'' \<in> set (js_split comma (js ''W'')) \<and> js ''S'' \<in> set (js_split comma (js ''W'')))"
proof -
  let ?vp = "\<lparr>vp_values = [js ''W'', js ''S''], vp_opposites = [(0, 1)]\<rparr>"
  have n: "new_vperm [js ''W'', js ''S''] [(Fin 0, Fin 1)] = Inr ?vp"
    by (simp add: new_vperm_def js_def comma_def opposite_pair_def js_int_of_def)
  have "[0] \<in> set (index_lists ?vp)"
    using index_lists_contains [of ?vp "\<lambda>i. i = 0"]
    by (simp add: containsOpposites_def orderIndexes_def upt_rec numeral_2_eq_2)
  then have "js ''W'' \<in> set (generate ?vp)" by (auto simp: set_generate variant_name_def intro: image_eqI [of _ _ "[0]"])
  then show ?thesis
    using generate_no_opposites [OF n, of "js ''W''" 0 1] by (simp add: js_def)
qed

text \<open>
  With 31 values the count of combinations, computed as a 32-bit shift, is negative and nothing is
  generated: every selection with an enabled value is refused.
\<close>

theorem permutation_31_empty: "length (vp_values vp) = 31 \<Longrightarrow> generate vp = []"
  by (simp add: generate_def index_lists_def mask_total_def to_int32_def signed_take_bit_int_eq_self_iff)

lemma permutation_31_empty_witness: "generate \<lparr>vp_values = replicate 31 (js ''a''), vp_opposites = []\<rparr> = []"
  by (rule permutation_31_empty) simp

end
