(* ===== verification/Packet_Creation.thy ===== *)
theory Packet_Creation
  imports Packets Variant_Permutation "HOL-Library.AList"
begin

text \<open>
  Making packet definitions: \<open>CreatePacket\<close>, \<open>CreateObjPacket\<close>, \<open>CreateEnumPacket\<close> and
  \<open>CreatePacketGroup\<close> of \<open>projects/ts/src/ws/util/packets/PacketUtils.ts\<close>, and the class registry
  they fill (\<open>metadata/ConstructorRegistry.ts\<close>).

  A setting that is absent (or undefined) is \<open>None\<close>. A class is its name and an identity; the registry
  keeps what was registered also when the creation throws afterwards, so the operations are
  state-with-throws over it. Counts are integers. Validator callbacks are given where packets are
  received (\<open>listen\<close>), console warnings are left out.
\<close>

section \<open>Registered classes\<close>

record packet_class =
  cls_name :: jsstr
  cls_id :: nat

type_synonym class_registry = "(jsstr \<times> nat) list"

definition RegisterPacketConstructor :: "packet_class \<Rightarrow> (class_registry, packet_class) st_result" where
  "RegisterPacketConstructor c reg =
     (if cls_name c = [] then (Inl (Error ''Packet constructors must have a stable class name''), reg)
      else case map_of reg (cls_name c) of
        Some i \<Rightarrow> if i \<noteq> cls_id c
                  then (Inl (Error ''A different packet constructor of that name is already registered''), reg)
                  else (Inr c, AList.update (cls_name c) (cls_id c) reg)
      | None \<Rightarrow> (Inr c, AList.update (cls_name c) (cls_id c) reg))"

definition UnregisterPacketConstructor :: "jsstr \<Rightarrow> class_registry \<Rightarrow> class_registry" where
  "UnregisterPacketConstructor nm reg = AList.delete nm reg"

text \<open>The registry the receiving side consults; \<open>new_of\<close> runs a class, \<open>constructor\<close> its resolution.\<close>

definition resolvable :: "(nat \<Rightarrow> jsval \<Rightarrow> jsval result) \<Rightarrow> class_registry \<Rightarrow> ctor_registry" where
  "resolvable new_of reg = map (\<lambda>(nm, i). (nm, new_of i)) reg"

section \<open>Limits\<close>

definition isInvalidType :: "arguable \<Rightarrow> bool" where
  "isInvalidType t =
     (case t of AType n \<Rightarrow> n \<notin> {0, 1, 2, 3, 4, 5, 6, 7, 8, 9, 10, 11, 12, 13, 14, 16, 17} | AEnum _ \<Rightarrow> False)"

definition MAX_DATA_MAX :: int where
  "MAX_DATA_MAX = 2048383"

definition clampDataMax :: "int \<Rightarrow> int" where
  "clampDataMax dataMax = (if dataMax < 0 then 0 else if dataMax > MAX_DATA_MAX then MAX_DATA_MAX else dataMax)"

definition clampDataMin :: "int \<Rightarrow> int \<Rightarrow> int" where
  "clampDataMin dataMin dataMax = (if dataMin < 0 then 0 else if dataMin > dataMax then dataMax else dataMin)"

definition clampRateLimit :: "jsnum \<Rightarrow> int result" where
  "clampRateLimit rateLimit =
     (case rateLimit of
        Fin r \<Rightarrow> if r < 0 then Inl (Error ''Rate limit must be a non-negative finite number'')
                 else let n = \<lfloor>r\<rfloor> in Inr (if n > int MAX_USHORT then 0 else n)
      | _ \<Rightarrow> Inl (Error ''Rate limit must be a non-negative finite number''))"

definition validateFields :: "jsstr list option \<Rightarrow> unit result" where
  "validateFields flds =
     (case flds of None \<Rightarrow> Inr ()
      | Some fs \<Rightarrow> if fs = [] \<or> [] \<in> set fs then Inl (Error ''schema must contain non-empty field names'')
                   else if \<not> distinct fs then Inl (Error ''schema fields must be unique'')
                   else Inr ())"

definition NUMERIC_TYPES :: "nat set" where
  "NUMERIC_TYPES = {PT_BYTES, PT_UBYTES, PT_SHORTS, PT_USHORTS, PT_VARINT, PT_UVARINT, PT_DELTAS,
                    PT_FLOATS, PT_DOUBLES}"

definition is_numeric :: "arguable \<Rightarrow> bool" where
  "is_numeric t = (case t of AType n \<Rightarrow> n \<in> NUMERIC_TYPES | AEnum _ \<Rightarrow> False)"

definition validateNumericOptions ::
  "arguable \<Rightarrow> jsnum option \<Rightarrow> jsnum option \<Rightarrow> jsnum option \<Rightarrow> unit result" where
  "validateNumericOptions ty scale mn mx =
     (if (case (mn, mx) of (Some a, Some b) \<Rightarrow> num_less b a | _ \<Rightarrow> False)
      then Inl (Error ''min cannot exceed max'')
      else if (scale \<noteq> None \<or> mn \<noteq> None \<or> mx \<noteq> None) \<and> \<not> is_numeric ty
      then Inl (Error ''numeric options require a numeric packet type'')
      else case scale of
             None \<Rightarrow> Inr ()
           | Some s \<Rightarrow> if \<not> num_finite s \<or> \<not> num_less (Fin 0) s
                       then Inl (Error ''quantization scale must be positive and finite'') else Inr ())"

section \<open>Single-typed packets\<close>

record single_settings =
  ss_tag :: jsstr
  ss_type :: "arguable option"
  ss_dataMax :: "int option"
  ss_dataMin :: "int option"
  ss_noDataRange :: "bool option"
  ss_dontSpread :: "bool option"
  ss_dataBatching :: "nat option"
  ss_maxBatchSize :: "int option"
  ss_rateLimit :: "jsnum option"
  ss_enabled :: "bool option"
  ss_async :: "bool option"
  ss_gzip :: "bool option"
  ss_rereference :: "bool option"
  ss_schema :: "jsstr list option"
  ss_autoFlatten :: "bool option"
  ss_quantized :: "(jsnum \<times> bool option) option"
  ss_min :: "jsnum option"
  ss_max :: "jsnum option"
  ss_constructor :: "packet_class option"
  ss_replay :: "bool option"
  ss_group :: "group_info option"

definition or_else :: "'a option \<Rightarrow> 'a \<Rightarrow> 'a" where
  "or_else x d = (case x of None \<Rightarrow> d | Some y \<Rightarrow> y)"

lemma or_else_simps [simp]: "or_else None d = d" "or_else (Some y) d = y"
  by (simp_all add: or_else_def)

text \<open>The data range of the source's destructuring and its first two branches.\<close>

definition single_range :: "single_settings \<Rightarrow> int \<times> int" where
  "single_range s =
     (let ty = or_else (ss_type s) (AType PT_NONE);
          dataMax = or_else (ss_dataMax s) 1;
          repeatedDefaultRange = ss_autoFlatten s = Some True \<and> ss_dataMax s = None \<and> ss_dataMin s = None
      in if or_else (ss_noDataRange s) False \<or> repeatedDefaultRange
         then (if or_else (ss_rereference s) False then 1 else 0, MAX_DATA_MAX)
         else (case ss_dataMin s of Some m \<Rightarrow> m | None \<Rightarrow> if ty = AType PT_NONE then 0 else dataMax, dataMax))"

definition register_opt :: "packet_class option \<Rightarrow> (class_registry, unit) st_result" where
  "register_opt c = (case c of None \<Rightarrow> returnS () | Some k \<Rightarrow> bindS (RegisterPacketConstructor k) (\<lambda>_. returnS ()))"

definition checkS :: "bool \<Rightarrow> string \<Rightarrow> ('s, unit) st_result" where
  "checkS bad msg = (if bad then throwS (Error msg) else returnS ())"

definition single_schema :: "single_settings \<Rightarrow> int \<Rightarrow> packet_schema" where
  "single_schema s rateLimit =
     (let ty = or_else (ss_type s) (AType PT_NONE);
          (dataMin, dataMax) = single_range s; (types, enumData) = convertTypes [ty]
      in \<lparr>ps_object = False, ps_types = types, ps_enumData = enumData, ps_async = or_else (ss_async s) False,
           ps_dataMin = [clampDataMin dataMin dataMax], ps_dataMax = [clampDataMax dataMax],
           ps_rateLimit = rateLimit, ps_dontSpread = or_else (ss_dontSpread s) False,
           ps_autoFlatten = or_else (ss_autoFlatten s) False, ps_rereference = or_else (ss_rereference s) False,
           ps_dataBatching = Some (or_else (ss_dataBatching s) 0),
           ps_maxBatchSize = or_else (ss_maxBatchSize s) 10,
           ps_gzip = or_else (ss_gzip s) (ty = AType PT_JSON), ps_fields = ss_schema s,
           ps_quantized = map_option (\<lambda>(sc, tr). \<lparr>q_scale = sc, q_track = or_else tr True\<rparr>) (ss_quantized s),
           ps_valueMin = ss_min s, ps_valueMax = ss_max s, ps_group = ss_group s,
           ps_constructorName = map_option cls_name (ss_constructor s), ps_replay = or_else (ss_replay s) False\<rparr>)"

text \<open>The checks are those of the source, in its order.\<close>

definition CreatePacket :: "single_settings \<Rightarrow> (class_registry, packet) st_result" where
  "CreatePacket s =
     (let ty = or_else (ss_type s) (AType PT_NONE);
          flds = ss_schema s; autoFlatten = or_else (ss_autoFlatten s) False;
          (dataMin, dataMax) = single_range s
      in bindS (checkS (ss_tag s = []) ''Packet tag is required'') (\<lambda>_.
         bindS (checkS (or_else (ss_rereference s) False \<and> dataMin = 0) ''Rereference requires a data minimum above zero'') (\<lambda>_.
         bindS (checkS (or_else (ss_replay s) False \<and> or_else (ss_dataBatching s) 0 \<noteq> 0) ''cannot combine replay with batching'') (\<lambda>_.
         bindS (checkS (isInvalidType ty) ''Invalid packet type'') (\<lambda>_.
         bindS (liftS (validateFields flds)) (\<lambda>_.
         bindS (checkS (ss_constructor s \<noteq> None \<and> flds = None) ''constructor requires schema'') (\<lambda>_.
         bindS (register_opt (ss_constructor s)) (\<lambda>_.
         bindS (checkS (autoFlatten \<and> (flds = None \<or> flds = Some [])) ''autoFlatten requires schema'') (\<lambda>_.
         bindS (checkS (case flds of None \<Rightarrow> False
                        | Some fs \<Rightarrow> \<not> autoFlatten \<and> dataMin = dataMax \<and> int (length fs) \<noteq> dataMax)
                  ''schema length must match its fixed value count'') (\<lambda>_.
         bindS (liftS (validateNumericOptions ty (map_option fst (ss_quantized s)) (ss_min s) (ss_max s))) (\<lambda>_.
         bindS (liftS (clampRateLimit (or_else (ss_rateLimit s) (Fin 0)))) (\<lambda>rateLimit.
           returnS (new_packet (ss_tag s) (single_schema s rateLimit) (or_else (ss_enabled s) True) False)))))))))))))"

definition no_settings :: "jsstr \<Rightarrow> single_settings" where
  "no_settings tg = \<lparr>ss_tag = tg, ss_type = None, ss_dataMax = None, ss_dataMin = None, ss_noDataRange = None,
     ss_dontSpread = None, ss_dataBatching = None, ss_maxBatchSize = None, ss_rateLimit = None,
     ss_enabled = None, ss_async = None, ss_gzip = None, ss_rereference = None, ss_schema = None,
     ss_autoFlatten = None, ss_quantized = None, ss_min = None, ss_max = None, ss_constructor = None,
     ss_replay = None, ss_group = None\<rparr>"

record enum_settings =
  es_tag :: jsstr
  es_enumData :: enum_pkg
  es_dataMax :: "int option"
  es_dataMin :: "int option"
  es_noDataRange :: "bool option"
  es_dontSpread :: "bool option"
  es_dataBatching :: "nat option"
  es_maxBatchSize :: "int option"
  es_rateLimit :: "jsnum option"
  es_enabled :: "bool option"
  es_async :: "bool option"

definition CreateEnumPacket :: "enum_settings \<Rightarrow> (class_registry, packet) st_result" where
  "CreateEnumPacket e = CreatePacket ((no_settings (es_tag e))
     \<lparr>ss_type := Some (AEnum (es_enumData e)), ss_dataMax := Some (or_else (es_dataMax e) 1),
      ss_dataMin := Some (or_else (es_dataMin e) 0), ss_noDataRange := Some (or_else (es_noDataRange e) False),
      ss_dontSpread := Some (or_else (es_dontSpread e) False),
      ss_dataBatching := Some (or_else (es_dataBatching e) 0),
      ss_maxBatchSize := Some (or_else (es_maxBatchSize e) 10),
      ss_rateLimit := Some (or_else (es_rateLimit e) (Fin 0)), ss_enabled := Some (or_else (es_enabled e) True),
      ss_async := Some (or_else (es_async e) False)\<rparr>)"

section \<open>Object packets\<close>

datatype limits = LScalar int | LList "int list"

record multi_settings =
  ms_tag :: jsstr
  ms_types :: "arguable list"
  ms_dataMaxes :: "limits option"
  ms_dataMins :: "limits option"
  ms_noDataRange :: "bool option"
  ms_dontSpread :: "bool option"
  ms_autoFlatten :: "bool option"
  ms_autoTranspose :: "bool option"
  ms_schema :: "jsstr list option"
  ms_dataBatching :: "nat option"
  ms_maxBatchSize :: "int option"
  ms_rateLimit :: "jsnum option"
  ms_enabled :: "bool option"
  ms_async :: "bool option"
  ms_gzip :: "bool option"
  ms_constructor :: "packet_class option"
  ms_replay :: "bool option"

text \<open>
  Both lists before clamping. A missing minimum takes the maximum of its index. Lists given by the
  user are used as they are; here they must have one entry per type (\<open>undefined\<close> limits are not
  modelled), otherwise the model has no value.
\<close>

definition obj_limits :: "multi_settings \<Rightarrow> (int list \<times> int list) option" where
  "obj_limits s =
     (let n = length (ms_types s);
          fill = (\<lambda>l. case l of LScalar k \<Rightarrow> Some (replicate n k)
                              | LList ks \<Rightarrow> if length ks = n then Some ks else None)
      in if or_else (ms_noDataRange s) False then Some (replicate n 0, replicate n MAX_DATA_MAX)
         else case fill (or_else (ms_dataMaxes s) (LScalar 1)) of
           None \<Rightarrow> None
         | Some maxes \<Rightarrow>
             (case fill (or_else (ms_dataMins s) (LList maxes)) of None \<Rightarrow> None | Some mins \<Rightarrow> Some (mins, maxes)))"

definition CreateObjPacket :: "multi_settings \<Rightarrow> int list \<times> int list \<Rightarrow> (class_registry, packet) st_result" where
  "CreateObjPacket s lims =
     (let flds = ms_schema s; types = ms_types s; (mins, maxes) = lims;
          autoFlatten = or_else (ms_autoFlatten s) False;
          dataBatching = or_else (ms_dataBatching s) 0; replay = or_else (ms_replay s) False
      in bindS (checkS (ms_tag s = []) ''Packet tag is required'') (\<lambda>_.
         bindS (checkS (types = []) ''requires at least one type'') (\<lambda>_.
         bindS (checkS (replay \<and> dataBatching \<noteq> 0) ''cannot combine replay with batching'') (\<lambda>_.
         bindS (liftS (validateFields flds)) (\<lambda>_.
         bindS (checkS (ms_constructor s \<noteq> None \<and> flds = None) ''constructor requires schema'') (\<lambda>_.
         bindS (register_opt (ms_constructor s)) (\<lambda>_.
         bindS (checkS (case flds of None \<Rightarrow> False | Some fs \<Rightarrow> length fs \<noteq> length types)
                  ''schema length must match types length'') (\<lambda>_.
         bindS (checkS (case ms_autoTranspose s of None \<Rightarrow> False | Some t \<Rightarrow> autoFlatten \<and> t \<noteq> autoFlatten)
                  ''conflicting autoFlatten and autoTranspose options'') (\<lambda>_.
         bindS (checkS (list_ex isInvalidType types) ''Invalid packet type'') (\<lambda>_.
         bindS (liftS (clampRateLimit (or_else (ms_rateLimit s) (Fin 0)))) (\<lambda>rateLimit.
           let (tys, enumData) = convertTypes types;
               clampedMaxes = map clampDataMax maxes;
               clampedMins = map (\<lambda>(ty, m, mx). if ty = AType PT_NONE then 0 else clampDataMin m mx)
                                 (zip types (zip mins clampedMaxes));
               schema = \<lparr>ps_object = True, ps_types = tys, ps_enumData = enumData,
                 ps_async = or_else (ms_async s) False, ps_dataMin = clampedMins, ps_dataMax = clampedMaxes,
                 ps_rateLimit = rateLimit, ps_dontSpread = or_else (ms_dontSpread s) False,
                 ps_autoFlatten = or_else (ms_autoTranspose s) autoFlatten, ps_rereference = False,
                 ps_dataBatching = Some dataBatching, ps_maxBatchSize = or_else (ms_maxBatchSize s) 10,
                 ps_gzip = or_else (ms_gzip s) (AType PT_JSON \<in> set types), ps_fields = flds,
                 ps_quantized = None, ps_valueMin = None, ps_valueMax = None, ps_group = None,
                 ps_constructorName = map_option cls_name (ms_constructor s), ps_replay = replay\<rparr>
           in returnS (new_packet (ms_tag s) schema (or_else (ms_enabled s) True) False))))))))))))"

section \<open>Packet groups\<close>

text \<open>\<open>{...defaults, ...definition}\<close>, for definitions whose own keys are the ones that are not \<open>None\<close>.\<close>

definition first_of :: "'a option \<Rightarrow> 'a option \<Rightarrow> 'a option" where
  "first_of x y = (case x of None \<Rightarrow> y | Some _ \<Rightarrow> x)"

definition merge_settings :: "single_settings \<Rightarrow> single_settings \<Rightarrow> single_settings" where
  "merge_settings d s = \<lparr>ss_tag = ss_tag s, ss_type = first_of (ss_type s) (ss_type d),
     ss_dataMax = first_of (ss_dataMax s) (ss_dataMax d), ss_dataMin = first_of (ss_dataMin s) (ss_dataMin d),
     ss_noDataRange = first_of (ss_noDataRange s) (ss_noDataRange d),
     ss_dontSpread = first_of (ss_dontSpread s) (ss_dontSpread d),
     ss_dataBatching = first_of (ss_dataBatching s) (ss_dataBatching d),
     ss_maxBatchSize = first_of (ss_maxBatchSize s) (ss_maxBatchSize d),
     ss_rateLimit = first_of (ss_rateLimit s) (ss_rateLimit d), ss_enabled = first_of (ss_enabled s) (ss_enabled d),
     ss_async = first_of (ss_async s) (ss_async d), ss_gzip = first_of (ss_gzip s) (ss_gzip d),
     ss_rereference = first_of (ss_rereference s) (ss_rereference d),
     ss_schema = first_of (ss_schema s) (ss_schema d),
     ss_autoFlatten = first_of (ss_autoFlatten s) (ss_autoFlatten d),
     ss_quantized = first_of (ss_quantized s) (ss_quantized d),
     ss_min = first_of (ss_min s) (ss_min d), ss_max = first_of (ss_max s) (ss_max d),
     ss_constructor = first_of (ss_constructor s) (ss_constructor d),
     ss_replay = first_of (ss_replay s) (ss_replay d), ss_group = first_of (ss_group s) (ss_group d)\<rparr>"

datatype group_variants =
    VarNames "jsstr list"
  | VarPerm vperm
  | VarDefs "(jsstr \<times> single_settings) list"

record group_settings =
  gs_tag :: jsstr
  gs_defaults :: "single_settings option"
  gs_delegate :: "single_settings option"
  gs_variants :: group_variants

definition dollar :: "16 word" where
  "dollar = 36"

definition dot :: "16 word" where
  "dot = 46"

definition group_permutation :: "group_settings \<Rightarrow> jsstr list option" where
  "group_permutation g = (case gs_variants g of VarPerm vp \<Rightarrow> Some (vp_values vp) | _ \<Rightarrow> None)"

definition group_entries :: "group_settings \<Rightarrow> (jsstr \<times> single_settings) list" where
  "group_entries g =
     (case gs_variants g of
        VarPerm vp \<Rightarrow> map (\<lambda>v. (v, no_settings [])) (generate vp)
      | VarNames vs \<Rightarrow> map (\<lambda>v. (v, no_settings [])) vs
      | VarDefs ds \<Rightarrow> ds)"

definition child_settings :: "group_settings \<Rightarrow> jsstr \<Rightarrow> single_settings \<Rightarrow> single_settings" where
  "child_settings g variant d =
     (case first_of (gs_defaults g) (gs_delegate g) of None \<Rightarrow> d | Some defs \<Rightarrow> merge_settings defs d)
       \<lparr>ss_tag := gs_tag g @ [dot] @ variant,
        ss_group := Some \<lparr>g_parent = gs_tag g, g_variant = Some variant, g_isParent = False,
                         g_permutation = group_permutation g\<rparr>\<rparr>"

definition create_child :: "group_settings \<Rightarrow> jsstr \<times> single_settings \<Rightarrow> (class_registry, packet) st_result" where
  "create_child g entry =
     (case entry of (variant, d) \<Rightarrow>
        bindS (checkS (variant = [] \<or> dollar \<in> set variant) ''Packet variant names cannot be empty or contain $'') (\<lambda>_.
          CreatePacket (child_settings g variant d)))"

definition parent_settings :: "group_settings \<Rightarrow> single_settings" where
  "parent_settings g = (no_settings (gs_tag g))
     \<lparr>ss_type := Some (AType PT_NONE), ss_dataMin := Some 0, ss_dataMax := Some 0,
      ss_group := Some \<lparr>g_parent = gs_tag g, g_variant = Some [], g_isParent = True,
                       g_permutation = group_permutation g\<rparr>\<rparr>"

definition CreatePacketGroup :: "group_settings \<Rightarrow> (class_registry, packet list) st_result" where
  "CreatePacketGroup g =
     bindS (checkS (gs_tag g = [] \<or> dollar \<in> set (gs_tag g)) ''Packet group tag is required and cannot contain $'') (\<lambda>_.
     bindS (checkS (gs_defaults g \<noteq> None \<and> gs_delegate g \<noteq> None) ''cannot define both defaults and delegate'') (\<lambda>_.
     bindS (checkS ((case gs_variants g of VarDefs _ \<Rightarrow> False | _ \<Rightarrow> True)
                    \<and> first_of (gs_defaults g) (gs_delegate g) = None) ''array variants require defaults'') (\<lambda>_.
     bindS (checkS (group_entries g = []) ''requires at least one variant'') (\<lambda>_.
     bindS (checkS (\<not> distinct (map fst (group_entries g))) ''contains duplicate variant names'') (\<lambda>_.
     bindS (CreatePacket (parent_settings g)) (\<lambda>parent.
     bindS (mapS (create_child g) (group_entries g)) (\<lambda>children.
       returnS (parent # children))))))))"

section \<open>What creation guarantees\<close>

lemma bindS_Inr:
  "bindS m f s = (Inr y, s') \<longleftrightarrow> (\<exists>x s1. m s = (Inr x, s1) \<and> f x s1 = (Inr y, s'))"
  by (auto simp: bindS_eq split: prod.splits sum.splits)

lemma checkS_Inr [simp]: "checkS bad msg s = (Inr x, s') \<longleftrightarrow> \<not> bad \<and> s' = s"
  by (simp add: checkS_def throwS_def returnS_def) (cases x, auto)

lemma clampDataMax_range: "0 \<le> clampDataMax m \<and> clampDataMax m \<le> MAX_DATA_MAX"
  by (simp add: clampDataMax_def MAX_DATA_MAX_def)

lemma clampDataMin_range: "0 \<le> mx \<Longrightarrow> 0 \<le> clampDataMin m mx \<and> clampDataMin m mx \<le> mx"
  by (simp add: clampDataMin_def)

lemma clampRateLimit_range: "clampRateLimit r = Inr n \<Longrightarrow> 0 \<le> n \<and> n \<le> 65535"
  by (auto simp: clampRateLimit_def Let_def MAX_USHORT_def split: jsnum.splits if_splits)

definition fields_ok :: "jsstr list \<Rightarrow> bool" where
  "fields_ok fs \<longleftrightarrow> fs \<noteq> [] \<and> [] \<notin> set fs \<and> distinct fs"

lemma validateFields_Inr: "validateFields fs = Inr u \<longleftrightarrow> (\<forall>l. fs = Some l \<longrightarrow> fields_ok l)"
  by (auto simp: validateFields_def fields_ok_def split: option.splits)

text \<open>What the rest of the program may rely on in a packet made by \<open>CreatePacket\<close>.\<close>

definition packet_valid :: "packet \<Rightarrow> bool" where
  "packet_valid p \<longleftrightarrow>
     pk_tag p \<noteq> [] \<and> 0 \<le> pk_rateLimit p \<and> pk_rateLimit p \<le> 65535
     \<and> length (pk_types p) = 1 \<and> (\<forall>ty \<in> set (pk_types p). ty < 18 \<and> ty \<noteq> 15)
     \<and> (\<forall>mx \<in> set (pk_dataMax p). 0 \<le> mx \<and> mx \<le> MAX_DATA_MAX)
     \<and> (\<forall>fs. pk_fields p = Some fs \<longrightarrow> fields_ok fs)
     \<and> (pk_autoFlatten p \<longrightarrow> pk_fields p \<noteq> None) \<and> (pk_constructorName p \<noteq> None \<longrightarrow> pk_fields p \<noteq> None)
     \<and> (pk_replay p \<longrightarrow> pk_dataBatching p = Some 0)
     \<and> (numeric p \<longrightarrow> set (pk_types p) \<subseteq> NUMERIC_TYPES)
     \<and> (\<forall>q. pk_quantized p = Some q \<longrightarrow> num_finite (q_scale q) \<and> num_less (Fin 0) (q_scale q))"

lemma liftS_Inr [simp]: "liftS r s = (Inr x, s') \<longleftrightarrow> r = Inr x \<and> s' = s"
  by (auto simp: liftS_def)

lemma CreatePacket_Inr:
  assumes "CreatePacket s reg = (Inr p, reg')"
  obtains rl where
    "p = new_packet (ss_tag s) (single_schema s rl) (or_else (ss_enabled s) True) False"
    "clampRateLimit (or_else (ss_rateLimit s) (Fin 0)) = Inr rl"
    "ss_tag s \<noteq> []"
    "\<not> (or_else (ss_rereference s) False \<and> fst (single_range s) = 0)"
    "\<not> (or_else (ss_replay s) False \<and> or_else (ss_dataBatching s) 0 \<noteq> 0)"
    "\<not> isInvalidType (or_else (ss_type s) (AType PT_NONE))"
    "validateFields (ss_schema s) = Inr ()"
    "ss_constructor s \<noteq> None \<Longrightarrow> ss_schema s \<noteq> None"
    "or_else (ss_autoFlatten s) False \<Longrightarrow> ss_schema s \<noteq> None"
    "\<And>fs. ss_schema s = Some fs \<Longrightarrow> \<not> or_else (ss_autoFlatten s) False \<Longrightarrow> fst (single_range s) = snd (single_range s)
      \<Longrightarrow> int (length fs) = snd (single_range s)"
    "validateNumericOptions (or_else (ss_type s) (AType PT_NONE)) (map_option fst (ss_quantized s)) (ss_min s) (ss_max s)
      = Inr ()"
  using assms
  by (cases "single_range s") (auto simp: CreatePacket_def Let_def bindS_Inr intro: that split: option.splits)

lemma new_single_packet [simp]:
  "pk_tag (new_packet tg (single_schema s rl) en cl) = tg"
  "pk_rateLimit (new_packet tg (single_schema s rl) en cl) = rl"
  "pk_types (new_packet tg (single_schema s rl) en cl) = [fst (convertType (or_else (ss_type s) (AType PT_NONE)))]"
  "pk_fields (new_packet tg (single_schema s rl) en cl) = ss_schema s"
  "pk_autoFlatten (new_packet tg (single_schema s rl) en cl) = or_else (ss_autoFlatten s) False"
  "pk_constructorName (new_packet tg (single_schema s rl) en cl) = map_option cls_name (ss_constructor s)"
  "pk_replay (new_packet tg (single_schema s rl) en cl) = or_else (ss_replay s) False"
  "pk_rereference (new_packet tg (single_schema s rl) en cl) = or_else (ss_rereference s) False"
  "pk_object (new_packet tg (single_schema s rl) en cl) = False"
  "pk_dataBatching (new_packet tg (single_schema s rl) en cl) = Some (or_else (ss_dataBatching s) 0)"
  "pk_quantized (new_packet tg (single_schema s rl) en cl)
     = map_option (\<lambda>(sc, tr). \<lparr>q_scale = sc, q_track = or_else tr True\<rparr>) (ss_quantized s)"
  "pk_valueMin (new_packet tg (single_schema s rl) en cl) = ss_min s"
  "pk_valueMax (new_packet tg (single_schema s rl) en cl) = ss_max s"
  "pk_parent (new_packet tg (single_schema s rl) en cl) = map_option g_parent (ss_group s)"
  "pk_variant (new_packet tg (single_schema s rl) en cl) = Option.bind (ss_group s) g_variant"
  "pk_isParent (new_packet tg (single_schema s rl) en cl) = (case ss_group s of None \<Rightarrow> False | Some g \<Rightarrow> g_isParent g)"
  "pk_permutation (new_packet tg (single_schema s rl) en cl) = Option.bind (ss_group s) g_permutation"
  "pk_dataMax (new_packet tg (single_schema s rl) en cl)
     = [if fst (convertType (or_else (ss_type s) (AType PT_NONE))) = PT_NONE then 0 else clampDataMax (snd (single_range s))]"
  "pk_dataMin (new_packet tg (single_schema s rl) en cl)
     = [if fst (convertType (or_else (ss_type s) (AType PT_NONE))) = PT_NONE then 0
        else clampDataMin (fst (single_range s)) (snd (single_range s))]"
  by (simp_all add: new_packet_def single_schema_def convertTypes_def zero_none_def Let_def split: prod.splits)

lemma numeric_options_ok:
  assumes "validateNumericOptions ty scale mn mx = Inr ()"
  shows "scale \<noteq> None \<or> mn \<noteq> None \<or> mx \<noteq> None \<Longrightarrow> is_numeric ty"
    "scale = Some sc \<Longrightarrow> num_finite sc \<and> num_less (Fin 0) sc"
  using assms by (auto simp: validateNumericOptions_def split: if_splits option.splits)

lemma valid_type: "\<not> isInvalidType t \<Longrightarrow> fst (convertType t) < 18 \<and> fst (convertType t) \<noteq> 15"
  by (auto simp: isInvalidType_def convertType_def split: arguable.splits)

text \<open>
  C40: Whatever settings \<open>CreatePacket\<close> accepts, the packet is well-formed: a tag, a known type, a rate
  limit of two bytes, a maximum within the protocol limit, distinct non-empty field names, numeric
  options only on numeric types with a positive finite scale, no replay of batched packets.
\<close>

theorem create_packet_valid:
  assumes "CreatePacket s reg = (Inr p, reg')"
  shows "packet_valid p"
proof -
  obtain rl where p: "p = new_packet (ss_tag s) (single_schema s rl) (or_else (ss_enabled s) True) False"
    and c: "clampRateLimit (or_else (ss_rateLimit s) (Fin 0)) = Inr rl" "ss_tag s \<noteq> []"
      "\<not> (or_else (ss_replay s) False \<and> or_else (ss_dataBatching s) 0 \<noteq> 0)"
      "\<not> isInvalidType (or_else (ss_type s) (AType PT_NONE))" "validateFields (ss_schema s) = Inr ()"
      "ss_constructor s \<noteq> None \<Longrightarrow> ss_schema s \<noteq> None"
      "or_else (ss_autoFlatten s) False \<Longrightarrow> ss_schema s \<noteq> None"
    and n: "validateNumericOptions (or_else (ss_type s) (AType PT_NONE)) (map_option fst (ss_quantized s))
      (ss_min s) (ss_max s) = Inr ()"
    using CreatePacket_Inr [OF assms] by metis
  have num: "fst (convertType (or_else (ss_type s) (AType PT_NONE))) \<in> NUMERIC_TYPES" if "numeric p"
    using numeric_options_ok(1) [OF n] that
    by (auto simp: p numeric_def is_numeric_def convertType_def split: arguable.splits)
  show ?thesis
    using c clampRateLimit_range [OF c(1)] valid_type [OF c(4)] numeric_options_ok(2) [OF n] num
      clampDataMax_range [of "snd (single_range s)"]
    by (auto simp: p packet_valid_def validateFields_Inr MAX_DATA_MAX_def split: prod.splits)
qed

text \<open>
  The minimum is clamped against the maximum as given, not as clamped: a fixed count above the
  protocol limit leaves a packet whose minimum exceeds its maximum, so that no value count is legal.
\<close>

theorem create_packet_min_unclamped:
  assumes "tg \<noteq> []" "\<not> isInvalidType (AType ty)" "ty \<noteq> PT_NONE" "MAX_DATA_MAX < m"
  shows "\<exists>p. CreatePacket ((no_settings tg)\<lparr>ss_type := Some (AType ty), ss_dataMax := Some m\<rparr>) reg = (Inr p, reg)
    \<and> pk_dataMin p = [m] \<and> pk_dataMax p = [MAX_DATA_MAX]"
proof -
  let ?s = "(no_settings tg)\<lparr>ss_type := Some (AType ty), ss_dataMax := Some m\<rparr>"
  have r: "single_range ?s = (m, m)" using assms(3) by (simp add: single_range_def no_settings_def)
  have "m \<noteq> 0" "\<not> m < 0" using assms(4) by (simp_all add: MAX_DATA_MAX_def)
  then show ?thesis
    using assms r
    by (simp add: CreatePacket_def checkS_def register_opt_def validateFields_def validateNumericOptions_def
        clampRateLimit_def convertType_def clampDataMin_def clampDataMax_def)
       (simp add: no_settings_def convertType_def clampDataMin_def clampDataMax_def)
qed

lemma create_packet_min_unclamped_witness:
  "\<exists>p. CreatePacket ((no_settings (js ''p''))\<lparr>ss_type := Some (AType PT_UBYTES), ss_dataMax := Some 3000000\<rparr>) [] = (Inr p, [])
    \<and> pk_dataMin p = [3000000] \<and> pk_dataMax p = [MAX_DATA_MAX]"
  by (rule create_packet_min_unclamped) (simp_all add: isInvalidType_def MAX_DATA_MAX_def js_def)

lemma create_packet_valid_witness:
  "packet_valid (new_packet (js ''p'') (single_schema (no_settings (js ''p'')) 0) True False)"
proof (rule create_packet_valid)
  show "CreatePacket (no_settings (js ''p'')) [] = (Inr (new_packet (js ''p'') (single_schema (no_settings (js ''p'')) 0) True False), [])"
    by (simp add: CreatePacket_def checkS_def register_opt_def validateFields_def validateNumericOptions_def
        clampRateLimit_def single_range_def isInvalidType_def js_def MAX_USHORT_def)
       (simp add: no_settings_def)
qed

text \<open>
  The check that a re-referenced packet needs a minimum above zero looks at the minimum before it is
  clamped: a negative one passes and becomes zero, and an empty payload is ambiguous.
\<close>

theorem create_packet_rereference_zero:
  assumes "tg \<noteq> []" "\<not> isInvalidType (AType ty)" "n < 0"
  shows "\<exists>p. CreatePacket ((no_settings tg)\<lparr>ss_type := Some (AType ty), ss_rereference := Some True,
      ss_dataMin := Some n\<rparr>) reg = (Inr p, reg) \<and> pk_rereference p \<and> pk_dataMin p = [0]"
proof -
  let ?s = "(no_settings tg)\<lparr>ss_type := Some (AType ty), ss_rereference := Some True, ss_dataMin := Some n\<rparr>"
  have r: "single_range ?s = (n, 1)" by (simp add: single_range_def no_settings_def)
  then show ?thesis
    using assms
    by (simp add: CreatePacket_def checkS_def register_opt_def validateFields_def validateNumericOptions_def
        clampRateLimit_def)
       (simp add: no_settings_def clampDataMin_def MAX_USHORT_def)
qed

lemma create_packet_rereference_zero_witness:
  "\<exists>p. CreatePacket ((no_settings (js ''p''))\<lparr>ss_type := Some (AType PT_UBYTES), ss_rereference := Some True,
      ss_dataMin := Some (- 1)\<rparr>) [] = (Inr p, []) \<and> pk_rereference p \<and> pk_dataMin p = [0]"
  by (rule create_packet_rereference_zero) (simp_all add: isInvalidType_def js_def)

end
