(* ===== verification/Packet_Wire.thy ===== *)
theory Packet_Wire
  imports Packets
begin

text \<open>
  The bytes of a packet definition (\<open>serialize\<close> and \<open>deserialize\<close> of
  \<open>projects/ts/src/ws/packets/Packets.ts\<close>) and of whole packet tables
  (\<open>util/packets/metadata/PacketManifest.ts\<close>).

  The reader's offset is a JavaScript number that turns into NaN when a length byte is missing: it is a
  \<open>nat option\<close>, \<open>None\<close> being NaN. Reading a byte past the end gives \<open>undefined\<close>, also \<open>None\<close>; an
  undefined packet type is the code 256. \<open>JSON.stringify\<close> and \<open>JSON.parse\<close> are those of \<open>js_lib\<close>.
\<close>

section \<open>Writing\<close>

definition json_opt :: "string \<Rightarrow> jsval option \<Rightarrow> (jsstr \<times> jsval) list" where
  "json_opt k v = (case v of None \<Rightarrow> [] | Some w \<Rightarrow> [(js k, w)])"

definition packet_metadata :: "packet \<Rightarrow> jsval" where
  "packet_metadata p = JObj
     (json_opt ''schema'' (map_option (\<lambda>fs. JArr (map JStr fs)) (pk_fields p))
      @ json_opt ''quantized'' (map_option (\<lambda>q. JObj [(js ''scale'', JNum (q_scale q)),
                                                      (js ''trackError'', JBool (q_track q))]) (pk_quantized p))
      @ json_opt ''min'' (map_option JNum (pk_valueMin p))
      @ json_opt ''max'' (map_option JNum (pk_valueMax p))
      @ json_opt ''group'' (map_option (\<lambda>parent. JObj
            ([(js ''parent'', JStr parent),
              (js ''variant'', JStr (case pk_variant p of None \<Rightarrow> [] | Some v \<Rightarrow> v)),
              (js ''isParent'', JBool (pk_isParent p))]
             @ json_opt ''permutation'' (map_option (\<lambda>vs. JArr (map JStr vs)) (pk_permutation p)))) (pk_parent p))
      @ json_opt ''constructor'' (map_option JStr (pk_constructorName p))
      @ json_opt ''replay'' (if pk_replay p then Some (JBool True) else None))"

definition packet_flags :: "packet \<Rightarrow> bool list" where
  "packet_flags p = [pk_dontSpread p, pk_async p, pk_object p, pk_autoFlatten p, pk_gzip p, pk_rereference p]"

text \<open>The numbers of the source's array; they become bytes when the table is stored.\<close>

definition packet_serialize :: "js_lib \<Rightarrow> packet \<Rightarrow> nat list result" where
  "packet_serialize lib p =
     (let metadata = utf8_encode (json_stringify lib (packet_metadata p))
      in bindR (convertVarInt (int (length metadata))) (\<lambda>metadataLength.
        let sharedData = [length (pk_tag p)] @ processCharCodes (pk_tag p) @ [compressBools (packet_flags p)]
              @ map unat metadataLength @ map unat metadata
              @ [case pk_dataBatching p of Some n \<Rightarrow> n | None \<Rightarrow> 0]
              @ [length (pk_enumData p)] @ concat (map (enum_serialize lib) (pk_enumData p))
        in if \<not> pk_object p then
             bindR (convertVarInt (hd (pk_dataMax p))) (\<lambda>mx.
               bindR (convertVarInt (hd (pk_dataMin p))) (\<lambda>mn.
                 Inr (sharedData @ map unat mx @ map unat mn @ [pk_type p])))
           else
             bindR (mapR convertVarInt (pk_dataMax p)) (\<lambda>mxs.
               bindR (mapR convertVarInt (pk_dataMin p)) (\<lambda>mns.
                 Inr (sharedData @ [nat (pk_maxSize p)] @ map unat (concat mxs) @ map unat (concat mns)
                      @ pk_types p)))))"

section \<open>Reading\<close>

type_synonym joff = "nat option"

definition rd_byte :: "u8 list \<Rightarrow> joff \<Rightarrow> nat option" where
  "rd_byte data off =
     (case off of None \<Rightarrow> None | Some i \<Rightarrow> if i < length data then Some (unat (data ! i)) else None)"

definition off_inc :: "joff \<Rightarrow> joff" where
  "off_inc off = map_option Suc off"

definition off_add :: "joff \<Rightarrow> nat option \<Rightarrow> joff" where
  "off_add off n = (case (off, n) of (Some i, Some k) \<Rightarrow> Some (i + k) | _ \<Rightarrow> None)"

text \<open>\<open>data.slice(a, b)\<close>; a NaN bound is 0.\<close>

definition off_slice :: "u8 list \<Rightarrow> joff \<Rightarrow> joff \<Rightarrow> u8 list" where
  "off_slice data a b =
     js_slice data (case a of None \<Rightarrow> 0 | Some i \<Rightarrow> i) (case b of None \<Rightarrow> 0 | Some i \<Rightarrow> i)"

text \<open>\<open>NaN >= data.length\<close> is false and \<open>data[NaN]\<close> undefined: the varint is 0.\<close>

definition off_varint :: "u8 list \<Rightarrow> joff \<Rightarrow> (joff \<times> nat) result" where
  "off_varint data off =
     (case off of None \<Rightarrow> Inr (None, 0)
      | Some i \<Rightarrow> bindR (readVarInt data i) (\<lambda>(i', v). Inr (Some i', v)))"

fun readVarInts :: "u8 list \<Rightarrow> joff \<Rightarrow> nat \<Rightarrow> (nat list \<times> joff) result" where
  "readVarInts data off 0 = Inr ([], off)"
| "readVarInts data off (Suc n) =
     bindR (off_varint data off) (\<lambda>(off', v).
       bindR (readVarInts data off' n) (\<lambda>(vs, off''). Inr (v # vs, off'')))"

record wire_meta =
  wm_fields :: "jsstr list option"
  wm_quantized :: "quantization option"
  wm_min :: "jsnum option"
  wm_max :: "jsnum option"
  wm_group :: "group_info option"
  wm_constructor :: "jsstr option"
  wm_replay :: bool

definition num_prop :: "jsval \<Rightarrow> jsnum option" where
  "num_prop v = (case v of JNum n \<Rightarrow> Some n | _ \<Rightarrow> None)"

definition str_prop :: "jsval \<Rightarrow> jsstr option" where
  "str_prop v = (case v of JStr s \<Rightarrow> Some s | _ \<Rightarrow> None)"

definition strs_prop :: "js_lib \<Rightarrow> jsval \<Rightarrow> jsstr list option" where
  "strs_prop lib v = (case v of JArr vs \<Rightarrow> Some (map (js_String lib) vs) | _ \<Rightarrow> None)"

definition read_metadata :: "js_lib \<Rightarrow> jsval \<Rightarrow> wire_meta result" where
  "read_metadata lib metadata =
     (if nullish metadata then Inl (TypeError ''Cannot read properties of null'')
      else let get = (\<lambda>k. case metadata of JObj kvs \<Rightarrow> obj_get kvs (js k) | _ \<Rightarrow> JUndef)
        in Inr \<lparr>wm_fields = strs_prop lib (get ''schema''),
                wm_quantized =
                  (case get ''quantized'' of
                     JObj q \<Rightarrow> (case obj_get q (js ''scale'') of
                         JNum n \<Rightarrow> Some \<lparr>q_scale = n,
                            q_track = (let t = obj_get q (js ''trackError'') in nullish t \<or> js_truthy t)\<rparr>
                       | _ \<Rightarrow> None)
                   | _ \<Rightarrow> None),
                wm_min = num_prop (get ''min''),
                wm_max = num_prop (get ''max''),
                wm_group =
                  (case get ''group'' of
                     JObj g \<Rightarrow> (case obj_get g (js ''parent'') of
                         JStr parent \<Rightarrow> Some \<lparr>g_parent = parent,
                            g_variant = str_prop (obj_get g (js ''variant'')),
                            g_isParent = js_truthy (obj_get g (js ''isParent'')),
                            g_permutation = strs_prop lib (obj_get g (js ''permutation''))\<rparr>
                       | _ \<Rightarrow> None)
                   | _ \<Rightarrow> None),
                wm_constructor = str_prop (get ''constructor''),
                wm_replay = (get ''replay'' = JBool True)\<rparr>)"

fun read_enum_values :: "js_lib \<Rightarrow> u8 list \<Rightarrow> joff \<Rightarrow> nat \<Rightarrow> (jsval list \<times> joff) result" where
  "read_enum_values lib data off 0 = Inr ([], off)"
| "read_enum_values lib data off (Suc n) =
     (let valueLength = rd_byte data off; off1 = off_inc off;
          valueType = rd_byte data off1; off2 = off_inc off1;
          off3 = off_add off2 valueLength
      in bindR (as8String (off_slice data off2 off3)) (\<lambda>text.
         bindR (case valueType of
                  None \<Rightarrow> Inl (TypeError ''TYPE_CONVERSION_MAP[valueType] is not a function'')
                | Some ty \<Rightarrow> type_conversion lib ty text) (\<lambda>v.
         bindR (read_enum_values lib data off3 n) (\<lambda>(vs, off'). Inr (v # vs, off')))))"

fun read_enums ::
  "js_lib \<Rightarrow> u8 list \<Rightarrow> joff \<Rightarrow> nat \<Rightarrow> enum_registry \<Rightarrow> (enum_pkg list \<times> joff \<times> enum_registry) result" where
  "read_enums lib data off 0 reg = Inr ([], off, reg)"
| "read_enums lib data off (Suc n) reg =
     (let tagLength = rd_byte data off; off1 = off_inc off; off2 = off_add off1 tagLength
      in bindR (as8String (off_slice data off1 off2)) (\<lambda>tg.
         let valueCount = rd_byte data off2; off3 = off_inc off2
         in bindR (read_enum_values lib data off3 (case valueCount of None \<Rightarrow> 0 | Some k \<Rightarrow> k)) (\<lambda>(vals, off4).
            bindR (DefineEnum lib tg vals reg) (\<lambda>(pkg, reg').
            bindR (read_enums lib data off4 n reg') (\<lambda>(pkgs, off', reg''). Inr (pkg # pkgs, off', reg''))))))"

fun final_types :: "nat list \<Rightarrow> enum_pkg list \<Rightarrow> arguable list" where
  "final_types [] enums = []"
| "final_types (ty # tys) enums =
     (if ty = PT_ENUMS
      then (case enums of [] \<Rightarrow> AType 256 # final_types tys [] | e # es \<Rightarrow> AEnum e # final_types tys es)
      else AType ty # final_types tys enums)"

definition wire_schema ::
  "bool list \<Rightarrow> arguable list \<Rightarrow> nat list \<Rightarrow> nat list \<Rightarrow> nat option \<Rightarrow> wire_meta \<Rightarrow> packet_schema" where
  "wire_schema flags types dataMins dataMaxes batching meta =
     (let isObject = flags ! 2; (tys, pkgs) = convertTypes types
      in \<lparr>ps_object = isObject, ps_types = tys, ps_enumData = pkgs, ps_async = flags ! 1,
          ps_dataMin = map int dataMins, ps_dataMax = map int dataMaxes, ps_rateLimit = - 1,
          ps_dontSpread = flags ! 0, ps_autoFlatten = flags ! 3,
          ps_rereference = (if isObject then False else flags ! 5),
          ps_dataBatching = batching, ps_maxBatchSize = - 1, ps_gzip = flags ! 4,
          ps_fields = wm_fields meta,
          ps_quantized = (if isObject then None else wm_quantized meta),
          ps_valueMin = (if isObject then None else wm_min meta),
          ps_valueMax = (if isObject then None else wm_max meta),
          ps_group = wm_group meta, ps_constructorName = wm_constructor meta, ps_replay = wm_replay meta\<rparr>)"

text \<open>The limits and types at the end of a record, of an object packet or of one type.\<close>

definition read_limits :: "u8 list \<Rightarrow> joff \<Rightarrow> bool \<Rightarrow> (nat list \<times> nat list \<times> nat list \<times> joff) result" where
  "read_limits data off isObject =
     (if isObject then
        let size = rd_byte data off; off1 = off_inc off; n = (case size of None \<Rightarrow> 0 | Some k \<Rightarrow> k)
        in bindR (readVarInts data off1 n) (\<lambda>(dataMaxes, off2).
           bindR (readVarInts data off2 n) (\<lambda>(dataMins, off3).
             let off4 = off_add off3 size
             in Inr (dataMaxes, dataMins, map unat (off_slice data off3 off4), off4)))
      else
        bindR (off_varint data off) (\<lambda>(off1, dataMax).
        bindR (off_varint data off1) (\<lambda>(off2, dataMin).
          let ty = (case rd_byte data off2 of None \<Rightarrow> 256 | Some t \<Rightarrow> t)
          in Inr ([dataMax], [dataMin], [ty], off_inc off2))))"

text \<open>The packet, the offset behind it and the enum registry.\<close>

definition deserialize_at ::
  "js_lib \<Rightarrow> u8 list \<Rightarrow> nat \<Rightarrow> bool \<Rightarrow> enum_registry \<Rightarrow> (packet \<times> joff \<times> enum_registry) result" where
  "deserialize_at lib data offset client reg =
     (let off0 = Some offset; tagLength = rd_byte data off0; off1 = off_inc off0; off2 = off_add off1 tagLength
      in bindR (as8String (off_slice data off1 off2)) (\<lambda>tg.
      let flags = decompressBools (case rd_byte data off2 of None \<Rightarrow> 0 | Some b \<Rightarrow> b); off3 = off_inc off2
      in bindR (off_varint data off3) (\<lambda>(off4, metadataLength).
      let off5 = off_add off4 (Some metadataLength)
      in bindR (json_parse lib (utf8_decode (off_slice data off4 off5))) (\<lambda>metadata.
      bindR (read_metadata lib metadata) (\<lambda>meta.
      let dataBatching = rd_byte data off5; off6 = off_inc off5;
          enumLength = rd_byte data off6; off7 = off_inc off6
      in bindR (read_enums lib data off7 (case enumLength of None \<Rightarrow> 0 | Some k \<Rightarrow> k) reg) (\<lambda>(enums, off8, reg').
      bindR (read_limits data off8 (flags ! 2)) (\<lambda>(dataMaxes, dataMins, types, off9).
        Inr (new_packet tg (wire_schema flags (final_types types enums) dataMins dataMaxes dataBatching meta)
               False client, off9, reg'))))))))"

definition deserialize ::
  "js_lib \<Rightarrow> u8 list \<Rightarrow> nat \<Rightarrow> bool \<Rightarrow> enum_registry \<Rightarrow> (packet \<times> nat option \<times> enum_registry) result" where
  "deserialize lib data offset client reg =
     bindR (deserialize_at lib data offset client reg) (\<lambda>(p, off, reg'). Inr (p, map_option (\<lambda>e. e - offset) off, reg'))"

text \<open>Progress of the reader: what the table loop needs to end.\<close>

definition off_le :: "joff \<Rightarrow> joff \<Rightarrow> bool" where
  "off_le a b \<longleftrightarrow> (\<forall>y. b = Some y \<longrightarrow> (\<exists>x. a = Some x \<and> x \<le> y))"

lemma off_le_refl: "off_le a a" and off_le_trans: "off_le a b \<Longrightarrow> off_le b c \<Longrightarrow> off_le a c"
  by (auto simp: off_le_def)

lemma off_le_inc: "off_le a (off_inc a)" and off_le_add: "off_le a (off_add a n)"
  by (auto simp: off_le_def off_inc_def off_add_def split: option.splits)

lemma off_le_varint: "off_varint data off = Inr (off', v) \<Longrightarrow> off_le off off'"
  by (auto simp: off_le_def off_varint_def bindR_eq_Inr split: option.splits dest!: readVarInt_bounds)

lemma off_le_varints: "readVarInts data off n = Inr (vs, off') \<Longrightarrow> off_le off off'"
proof (induction n arbitrary: off vs)
  case (Suc n)
  then show ?case by (auto simp: bindR_eq_Inr) (metis off_le_trans off_le_varint)
qed (simp add: off_le_refl)

lemma off_le_values: "read_enum_values lib data off n = Inr (vs, off') \<Longrightarrow> off_le off off'"
proof (induction n arbitrary: off vs)
  case (Suc n)
  then show ?case
    by (auto simp: bindR_eq_Inr Let_def) (metis off_le_trans off_le_inc off_le_add)
qed (simp add: off_le_refl)

lemma off_le_enums: "read_enums lib data off n reg = Inr (ps, off', reg') \<Longrightarrow> off_le off off'"
proof (induction n arbitrary: off ps reg)
  case (Suc n)
  then show ?case
    by (auto simp: bindR_eq_Inr Let_def) (metis off_le_trans off_le_inc off_le_add off_le_values)
qed (simp add: off_le_refl)

lemma off_le_limits: "read_limits data off b = Inr (mx, mn, tys, off') \<Longrightarrow> off_le off off'"
  by (auto simp: read_limits_def Let_def bindR_eq_Inr split: if_splits
      dest!: off_le_varint off_le_varints)
     (metis off_le_trans off_le_inc off_le_add)+

lemma deserialize_progress:
  assumes "deserialize_at lib data offset client reg = Inr (p, Some e, reg')"
  shows "offset < e"
proof -
  obtain tl off4 ml n enums off8 b mx mn tys where
    v: "off_varint data (off_inc (off_add (off_inc (Some offset)) tl)) = Inr (off4, ml)"
    and e: "read_enums lib data (off_inc (off_inc (off_add off4 (Some ml)))) n reg = Inr (enums, off8, reg')"
    and l: "read_limits data off8 b = Inr (mx, mn, tys, Some e)"
    using assms unfolding deserialize_at_def Let_def bindR_eq_Inr
    by (auto simp only: bindR_eq_Inr prod.case split: prod.splits) (auto simp: bindR_eq_Inr)
  have "off_le (off_inc (Some offset)) (Some e)"
    using off_le_varint [OF v] off_le_enums [OF e] off_le_limits [OF l]
    by (meson off_le_trans off_le_inc off_le_add)
  then show ?thesis by (auto simp: off_le_def off_inc_def)
qed

function deserializeAll_from ::
  "js_lib \<Rightarrow> u8 list \<Rightarrow> nat \<Rightarrow> bool \<Rightarrow> enum_registry \<Rightarrow> (packet list \<times> enum_registry) result" where
  "deserializeAll_from lib data offset client reg =
     (if length data \<le> offset then Inr ([], reg)
      else bindR (deserialize_at lib data offset client reg) (\<lambda>(p, off, reg').
        case off of
          None \<Rightarrow> Inr ([p], reg')
        | Some e \<Rightarrow> bindR (deserializeAll_from lib data e client reg') (\<lambda>(ps, reg''). Inr (p # ps, reg''))))"
  by pat_completeness auto
termination
  by (relation "measure (\<lambda>(lib, data, offset, client, reg). length data - offset)")
     (auto dest!: deserialize_progress)

declare deserializeAll_from.simps [simp del]

definition deserializeAll :: "js_lib \<Rightarrow> u8 list \<Rightarrow> bool \<Rightarrow> enum_registry \<Rightarrow> (packet list \<times> enum_registry) result" where
  "deserializeAll lib data client reg = deserializeAll_from lib data 0 client reg"

section \<open>Manifests\<close>

definition VERSION :: nat where
  "VERSION = 25"

definition MAGIC :: "u8 list" where
  "MAGIC = [0x53, 0x57, 0x53, 0x4d]"

definition serialize_table :: "js_lib \<Rightarrow> packet list \<Rightarrow> nat list result" where
  "serialize_table lib ps = bindR (mapR (packet_serialize lib) ps) (\<lambda>ns. Inr (concat ns))"

definition CreatePacketManifest :: "js_lib \<Rightarrow> packet list \<Rightarrow> packet list \<Rightarrow> u8 list result" where
  "CreatePacketManifest lib clientPackets serverPackets =
     bindR (serialize_table lib clientPackets) (\<lambda>clients.
     bindR (serialize_table lib serverPackets) (\<lambda>servers.
     bindR (convertVarInt (int (length clients))) (\<lambda>len.
       Inr (MAGIC @ [of_nat VERSION] @ len @ map of_nat clients @ map of_nat servers))))"

definition LoadPacketManifest ::
  "js_lib \<Rightarrow> u8 list \<Rightarrow> enum_registry \<Rightarrow> (packet list \<times> packet list \<times> enum_registry) result" where
  "LoadPacketManifest lib data reg =
     (if length data < 6 \<or> take 4 data \<noteq> MAGIC then Inl (Error ''Invalid SonicWS packet manifest'')
      else if data ! 4 \<noteq> of_nat VERSION then Inl (Error ''Packet manifest protocol mismatch'')
      else bindR (readVarInt data 5) (\<lambda>(offset, clientLength).
        let end = offset + clientLength
        in if end > length data then Inl (Error ''Truncated SonicWS packet manifest'')
           else bindR (deserializeAll lib (js_slice data offset end) False reg) (\<lambda>(clients, reg').
                bindR (deserializeAll lib (drop end data) False reg') (\<lambda>(servers, reg'').
                  Inr (clients, servers, reg'')))))"

end
