(* ===== verification/Control.thy ===== *)
theory Control
  imports Varint Json_Codec
begin

text \<open>
  \<open>projects/ts/src/ws/util/packets/ControlProtocol.ts\<close>: the frames under key 0 that carry heartbeats,
  RPC calls and answers, replayed packets and session recovery. One encoder per message, one decoder
  for all; every \<open>throw\<close> of the decoder is an \<open>Inl\<close>.
\<close>

definition CONTROL_KEY :: u8 where
  "CONTROL_KEY = 0"

datatype control_msg =
    ControlHeartbeat
  | ControlRequest nat nat "u8 list"
  | ControlResponse nat bool jsval
  | ControlReplay nat "u8 list"
  | ControlResume jsstr nat
  | ControlResumed bool nat

definition encodeHeartbeat :: "u8 list" where
  "encodeHeartbeat = [CONTROL_KEY]"

definition encodeControlRequest :: "nat \<Rightarrow> nat \<Rightarrow> u8 list \<Rightarrow> u8 list result" where
  "encodeControlRequest i packetKey payload =
     bindR (convertVarInt (int i)) (\<lambda>iv. Inr ([CONTROL_KEY, 1] @ iv @ [of_nat packetKey] @ payload))"

definition encodeControlResponse :: "nat \<Rightarrow> bool \<Rightarrow> jsval \<Rightarrow> u8 list result" where
  "encodeControlResponse i ok v =
     bindR (convertVarInt (int i)) (\<lambda>iv. bindR (compressJSON v) (\<lambda>body.
       Inr ([CONTROL_KEY, 2] @ iv @ [of_bool ok] @ body)))"

definition encodeReplay :: "nat \<Rightarrow> u8 list \<Rightarrow> u8 list result" where
  "encodeReplay sequence payload =
     bindR (convertVarInt (int sequence)) (\<lambda>sv. Inr ([CONTROL_KEY, 3] @ sv @ payload))"

definition encodeResume :: "jsstr \<Rightarrow> nat \<Rightarrow> u8 list result" where
  "encodeResume sessionId lastSequence =
     (let session = utf8_encode sessionId
      in bindR (convertVarInt (int (length session))) (\<lambda>len.
           bindR (convertVarInt (int lastSequence)) (\<lambda>sv.
             Inr ([CONTROL_KEY, 4] @ len @ session @ sv))))"

definition encodeResumed :: "bool \<Rightarrow> nat \<Rightarrow> u8 list result" where
  "encodeResumed recovered replayed =
     bindR (convertVarInt (int replayed)) (\<lambda>rv. Inr ([CONTROL_KEY, 5, of_bool recovered] @ rv))"

definition decodeControl :: "u8 list \<Rightarrow> control_msg result" where
  "decodeControl data =
     (if length data = 1 \<and> data ! 0 = CONTROL_KEY then Inr ControlHeartbeat
      else if length data < 3 \<or> data ! 0 \<noteq> CONTROL_KEY then Inl (Error ''Invalid SonicWS control frame'')
      else let ty = data ! 1
        in if ty = 3 then
             bindR (readVarInt data 2) (\<lambda>(offset, sequence). Inr (ControlReplay sequence (drop offset data)))
           else if ty = 4 then
             bindR (readVarInt data 2) (\<lambda>(sessionOffset, len).
               let end = sessionOffset + len
               in if end > length data then Inl (Error ''Recovery frame has an invalid session id'')
                  else bindR (readVarInt data end) (\<lambda>(_, lastSequence).
                    Inr (ControlResume (utf8_decode (js_slice data sessionOffset end)) lastSequence)))
           else if ty = 5 then
             (if length data < 4 then Inl (Error ''Invalid recovery result frame'')
              else bindR (readVarInt data 3) (\<lambda>(_, replayed).
                Inr (ControlResumed (data ! 2 \<noteq> 0) replayed)))
           else if ty = 1 then
             bindR (readVarInt data 2) (\<lambda>(offset, i).
               if offset \<ge> length data then Inl (Error ''RPC request is missing its packet key'')
               else Inr (ControlRequest i (unat (data ! offset)) (drop (offset + 1) data)))
           else if ty = 2 then
             bindR (readVarInt data 2) (\<lambda>(offset, i).
               if offset \<ge> length data then Inl (Error ''RPC response is missing its status'')
               else bindR (decompressJSON (drop (offset + 1) data)) (\<lambda>v.
                 Inr (ControlResponse i (data ! offset \<noteq> 0) v)))
           else Inl (Error ''Unknown SonicWS control frame type''))"

text \<open>The encoder for each message.\<close>

fun encodeControl :: "control_msg \<Rightarrow> u8 list result" where
  "encodeControl ControlHeartbeat = Inr encodeHeartbeat"
| "encodeControl (ControlRequest i k p) = encodeControlRequest i k p"
| "encodeControl (ControlResponse i ok v) = encodeControlResponse i ok v"
| "encodeControl (ControlReplay n p) = encodeReplay n p"
| "encodeControl (ControlResume s n) = encodeResume s n"
| "encodeControl (ControlResumed r n) = encodeResumed r n"

text \<open>
  What a message is after the trip: a packet key is one byte, the value of a response went through the JSON
  codec and the id of a session through UTF-8.
\<close>

fun arrives :: "control_msg \<Rightarrow> control_msg result" where
  "arrives (ControlRequest i k p) = Inr (ControlRequest i (k mod 256) p)"
| "arrives (ControlResponse i ok v) =
     bindR (bindR (compressJSON v) decompressJSON) (\<lambda>w. Inr (ControlResponse i ok w))"
| "arrives (ControlResume s n) = Inr (ControlResume (utf8_decode (utf8_encode s)) n)"
| "arrives m = Inr m"

text \<open>Messages the frames can carry.\<close>

fun control_ok :: "control_msg \<Rightarrow> bool" where
  "control_ok (ControlRequest _ k _) = (k < 256)"
| "control_ok (ControlResponse _ _ v) =
     (json_ok v \<and> json_depth v \<le> 501 \<and>
      (case compressJSON v of Inl _ \<Rightarrow> False | Inr bs \<Rightarrow> length bs < 2 ^ 31))"
| "control_ok (ControlResume s _) = (well_formed s \<and> \<not> starts_with_bom s)"
| "control_ok _ = True"

lemma read_at_2:
  "v \<le> MAX_UVARINT \<Longrightarrow>
   readVarInt (a # b # varint_digits v @ rest) 2 = Inr (2 + length (varint_digits v), v)"
  using varint.rd_enc [of v "[a, b]" rest] by (simp add: numeral_2_eq_2)

lemma read_at_3:
  "v \<le> MAX_UVARINT \<Longrightarrow>
   readVarInt (a # b # c # varint_digits v) 3 = Inr (3 + length (varint_digits v), v)"
  using varint.rd_enc [of v "[a, b, c]" "[]"] by (simp add: numeral_3_eq_3)

lemmas control_enc_defs = encodeHeartbeat_def encodeControlRequest_def encodeControlResponse_def
  encodeReplay_def encodeResume_def encodeResumed_def Let_def

lemma decode_encode_resume:
  assumes "encodeResume s n = Inr bs"
  shows "decodeControl bs = Inr (ControlResume (utf8_decode (utf8_encode s)) n)"
proof -
  let ?u = "utf8_encode s"
  let ?d = "varint_digits (length ?u)" and ?e = "varint_digits n"
  have n: "length ?u \<le> MAX_UVARINT" "n \<le> MAX_UVARINT" and bs: "bs = CONTROL_KEY # 4 # ?d @ ?u @ ?e"
    using assms(1) by (auto simp: encodeResume_def Let_def bindR_eq_Inr convertVarInt_Inr_iff)
  have e: "readVarInt bs (2 + length ?d + length ?u) = Inr (length bs, n)"
    using varint.rd_enc [OF n(2), of "CONTROL_KEY # 4 # ?d @ ?u" "[]"] by (simp add: bs)
  have "js_slice bs (2 + length ?d) (2 + length ?d + length ?u) = ?u"
    using js_slice_mid [of "CONTROL_KEY # 4 # ?d" ?u ?e] by (simp add: bs)
  moreover have "0 < length ?e" "0 < length ?d" by (rule varint_digits_length)+
  ultimately show ?thesis
    using e read_at_2 [OF n(1), of CONTROL_KEY 4 "?u @ ?e"]
    by (simp add: decodeControl_def bs Let_def)
qed

lemma arrives_ok: "control_ok m \<Longrightarrow> arrives m = Inr m"
proof (cases m)
  case (ControlResponse i ok v)
  assume "control_ok m"
  then obtain body where "compressJSON v = Inr body" "decompressJSON body = Inr v"
    using ControlResponse json_roundtrip_core [of v] by auto
  then show ?thesis using ControlResponse by simp
qed (auto simp: utf8_decode_encode)

text \<open>
  C26: Every control frame an encoder produces (heartbeat, request, response, replay, resume, resumed) decodes
  to its message as it arrives: everything is read back, the packet key of a request modulo 256, the value
  of a response as the JSON codec gives it back and the id of a session as UTF-8 does. For a packet key below
  256, a JSON value the codec represents and a well-formed id that is the message itself; a number of
  \<open>2\<^sup>3\<^sup>1\<close> in a response is encoded and arrives as another.
\<close>

theorem control_roundtrip:
  assumes "encodeControl m = Inr bs"
  shows "decodeControl bs = arrives m \<and> (control_ok m \<longrightarrow> decodeControl bs = Inr m)"
proof -
  note len = varint_digits_length
  have "decodeControl bs = arrives m"
  proof (cases m)
    case ControlHeartbeat
    then show ?thesis using assms by (auto simp: decodeControl_def encodeHeartbeat_def)
  next
    case (ControlRequest i k p)
    then have "i \<le> MAX_UVARINT" and bs: "bs = CONTROL_KEY # 1 # varint_digits i @ of_nat k # p"
      using assms by (auto simp: control_enc_defs bindR_eq_Inr convertVarInt_Inr_iff)
    then show ?thesis
      using ControlRequest len [of i]
      by (simp add: decodeControl_def bs read_at_2 nth_append unat_of_nat take_bit_eq_mod)
  next
    case (ControlResponse i ok v)
    then obtain body where "i \<le> MAX_UVARINT" "compressJSON v = Inr body"
      and bs: "bs = CONTROL_KEY # 2 # varint_digits i @ of_bool ok # body"
      using assms by (auto simp: control_enc_defs bindR_eq_Inr convertVarInt_Inr_iff)
    then show ?thesis
      using ControlResponse len [of i] by (simp add: decodeControl_def bs read_at_2 nth_append)
  next
    case (ControlReplay n p)
    then show ?thesis
      using assms len [of n]
      by (auto simp: control_enc_defs bindR_eq_Inr convertVarInt_Inr_iff decodeControl_def read_at_2)
  next
    case (ControlResume s n)
    then show ?thesis using assms by (simp add: decode_encode_resume)
  next
    case (ControlResumed r n)
    then show ?thesis
      using assms len [of n]
      by (auto simp: control_enc_defs bindR_eq_Inr convertVarInt_Inr_iff decodeControl_def read_at_3)
  qed
  then show ?thesis using arrives_ok by simp
qed

lemma control_roundtrip_witness:
  "decodeControl [0, 1, 0xAC, 2, 7, 9] = Inr (ControlRequest 300 7 [9])"
proof -
  have "encodeControl (ControlRequest 300 7 [9]) = Inr [0, 1, 0xAC, 2, 7, 9]"
    by (simp add: control_enc_defs CONTROL_KEY_def convertVarInt_def MAX_UVARINT_def
        varint_digits_small varint_digits_big)
  from control_roundtrip [OF this] show ?thesis by simp
qed

text \<open>
  A frame is accepted as a control message only under key 0; the only one-byte frame is the
  heartbeat, and the payload a request or replay hands on is the unread rest of the frame.
\<close>

theorem control_accepts_only:
  assumes "decodeControl data = Inr m"
  shows "data \<noteq> [] \<and> hd data = CONTROL_KEY \<and> (m = ControlHeartbeat \<longleftrightarrow> length data = 1)
    \<and> (\<forall>i k p. m = ControlRequest i k p \<longrightarrow> k < 256 \<and> (\<exists>n \<ge> 4. n \<le> length data \<and> p = drop n data))
    \<and> (\<forall>q p. m = ControlReplay q p \<longrightarrow> (\<exists>n \<ge> 3. n \<le> length data \<and> p = drop n data))"
proof -
  have h: "data \<noteq> [] \<and> hd data = data ! 0" if "data ! 0 = CONTROL_KEY \<and> 0 < length data"
    using that by (simp add: hd_conv_nth)
  consider "length data = 1" "data ! 0 = CONTROL_KEY" "m = ControlHeartbeat"
    | "3 \<le> length data" "data ! 0 = CONTROL_KEY" "m \<noteq> ControlHeartbeat"
    using assms by (auto simp: decodeControl_def Let_def bindR_eq_Inr split: if_splits)
  then show ?thesis
  proof cases
    case 1
    then show ?thesis using h by simp
  next
    case 2
    have "k < 256 \<and> (\<exists>n \<ge> 4. n \<le> length data \<and> p = drop n data)" if m: "m = ControlRequest i k p" for i k p
    proof -
      obtain offset where o: "readVarInt data 2 = Inr (offset, i)" "offset < length data"
        "k = unat (data ! offset)" "p = drop (offset + 1) data"
        using assms 2(1,2) unfolding m
        by (auto simp: decodeControl_def Let_def bindR_eq_Inr split: if_splits)
      have "k < 256" unfolding o(3) by (rule unat_u8_less)
      moreover have "4 \<le> offset + 1" using readVarInt_bounds [OF o(1)] by simp
      ultimately show ?thesis using o(2,4) by (intro conjI exI [of _ "offset + 1"]) simp_all
    qed
    moreover have "\<exists>n \<ge> 3. n \<le> length data \<and> p = drop n data" if m: "m = ControlReplay q p" for q p
    proof -
      obtain offset where o: "readVarInt data 2 = Inr (offset, q)" "p = drop offset data"
        using assms 2(1,2) unfolding m
        by (auto simp: decodeControl_def Let_def bindR_eq_Inr split: if_splits)
      then show ?thesis using readVarInt_bounds [OF o(1)] by (intro exI [of _ offset]) simp
    qed
    moreover have "data \<noteq> [] \<and> hd data = data ! 0" using 2 by (intro h) auto
    ultimately show ?thesis using 2 by auto
  qed
qed

lemma control_accepts_only_witness: "hd [0, 3, 5, 1, 2] = CONTROL_KEY"
proof -
  have "decodeControl [0, 3, 5, 1, 2] = Inr (ControlReplay 5 [1, 2])"
    using read_at_2 [of 5 0 3 "[1, 2]"]
    by (simp add: decodeControl_def CONTROL_KEY_def varint_digits_small MAX_UVARINT_def)
  from control_accepts_only [OF this] show ?thesis by blast
qed

end
