(* ===== verification/Packet_Holder.thy ===== *)
theory Packet_Holder
  imports Packet_Creation Packet_Wire Control
begin

text \<open>
  Whole packet tables: the checks of \<open>metadata/SchemaValidation.ts\<close> and the lookup structure of
  \<open>PacketHolder.ts\<close> (\<open>projects/ts/src/ws/util/packets\<close>), which gives every packet of a table its
  one-byte key. Objects used as dictionaries are association lists in insertion order; a lookup also
  finds the members every object inherits (\<open>object_prototype_keys\<close>). \<open>table_spec\<close> states what a table must
  satisfy without the validator's own checks. Tags are taken to be different
  from \<open>__proto__\<close>, which is no own key of a plain object.
\<close>

section \<open>Validation of a table\<close>

definition UNSIGNED :: "nat set" where
  "UNSIGNED = {PT_UBYTES, PT_USHORTS, PT_UVARINT}"

datatype schema_error =
    TooManyPackets nat
  | DuplicateTag jsstr
  | ReplayBatching jsstr
  | NonNumericQuantized jsstr
  | NegativeUnsigned jsstr
  | FixedLength jsstr
  | DuplicateVariant jsstr
  | MissingParent jsstr jsstr
  | ParentNotNone jsstr

record schema_result =
  sv_errors :: "schema_error list"
  sv_warnings :: "jsstr list"

record schema_options =
  so_client :: bool
  so_warnUnbounded :: bool

record scan =
  sc_errors :: "schema_error list"
  sc_warnings :: "jsstr list"
  sc_tags :: "jsstr list"
  sc_parents :: "(jsstr \<times> packet) list"
  sc_variants :: "jsstr list"

definition truthy_str :: "jsstr option \<Rightarrow> bool" where
  "truthy_str s \<longleftrightarrow> s \<noteq> None \<and> s \<noteq> Some []"

definition variant_key :: "packet \<Rightarrow> jsstr option" where
  "variant_key p =
     (case (pk_parent p, pk_variant p) of
        (Some a, Some b) \<Rightarrow> if a \<noteq> [] \<and> b \<noteq> [] then Some (a @ [dot] @ b) else None
      | _ \<Rightarrow> None)"

definition err_if :: "bool \<Rightarrow> 'e \<Rightarrow> 'e list" where
  "err_if b e = (if b then [e] else [])"

definition replay_batched :: "packet \<Rightarrow> bool" where
  "replay_batched p \<longleftrightarrow> pk_replay p \<and> pk_dataBatching p \<noteq> None \<and> pk_dataBatching p \<noteq> Some 0"

definition negative_unsigned :: "packet \<Rightarrow> bool" where
  "negative_unsigned p \<longleftrightarrow>
     (case pk_valueMin p of None \<Rightarrow> False | Some m \<Rightarrow> num_less m (Fin 0)) \<and> list_ex (\<lambda>t. t \<in> UNSIGNED) (pk_types p)"

definition fixed_mismatch :: "packet \<Rightarrow> bool" where
  "fixed_mismatch p \<longleftrightarrow>
     (case pk_fields p of None \<Rightarrow> False
      | Some fs \<Rightarrow> \<not> pk_autoFlatten p \<and> \<not> pk_object p \<and> hd (pk_dataMin p) = hd (pk_dataMax p)
                    \<and> int (length fs) \<noteq> hd (pk_dataMax p))"

text \<open>The checks of one packet on its own, in the order of the source.\<close>

definition local_errors :: "packet \<Rightarrow> schema_error list" where
  "local_errors p =
     err_if (replay_batched p) (ReplayBatching (pk_tag p))
     @ err_if (pk_quantized p \<noteq> None \<and> list_ex (\<lambda>t. t \<notin> NUMERIC_TYPES) (pk_types p)) (NonNumericQuantized (pk_tag p))
     @ err_if (negative_unsigned p) (NegativeUnsigned (pk_tag p))
     @ err_if (fixed_mismatch p) (FixedLength (pk_tag p))"

definition scan_packet :: "schema_options \<Rightarrow> scan \<Rightarrow> packet \<Rightarrow> scan" where
  "scan_packet opts s p =
     s\<lparr>sc_errors := sc_errors s @ err_if (pk_tag p \<in> set (sc_tags s)) (DuplicateTag (pk_tag p)) @ local_errors p
         @ (case variant_key p of None \<Rightarrow> [] | Some k \<Rightarrow> err_if (k \<in> set (sc_variants s)) (DuplicateVariant k)),
       sc_warnings := sc_warnings s
         @ err_if (so_warnUnbounded opts \<and> so_client opts \<and> list_ex (\<lambda>mx. mx \<ge> 2048383) (pk_dataMax p)) (pk_tag p),
       sc_tags := List.insert (pk_tag p) (sc_tags s),
       sc_parents := (if pk_isParent p then AList.update (pk_tag p) p (sc_parents s) else sc_parents s),
       sc_variants := (case variant_key p of None \<Rightarrow> sc_variants s | Some k \<Rightarrow> List.insert k (sc_variants s))\<rparr>"

definition scan_start :: "packet list \<Rightarrow> scan" where
  "scan_start packets = \<lparr>sc_errors = err_if (length packets > 254) (TooManyPackets (length packets)),
     sc_warnings = [], sc_tags = [], sc_parents = [], sc_variants = []\<rparr>"

definition is_none_packet :: "packet \<Rightarrow> bool" where
  "is_none_packet p \<longleftrightarrow> \<not> pk_object p \<and> pk_types p = [PT_NONE]"

definition parent_errors :: "(jsstr \<times> packet) list \<Rightarrow> packet \<Rightarrow> schema_error list" where
  "parent_errors parents p =
     (case pk_parent p of
        None \<Rightarrow> []
      | Some par \<Rightarrow>
          if par = [] then []
          else case map_of parents par of
                 None \<Rightarrow> [MissingParent (pk_tag p) par]
               | Some q \<Rightarrow> err_if (\<not> is_none_packet q) (ParentNotNone par))"

definition ValidatePacketSchema :: "packet list \<Rightarrow> schema_options \<Rightarrow> schema_result" where
  "ValidatePacketSchema packets opts =
     (let s = foldl (scan_packet opts) (scan_start packets) packets
      in \<lparr>sv_errors = sc_errors s @ concat (map (parent_errors (sc_parents s)) packets),
          sv_warnings = sc_warnings s\<rparr>)"

definition AssertPacketSchema :: "packet list \<Rightarrow> schema_options \<Rightarrow> unit result" where
  "AssertPacketSchema packets opts =
     (if sv_errors (ValidatePacketSchema packets opts) \<noteq> [] then Inl (Error ''Invalid SonicWS packet schema'') else Inr ())"

section \<open>The holder\<close>

record holder =
  ph_key :: nat
  ph_keys :: "(jsstr \<times> nat) list"
  ph_tags :: "(nat \<times> jsstr) list"
  ph_packetMap :: "(jsstr \<times> packet) list"
  ph_packets :: "packet list"
  ph_variants :: "(jsstr \<times> jsstr) list"
  ph_parents :: "jsstr list"

definition empty_holder :: holder where
  "empty_holder = \<lparr>ph_key = 1, ph_keys = [], ph_tags = [], ph_packetMap = [], ph_packets = [],
     ph_variants = [], ph_parents = []\<rparr>"

definition createKey :: "jsstr \<Rightarrow> holder \<Rightarrow> holder" where
  "createKey tg h =
     h\<lparr>ph_keys := AList.update tg (ph_key h) (ph_keys h), ph_tags := AList.update (ph_key h) tg (ph_tags h),
       ph_key := ph_key h + 1\<rparr>"

definition hold_packet :: "holder \<Rightarrow> packet \<Rightarrow> holder" where
  "hold_packet h0 p =
     (let h = createKey (pk_tag p) h0;
          h1 = h\<lparr>ph_packetMap := AList.update (pk_tag p) p (ph_packetMap h)\<rparr>;
          h2 = (case variant_key p of
                  None \<Rightarrow> h1
                | Some k \<Rightarrow> h1\<lparr>ph_variants := AList.update k (pk_tag p) (ph_variants h1),
                               ph_parents := List.insert (the (pk_parent p)) (ph_parents h1)\<rparr>)
      in if pk_isParent p then h2\<lparr>ph_parents := List.insert (pk_tag p) (ph_parents h2)\<rparr> else h2)"

definition no_options :: schema_options where
  "no_options = \<lparr>so_client = False, so_warnUnbounded = False\<rparr>"

definition holdPackets :: "packet list \<Rightarrow> holder \<Rightarrow> holder result" where
  "holdPackets packets h =
     bindR (AssertPacketSchema packets no_options) (\<lambda>_.
       Inr (foldl hold_packet (h\<lparr>ph_packets := packets\<rparr>) packets))"

definition new_holder :: "packet list \<Rightarrow> holder result" where
  "new_holder packets = holdPackets packets empty_holder"

text \<open>\<open>this.variants[tag] ?? tag\<close>: an inherited member is no tag (\<open>None\<close>), and no key either.\<close>

definition resolveTag :: "holder \<Rightarrow> jsstr \<Rightarrow> jsstr option" where
  "resolveTag h tg =
     (case map_of (ph_variants h) tg of
        Some t \<Rightarrow> Some t
      | None \<Rightarrow> if tg \<in> set object_prototype_keys then None else Some tg)"

definition getKey :: "holder \<Rightarrow> jsstr \<Rightarrow> nat result" where
  "getKey h tg =
     (case Option.bind (resolveTag h tg) (map_of (ph_keys h)) of
        Some k \<Rightarrow> Inr k | None \<Rightarrow> Inl (Error ''Not a valid tag''))"

definition getTag :: "holder \<Rightarrow> nat \<Rightarrow> jsstr option" where
  "getTag h key = map_of (ph_tags h) key"

definition getPacket :: "holder \<Rightarrow> jsstr \<Rightarrow> packet result" where
  "getPacket h tg =
     (case Option.bind (resolveTag h tg) (map_of (ph_packetMap h)) of
        Some p \<Rightarrow> Inr p | None \<Rightarrow> Inl (Error ''Unknown packet tag''))"

definition hasKey :: "holder \<Rightarrow> nat \<Rightarrow> bool" where
  "hasKey h key \<longleftrightarrow> map_of (ph_tags h) key \<noteq> None"

definition hasTag :: "holder \<Rightarrow> jsstr \<Rightarrow> bool" where
  "hasTag h tg \<longleftrightarrow> Option.bind (resolveTag h tg) (map_of (ph_keys h)) \<noteq> None \<or> tg \<in> set (ph_parents h)"

definition getVariantTag :: "holder \<Rightarrow> jsstr \<Rightarrow> jsstr \<Rightarrow> jsstr result" where
  "getVariantTag h parent variant =
     (case map_of (ph_variants h) (parent @ [dot] @ variant) of
        Some t \<Rightarrow> if t = [] then Inl (Error ''Unknown packet variant'') else Inr t
      | None \<Rightarrow> Inl (Error ''Unknown packet variant''))"

text \<open>The variants of a parent, in the order they were registered.\<close>

definition variants_of :: "holder \<Rightarrow> jsstr \<Rightarrow> jsstr list" where
  "variants_of h parent =
     map (\<lambda>k. drop (length parent + 1) k)
       (filter (\<lambda>k. take (length parent + 1) k = parent @ [dot]) (map fst (ph_variants h)))"

definition getPermutationVariant :: "holder \<Rightarrow> jsstr \<Rightarrow> selection \<Rightarrow> jsstr result" where
  "getPermutationVariant h parent sel =
     bindR (getPacket h parent) (\<lambda>p.
       case pk_permutation p of
         None \<Rightarrow> Inl (Error ''Packet group does not define a VariantPermutation'')
       | Some vals \<Rightarrow>
           bindR (enabled_values vals sel) (\<lambda>enabled.
             if enabled = [] then Inr parent
             else case find (names_enabled enabled) (variants_of h parent) of
                    None \<Rightarrow> Inl (Error ''Variant permutation contains an invalid or opposite combination'')
                  | Some v \<Rightarrow> if v = [] then Inl (Error ''Variant permutation contains an invalid or opposite combination'')
                              else getVariantTag h parent v))"

definition getTags :: "holder \<Rightarrow> jsstr list" where
  "getTags h = map snd (ph_tags h)"

definition holder_serialize :: "js_lib \<Rightarrow> holder \<Rightarrow> nat list result" where
  "holder_serialize lib h = serialize_table lib (ph_packets h)"

section \<open>What a table must satisfy\<close>

lemma err_if_simps [simp]: "err_if b e = [] \<longleftrightarrow> \<not> b" "err_if False e = []" "err_if True e = [e]"
  by (simp_all add: err_if_def)

definition variant_keys :: "packet list \<Rightarrow> jsstr list" where
  "variant_keys ps = concat (map (\<lambda>p. case variant_key p of None \<Rightarrow> [] | Some k \<Rightarrow> [k]) ps)"

lemma variant_keys_simps [simp]:
  "variant_keys [] = []"
  "variant_keys (p # ps) = (case variant_key p of None \<Rightarrow> [] | Some k \<Rightarrow> [k]) @ variant_keys ps"
  by (simp_all add: variant_keys_def)

definition parent_ok :: "packet list \<Rightarrow> packet \<Rightarrow> bool" where
  "parent_ok ps p \<longleftrightarrow>
     (case pk_parent p of None \<Rightarrow> True
      | Some par \<Rightarrow> par = [] \<or> (\<exists>q \<in> set ps. pk_isParent q \<and> pk_tag q = par \<and> is_none_packet q))"

definition table_ok :: "packet list \<Rightarrow> bool" where
  "table_ok ps \<longleftrightarrow> length ps \<le> 254 \<and> distinct (map pk_tag ps) \<and> distinct (variant_keys ps)
     \<and> (\<forall>p \<in> set ps. local_errors p = []) \<and> (\<forall>p \<in> set ps. parent_ok ps p)"

lemma scan_no_errors:
  "sc_errors (foldl (scan_packet opts) s ps) = [] \<longleftrightarrow>
     sc_errors s = [] \<and> (\<forall>p \<in> set ps. local_errors p = [])
     \<and> distinct (map pk_tag ps) \<and> set (map pk_tag ps) \<inter> set (sc_tags s) = {}
     \<and> distinct (variant_keys ps) \<and> set (variant_keys ps) \<inter> set (sc_variants s) = {}"
proof (induction ps arbitrary: s)
  case (Cons p ps)
  show ?case
    unfolding foldl_Cons Cons.IH by (cases "variant_key p") (auto simp: scan_packet_def)
qed simp

lemma scan_parents:
  "distinct (map pk_tag ps) \<Longrightarrow>
   map_of (sc_parents (foldl (scan_packet opts) s ps)) par =
     (case find (\<lambda>q. pk_isParent q \<and> pk_tag q = par) ps of Some q \<Rightarrow> Some q | None \<Rightarrow> map_of (sc_parents s) par)"
proof (induction ps arbitrary: s)
  case (Cons p ps)
  have "find (\<lambda>q. pk_isParent q \<and> pk_tag q = pk_tag p) ps = None"
    using Cons.prems by (auto simp: find_None_iff image_iff)
  then show ?case
    using Cons by (auto simp: scan_packet_def update_conv split: option.split)
qed simp

lemma find_parent:
  assumes "distinct (map pk_tag ps)"
  shows "find (\<lambda>q. pk_isParent q \<and> pk_tag q = par) ps = Some q \<longleftrightarrow> q \<in> set ps \<and> pk_isParent q \<and> pk_tag q = par"
proof
  assume "find (\<lambda>q. pk_isParent q \<and> pk_tag q = par) ps = Some q"
  then show "q \<in> set ps \<and> pk_isParent q \<and> pk_tag q = par" by (auto simp: find_Some_iff)
next
  assume q: "q \<in> set ps \<and> pk_isParent q \<and> pk_tag q = par"
  then obtain r where r: "find (\<lambda>q. pk_isParent q \<and> pk_tag q = par) ps = Some r"
    by (cases "find (\<lambda>q. pk_isParent q \<and> pk_tag q = par) ps") (auto simp: find_None_iff)
  then have "r \<in> set ps" "pk_tag r = par" by (auto simp: find_Some_iff)
  then have "r = q" using q assms by (metis inj_onD distinct_map)
  then show "find (\<lambda>q. pk_isParent q \<and> pk_tag q = par) ps = Some q" using r by simp
qed

lemma parent_errors_iff:
  assumes "distinct (map pk_tag ps)"
  shows "parent_errors (sc_parents (foldl (scan_packet opts) (scan_start ps) ps)) p = [] \<longleftrightarrow> parent_ok ps p"
proof -
  have "map_of (sc_parents (foldl (scan_packet opts) (scan_start ps) ps)) par
      = find (\<lambda>q. pk_isParent q \<and> pk_tag q = par) ps" for par
    by (simp add: scan_parents [OF assms] scan_start_def split: option.split)
  then show ?thesis
    using find_parent [OF assms]
    by (auto simp: parent_errors_def parent_ok_def find_None_iff split: option.splits)
       (metis option.inject)+
qed

lemma no_errors_iff: "sv_errors (ValidatePacketSchema packets opts) = [] \<longleftrightarrow> table_ok packets"
  using parent_errors_iff [of packets opts]
  by (auto simp: ValidatePacketSchema_def Let_def scan_no_errors table_ok_def) (simp_all add: scan_start_def)

text \<open>
  The conditions on a table, written over the packets' own settings and apart from the checks of the
  validator: what \<open>replay\<close>, \<open>quantized\<close>, a negative minimum and a fixed count allow, and what a group
  needs. A group name is the text \<open>parent.variant\<close>, so that \<open>a.b\<close> and \<open>c\<close> collide with \<open>a\<close> and \<open>b.c\<close>.
\<close>

definition packet_spec :: "packet \<Rightarrow> bool" where
  "packet_spec p \<longleftrightarrow>
     (pk_replay p \<longrightarrow> pk_dataBatching p \<in> {None, Some 0})
     \<and> (pk_quantized p \<noteq> None \<longrightarrow>
         set (pk_types p) \<subseteq> {PT_BYTES, PT_UBYTES, PT_SHORTS, PT_USHORTS, PT_VARINT, PT_UVARINT, PT_DELTAS,
                             PT_FLOATS, PT_DOUBLES})
     \<and> (\<forall>m. pk_valueMin p = Some m \<and> num_less m (Fin 0) \<longrightarrow>
         PT_UBYTES \<notin> set (pk_types p) \<and> PT_USHORTS \<notin> set (pk_types p) \<and> PT_UVARINT \<notin> set (pk_types p))
     \<and> (\<forall>fs. pk_fields p = Some fs \<and> \<not> pk_autoFlatten p \<and> \<not> pk_object p \<and> hd (pk_dataMin p) = hd (pk_dataMax p) \<longrightarrow>
         int (length fs) = hd (pk_dataMax p))"

definition table_spec :: "packet list \<Rightarrow> bool" where
  "table_spec ps \<longleftrightarrow>
     length ps \<le> 254
     \<and> (\<forall>i < length ps. \<forall>j < i. pk_tag (ps ! j) \<noteq> pk_tag (ps ! i))
     \<and> (\<forall>i < length ps. \<forall>j < i. \<forall>a b c d.
         pk_parent (ps ! j) = Some a \<and> pk_variant (ps ! j) = Some b \<and> pk_parent (ps ! i) = Some c
         \<and> pk_variant (ps ! i) = Some d \<and> a \<noteq> [] \<and> b \<noteq> [] \<and> c \<noteq> [] \<and> d \<noteq> []
         \<longrightarrow> a @ js ''.'' @ b \<noteq> c @ js ''.'' @ d)
     \<and> (\<forall>p \<in> set ps. packet_spec p)
     \<and> (\<forall>p \<in> set ps. \<forall>a. pk_parent p = Some a \<and> a \<noteq> [] \<longrightarrow>
         (\<exists>q \<in> set ps. pk_tag q = a \<and> pk_isParent q \<and> \<not> pk_object q \<and> pk_types q = [PT_NONE]))"

lemma packet_spec_iff: "local_errors p = [] \<longleftrightarrow> packet_spec p"
proof -
  have q: "(pk_quantized p \<noteq> None \<and> list_ex (\<lambda>t. t \<notin> NUMERIC_TYPES) (pk_types p)) \<longleftrightarrow>
      \<not> (pk_quantized p \<noteq> None \<longrightarrow> set (pk_types p) \<subseteq> {PT_BYTES, PT_UBYTES, PT_SHORTS, PT_USHORTS, PT_VARINT,
           PT_UVARINT, PT_DELTAS, PT_FLOATS, PT_DOUBLES})"
    unfolding NUMERIC_TYPES_def list_ex_iff by blast
  have r: "replay_batched p \<longleftrightarrow> \<not> (pk_replay p \<longrightarrow> pk_dataBatching p \<in> {None, Some 0})"
    by (auto simp: replay_batched_def)
  have n: "negative_unsigned p \<longleftrightarrow> \<not> (\<forall>m. pk_valueMin p = Some m \<and> num_less m (Fin 0) \<longrightarrow>
         PT_UBYTES \<notin> set (pk_types p) \<and> PT_USHORTS \<notin> set (pk_types p) \<and> PT_UVARINT \<notin> set (pk_types p))"
    by (auto simp: negative_unsigned_def UNSIGNED_def list_ex_iff split: option.splits)
  have f: "fixed_mismatch p \<longleftrightarrow> \<not> (\<forall>fs. pk_fields p = Some fs \<and> \<not> pk_autoFlatten p \<and> \<not> pk_object p
         \<and> hd (pk_dataMin p) = hd (pk_dataMax p) \<longrightarrow> int (length fs) = hd (pk_dataMax p))"
    by (auto simp: fixed_mismatch_def split: option.splits)
  show ?thesis by (simp only: local_errors_def append_is_Nil_conv err_if_simps q r n f packet_spec_def not_not)
qed

lemma distinct_earlier: "distinct xs \<longleftrightarrow> (\<forall>i < length xs. \<forall>j < i. xs ! j \<noteq> xs ! i)"
proof
  assume a: "\<forall>i < length xs. \<forall>j < i. xs ! j \<noteq> xs ! i"
  have "xs ! i \<noteq> xs ! j" if "i < length xs" "j < length xs" "i \<noteq> j" for i j
    using that(3)
  proof (rule linorder_neqE_nat)
    assume "i < j" then show ?thesis using a that(2) by blast
  next
    assume "j < i" then show ?thesis using a that(1) by (metis (no_types))
  qed
  then show "distinct xs" by (simp add: distinct_conv_nth)
qed (auto simp: distinct_conv_nth)

lemma distinct_keys:
  "distinct (variant_keys ps) \<longleftrightarrow>
     (\<forall>i < length ps. \<forall>j < i. \<forall>k. variant_key (ps ! j) = Some k \<longrightarrow> variant_key (ps ! i) \<noteq> Some k)"
proof (induction ps)
  case (Cons p ps)
  have m: "k \<in> set (variant_keys ps) \<longleftrightarrow> (\<exists>i < length ps. variant_key (ps ! i) = Some k)" for k
    by (induction ps) (auto simp: less_Suc_eq_0_disj split: option.split)
  show ?case by (cases "variant_key p") (auto simp: Cons.IH m All_less_Suc2)
qed simp

lemma variant_key_Some:
  "variant_key p = Some k \<longleftrightarrow>
     (\<exists>a b. pk_parent p = Some a \<and> pk_variant p = Some b \<and> a \<noteq> [] \<and> b \<noteq> [] \<and> k = a @ js ''.'' @ b)"
  by (auto simp: variant_key_def dot_def split: option.splits)

lemma table_spec_iff: "table_ok ps \<longleftrightarrow> table_spec ps"
proof -
  have t: "distinct (map pk_tag ps) \<longleftrightarrow> (\<forall>i < length ps. \<forall>j < i. pk_tag (ps ! j) \<noteq> pk_tag (ps ! i))"
    by (auto simp: distinct_earlier)
  have v: "distinct (variant_keys ps) \<longleftrightarrow> (\<forall>i < length ps. \<forall>j < i. \<forall>a b c d.
         pk_parent (ps ! j) = Some a \<and> pk_variant (ps ! j) = Some b \<and> pk_parent (ps ! i) = Some c
         \<and> pk_variant (ps ! i) = Some d \<and> a \<noteq> [] \<and> b \<noteq> [] \<and> c \<noteq> [] \<and> d \<noteq> []
         \<longrightarrow> a @ js ''.'' @ b \<noteq> c @ js ''.'' @ d)"
    unfolding distinct_keys variant_key_Some
    by (intro all_cong) (auto simp del: js_simps append_assoc)
  have w: "parent_ok ps p \<longleftrightarrow> (\<forall>a. pk_parent p = Some a \<and> a \<noteq> [] \<longrightarrow>
         (\<exists>q \<in> set ps. pk_tag q = a \<and> pk_isParent q \<and> \<not> pk_object q \<and> pk_types q = [PT_NONE]))" for p
    by (auto simp: parent_ok_def is_none_packet_def split: option.splits)
  show ?thesis by (simp only: table_ok_def table_spec_def t v w packet_spec_iff)
qed

text \<open>
  C39: A table passes validation exactly when it has at most 254 packets, no tag twice, no group name
  \<open>parent.variant\<close> twice, the NONE parent of every group member, and packets that each keep to the rules:
  no replay together with batching, quantisation of numeric types only, no negative minimum of an unsigned
  type, and as many field names as a fixed value count. The options only add warnings.
\<close>

theorem schema_valid_iff:
  "AssertPacketSchema packets opts = Inr () \<longleftrightarrow> table_spec packets"
  by (simp add: AssertPacketSchema_def no_errors_iff table_spec_iff)

section \<open>Lookup\<close>

lemma update_fresh: "k \<notin> fst ` set al \<Longrightarrow> AList.update k v al = al @ [(k, v)]"
  by (induction al) auto

definition variant_entries :: "packet list \<Rightarrow> (jsstr \<times> jsstr) list" where
  "variant_entries ps = concat (map (\<lambda>p. case variant_key p of None \<Rightarrow> [] | Some k \<Rightarrow> [(k, pk_tag p)]) ps)"

lemma fst_variant_entries: "map fst (variant_entries ps) = variant_keys ps"
  by (induction ps) (simp_all add: variant_entries_def split: option.split)

lemma hold_packets_fields:
  assumes "distinct (map pk_tag ps)" "distinct (variant_keys ps)"
    and "set (map pk_tag ps) \<inter> fst ` set (ph_keys h) = {}" "set (map pk_tag ps) \<inter> fst ` set (ph_packetMap h) = {}"
    and "\<forall>k \<in> fst ` set (ph_tags h). k < ph_key h" "set (variant_keys ps) \<inter> fst ` set (ph_variants h) = {}"
  shows "ph_keys (foldl hold_packet h ps) = ph_keys h @ zip (map pk_tag ps) [ph_key h ..< ph_key h + length ps]
    \<and> ph_tags (foldl hold_packet h ps) = ph_tags h @ zip [ph_key h ..< ph_key h + length ps] (map pk_tag ps)
    \<and> ph_packetMap (foldl hold_packet h ps) = ph_packetMap h @ map (\<lambda>p. (pk_tag p, p)) ps
    \<and> ph_variants (foldl hold_packet h ps) = ph_variants h @ variant_entries ps
    \<and> ph_packets (foldl hold_packet h ps) = ph_packets h"
  using assms
proof (induction ps arbitrary: h)
  case (Cons p ps)
  let ?h = "hold_packet h p"
  have "ph_key h \<notin> fst ` set (ph_tags h)" using Cons.prems(5) by blast
  then have f: "ph_keys ?h = ph_keys h @ [(pk_tag p, ph_key h)]" "ph_tags ?h = ph_tags h @ [(ph_key h, pk_tag p)]"
    "ph_packetMap ?h = ph_packetMap h @ [(pk_tag p, p)]" "ph_key ?h = Suc (ph_key h)" "ph_packets ?h = ph_packets h"
    "ph_variants ?h = ph_variants h @ (case variant_key p of None \<Rightarrow> [] | Some k \<Rightarrow> [(k, pk_tag p)])"
    using Cons.prems
    by (auto simp: hold_packet_def createKey_def Let_def update_fresh split: option.split)
  have u: "[ph_key h ..< ph_key h + length (p # ps)] = ph_key h # [Suc (ph_key h) ..< Suc (ph_key h) + length ps]"
    by (simp add: upt_conv_Cons del: upt_Suc)
  have "ph_keys (foldl hold_packet ?h ps) = ph_keys ?h @ zip (map pk_tag ps) [ph_key ?h ..< ph_key ?h + length ps]
    \<and> ph_tags (foldl hold_packet ?h ps) = ph_tags ?h @ zip [ph_key ?h ..< ph_key ?h + length ps] (map pk_tag ps)
    \<and> ph_packetMap (foldl hold_packet ?h ps) = ph_packetMap ?h @ map (\<lambda>p. (pk_tag p, p)) ps
    \<and> ph_variants (foldl hold_packet ?h ps) = ph_variants ?h @ variant_entries ps
    \<and> ph_packets (foldl hold_packet ?h ps) = ph_packets ?h"
    using Cons.prems by (intro Cons.IH) (auto simp: f split: option.splits)
  then show ?case unfolding u by (simp add: f variant_entries_def)
qed (simp add: variant_entries_def)

lemma new_holder_fields:
  assumes "new_holder ps = Inr h"
  shows "table_ok ps" "ph_keys h = zip (map pk_tag ps) [1 ..< Suc (length ps)]"
    "ph_tags h = zip [1 ..< Suc (length ps)] (map pk_tag ps)"
    "ph_packetMap h = map (\<lambda>p. (pk_tag p, p)) ps" "ph_variants h = variant_entries ps" "ph_packets h = ps"
proof -
  have a: "AssertPacketSchema ps no_options = Inr ()" "h = foldl hold_packet (empty_holder\<lparr>ph_packets := ps\<rparr>) ps"
    using assms by (auto simp: new_holder_def holdPackets_def bindR_eq_Inr)
  then show t: "table_ok ps" by (simp add: AssertPacketSchema_def no_errors_iff split: if_splits)
  then have d: "distinct (map pk_tag ps)" "distinct (variant_keys ps)" by (simp_all add: table_ok_def)
  show "ph_keys h = zip (map pk_tag ps) [1 ..< Suc (length ps)]"
    "ph_tags h = zip [1 ..< Suc (length ps)] (map pk_tag ps)"
    "ph_packetMap h = map (\<lambda>p. (pk_tag p, p)) ps" "ph_variants h = variant_entries ps" "ph_packets h = ps"
    unfolding a(2)
    using hold_packets_fields [OF d, of "empty_holder\<lparr>ph_packets := ps\<rparr>"] by (simp_all add: empty_holder_def)
qed

text \<open>The tag of a variant is its parent and its name, as \<open>CreatePacketGroup\<close> makes it.\<close>

definition plain_tags :: "packet list \<Rightarrow> bool" where
  "plain_tags ps \<longleftrightarrow> (\<forall>p \<in> set ps. pk_tag p \<notin> set object_prototype_keys)
     \<and> (\<forall>p \<in> set ps. \<forall>k. variant_key p = Some k \<longrightarrow> pk_tag p = k)"

lemma variant_entries_plain:
  "plain_tags ps \<Longrightarrow> (k, t) \<in> set (variant_entries ps) \<Longrightarrow> t = k \<and> (\<exists>p \<in> set ps. variant_key p = Some k)"
  by (auto simp: variant_entries_def plain_tags_def split: option.splits)

lemma resolveTag_plain:
  assumes "new_holder ps = Inr h" "plain_tags ps" "p \<in> set ps"
  shows "resolveTag h (pk_tag p) = Some (pk_tag p)"
proof -
  note f = new_holder_fields [OF assms(1)]
  have "t = pk_tag p" if "map_of (ph_variants h) (pk_tag p) = Some t" for t
    using variant_entries_plain [OF assms(2)] map_of_SomeD [OF that] by (simp add: f(5))
  moreover have "pk_tag p \<notin> set object_prototype_keys" using assms(2,3) by (simp add: plain_tags_def)
  ultimately show ?thesis by (auto simp: resolveTag_def split: option.split)
qed

lemma map_of_zip_upt:
  assumes "i < length xs"
  shows "distinct xs \<Longrightarrow> map_of (zip xs [a ..< a + length xs]) (xs ! i) = Some (a + i)"
    "map_of (zip [a ..< a + length xs] xs) (a + i) = Some (xs ! i)"
proof -
  show "map_of (zip xs [a ..< a + length xs]) (xs ! i) = Some (a + i)" if "distinct xs"
    using map_of_zip_nth [of xs "[a ..< a + length xs]" i] assms that by simp
  show "map_of (zip [a ..< a + length xs] xs) (a + i) = Some (xs ! i)"
    using map_of_zip_nth [of "[a ..< a + length xs]" xs i] assms by simp
qed

text \<open>
  In a valid table the packets get the keys 1, 2, and so on in order: key, tag and packet are looked
  up from one another, and no key is the control key or overflows its byte.
\<close>

theorem holder_lookup:
  assumes "new_holder ps = Inr h" "plain_tags ps" "i < length ps"
  shows "getKey h (pk_tag (ps ! i)) = Inr (i + 1) \<and> getTag h (i + 1) = Some (pk_tag (ps ! i))
    \<and> getPacket h (pk_tag (ps ! i)) = Inr (ps ! i)
    \<and> unat (of_nat (i + 1) :: u8) = i + 1 \<and> of_nat (i + 1) \<noteq> CONTROL_KEY"
proof -
  note f = new_holder_fields [OF assms(1)]
  have d: "distinct (map pk_tag ps)" and n: "length ps \<le> 254" using f(1) by (simp_all add: table_ok_def)
  have r: "resolveTag h (pk_tag (ps ! i)) = Some (pk_tag (ps ! i))"
    using resolveTag_plain [OF assms(1,2)] assms(3) by simp
  have "map_of (ph_keys h) (pk_tag (ps ! i)) = Some (i + 1)"
    using map_of_zip_upt(1) [of i "map pk_tag ps" 1] d assms(3) by (simp add: f(2))
  moreover have "map_of (ph_tags h) (i + 1) = Some (pk_tag (ps ! i))"
    using map_of_zip_upt(2) [of i "map pk_tag ps" 1] assms(3) by (simp add: f(3))
  moreover have "map_of (ph_packetMap h) (pk_tag (ps ! i)) = Some (ps ! i)"
    using d assms(3) by (intro map_of_is_SomeI) (auto simp: f(4) comp_def)
  moreover have "unat (of_nat (i + 1) :: u8) = i + 1"
    using n assms(3) by (simp only: unat_of_nat take_bit_nat_eq_self) simp
  moreover from this have "of_nat (i + 1) \<noteq> CONTROL_KEY" by (auto simp: CONTROL_KEY_def)
  ultimately show ?thesis using r by (simp add: getKey_def getTag_def getPacket_def)
qed

lemma no_parent_errors: "pk_parent p = None \<Longrightarrow> parent_ok ps p"
  by (simp add: parent_ok_def)

lemma wire_sample_table:
  "new_holder [p] = Inr h \<longleftrightarrow> table_ok [p] \<and> h = foldl hold_packet (empty_holder\<lparr>ph_packets := [p]\<rparr>) [p]"
  by (auto simp: new_holder_def holdPackets_def AssertPacketSchema_def no_errors_iff)

section \<open>Groups in a table\<close>

lemma mapS_Inr_list_all2:
  "mapS f xs s = (Inr ys, s') \<Longrightarrow> list_all2 (\<lambda>x y. \<exists>s1 s2. f x s1 = (Inr y, s2)) xs ys"
proof (induction xs arbitrary: s ys)
  case (Cons x xs)
  then show ?case by (auto simp: bindS_Inr)
qed simp

definition is_child :: "jsstr \<Rightarrow> jsstr \<times> single_settings \<Rightarrow> packet \<Rightarrow> bool" where
  "is_child t entry p \<longleftrightarrow> fst entry \<noteq> [] \<and> pk_tag p = t @ [dot] @ fst entry \<and> pk_parent p = Some t
     \<and> pk_variant p = Some (fst entry) \<and> \<not> pk_isParent p"

text \<open>The packets of a group: the parent, and per entry a child that carries its variant.\<close>

lemma group_packets:
  assumes "CreatePacketGroup g reg = (Inr ps, reg')"
  shows "\<exists>parent children. ps = parent # children \<and> gs_tag g \<noteq> []
    \<and> pk_tag parent = gs_tag g \<and> pk_isParent parent \<and> is_none_packet parent \<and> pk_parent parent = Some (gs_tag g)
    \<and> pk_variant parent = Some [] \<and> pk_permutation parent = group_permutation g
    \<and> distinct (map fst (group_entries g))
    \<and> list_all2 (is_child (gs_tag g)) (group_entries g) children"
proof -
  obtain s1 s2 parent children where g: "gs_tag g \<noteq> []" "distinct (map fst (group_entries g))"
    and p: "CreatePacket (parent_settings g) reg = (Inr parent, s1)"
    and c: "mapS (create_child g) (group_entries g) s1 = (Inr children, s2)" and ps: "ps = parent # children"
    using assms by (auto simp: CreatePacketGroup_def bindS_Inr)
  obtain rl where pp: "parent = new_packet (ss_tag (parent_settings g)) (single_schema (parent_settings g) rl)
      (or_else (ss_enabled (parent_settings g)) True) False"
    using CreatePacket_Inr [OF p] by metis
  have "pk_tag parent = gs_tag g \<and> pk_isParent parent \<and> is_none_packet parent \<and> pk_parent parent = Some (gs_tag g)
    \<and> pk_variant parent = Some [] \<and> pk_permutation parent = group_permutation g"
    by (simp add: pp is_none_packet_def) (simp add: parent_settings_def no_settings_def convertType_def)
  moreover have "v \<noteq> [] \<and> pk_tag q = gs_tag g @ [dot] @ v \<and> pk_parent q = Some (gs_tag g)
       \<and> pk_variant q = Some v \<and> \<not> pk_isParent q"
    if "create_child g (v, d) a = (Inr q, b)" for v d q a b
  proof -
    have v: "v \<noteq> []" and q: "CreatePacket (child_settings g v d) a = (Inr q, b)"
      using that by (auto simp: create_child_def bindS_Inr)
    obtain rl where "q = new_packet (ss_tag (child_settings g v d)) (single_schema (child_settings g v d) rl)
        (or_else (ss_enabled (child_settings g v d)) True) False"
      using CreatePacket_Inr [OF q] by metis
    then show ?thesis using v by (simp add: child_settings_def)
  qed
  then have "list_all2 (is_child (gs_tag g)) (group_entries g) children"
    by (intro list_all2_mono [OF mapS_Inr_list_all2 [OF c]]) (auto simp: is_child_def)
  ultimately show ?thesis using g ps by blast
qed

lemma variant_key_child:
  "pk_parent p = Some t \<Longrightarrow> pk_variant p = Some v \<Longrightarrow> t \<noteq> [] \<Longrightarrow> v \<noteq> [] \<Longrightarrow> variant_key p = Some (t @ [dot] @ v)"
  by (simp add: variant_key_def)

definition variant_tag :: "jsstr \<Rightarrow> jsstr \<Rightarrow> jsstr" where
  "variant_tag parent v = parent @ [dot] @ v"

lemma variant_tag_inj [simp]: "variant_tag t v = variant_tag t w \<longleftrightarrow> v = w" "variant_tag t v \<noteq> t" "t \<noteq> variant_tag t v"
  by (simp_all add: variant_tag_def)

lemma map_of_self: "k \<in> f ` set vs \<Longrightarrow> map_of (map (\<lambda>v. (f v, f v)) vs) k = Some k"
  by (induction vs) auto

lemma group_children_keys:
  assumes "list_all2 (is_child t) entries children" "t \<noteq> []"
  shows "map pk_tag children = map (variant_tag t \<circ> fst) entries"
    "variant_entries children = map (\<lambda>v. (variant_tag t v, variant_tag t v)) (map fst entries)"
    "\<forall>p \<in> set children. pk_parent p = Some t \<and> \<not> pk_isParent p"
  using assms
  by (induction rule: list_all2_induct)
     (auto simp: is_child_def variant_entries_def variant_tag_def variant_key_child)

lemma group_table:
  assumes "CreatePacketGroup g reg = (Inr ps, reg')" "length (group_entries g) \<le> 253"
    and "\<forall>p \<in> set ps. local_errors p = []"
  obtains parent children where "ps = parent # children" "table_ok ps" "pk_tag parent = gs_tag g"
    "pk_permutation parent = group_permutation g" "gs_tag g \<noteq> []"
    "variant_entries ps = map (\<lambda>v. (variant_tag (gs_tag g) v, variant_tag (gs_tag g) v)) (map fst (group_entries g))"
    "distinct (map fst (group_entries g))"
proof -
  obtain parent children where g: "ps = parent # children" "gs_tag g \<noteq> []"
    "pk_tag parent = gs_tag g" "pk_isParent parent" "is_none_packet parent" "pk_parent parent = Some (gs_tag g)"
    "pk_variant parent = Some []" "pk_permutation parent = group_permutation g"
    and d: "distinct (map fst (group_entries g))"
    and c: "list_all2 (is_child (gs_tag g)) (group_entries g) children"
    using group_packets [OF assms(1)] by blast
  note k = group_children_keys [OF c g(2)]
  have inj: "inj (variant_tag (gs_tag g))" by (simp add: inj_on_def)
  have vp: "variant_key parent = None" using g(6,7) by (simp add: variant_key_def)
  have ve: "variant_entries ps = map (\<lambda>v. (variant_tag (gs_tag g) v, variant_tag (gs_tag g) v)) (map fst (group_entries g))"
    using k(2) vp by (simp add: g(1) variant_entries_def)
  have "distinct (map (variant_tag (gs_tag g)) (map fst (group_entries g)))"
    using d inj by (simp add: distinct_map del: map_map) (meson inj_on_subset subset_UNIV)
  moreover from this have "distinct (variant_keys ps)"
    unfolding fst_variant_entries [symmetric] ve by (simp add: comp_def)
  ultimately have "table_ok ps"
    using assms(2,3) g k(1,3) list_all2_lengthD [OF c]
    by (auto simp: table_ok_def parent_ok_def comp_def)
  then show thesis using that g ve d by blast
qed

text \<open>
  A group made by \<open>CreatePacketGroup\<close> is a valid table, and the holder built from it finds every
  variant by parent and name, each with its own packet.
\<close>

theorem group_variants_found:
  assumes "CreatePacketGroup g reg = (Inr ps, reg')" "length (group_entries g) \<le> 253"
    and "\<forall>p \<in> set ps. local_errors p = []"
  shows "\<exists>h. new_holder ps = Inr h
    \<and> (\<forall>v \<in> fst ` set (group_entries g). getVariantTag h (gs_tag g) v = Inr (gs_tag g @ [dot] @ v))"
proof -
  obtain parent children where g: "ps = parent # children" "table_ok ps" "pk_tag parent = gs_tag g"
    "pk_permutation parent = group_permutation g" "gs_tag g \<noteq> []"
    "variant_entries ps = map (\<lambda>v. (variant_tag (gs_tag g) v, variant_tag (gs_tag g) v)) (map fst (group_entries g))"
    "distinct (map fst (group_entries g))"
    by (rule group_table [OF assms])
  obtain h where h: "new_holder ps = Inr h"
    using g(2) by (simp add: new_holder_def holdPackets_def AssertPacketSchema_def no_errors_iff)
  have "getVariantTag h (gs_tag g) v = Inr (gs_tag g @ [dot] @ v)" if v: "v \<in> fst ` set (group_entries g)" for v
  proof -
    have "map_of (ph_variants h) (variant_tag (gs_tag g) v) = Some (variant_tag (gs_tag g) v)"
      unfolding new_holder_fields(5) [OF h] g(6) by (rule map_of_self) (use v in simp)
    then show ?thesis using g(5) by (simp add: getVariantTag_def variant_tag_def)
  qed
  then show ?thesis using h by blast
qed

lemma group_entries_nonempty:
  assumes "CreatePacketGroup g reg = (Inr ps, reg')"
  shows "[] \<notin> set (map fst (group_entries g))"
proof
  assume "[] \<in> set (map fst (group_entries g))"
  then obtain i where i: "i < length (group_entries g)" "fst (group_entries g ! i) = []"
    by (auto simp: in_set_conv_nth)
  obtain children where "list_all2 (is_child (gs_tag g)) (group_entries g) children"
    using group_packets [OF assms] by (elim exE conjE)
  from list_all2_nthD [OF this i(1)] show False using i(2) by (simp add: is_child_def)
qed

lemma variants_of_map:
  "ph_variants h = map (\<lambda>v. (variant_tag t v, variant_tag t v)) vs \<Longrightarrow> variants_of h t = vs"
  by (simp add: variants_of_def variant_tag_def comp_def)

text \<open>
  Choosing a variant of a permutation group by flags through the holder is the search of the
  permutation itself, with the parent's tag for the empty selection and the same refusals.
\<close>

theorem group_permutation_choice:
  assumes "CreatePacketGroup g reg = (Inr ps, reg')" "length (group_entries g) \<le> 253"
    and "\<forall>p \<in> set ps. local_errors p = []"
    and "gs_variants g = VarPerm vp" "gs_tag g \<notin> set object_prototype_keys"
  shows "\<exists>h. new_holder ps = Inr h \<and> getPermutationVariant h (gs_tag g) sel
    = bindR (enabled_values (vp_values vp) sel) (\<lambda>enabled. if enabled = [] then Inr (gs_tag g)
        else bindR (vp_resolve vp sel) (\<lambda>v. Inr (gs_tag g @ [dot] @ v)))"
proof -
  obtain parent children where g: "ps = parent # children" "table_ok ps" "pk_tag parent = gs_tag g"
    "pk_permutation parent = group_permutation g" "gs_tag g \<noteq> []"
    "variant_entries ps = map (\<lambda>v. (variant_tag (gs_tag g) v, variant_tag (gs_tag g) v)) (map fst (group_entries g))"
    "distinct (map fst (group_entries g))"
    by (rule group_table [OF assms(1-3)])
  obtain h where h: "new_holder ps = Inr h"
    using g(2) by (simp add: new_holder_def holdPackets_def AssertPacketSchema_def no_errors_iff)
  note f = new_holder_fields [OF h]
  have e: "map fst (group_entries g) = generate vp" by (simp add: group_entries_def assms(4) comp_def)
  then have vars: "variants_of h (gs_tag g) = generate vp" using f(5) g(6) by (intro variants_of_map) simp
  have "map_of (ph_variants h) (gs_tag g) = None"
    unfolding f(5) g(6) by (auto simp: map_of_eq_None_iff)
  then have pk: "getPacket h (gs_tag g) = Inr parent"
    using assms(5) g(1,3) by (simp add: getPacket_def resolveTag_def f(4))
  have ne: "[] \<notin> set (generate vp)"
    using group_entries_nonempty [OF assms(1)] e by simp
  have vt: "getVariantTag h (gs_tag g) v = Inr (gs_tag g @ [dot] @ v)" if "v \<in> set (generate vp)" for v
  proof -
    have "map_of (ph_variants h) (variant_tag (gs_tag g) v) = Some (variant_tag (gs_tag g) v)"
      unfolding f(5) g(6) by (rule map_of_self) (use that e in simp)
    then show ?thesis using g(5) by (simp add: getVariantTag_def variant_tag_def)
  qed
  have perm: "getPermutationVariant h (gs_tag g) sel
    = bindR (enabled_values (vp_values vp) sel) (\<lambda>enabled. if enabled = [] then Inr (gs_tag g)
        else bindR (vp_resolve vp sel) (\<lambda>v. Inr (gs_tag g @ [dot] @ v)))"
  proof (cases "enabled_values (vp_values vp) sel")
    case (Inr enabled)
    have m: "pk_permutation parent = Some (vp_values vp)" by (simp add: g(4) group_permutation_def assms(4))
    show ?thesis
    proof (cases "find (names_enabled enabled) (generate vp)")
      case None
      then show ?thesis by (simp add: getPermutationVariant_def pk m Inr vars vp_resolve_def)
    next
      case (Some v)
      then have "v \<in> set (generate vp)" by (auto simp: find_Some_iff)
      then have "v \<noteq> []" "getVariantTag h (gs_tag g) v = Inr (gs_tag g @ [dot] @ v)" using ne vt by auto
      then show ?thesis using Some by (simp add: getPermutationVariant_def pk m Inr vars vp_resolve_def)
    qed
  qed (simp add: getPermutationVariant_def pk g(4) group_permutation_def assms(4))
  then show ?thesis using h by blast
qed

definition duo_group :: group_settings where
  "duo_group = \<lparr>gs_tag = js ''m'', gs_defaults = Some ((no_settings [])\<lparr>ss_type := Some (AType PT_UBYTES)\<rparr>),
     gs_delegate = None,
     gs_variants = VarPerm \<lparr>vp_values = [js ''W'', js ''S''], vp_opposites = [(0, 1)]\<rparr>\<rparr>"

lemma duo_generate: "generate \<lparr>vp_values = [js ''W'', js ''S''], vp_opposites = [(0, 1)]\<rparr> = [js ''W'', js ''S'']"
  by code_simp

lemma duo_entries: "group_entries duo_group = [(js ''W'', no_settings []), (js ''S'', no_settings [])]"
  by (simp only: group_entries_def duo_group_def group_settings.simps group_variants.simps duo_generate list.map)

text \<open>A packet made without options has no defect and registers nothing.\<close>

lemma create_plain:
  assumes "ss_tag s \<noteq> []" "or_else (ss_type s) (AType PT_NONE) = AType ty" "\<not> isInvalidType (AType ty)"
    and "ss_rereference s = None" "ss_replay s = None" "ss_schema s = None" "ss_constructor s = None"
    and "ss_autoFlatten s = None" "ss_quantized s = None" "ss_min s = None" "ss_max s = None" "ss_rateLimit s = None"
  shows "CreatePacket s reg = (Inr (new_packet (ss_tag s) (single_schema s 0) (or_else (ss_enabled s) True) False), reg)
    \<and> local_errors (new_packet (ss_tag s) (single_schema s 0) (or_else (ss_enabled s) True) False) = []"
  using assms
  by (simp add: CreatePacket_def checkS_def register_opt_def validateFields_def validateNumericOptions_def
      clampRateLimit_def MAX_USHORT_def local_errors_def replay_batched_def negative_unsigned_def fixed_mismatch_def
      split: prod.split)

lemma duo_created:
  "\<exists>ps. CreatePacketGroup duo_group [] = (Inr ps, []) \<and> (\<forall>p \<in> set ps. local_errors p = [])"
proof -
  let ?mk = "\<lambda>s. new_packet (ss_tag s) (single_schema s 0) (or_else (ss_enabled s) True) False"
  have p: "CreatePacket (parent_settings duo_group) [] = (Inr (?mk (parent_settings duo_group)), [])
      \<and> local_errors (?mk (parent_settings duo_group)) = []"
    by (rule create_plain [where ty = 0])
       (simp_all add: parent_settings_def duo_group_def no_settings_def isInvalidType_def js_def)
  have c: "CreatePacket (child_settings duo_group v (no_settings [])) [] = (Inr (?mk (child_settings duo_group v (no_settings []))), [])
      \<and> local_errors (?mk (child_settings duo_group v (no_settings []))) = []" for v
    by (rule create_plain [where ty = 6])
       (simp_all add: child_settings_def duo_group_def first_of_def merge_settings_def no_settings_def isInvalidType_def)
  have k: "create_child duo_group (js v, no_settings []) []
      = (Inr (?mk (child_settings duo_group (js v) (no_settings []))), [])" if "v \<in> {''W'', ''S''}" for v
    using c [of "js v"] that by (auto simp: create_child_def checkS_def dollar_def js_def)
  have ks: "mapS (create_child duo_group) (group_entries duo_group) []
      = (Inr [?mk (child_settings duo_group (js ''W'') (no_settings [])),
              ?mk (child_settings duo_group (js ''S'') (no_settings []))], [])"
    using k [of "''W''"] k [of "''S''"] by (simp add: duo_entries bindS_eq)
  have chk: "gs_tag duo_group \<noteq> [] \<and> dollar \<notin> set (gs_tag duo_group)" "gs_delegate duo_group = None"
    "first_of (gs_defaults duo_group) (gs_delegate duo_group) \<noteq> None"
    by (simp_all add: duo_group_def dollar_def js_def first_of_def)
  have ent: "distinct (map fst (group_entries duo_group))" "group_entries duo_group \<noteq> []"
    by (simp_all add: duo_entries)
  show ?thesis
    using p c ks chk ent by (simp add: CreatePacketGroup_def checkS_def bindS_eq)
qed

lemma duo_sizes: "length (group_entries duo_group) \<le> 253" "gs_tag duo_group \<notin> set object_prototype_keys"
  by (simp_all add: duo_entries) (simp add: duo_group_def object_prototype_keys_def js_inj)

lemma group_variants_found_witness:
  "\<exists>h ps. new_holder ps = Inr h \<and> getVariantTag h (js ''m'') (js ''S'') = Inr (js ''m.S'')"
proof -
  obtain ps where ps: "CreatePacketGroup duo_group [] = (Inr ps, [])" "\<forall>p \<in> set ps. local_errors p = []"
    using duo_created by blast
  show ?thesis
    using group_variants_found [OF ps(1) duo_sizes(1) ps(2)]
    by (auto simp: duo_entries) (auto simp: duo_group_def js_def dot_def)
qed

lemma group_permutation_choice_witness:
  "\<exists>h ps. new_holder ps = Inr h \<and> getPermutationVariant h (js ''m'') (Flags [JBool False, JBool True]) = Inr (js ''m.S'')"
proof -
  obtain ps where ps: "CreatePacketGroup duo_group [] = (Inr ps, [])" "\<forall>p \<in> set ps. local_errors p = []"
    using duo_created by blast
  let ?vp = "\<lparr>vp_values = [js ''W'', js ''S''], vp_opposites = [(0, 1)]\<rparr>"
  have v: "gs_variants duo_group = VarPerm ?vp" by (simp add: duo_group_def)
  have "enabled_values (vp_values ?vp) (Flags [JBool False, JBool True]) = Inr [js ''S'']"
    by (simp add: enabled_values_def is_bool_def)
  moreover have "vp_resolve ?vp (Flags [JBool False, JBool True]) = Inr (js ''S'')"
    by code_simp
  ultimately show ?thesis
    using group_permutation_choice [OF ps(1) duo_sizes(1) ps(2) v duo_sizes(2), of "Flags [JBool False, JBool True]"]
    by (auto simp: duo_group_def js_def dot_def)
qed

lemma holder_lookup_witness:
  "\<exists>p h. new_holder [p] = Inr h \<and> getKey h (pk_tag p) = Inr 1 \<and> getTag h 1 = Some (pk_tag p)"
proof -
  let ?s = "no_settings (js ''p'')"
  let ?p = "new_packet (ss_tag ?s) (single_schema ?s 0) (or_else (ss_enabled ?s) True) False"
  have l: "local_errors ?p = []"
    using create_plain [of ?s 0 "[]"] by (simp add: no_settings_def isInvalidType_def js_def)
  have np: "pk_parent ?p = None" "pk_tag ?p = js ''p''" "variant_key ?p = None"
    by (simp_all add: variant_key_def) (simp_all add: no_settings_def)
  have t: "table_ok [?p]" using l np by (simp add: table_ok_def parent_ok_def)
  obtain h where h: "new_holder [?p] = Inr h"
    using t by (simp add: new_holder_def holdPackets_def AssertPacketSchema_def no_errors_iff)
  have "plain_tags [?p]" using np by (simp add: plain_tags_def object_prototype_keys_def js_inj)
  then show ?thesis using holder_lookup [OF h, of 0] h by (intro exI [of _ ?p] exI [of _ h]) simp
qed

end
