(* ===== verification/Packet_Values.thy ===== *)
theory Packet_Values
  imports Packets
begin

text \<open>
  Properties of the mapping between application values and wire values (\<open>Packets\<close>): records survive
  the positional, flattened and transposed layouts; the error feedback of quantization stays bounded
  and separate for each sender; what the receive path does with numbers that have no schema.
\<close>

section \<open>Records\<close>

text \<open>The records a packet with these fields accepts.\<close>

definition fits_fields :: "jsstr list \<Rightarrow> (jsstr \<times> jsval) list \<Rightarrow> bool" where
  "fits_fields flds kvs \<longleftrightarrow> distinct (map fst kvs) \<and> set (map fst kvs) = set flds"

definition same_record :: "jsval \<Rightarrow> (jsstr \<times> jsval) list \<Rightarrow> bool" where
  "same_record v kvs \<longleftrightarrow> (\<exists>kvs'. v = JObj kvs' \<and> map_of kvs' = map_of kvs)"

lemma fits_fields_length: "fits_fields flds kvs \<Longrightarrow> distinct flds \<Longrightarrow> length kvs = length flds"
  unfolding fits_fields_def by (metis distinct_card length_map)

lemma assertRecord_ok:
  "pk_fields p = Some flds \<Longrightarrow> distinct flds \<Longrightarrow> fits_fields flds kvs \<Longrightarrow>
   assertRecord p (JObj kvs) = Inr (recordValues flds kvs)"
  using fits_fields_length [of flds kvs]
  by (auto simp: assertRecord_def record_entries_def fits_fields_def Let_def)

lemma recordValues_length [simp]: "length (recordValues flds kvs) = length flds"
  by (simp add: recordValues_def)

lemma enumerate_map_arr_get:
  "length vals \<ge> length flds \<Longrightarrow> map (\<lambda>(i, f). (f, arr_get vals i)) (enumerate 0 flds) = zip flds vals"
  by (intro nth_equalityI) (auto simp: arr_get_def nth_enumerate_eq)

lemma zip_recordValues:
  assumes "fits_fields flds kvs" "distinct flds"
  shows "map_of (zip flds (recordValues flds kvs)) = map_of kvs"
proof
  fix f
  show "map_of (zip flds (recordValues flds kvs)) f = map_of kvs f"
  proof (cases "f \<in> set flds")
    case True
    then obtain v where "map_of kvs f = Some v"
      using assms(1) by (metis fits_fields_def map_of_eq_None_iff not_None_eq image_set)
    moreover have "map_of (zip flds (map (obj_get kvs) flds)) f = Some (obj_get kvs f)"
      using True by (simp add: map_of_zip_map)
    ultimately show ?thesis by (simp add: recordValues_def obj_get_def)
  next
    case False
    then have "map_of kvs f = None" using assms(1) by (metis fits_fields_def map_of_eq_None_iff image_set)
    then show ?thesis using False by (simp add: map_of_zip_is_None)
  qed
qed

lemma from_entries_same:
  assumes "distinct (map fst entries)" "map_of entries = map_of kvs"
  shows "same_record (from_entries entries) kvs"
proof -
  obtain kvs' where k: "from_entries entries = JObj kvs'" by (simp add: from_entries_def)
  have "map_of (rev entries) = map_of entries" using assms(1) by (subst map_of_inject_set) (simp_all add: rev_map [symmetric])
  then show ?thesis using obj_get_from_entries [OF k] assms(2) k by (simp add: same_record_def)
qed

lemma record_of_row_same:
  assumes "fits_fields flds kvs" "distinct flds"
  shows "same_record (record_of_row flds (recordValues flds kvs @ rest)) kvs"
proof -
  have "record_of_row flds (recordValues flds kvs @ rest) = from_entries (zip flds (recordValues flds kvs))"
    by (simp add: record_of_row_def enumerate_map_arr_get zip_append2 take_all)
  then show ?thesis
    using assms by (simp add: from_entries_same zip_recordValues)
qed

text \<open>
  A record sent through a packet with a schema is mapped to positions and back to a record with
  the same fields and values.
\<close>

theorem record_roundtrip:
  assumes "\<not> pk_object p" "\<not> pk_autoFlatten p" "\<not> numeric p" "pk_constructorName p = None"
    and "pk_fields p = Some flds" "distinct flds" "fits_fields flds kvs"
  shows "\<exists>vals. prepareSend p k [JObj kvs] errs = (Inr vals, errs) \<and> length vals = length flds
     \<and> (\<exists>r. finishReceive lib ctors p (JArr vals) = Inr r \<and> same_record r kvs)"
  using record_of_row_same [OF assms(7,6), of "[]"] assms
  by (simp add: prepareSend_def record_entries_def assertRecord_ok finishReceive_def js_values_def
      construct_def)

definition sample_packet :: packet where
  "sample_packet = new_packet (js ''p'')
     \<lparr>ps_object = False, ps_types = [PT_VARINT], ps_enumData = [], ps_async = False,
      ps_dataMin = [2], ps_dataMax = [2], ps_rateLimit = 0, ps_dontSpread = False, ps_autoFlatten = False,
      ps_rereference = False, ps_dataBatching = Some 0, ps_maxBatchSize = 10, ps_gzip = False,
      ps_fields = Some [js ''x'', js ''y''], ps_quantized = None, ps_valueMin = None, ps_valueMax = None,
      ps_group = None, ps_constructorName = None, ps_replay = False\<rparr> True False"

lemma record_roundtrip_witness:
  "\<exists>vals. prepareSend sample_packet 0 [JObj [(js ''y'', JNull), (js ''x'', JBool True)]] (\<lambda>_. None)
            = (Inr vals, \<lambda>_. None) \<and> length vals = length [js ''x'', js ''y'']
     \<and> (\<exists>r. finishReceive plain_lib [] sample_packet (JArr vals) = Inr r
              \<and> same_record r [(js ''y'', JNull), (js ''x'', JBool True)])"
  by (rule record_roundtrip)
     (auto simp: sample_packet_def new_packet_def numeric_def fits_fields_def Let_def)

section \<open>Flattened and transposed records\<close>

lemma mapR_assertRecord:
  "pk_fields p = Some flds \<Longrightarrow> distinct flds \<Longrightarrow> list_all (fits_fields flds) kvss \<Longrightarrow>
   mapR (assertRecord p) (map JObj kvss) = Inr (map (recordValues flds) kvss)"
  by (induction kvss) (simp_all add: assertRecord_ok)

lemma mapS_flatten:
  "pk_fields p = Some flds \<Longrightarrow> distinct flds \<Longrightarrow> \<not> numeric p \<Longrightarrow> list_all (fits_fields flds) kvss \<Longrightarrow>
   mapS (flatten_row p k) (map JObj kvss) errs = (Inr (map (recordValues flds) kvss), errs)"
  by (induction kvss) (simp_all add: flatten_row_def assertRecord_ok bindS_eq)

lemma concat_rows_length:
  "list_all (\<lambda>r. length r = w) rows \<Longrightarrow> length (concat rows) = length rows * w"
  by (induction rows) simp_all

lemma drop_concat_rows:
  "list_all (\<lambda>r. length r = w) rows \<Longrightarrow> i < length rows \<Longrightarrow>
   \<exists>rest. drop (i * w) (concat rows) = rows ! i @ rest"
proof (induction rows arbitrary: i)
  case (Cons r rows)
  then show ?case by (cases i) (auto simp: drop_append)
qed simp

text \<open>
  Records flattened row by row into one value list come back as the same records in the same
  order, for any number of rows.
\<close>

theorem flatten_roundtrip:
  assumes "\<not> pk_object p" "pk_autoFlatten p" "\<not> numeric p" "pk_constructorName p = None"
    and "pk_fields p = Some flds" "distinct flds" "flds \<noteq> []" "list_all (fits_fields flds) kvss"
  shows "\<exists>flat rows. prepareSend p k [JArr (map JObj kvss)] errs = (Inr flat, errs)
     \<and> length flat = length kvss * length flds
     \<and> finishReceive lib ctors p (JArr flat) = Inr (JArr rows) \<and> list_all2 same_record rows kvss"
proof -
  define mat where "mat = map (recordValues flds) kvss"
  let ?flat = "concat mat"
  have mat: "list_all (\<lambda>r. length r = length flds) mat" by (simp add: mat_def list_all_iff)
  have len: "length ?flat = length kvss * length flds"
    using concat_rows_length [OF mat] by (simp add: mat_def)
  define rows where "rows = map (\<lambda>i. record_of_row flds (drop (i * length flds) ?flat)) [0 ..< length kvss]"
  have "same_record (rows ! i) (kvss ! i)" if i: "i < length kvss" for i
  proof -
    obtain rest where "drop (i * length flds) ?flat = mat ! i @ rest"
      using drop_concat_rows [OF mat, of i] i by (auto simp: mat_def)
    then show ?thesis
      using i record_of_row_same [of flds "kvss ! i" rest] assms(6,8)
      by (simp add: rows_def mat_def list_all_length)
  qed
  then have "list_all2 same_record rows kvss"
    by (simp add: list_all2_conv_all_nth rows_def)
  moreover have "finishReceive lib ctors p (JArr ?flat) = Inr (JArr rows)"
    using assms(1-5,7) len
    by (simp add: finishReceive_def js_values_def Let_def construct_def rows_def
        mapR_Inr [where g = "\<lambda>i. record_of_row flds (drop (i * length flds) ?flat)"])
  moreover have "prepareSend p k [JArr (map JObj kvss)] errs = (Inr ?flat, errs)"
    using assms mapS_flatten [OF assms(5,6,3,8)]
    by (simp add: prepareSend_def bindS_eq mat_def)
  ultimately show ?thesis using len by blast
qed

lemma flatten_roundtrip_witness:
  "\<exists>flat rows. prepareSend (sample_packet\<lparr>pk_autoFlatten := True\<rparr>) 0
        [JArr (map JObj [[(js ''x'', JNull), (js ''y'', JNull)]])] (\<lambda>_. None) = (Inr flat, \<lambda>_. None)
     \<and> length flat = length [[(js ''x'', JNull), (js ''y'', JNull)]] * length [js ''x'', js ''y'']
     \<and> finishReceive plain_lib [] (sample_packet\<lparr>pk_autoFlatten := True\<rparr>) (JArr flat) = Inr (JArr rows)
     \<and> list_all2 same_record rows [[(js ''x'', JNull), (js ''y'', JNull)]]"
  by (rule flatten_roundtrip)
     (auto simp: sample_packet_def new_packet_def numeric_def fits_fields_def Let_def)

lemma columns_match_ok:
  "list_all (\<lambda>c. js_length c = Inr (JNum (Fin n))) cs \<Longrightarrow> columns_match (JNum (Fin n)) cs = Inr ()"
  by (induction cs) simp_all

text \<open>
  Records transposed into one column per field, as object packets carry them, come back as the
  same records in the same order; every column has one value per record.
\<close>

theorem transpose_roundtrip:
  assumes "pk_object p" "pk_autoFlatten p" "pk_constructorName p = None"
    and "pk_fields p = Some flds" "distinct flds" "flds \<noteq> []" "list_all (fits_fields flds) kvss"
    and "length kvss < 2 ^ 53"
  shows "\<exists>cols rows. prepareSend p k [JArr (map JObj kvss)] errs = (Inr cols, errs)
     \<and> length cols = length flds
     \<and> finishReceive lib ctors p (JArr cols) = Inr (JArr rows) \<and> list_all2 same_record rows kvss"
proof -
  define mat where "mat = map (recordValues flds) kvss"
  define col where "col c = map (\<lambda>row. arr_get row c) mat" for c
  define cols where "cols = map (\<lambda>c. JArr (col c)) [0 ..< length flds]"
  have col: "length (col c) = length kvss" for c by (simp add: col_def mat_def)
  have cell: "c < length flds \<Longrightarrow> i < length kvss \<Longrightarrow>
      js_index (arr_get cols c) i = Inr (recordValues flds (kvss ! i) ! c)" for c i
    by (simp add: arr_get_def cols_def js_index_def col) (simp add: col_def mat_def arr_get_def)
  have entries: "mapR (\<lambda>(c, f). bindR (js_index (arr_get cols c) i) (\<lambda>v. Inr (f, v))) (enumerate 0 flds)
      = Inr (zip flds (recordValues flds (kvss ! i)))" if i: "i < length kvss" for i
  proof -
    have "mapR (\<lambda>(c, f). bindR (js_index (arr_get cols c) i) (\<lambda>v. Inr (f, v))) (enumerate 0 flds)
        = Inr (map (\<lambda>(c, f). (f, recordValues flds (kvss ! i) ! c)) (enumerate 0 flds))"
      using cell i by (intro mapR_Inr) (auto simp: in_set_enumerate_eq)
    also have "map (\<lambda>(c, f). (f, recordValues flds (kvss ! i) ! c)) (enumerate 0 flds)
        = zip flds (recordValues flds (kvss ! i))"
      by (intro nth_equalityI) (auto simp: nth_enumerate_eq)
    finally show ?thesis .
  qed
  define rows where "rows = map (\<lambda>i. from_entries (zip flds (recordValues flds (kvss ! i)))) [0 ..< length kvss]"
  have "same_record (rows ! i) (kvss ! i)" if i: "i < length kvss" for i
  proof -
    have "fits_fields flds (kvss ! i)" using assms(7) i by (simp add: list_all_length)
    then show ?thesis
      using i assms(5) by (simp add: rows_def from_entries_same zip_recordValues)
  qed
  then have same: "list_all2 same_record rows kvss"
    by (simp add: list_all2_conv_all_nth rows_def)
  have first: "arr_get cols 0 = JArr (col 0)" using assms(6) by (simp add: arr_get_def cols_def)
  have cm: "columns_match (JNum (Fin (of_nat (length kvss)))) cols = Inr ()"
    by (rule columns_match_ok) (simp add: cols_def list_all_iff js_length_def col)
  have tl: "to_length lib (JNum (Fin (of_nat (length kvss)))) = length kvss"
    using assms(8) by (simp add: to_length_def js_Number_def)
  have made: "mapR (\<lambda>row. bindR (mapR (\<lambda>(c, f). bindR (js_index (arr_get cols c) row) (\<lambda>v. Inr (f, v)))
                       (enumerate 0 flds)) (\<lambda>entries. Inr (from_entries entries))) [0 ..< length kvss]
      = Inr (map (\<lambda>i. from_entries (zip flds (recordValues flds (kvss ! i)))) [0 ..< length kvss])"
    by (rule mapR_Inr) (simp add: entries)
  have "transpose_receive lib ctors p flds cols = Inr (JArr rows)"
    unfolding transpose_receive_def first
    using assms(3) made by (simp add: nullish_def js_length_def col cm tl rows_def construct_def)
  then have "finishReceive lib ctors p (JArr cols) = Inr (JArr rows)"
    using assms(1,2,4) by (simp add: finishReceive_def)
  moreover have "prepareSend p k [JArr (map JObj kvss)] errs = (Inr cols, errs)"
    using assms(1,2,4) mapR_assertRecord [OF assms(4,5,7)]
    by (simp add: prepareSend_def bindS_eq mat_def cols_def col_def)
  moreover have "length cols = length flds" by (simp add: cols_def)
  ultimately show ?thesis using same by blast
qed

lemma transpose_roundtrip_witness:
  "\<exists>cols rows. prepareSend (sample_packet\<lparr>pk_autoFlatten := True, pk_object := True\<rparr>) 0
        [JArr (map JObj [[(js ''x'', JNull), (js ''y'', JNull)]])] (\<lambda>_. None) = (Inr cols, \<lambda>_. None)
     \<and> length cols = length [js ''x'', js ''y'']
     \<and> finishReceive plain_lib [] (sample_packet\<lparr>pk_autoFlatten := True, pk_object := True\<rparr>) (JArr cols)
         = Inr (JArr rows)
     \<and> list_all2 same_record rows [[(js ''x'', JNull), (js ''y'', JNull)]]"
  by (rule transpose_roundtrip)
     (auto simp: sample_packet_def new_packet_def fits_fields_def Let_def)

text \<open>
  C27: A list of records sent through an \<open>autoFlatten\<close> packet with a schema comes back as the same records in
  the same order, for any number of rows, whether the packet carries them row by row in one list of values or,
  as an object packet, transposed into one column per field; and the wire values have the shape the receiver
  counts on. The numbers are not mapped (no quantization, no limits) and no constructor is applied.
\<close>

theorem flattened_records_roundtrip:
  assumes "pk_autoFlatten p" "pk_object p \<or> \<not> numeric p" "pk_constructorName p = None"
    and "pk_fields p = Some flds" "distinct flds" "flds \<noteq> []" "list_all (fits_fields flds) kvss"
    and "length kvss < 2 ^ 53"
  shows "\<exists>wire rows. prepareSend p k [JArr (map JObj kvss)] errs = (Inr wire, errs)
     \<and> length wire = (if pk_object p then length flds else length kvss * length flds)
     \<and> finishReceive lib ctors p (JArr wire) = Inr (JArr rows) \<and> list_all2 same_record rows kvss"
proof (cases "pk_object p")
  case True
  then show ?thesis using transpose_roundtrip [OF True assms(1,3-8)] by simp
next
  case False
  then show ?thesis using flatten_roundtrip [OF False assms(1) _ assms(3-7)] assms(2) by simp
qed

text \<open>Two rows, flattened and transposed; the second record lists its fields in another order.\<close>

lemma flattened_records_roundtrip_witness:
  "\<forall>obj. \<exists>wire rows. prepareSend (sample_packet\<lparr>pk_autoFlatten := True, pk_object := obj\<rparr>) 0
        [JArr (map JObj [[(js ''x'', JNull), (js ''y'', JBool True)], [(js ''y'', JNull), (js ''x'', JBool False)]])] (\<lambda>_. None)
          = (Inr wire, \<lambda>_. None)
     \<and> length wire = (if obj then 2 else 4)
     \<and> finishReceive plain_lib [] (sample_packet\<lparr>pk_autoFlatten := True, pk_object := obj\<rparr>) (JArr wire) = Inr (JArr rows)
     \<and> list_all2 same_record rows [[(js ''x'', JNull), (js ''y'', JBool True)], [(js ''y'', JNull), (js ''x'', JBool False)]]"
proof
  fix obj :: bool
  let ?p = "sample_packet\<lparr>pk_autoFlatten := True, pk_object := obj\<rparr>"
  let ?kvss = "[[(js ''x'', JNull), (js ''y'', JBool True)], [(js ''y'', JNull), (js ''x'', JBool False)]]"
  have "\<exists>wire rows. prepareSend ?p 0 [JArr (map JObj ?kvss)] (\<lambda>_. None) = (Inr wire, \<lambda>_. None)
     \<and> length wire = (if pk_object ?p then length [js ''x'', js ''y''] else length ?kvss * length [js ''x'', js ''y''])
     \<and> finishReceive plain_lib [] ?p (JArr wire) = Inr (JArr rows) \<and> list_all2 same_record rows ?kvss"
    by (rule flattened_records_roundtrip)
      (auto simp: sample_packet_def new_packet_def numeric_def fits_fields_def Let_def)
  then show "\<exists>wire rows. prepareSend ?p 0 [JArr (map JObj ?kvss)] (\<lambda>_. None) = (Inr wire, \<lambda>_. None)
     \<and> length wire = (if obj then 2 else 4)
     \<and> finishReceive plain_lib [] ?p (JArr wire) = Inr (JArr rows) \<and> list_all2 same_record rows ?kvss" by (simp only: list.size) (cases obj; auto)
qed

section \<open>Arrays of arrays\<close>

text \<open>\<open>FlattenData\<close> of \<open>projects/ts/src/ws/util/packets/PacketUtils.ts\<close>.\<close>

definition FlattenData :: "jsval \<Rightarrow> jsval list result" where
  "FlattenData arr =
     (if nullish arr then Inr []
      else bindR (js_index arr 0) (\<lambda>firstRow.
        if nullish firstRow then Inr []
        else case firstRow of
            JArr row \<Rightarrow>
              (case arr of
                 JArr rows \<Rightarrow>
                   mapR (\<lambda>i. bindR (mapR (\<lambda>r. js_index r i) rows) (\<lambda>vs. Inr (JArr vs))) [0 ..< length row]
               | _ \<Rightarrow> Inl (TypeError ''arr.map is not a function''))
          | _ \<Rightarrow> Inl (Error ''Cannot flatten array'')))"

text \<open>
  Unflattening reverses flattening on every non-empty rectangular array with at least one column.
\<close>

theorem unflatten_flatten:
  assumes "list_all (\<lambda>r. length r = w) mat" "0 < w" "mat \<noteq> []"
  shows "\<exists>cols. FlattenData (JArr (map JArr mat)) = Inr cols \<and> length cols = w
     \<and> UnFlattenData lib cols = Inr (JArr (map JArr mat))"
proof -
  define cols where "cols = map (\<lambda>i. JArr (map (\<lambda>r. r ! i) mat)) [0 ..< w]"
  have w: "length (hd mat) = w" using assms by (cases mat) simp_all
  have "mapR (\<lambda>r. js_index r i) (map JArr mat) = Inr (map (\<lambda>r. r ! i) mat)" if "i < w" for i
    using that assms(1) by (auto simp: mapR_map js_index_def list_all_iff intro!: mapR_Inr)
  then have "mapR (\<lambda>i. bindR (mapR (\<lambda>r. js_index r i) (map JArr mat)) (\<lambda>vs. Inr (JArr vs))) [0 ..< w] = Inr cols"
    unfolding cols_def by (intro mapR_Inr) simp
  then have f: "FlattenData (JArr (map JArr mat)) = Inr cols"
    using assms(3) w by (cases mat) (simp_all add: FlattenData_def nullish_def js_index_def)
  have row: "mapR (\<lambda>c. js_index c i) cols = Inr (mat ! i)" if i: "i < length mat" for i
  proof -
    have "length (mat ! i) = w" using assms(1) i by (simp add: list_all_length)
    then have "map (\<lambda>c. mat ! i ! c) [0 ..< w] = mat ! i" by (intro nth_equalityI) simp_all
    moreover have "mapR (\<lambda>c. js_index c i) cols = Inr (map (\<lambda>c. mat ! i ! c) [0 ..< w])"
      unfolding cols_def mapR_map using i by (intro mapR_Inr) (simp add: js_index_def)
    ultimately show ?thesis by simp
  qed
  have "mapR (\<lambda>i. bindR (mapR (\<lambda>c. js_index c i) cols) (\<lambda>vs. Inr (JArr vs))) [0 ..< length mat]
      = Inr (map (\<lambda>i. JArr (mat ! i)) [0 ..< length mat])"
    by (rule mapR_Inr) (simp add: row)
  moreover have "map (\<lambda>i. JArr (mat ! i)) [0 ..< length mat] = map JArr mat"
    by (intro nth_equalityI) simp_all
  moreover have "arr_get cols 0 = JArr (map (\<lambda>r. r ! 0) mat)"
    using assms(2) by (simp add: arr_get_def cols_def)
  ultimately have "UnFlattenData lib cols = Inr (JArr (map JArr mat))"
    by (simp add: UnFlattenData_def Let_def)
  with f show ?thesis by (simp add: cols_def)
qed

lemma unflatten_flatten_witness:
  "\<exists>cols. FlattenData (JArr (map JArr [[JNull, JBool True], [JUndef, JNull]])) = Inr cols \<and> length cols = 2
     \<and> UnFlattenData plain_lib cols = Inr (JArr (map JArr [[JNull, JBool True], [JUndef, JNull]]))"
  by (rule unflatten_flatten) simp_all

section \<open>Quantization\<close>

definition err_of :: "qerrs \<Rightarrow> int \<Rightarrow> jsnum" where
  "err_of errs k = (case errs k of None \<Rightarrow> Fin 0 | Some e \<Rightarrow> e)"

definition half_bounded :: "qerrs \<Rightarrow> bool" where
  "half_bounded errs \<longleftrightarrow> (\<forall>k. \<exists>e. err_of errs k = Fin e \<and> \<bar>e\<bar> \<le> 1 / 2)"

text \<open>The scaled value is far from overflowing.\<close>

definition scaled_ok :: "packet \<Rightarrow> jsval \<Rightarrow> bool" where
  "scaled_ok p v =
     (case (pk_quantized p, v) of
        (Some q, JNum n) \<Rightarrow> (case num_mul n (q_scale q) of Fin m \<Rightarrow> \<bar>m\<bar> \<le> 2 powi 1022 | _ \<Rightarrow> False)
      | _ \<Rightarrow> True)"

lemma err_of_upd: "err_of (errs(k := Some e)) l = (if l = k then e else err_of errs l)"
  by (simp add: err_of_def)

lemma js_round_error: "\<bar>a - of_int (js_round a)\<bar> \<le> 1 / 2"
  using js_round_bounds [of a] by (intro abs_leI) linarith+

lemma num_sub_round:
  assumes "\<bar>a - of_int (js_round a)\<bar> \<le> 1 / 2"
  shows "\<exists>e. num_sub (Fin a) (num_round (Fin a)) = Fin e \<and> \<bar>e\<bar> \<le> 1 / 2"
proof -
  have h: "(2 :: rat) powi (- 1) = 1 / 2" by (simp add: power_int_minus)
  have "\<exists>v. to_double (a - of_int (js_round a)) = Fin v \<and> \<bar>v\<bar> \<le> 2 powi (- 1)"
    by (rule to_double_bound) (use assms h in simp_all)
  then show ?thesis unfolding h by (simp add: num_sub_def num_round_def num_neg_def num_add_def)
qed

lemma num_add_finite:
  assumes "\<bar>m\<bar> \<le> 2 powi 1022" "\<bar>e\<bar> \<le> 1 / 2"
  shows "\<exists>a. num_add (Fin m) (Fin e) = Fin a"
proof -
  have "(1 :: rat) \<le> 2 powi 1022" by (rule one_le_power_int) simp_all
  then have "\<bar>m + e\<bar> \<le> 2 powi 1022 + 2 powi 1022" using assms by linarith
  also have "\<dots> = 2 powi 1023" using power_int_add [of "2 :: rat" 1022 1] by simp
  finally have "\<exists>v. to_double (m + e) = Fin v \<and> \<bar>v\<bar> \<le> 2 powi 1023" by (intro to_double_bound) simp_all
  then show ?thesis by (auto simp: num_add_def)
qed

lemma logicalValue_Send:
  assumes "scaled_ok p v" "half_bounded errs"
  shows "half_bounded (snd (logicalValue p Send k v errs))
    \<and> (\<forall>k'. k' \<noteq> k \<longrightarrow> snd (logicalValue p Send k v errs) k' = errs k')"
proof -
  obtain e where e: "err_of errs k = Fin e" "\<bar>e\<bar> \<le> 1 / 2" using assms(2) by (auto simp: half_bounded_def)
  have "half_bounded (errs(k := Some (num_sub (num_add (num_mul n s) (err_of errs k))
            (num_round (num_add (num_mul n s) (err_of errs k))))))"
    if q: "v = JNum n" "pk_quantized p = Some q" "q_scale q = s" for n q s
  proof -
    obtain m where m: "num_mul n s = Fin m" "\<bar>m\<bar> \<le> 2 powi 1022"
      using assms(1) q by (auto simp: scaled_ok_def split: jsnum.splits)
    obtain a where "num_add (Fin m) (Fin e) = Fin a" using num_add_finite [OF m(2) e(2)] by blast
    moreover obtain e' where "num_sub (Fin a) (num_round (Fin a)) = Fin e'" "\<bar>e'\<bar> \<le> 1 / 2"
      using num_sub_round [OF js_round_error] by blast
    ultimately show ?thesis
      using assms(2) by (simp add: m e half_bounded_def err_of_upd)
  qed
  then show ?thesis
    using assms(2) by (auto simp: logicalValue_def Let_def simp flip: err_of_def split: jsval.splits option.splits)
qed

text \<open>
  Sending values of ordinary size through a quantized packet, whatever the scale and the limits and
  even if a value is refused on the way, keeps every sender's stored error at most one half, and
  changes only the error of the sender in question.
\<close>

theorem quantization_bounded:
  assumes "logical_values p Send k vals errs = (res, errs')"
    and "half_bounded errs" "\<forall>v \<in> set vals. scaled_ok p v"
  shows "half_bounded errs' \<and> (\<forall>k'. k' \<noteq> k \<longrightarrow> errs' k' = errs k')"
proof -
  let ?P = "\<lambda>es. half_bounded es \<and> (\<forall>k'. k' \<noteq> k \<longrightarrow> es k' = errs k')"
  have "?P (snd (logical_values p Send k vals errs))"
    unfolding logical_values_def
    by (rule mapS_inv [where P = ?P]) (use assms(2,3) logicalValue_Send in auto)
  then show ?thesis using assms(1) by simp
qed

definition quant_sample :: packet where
  "quant_sample = sample_packet\<lparr>pk_fields := None, pk_quantized := Some \<lparr>q_scale = Fin 100, q_track = True\<rparr>\<rparr>"

lemma quant_sample_simps [simp]:
  "pk_quantized quant_sample = Some \<lparr>q_scale = Fin 100, q_track = True\<rparr>"
  "pk_valueMin quant_sample = None" "pk_valueMax quant_sample = None"
  "pk_object quant_sample = False" "pk_autoFlatten quant_sample = False" "pk_fields quant_sample = None"
  by (simp_all add: quant_sample_def sample_packet_def new_packet_def Let_def)

lemma half_bounded_empty: "half_bounded (\<lambda>_. None)"
  by (simp add: half_bounded_def err_of_def)

lemma quantization_bounded_witness:
  "half_bounded (snd (logical_values quant_sample Send 1 [JNum (Fin 1)] (\<lambda>_. None)))"
proof -
  have "num_mul (Fin 1) (Fin 100) = Fin 100"
    using to_double_int [of 100] by (simp add: num_mul_def)
  moreover have "(100 :: rat) \<le> 2 powi 1022"
    using power_int_increasing [of 7 1022 "2 :: rat"] by simp
  ultimately have "scaled_ok quant_sample (JNum (Fin 1))" by (simp add: scaled_ok_def)
  moreover obtain res errs' where
    "logical_values quant_sample Send 1 [JNum (Fin 1)] (\<lambda>_. None) = (res, errs')" by fastforce
  ultimately show ?thesis using quantization_bounded [OF _ half_bounded_empty] by simp
qed

text \<open>Values whose arithmetic is exact in doubles: multiples of \<open>2 ^ -20\<close> up to \<open>2 ^ 32\<close>.\<close>

definition grid :: "rat \<Rightarrow> bool" where
  "grid x \<longleftrightarrow> rat_is_int (x * 2 ^ 20) \<and> \<bar>x\<bar> \<le> 2 ^ 32"

lemma grid_exact:
  assumes "rat_is_int (x * 2 ^ 20)" "\<bar>x\<bar> \<le> 2 ^ 33"
  shows "to_double x = Fin x"
proof (rule to_double_exact [where j = "- 20"])
  define a where "a = \<lfloor>x * 2 ^ 20\<rfloor>"
  have a: "of_int a = x * 2 ^ 20" using assms(1) unfolding rat_is_int_def a_def .
  show "x = of_int \<lfloor>x * 2 ^ 20\<rfloor> * 2 powi (- 20)"
    unfolding a_def [symmetric] a by (simp add: power_int_minus field_simps)
  have "\<bar>x\<bar> * 2 ^ 20 \<le> 2 ^ 33 * 2 ^ 20" using assms(2) by (intro mult_right_mono) simp_all
  then have "of_int \<bar>a\<bar> \<le> (of_int (2 ^ 53) :: rat)" by (simp add: a abs_mult)
  then show "\<bar>\<lfloor>x * 2 ^ 20\<rfloor>\<bar> \<le> 2 ^ 53" unfolding a_def [symmetric] by (simp only: of_int_le_iff)
qed simp_all

lemma rat_is_int_add: "rat_is_int x \<Longrightarrow> rat_is_int y \<Longrightarrow> rat_is_int (x + y)"
  unfolding rat_is_int_def by (metis floor_of_int of_int_add)

lemma rat_is_int_diff: "rat_is_int x \<Longrightarrow> rat_is_int y \<Longrightarrow> rat_is_int (x - y)"
  unfolding rat_is_int_def by (metis floor_of_int of_int_diff)

lemma logicalValue_grid:
  assumes "pk_quantized p = Some \<lparr>q_scale = Fin s, q_track = True\<rparr>" "s \<noteq> 0"
    and "pk_valueMin p = None" "pk_valueMax p = None"
    and "grid (r * s)" "err_of errs k = Fin e" "grid e" "\<bar>e\<bar> \<le> 1 / 2"
  shows "\<exists>w e'. logicalValue p Send k (JNum (Fin r)) errs
           = (Inr (JNum (Fin (of_int w))), errs(k := Some (Fin e')))
     \<and> grid e' \<and> \<bar>e'\<bar> \<le> 1 / 2 \<and> of_int w + e' = r * s + e"
proof -
  define a where "a = r * s + e"
  define w where "w = js_round a"
  have ia: "rat_is_int (a * 2 ^ 20)"
    using rat_is_int_add [of "r * s * 2 ^ 20" "e * 2 ^ 20"] assms(5,7) by (simp add: grid_def a_def algebra_simps)
  have "\<bar>r * s\<bar> \<le> 2 ^ 32" using assms(5) by (simp add: grid_def)
  then have ba: "\<bar>a\<bar> \<le> 2 ^ 32 + 1 / 2" using assms(8) unfolding a_def by linarith
  have half: "\<bar>a - of_int w\<bar> \<le> 1 / 2" unfolding w_def by (rule js_round_error)
  have iw: "rat_is_int ((a - of_int w) * 2 ^ 20)"
    using rat_is_int_diff [OF ia rat_is_int_of_int [of "w * 2 ^ 20"]] by (simp add: left_diff_distrib)
  have m: "num_mul (Fin r) (Fin s) = Fin (r * s)"
    using grid_exact [of "r * s"] assms(5) by (simp add: num_mul_def grid_def)
  have ad: "num_add (Fin (r * s)) (Fin e) = Fin a"
    using grid_exact [OF ia] ba by (simp add: num_add_def a_def)
  have sb: "num_sub (Fin a) (num_round (Fin a)) = Fin (a - of_int w)"
    using grid_exact [OF iw] half by (simp add: num_sub_def num_round_def num_neg_def num_add_def w_def)
  have "logicalValue p Send k (JNum (Fin r)) errs
      = (Inr (JNum (Fin (of_int w))), errs(k := Some (Fin (a - of_int w))))"
    using assms(1-4,6) m ad sb
    by (simp add: logicalValue_def Let_def num_truthy_def num_finite_def err_of_def num_round_def w_def)
  moreover have "grid (a - of_int w)" using iw half by (simp add: grid_def)
  moreover have "of_int w + (a - of_int w) = r * s + e" unfolding a_def by simp
  ultimately show ?thesis using half by blast
qed

text \<open>
  C28: Error feedback loses nothing in the long run: for values on a \<open>2 ^ -20\<close> grid, the wire integers
  sent so far and the stored error together are exactly the sum of the scaled values, so the receiver's
  running total is off by at most half a wire unit however many values were sent.
\<close>

theorem quantization_no_drift:
  assumes "pk_quantized p = Some \<lparr>q_scale = Fin s, q_track = True\<rparr>" "s \<noteq> 0"
    and "pk_valueMin p = None" "pk_valueMax p = None"
    and "\<forall>r \<in> set rs. grid (r * s)" "err_of errs k = Fin e" "grid e" "\<bar>e\<bar> \<le> 1 / 2"
  shows "\<exists>ws errs' e'. logical_values p Send k (map (\<lambda>r. JNum (Fin r)) rs) errs
            = (Inr (map (\<lambda>w. JNum (Fin (of_int w))) ws), errs')
     \<and> err_of errs' k = Fin e' \<and> \<bar>e'\<bar> \<le> 1 / 2
     \<and> of_int (sum_list ws) + e' = sum_list (map (\<lambda>r. r * s) rs) + e"
  using assms(5-8)
proof (induction rs arbitrary: errs e)
  case Nil
  then show ?case by (intro exI [of _ "[]"] exI [of _ errs] exI [of _ e]) (simp add: logical_values_def)
next
  case (Cons r rs)
  obtain w e1 where w: "logicalValue p Send k (JNum (Fin r)) errs
        = (Inr (JNum (Fin (of_int w))), errs(k := Some (Fin e1)))"
    "grid e1" "\<bar>e1\<bar> \<le> 1 / 2" "of_int w + e1 = r * s + e"
    using logicalValue_grid [OF assms(1-4), of r errs k e] Cons.prems by auto
  have "err_of (errs(k := Some (Fin e1))) k = Fin e1" by (simp add: err_of_def)
  from Cons.IH [OF _ this w(2,3)] Cons.prems(1)
  obtain ws errs' e' where ws: "logical_values p Send k (map (\<lambda>r. JNum (Fin r)) rs) (errs(k := Some (Fin e1)))
        = (Inr (map (\<lambda>w. JNum (Fin (of_int w))) ws), errs')"
    "err_of errs' k = Fin e'" "\<bar>e'\<bar> \<le> 1 / 2" "of_int (sum_list ws) + e' = sum_list (map (\<lambda>r. r * s) rs) + e1"
    unfolding list.set ball_simps by blast
  have "logical_values p Send k (map (\<lambda>r. JNum (Fin r)) (r # rs)) errs
      = (Inr (map (\<lambda>w. JNum (Fin (of_int w))) (w # ws)), errs')"
    using w(1) ws(1) by (simp add: logical_values_def bindS_eq)
  then show ?case
    using ws w(4) by (intro exI [of _ "w # ws"] exI [of _ errs'] exI [of _ e']) simp
qed

lemma quantization_no_drift_witness:
  "\<exists>ws errs' e'. logical_values quant_sample Send 1 (map (\<lambda>r. JNum (Fin r)) [1 / 256, 3 / 1024]) (\<lambda>_. None)
            = (Inr (map (\<lambda>w. JNum (Fin (of_int w))) ws), errs')
     \<and> err_of errs' 1 = Fin e' \<and> \<bar>e'\<bar> \<le> 1 / 2
     \<and> of_int (sum_list ws) + e' = sum_list (map (\<lambda>r. r * 100) [1 / 256, 3 / 1024]) + 0"
proof (rule quantization_no_drift)
  have "grid (100 / 256)" "grid (300 / 1024)"
    unfolding grid_def using rat_is_int_of_int [of 409600] rat_is_int_of_int [of 307200] by simp_all
  then show "\<forall>r \<in> set [1 / 256, 3 / 1024]. grid (r * 100)" by simp
qed (simp_all add: err_of_def grid_def)

text \<open>
  A packet without a schema hands its listeners the decoded wire values as they are: a quantized
  packet that is not mapped to fields delivers wire integers, although the documents say the receiver
  divides by the scale (the divided values are computed, checked against the limits and dropped).
\<close>

theorem quantized_without_schema:
  assumes "\<not> pk_object p" "\<not> pk_autoFlatten p" "pk_fields p = None"
    and "finishReceive lib ctors p decoded = Inr r"
  shows "r = decoded"
  using assms by (auto simp: finishReceive_def bindR_eq_Inr)

lemma quantized_without_schema_witness:
  "numeric quant_sample \<and> JArr [JNum (Fin 50)] = JArr [JNum (Fin 50)]"
proof -
  have "finishReceive plain_lib [] quant_sample (JArr [JNum (Fin 50)]) = Inr (JArr [JNum (Fin 50)])"
    by (simp add: finishReceive_def js_values_def numeric_def logical_values_def bindS_eq
        logicalValue_def Let_def num_finite_def)
  from quantized_without_schema [OF _ _ _ this] show ?thesis by (simp add: numeric_def)
qed

end
