(* ===== verification/Hashing.thy ===== *)
theory Hashing
  imports Packets "HOL-Library.List_Lexorder"
begin

unbundle bit_operations_syntax

text \<open>
  \<open>projects/ts/src/ws/util/packets/HashUtil.ts\<close>: the hash by which a re-referenced packet notices that
  the values to send are those sent last. The 64-bit hash keeps only its low 64 bits after every
  multiplication, so it is a \<open>64 word\<close>; the 32-bit hash is a JavaScript number that bitwise operators
  reduce modulo \<open>2 ^ 32\<close>. \<open>BigInt(Math.trunc(v))\<close> throws on NaN and the infinities.
\<close>

fun foldR :: "('a \<Rightarrow> 's \<Rightarrow> 's result) \<Rightarrow> 'a list \<Rightarrow> 's \<Rightarrow> 's result" where
  "foldR f [] s = Inr s"
| "foldR f (x # xs) s = bindR (f x s) (foldR f xs)"

lemma foldR_cong [fundef_cong]:
  "xs = ys \<Longrightarrow> s = t \<Longrightarrow> (\<And>x s. x \<in> set ys \<Longrightarrow> f x s = g x s) \<Longrightarrow> foldR f xs s = foldR g ys t"
proof (induction xs arbitrary: ys s t)
  case (Cons x xs)
  then show ?case by (cases ys; cases "f x s") auto
qed simp

lemma foldR_append: "foldR f (xs @ ys) s = bindR (foldR f xs s) (foldR f ys)"
  by (induction xs arbitrary: s) (simp_all add: bindR_def split: sum.split)

lemma foldR_Inr: "(\<And>x s. x \<in> set xs \<Longrightarrow> f x s = Inr (g x s)) \<Longrightarrow> foldR f xs s = Inr (foldl (\<lambda>a x. g x a) s xs)"
  by (induction xs arbitrary: s) simp_all

definition js_trunc :: "rat \<Rightarrow> int" where
  "js_trunc r = (if r < 0 then \<lceil>r\<rceil> else \<lfloor>r\<rfloor>)"

text \<open>\<open>Object.keys(v).sort()\<close>: by UTF-16 code units. The keys of bytes are their indexes as text.\<close>

definition sorted_entries :: "(jsstr \<times> 'v) list \<Rightarrow> (jsstr \<times> 'v) list" where
  "sorted_entries kvs = sort_key fst kvs"

lemma set_sorted_entries [simp]: "set (sorted_entries kvs) = set kvs"
  by (simp add: sorted_entries_def)

definition byte_entries :: "u8 list \<Rightarrow> (jsstr \<times> int) list" where
  "byte_entries bs = sorted_entries (map (\<lambda>(i, b). (js_of_nat i, int (unat b))) (enumerate 0 bs))"

lemma size_element: "v \<in> set vs \<Longrightarrow> size (v :: jsval) \<le> size_list size vs"
  by (rule size_list_estimation' [where x = v]) simp_all

lemma size_entry: "(k, w) \<in> set kvs \<Longrightarrow> size (w :: jsval) \<le> size_list (size_prod (\<lambda>_. 0) size) kvs"
  by (rule size_list_estimation' [where x = "(k, w)"]) simp_all

section \<open>64 bits\<close>

definition HASH_INIT_64 :: "64 word" where
  "HASH_INIT_64 = 14695981039346656037"

definition HASH_PRIME_64 :: "64 word" where
  "HASH_PRIME_64 = 1099511628211"

definition mix64 :: "int \<Rightarrow> 64 word \<Rightarrow> 64 word" where
  "mix64 n h = (h XOR word_of_int n) * HASH_PRIME_64"

definition mix_units64 :: "jsstr \<Rightarrow> 64 word \<Rightarrow> 64 word" where
  "mix_units64 s h = foldl (\<lambda>a u. mix64 (int (unat u)) a) h s"

function walk64 :: "jsval \<Rightarrow> 64 word \<Rightarrow> 64 word result" where
  "walk64 JNull h = Inr (mix64 0 h)"
| "walk64 (JNum n) h =
     (case n of Fin r \<Rightarrow> Inr (mix64 (js_trunc r) h)
      | _ \<Rightarrow> Inl (RangeError ''The number cannot be converted to a BigInt''))"
| "walk64 (JStr s) h = Inr (mix_units64 s h)"
| "walk64 (JBool b) h = Inr (mix64 (of_bool b) h)"
| "walk64 (JArr vs) h = foldR walk64 vs h"
| "walk64 (JObj kvs) h = foldR (\<lambda>kv a. walk64 (snd kv) (mix_units64 (fst kv) a)) (sorted_entries kvs) h"
| "walk64 (JBytes bs) h = Inr (foldl (\<lambda>a (k, n). mix64 n (mix_units64 k a)) h (byte_entries bs))"
| "walk64 JUndef h = Inr h"
  by pat_completeness auto
termination
  by (relation "measure (size \<circ> fst)") (auto simp: less_Suc_eq_le size_element size_entry)

definition hashValue64 :: "jsval list \<Rightarrow> 64 word result" where
  "hashValue64 v = walk64 (JArr v) HASH_INIT_64"

section \<open>32 bits\<close>

definition HASH_INIT :: int where
  "HASH_INIT = 2166136261"

definition shl32 :: "int \<Rightarrow> nat \<Rightarrow> int" where
  "shl32 h k = to_int32 (push_bit k (to_int32 h))"

text \<open>\<open>hash += ...\<close>: the sum is a plain number, at most six 32-bit integers and so exact.\<close>

definition stretch32 :: "int \<Rightarrow> int" where
  "stretch32 h = h + (shl32 h 1 + shl32 h 4 + shl32 h 7 + shl32 h 8 + shl32 h 24)"

definition xor32 :: "int \<Rightarrow> int \<Rightarrow> int" where
  "xor32 h n = to_int32 h XOR to_int32 n"

definition mix32 :: "int \<Rightarrow> int \<Rightarrow> int" where
  "mix32 n h = stretch32 (xor32 h n)"

definition mix_units32 :: "jsstr \<Rightarrow> int \<Rightarrow> int" where
  "mix_units32 s h = foldl (\<lambda>a u. mix32 (int (unat u)) a) h s"

definition num_to_int32 :: "jsnum \<Rightarrow> int" where
  "num_to_int32 n = (case n of Fin r \<Rightarrow> to_int32 (js_trunc r) | _ \<Rightarrow> 0)"

function walk32 :: "jsval \<Rightarrow> int \<Rightarrow> int" where
  "walk32 JNull h = xor32 h 0"
| "walk32 (JNum n) h = mix32 (num_to_int32 n) h"
| "walk32 (JStr s) h = mix_units32 s h"
| "walk32 (JBool b) h = xor32 h (of_bool b)"
| "walk32 (JArr vs) h = foldl (\<lambda>a v. walk32 v a) h vs"
| "walk32 (JObj kvs) h = foldl (\<lambda>a kv. walk32 (snd kv) (mix_units32 (fst kv) a)) h (sorted_entries kvs)"
| "walk32 (JBytes bs) h = foldl (\<lambda>a (k, n). mix32 (to_int32 n) (mix_units32 k a)) h (byte_entries bs)"
| "walk32 JUndef h = h"
  by pat_completeness auto
termination
  by (relation "measure (size \<circ> fst)") (auto simp: less_Suc_eq_le size_element size_entry)

definition hashValue32 :: "jsval list \<Rightarrow> nat" where
  "hashValue32 v = nat (to_uint32 (walk32 (JArr v) HASH_INIT))"

section \<open>The chosen hash\<close>

text \<open>A bigint is never strictly equal to a number, so the two kinds of hash differ.\<close>

datatype hash_value = H64 "64 word" | H32 nat

definition hashValue :: "bool \<Rightarrow> jsval list \<Rightarrow> hash_value result" where
  "hashValue use64Bit v =
     (if use64Bit then bindR (hashValue64 v) (\<lambda>h. Inr (H64 h)) else Inr (H32 (hashValue32 v)))"

section \<open>The 32-bit hash over words\<close>

definition FNV_PRIME_32 :: "32 word" where
  "FNV_PRIME_32 = 16777619"

lemma word_to_int32 [simp]: "(word_of_int (to_int32 n) :: 32 word) = word_of_int n"
  by (simp add: to_int32_def word_of_int_eq_iff take_bit_signed_take_bit)

lemma word_stretch32: "(word_of_int (stretch32 h) :: 32 word) = word_of_int h * FNV_PRIME_32"
  by (simp add: stretch32_def shl32_def push_bit_eq_mult wi_hom_add [symmetric] wi_hom_mult [symmetric]
      FNV_PRIME_32_def algebra_simps)

lemma word_of_int_xor32: "(word_of_int (a XOR b) :: 32 word) = word_of_int a XOR word_of_int b"
  by (rule bit_word_eqI) (simp add: bit_word_of_int_iff bit_xor_iff)

lemma word_mix32: "(word_of_int (mix32 n h) :: 32 word) = (word_of_int h XOR word_of_int n) * FNV_PRIME_32"
  by (simp add: mix32_def word_stretch32 xor32_def word_of_int_xor32)

definition fnv32 :: "32 word \<Rightarrow> jsstr \<Rightarrow> 32 word" where
  "fnv32 h s = foldl (\<lambda>a u. (a XOR ucast u) * FNV_PRIME_32) h s"

definition fnv64 :: "64 word \<Rightarrow> jsstr \<Rightarrow> 64 word" where
  "fnv64 h s = foldl (\<lambda>a u. (a XOR ucast u) * HASH_PRIME_64) h s"

lemma word_mix_units32: "word_of_int (mix_units32 s h) = fnv32 (word_of_int h) s"
  unfolding mix_units32_def fnv32_def
proof (induction s arbitrary: h)
  case (Cons u s)
  have "(word_of_int (int (unat u)) :: 32 word) = ucast u" by simp
  then show ?case by (simp only: foldl_Cons Cons.IH word_mix32)
qed simp

lemma word_strings32:
  "word_of_int (foldl (\<lambda>a v. walk32 v a) h (map JStr ss)) = fnv32 (word_of_int h) (concat ss)"
  by (induction ss arbitrary: h) (simp_all add: word_mix_units32 fnv32_def)

lemma mix_units64_fnv: "mix_units64 s h = fnv64 h s"
  unfolding mix_units64_def fnv64_def
proof (induction s arbitrary: h)
  case (Cons u s)
  have "(word_of_int (int (unat u)) :: 64 word) = ucast u" by simp
  then have "mix64 (int (unat u)) h = (h XOR ucast u) * HASH_PRIME_64" by (simp only: mix64_def)
  then show ?case by (simp only: foldl_Cons Cons.IH)
qed simp

lemma walk_strings64: "foldR walk64 (map JStr ss) h = Inr (fnv64 h (concat ss))"
  by (induction ss arbitrary: h) (simp_all add: mix_units64_fnv fnv64_def)

lemma hash64_strings: "hashValue True (map JStr ss) = Inr (H64 (fnv64 HASH_INIT_64 (concat ss)))"
  by (simp only: hashValue_def hashValue64_def walk64.simps walk_strings64 if_True bindR_simps)

text \<open>
  On strings both hashes are FNV-1a over the code units of all strings put together, at their
  width: computed with shifts and sums of doubles in the 32-bit case, with masked bigints in the other.
  So only the concatenation counts: \<open>["ab", "c"]\<close> and \<open>["a", "bc"]\<close> always collide.
\<close>

theorem hash_strings:
  "hashValue True (map JStr ss) = Inr (H64 (fnv64 HASH_INIT_64 (concat ss)))
   \<and> hashValue False (map JStr ss) = Inr (H32 (unat (fnv32 (word_of_int HASH_INIT) (concat ss))))"
proof -
  have w: "nat (to_uint32 h) = unat (word_of_int h :: 32 word)" for h
    by (simp only: to_uint32_def unat_eq_nat_uint uint_word_of_int_eq) simp
  have "hashValue32 (map JStr ss) = unat (fnv32 (word_of_int HASH_INIT) (concat ss))"
    by (simp only: hashValue32_def w walk32.simps word_strings32)
  then show ?thesis by (simp add: hash64_strings) (simp only: hashValue_def if_False)
qed

text \<open>
  The hash looks at a number through \<open>Math.trunc\<close>: 1.2 and 1.7 collide in every position, so do
  \<open>true\<close> and 1 in the 64-bit hash; NaN and the infinities make it throw.
\<close>

theorem hash_truncates:
  "hashValue w [JNum (Fin (6 / 5))] = hashValue w [JNum (Fin (17 / 10))]
   \<and> hashValue True [JBool True] = hashValue True [JNum (Fin 1)]
   \<and> hashValue True [JNum NotNum] = Inl (RangeError ''The number cannot be converted to a BigInt'')"
proof -
  have "js_trunc (6 / 5) = 1" "js_trunc (17 / 10) = 1" "js_trunc 1 = 1"
    unfolding js_trunc_def by (simp_all add: floor_eq_iff)
  then show ?thesis
    by (simp add: hashValue_def hashValue64_def hashValue32_def num_to_int32_def)
qed

end
