(* ===== verification/Send_Queue.thy ===== *)
theory Send_Queue
  imports Packet_Holder Packet_Values Hashing
begin

text \<open>
  Sending and delivering one packet: \<open>processPacket\<close>, \<open>handleQueue\<close> and \<open>listenPacket\<close> of
  \<open>projects/ts/src/ws/util/packets/PacketUtils.ts\<close>.

  \<open>encode_packet\<close> is the callback \<open>processPacket\<close> hands to the queue. What it changes lives in the packet
  objects, by tag: the hash sent last to each peer (\<open>lastSent\<close>) and the quantization errors. The queue
  itself is a step function over the events of the event loop: a call of \<open>processPacket\<close>, the
  continuation after \<open>await fn()\<close>, and the microtask that starts the next waiting call with \<open>force\<close>.
\<close>

section \<open>Encoding one packet\<close>

record send_state =
  snd_last :: "jsstr \<Rightarrow> int \<Rightarrow> hash_value option"
  snd_errs :: "jsstr \<Rightarrow> qerrs"

definition no_sends :: send_state where
  "no_sends = \<lparr>snd_last = (\<lambda>_ _. None), snd_errs = (\<lambda>_ _. None)\<rparr>"

text \<open>Running an operation on the quantization errors of one packet.\<close>

definition with_errs :: "jsstr \<Rightarrow> (qerrs, 'a) st_result \<Rightarrow> (send_state, 'a) st_result" where
  "with_errs tg m s =
     (case m (snd_errs s tg) of (r, errs) \<Rightarrow> (r, s\<lparr>snd_errs := (snd_errs s)(tg := errs)\<rparr>))"

text \<open>The value counts of a whole packet, then those of each section of an object packet.\<close>

definition check_size :: "packet \<Rightarrow> jsval list \<Rightarrow> unit result" where
  "check_size p vals =
     (if int (length vals) > pk_maxSize p then Inl (Error ''too many values'')
      else if int (length vals) < pk_minSize p then Inl (Error ''requires more values'') else Inr ())"

definition wrap_field :: "jsval \<Rightarrow> jsval" where
  "wrap_field v = (case v of JArr _ \<Rightarrow> v | _ \<Rightarrow> JArr [v])"

text \<open>The loop runs over the minimums; a missing value would be read as \<open>undefined.length\<close>.\<close>

fun check_sections :: "int list \<Rightarrow> int list \<Rightarrow> jsval list \<Rightarrow> unit result" where
  "check_sections [] maxes vals = Inr ()"
| "check_sections (mn # mins) maxes vals =
     (case vals of
        [] \<Rightarrow> Inl (TypeError ''Cannot read properties of undefined'')
      | v # vs \<Rightarrow>
          let n = int (length (js_values v))
          in if n < mn then Inl (Error ''Section requires more values'')
             else if (case maxes of [] \<Rightarrow> False | mx # _ \<Rightarrow> n > mx) then Inl (Error ''Section only allows fewer values'')
             else check_sections mins (tl maxes) vs)"

definition encode_values :: "native_core \<Rightarrow> packet \<Rightarrow> jsval list \<Rightarrow> u8 list result" where
  "encode_values core p prepared =
     bindR (if pk_autoFlatten p \<and> pk_object p \<and> pk_fields p = None
            then FlattenData (arr_get prepared 0)
            else bindR (check_size p prepared) (\<lambda>_. Inr prepared)) (\<lambda>vals.
       let fields' = (if pk_object p then map wrap_field vals else vals)
       in bindR (if pk_object p \<and> \<not> pk_autoFlatten p
                 then check_sections (pk_dataMin p) (pk_dataMax p) fields' else Inr ()) (\<lambda>_.
         if fields' = [] then Inr [] else processSend core p fields'))"

definition encode_packet ::
  "native_core \<Rightarrow> bool \<Rightarrow> packet \<Rightarrow> int \<Rightarrow> jsval list \<Rightarrow> (send_state, u8 list) st_result" where
  "encode_packet core use64Bit p peer vals s =
     (let tg = pk_tag p;
          send = bindS (with_errs tg (prepareSend p peer vals)) (\<lambda>prepared. liftS (encode_values core p prepared))
      in if \<not> pk_rereference p then send s
         else if peer = -1 then (Inl (Error ''Cannot send a re-referenced packet from the server-wide sender''), s)
         else case hashValue use64Bit vals of
           Inl e \<Rightarrow> (Inl e, s)
         | Inr serialized \<Rightarrow>
             if snd_last s tg peer = Some serialized then (Inr [], s)
             else send (s\<lparr>snd_last := (snd_last s)(tg := (snd_last s tg)(peer := Some serialized))\<rparr>))"

section \<open>The send queue\<close>

text \<open>
  A call is what its caller asked for, numbered by the order of the calls. \<open>sq_inflight\<close> is the call whose
  callback has run and whose continuation is pending, with the result of the callback; \<open>sq_forced\<close> is the
  call the queued microtask will start. The last three fields are the observations: calls resolved with
  their result, calls rejected, and calls made.
\<close>

datatype 'q sq_event = Call 'q | Continue | Microtask

record ('q, 's, 'o) send_queue =
  sq_busy :: bool
  sq_waiting :: "'q list"
  sq_inflight :: "('q \<times> 'o result) option"
  sq_forced :: "'q option"
  sq_state :: 's
  sq_resolved :: "('q \<times> 'o) list"
  sq_rejected :: "'q list"
  sq_calls :: "'q list"

definition new_send_queue :: "'s \<Rightarrow> ('q, 's, 'o) send_queue" where
  "new_send_queue s = \<lparr>sq_busy = False, sq_waiting = [], sq_inflight = None, sq_forced = None, sq_state = s,
     sq_resolved = [], sq_rejected = [], sq_calls = []\<rparr>"

text \<open>\<open>sendQueue[0] = true; await fn()\<close>: the callback runs at once, its result is taken up later.\<close>

definition start_call ::
  "('q \<Rightarrow> ('s, 'o) st_result) \<Rightarrow> 'q \<Rightarrow> ('q, 's, 'o) send_queue \<Rightarrow> ('q, 's, 'o) send_queue" where
  "start_call fn q st =
     (case fn q (sq_state st) of (r, s') \<Rightarrow> st\<lparr>sq_busy := True, sq_state := s', sq_inflight := Some (q, r)\<rparr>)"

definition handleQueue ::
  "('q \<Rightarrow> ('s, 'o) st_result) \<Rightarrow> 'q \<Rightarrow> bool \<Rightarrow> ('q, 's, 'o) send_queue \<Rightarrow> ('q, 's, 'o) send_queue" where
  "handleQueue fn q force st =
     (if sq_busy st \<and> \<not> force then st\<lparr>sq_waiting := sq_waiting st @ [q]\<rparr> else start_call fn q st)"

text \<open>
  After the await: a rejected callback leaves everything else undone. Otherwise the next waiting call
  is handed to a microtask, or the flag is cleared.
\<close>

definition continue_call :: "('q, 's, 'o) send_queue \<Rightarrow> ('q, 's, 'o) send_queue" where
  "continue_call st =
     (case sq_inflight st of
        None \<Rightarrow> st
      | Some (q, Inl e) \<Rightarrow> st\<lparr>sq_inflight := None, sq_rejected := sq_rejected st @ [q]\<rparr>
      | Some (q, Inr res) \<Rightarrow>
          let st' = st\<lparr>sq_inflight := None, sq_resolved := sq_resolved st @ [(q, res)]\<rparr>
          in case sq_waiting st of
               [] \<Rightarrow> st'\<lparr>sq_busy := False\<rparr>
             | next_q # rest \<Rightarrow> st'\<lparr>sq_waiting := rest, sq_forced := Some next_q\<rparr>)"

fun sq_step :: "('q \<Rightarrow> ('s, 'o) st_result) \<Rightarrow> ('q, 's, 'o) send_queue \<Rightarrow> 'q sq_event \<Rightarrow> ('q, 's, 'o) send_queue" where
  "sq_step fn st (Call q) = handleQueue fn q False (st\<lparr>sq_calls := sq_calls st @ [q]\<rparr>)"
| "sq_step fn st Continue = continue_call st"
| "sq_step fn st Microtask =
     (case sq_forced st of None \<Rightarrow> st | Some q \<Rightarrow> handleQueue fn q True (st\<lparr>sq_forced := None\<rparr>))"

text \<open>A packet call: its tag and values; both lookups come before the queue.\<close>

type_synonym send_call = "jsstr \<times> jsval list"

definition packet_callback ::
  "native_core \<Rightarrow> bool \<Rightarrow> holder \<Rightarrow> int \<Rightarrow> send_call \<Rightarrow> (send_state, nat \<times> u8 list \<times> packet) st_result" where
  "packet_callback core use64Bit packets peer c s =
     (case (getKey packets (fst c), getPacket packets (fst c)) of
        (Inr code, Inr p) \<Rightarrow>
          bindS (encode_packet core use64Bit p peer (snd c)) (\<lambda>data. returnS (code, data, p)) s
      | (Inl e, _) \<Rightarrow> (Inl e, s)
      | (_, Inl e) \<Rightarrow> (Inl e, s))"

type_synonym packet_queue = "(send_call, send_state, nat \<times> u8 list \<times> packet) send_queue"

text \<open>\<open>processPacket\<close> from a caller: an unknown tag throws before the queue is touched.\<close>

definition processPacket ::
  "native_core \<Rightarrow> bool \<Rightarrow> holder \<Rightarrow> int \<Rightarrow> send_call \<Rightarrow> packet_queue \<Rightarrow> packet_queue" where
  "processPacket core use64Bit packets peer c st =
     (if is_ok (getKey packets (fst c)) \<and> is_ok (getPacket packets (fst c))
      then sq_step (packet_callback core use64Bit packets peer) st (Call c)
      else st\<lparr>sq_rejected := sq_rejected st @ [c]\<rparr>)"

section \<open>Listeners\<close>

text \<open>
  A listener is a callback that returns or throws; what it does is the list of argument lists it was
  called with. The first that throws ends the loop and is reported.
\<close>

type_synonym listener = "jsval list \<Rightarrow> unit result"

fun call_listeners :: "listener list \<Rightarrow> jsval list \<Rightarrow> nat \<times> js_error option" where
  "call_listeners [] args = (0, None)"
| "call_listeners (l # ls) args =
     (case l args of
        Inl e \<Rightarrow> (1, Some e)
      | Inr _ \<Rightarrow> (case call_listeners ls args of (n, e) \<Rightarrow> (Suc n, e)))"

datatype listen_outcome =
    Delivered nat "jsval list"
  | Reported string nat

text \<open>\<open>String(error)\<close>\<close>

definition js_error_string :: "js_error \<Rightarrow> string" where
  "js_error_string e = (case e of Error m \<Rightarrow> ''Error: '' @ m | TypeError m \<Rightarrow> ''TypeError: '' @ m
                                | RangeError m \<Rightarrow> ''RangeError: '' @ m)"

definition listenPacket :: "string + jsval \<times> bool \<Rightarrow> listener list \<Rightarrow> listen_outcome" where
  "listenPacket listened listeners =
     (case listened of
        Inl msg \<Rightarrow> Reported msg 0
      | Inr (processed, flatten) \<Rightarrow>
          let args = (case processed of JArr vs \<Rightarrow> if flatten then vs else [processed] | _ \<Rightarrow> [processed])
          in case call_listeners listeners args of
               (n, None) \<Rightarrow> Delivered n args
             | (n, Some e) \<Rightarrow> Reported (js_error_string e) n)"

section \<open>The queue runs its calls one after the other\<close>

text \<open>The reference: the callbacks run in order on the state, with their results.\<close>

fun seq_run :: "('q \<Rightarrow> ('s, 'o) st_result) \<Rightarrow> 'q list \<Rightarrow> 's \<Rightarrow> 'o result list \<times> 's" where
  "seq_run fn [] s = ([], s)"
| "seq_run fn (q # qs) s =
     (case fn q s of (r, s') \<Rightarrow> (case seq_run fn qs s' of (rs, s'') \<Rightarrow> (r # rs, s'')))"

lemma seq_run_snoc:
  "seq_run fn qs s = (rs, s') \<Longrightarrow> fn q s' = (r, s'') \<Longrightarrow> seq_run fn (qs @ [q]) s = (rs @ [r], s'')"
  by (induction qs arbitrary: s rs) (auto split: prod.splits)

definition opt_list :: "'a option \<Rightarrow> 'a list" where
  "opt_list x = (case x of None \<Rightarrow> [] | Some y \<Rightarrow> [y])"

lemma opt_list_simps [simp]: "opt_list None = []" "opt_list (Some y) = [y]"
  by (simp_all add: opt_list_def)

text \<open>Calls whose callback has run, and what the callbacks gave.\<close>

definition sq_started :: "('q, 's, 'o) send_queue \<Rightarrow> 'q list" where
  "sq_started st = map fst (sq_resolved st) @ sq_rejected st @ map fst (opt_list (sq_inflight st))"

definition sq_phase :: "('q, 's, 'o) send_queue \<Rightarrow> bool" where
  "sq_phase st \<longleftrightarrow>
     (\<not> sq_busy st \<and> sq_inflight st = None \<and> sq_forced st = None \<and> sq_waiting st = [] \<and> sq_rejected st = [])
     \<or> (sq_busy st \<and> sq_inflight st \<noteq> None \<and> sq_forced st = None \<and> sq_rejected st = [])
     \<or> (sq_busy st \<and> sq_inflight st = None \<and> sq_forced st \<noteq> None \<and> sq_rejected st = [])
     \<or> (sq_busy st \<and> sq_inflight st = None \<and> sq_forced st = None \<and> length (sq_rejected st) = 1)"

definition sq_inv :: "('q \<Rightarrow> ('s, 'o) st_result) \<Rightarrow> 's \<Rightarrow> ('q, 's, 'o) send_queue \<Rightarrow> bool" where
  "sq_inv fn s0 st \<longleftrightarrow> sq_phase st
     \<and> sq_calls st = sq_started st @ opt_list (sq_forced st) @ sq_waiting st
     \<and> (\<exists>rest. seq_run fn (sq_started st) s0
          = (map (Inr \<circ> snd) (sq_resolved st) @ rest @ map snd (opt_list (sq_inflight st)), sq_state st)
          \<and> length rest = length (sq_rejected st) \<and> (\<forall>r \<in> set rest. \<not> is_ok r))"

lemma sq_inv_quiet:
  assumes "sq_inv fn s0 st" "sq_inflight st = None" "sq_rejected st = []"
  shows "seq_run fn (map fst (sq_resolved st)) s0 = (map (Inr \<circ> snd) (sq_resolved st), sq_state st)"
    "sq_calls st = map fst (sq_resolved st) @ opt_list (sq_forced st) @ sq_waiting st"
  using assms by (auto simp: sq_inv_def sq_started_def)

lemma sq_inv_idle:
  "sq_inv fn s0 st \<Longrightarrow> \<not> sq_busy st \<Longrightarrow>
   sq_inflight st = None \<and> sq_forced st = None \<and> sq_waiting st = [] \<and> sq_rejected st = []"
  by (simp add: sq_inv_def sq_phase_def)

lemma sq_inv_forced:
  "sq_inv fn s0 st \<Longrightarrow> sq_forced st = Some q \<Longrightarrow> sq_busy st \<and> sq_inflight st = None \<and> sq_rejected st = []"
  by (simp add: sq_inv_def sq_phase_def)

lemma sq_inv_inflight:
  assumes "sq_inv fn s0 st" "sq_inflight st = Some (q, r)"
  shows "sq_busy st \<and> sq_forced st = None \<and> sq_rejected st = []"
    "seq_run fn (map fst (sq_resolved st) @ [q]) s0 = (map (Inr \<circ> snd) (sq_resolved st) @ [r], sq_state st)"
    "sq_calls st = map fst (sq_resolved st) @ q # sq_waiting st"
proof -
  show p: "sq_busy st \<and> sq_forced st = None \<and> sq_rejected st = []"
    using assms by (simp add: sq_inv_def sq_phase_def)
  show "seq_run fn (map fst (sq_resolved st) @ [q]) s0 = (map (Inr \<circ> snd) (sq_resolved st) @ [r], sq_state st)"
    "sq_calls st = map fst (sq_resolved st) @ q # sq_waiting st"
    using assms p by (auto simp: sq_inv_def sq_started_def)
qed

lemma start_call_inv:
  assumes "sq_inflight st = None" "sq_forced st = None" "sq_rejected st = []"
    and "seq_run fn (map fst (sq_resolved st)) s0 = (map (Inr \<circ> snd) (sq_resolved st), sq_state st)"
    and "sq_calls st = map fst (sq_resolved st) @ q # sq_waiting st"
  shows "sq_inv fn s0 (start_call fn q st)"
  using seq_run_snoc [OF assms(4)] assms
  by (auto simp: start_call_def sq_inv_def sq_phase_def sq_started_def split: prod.split)

lemma sq_call_inv:
  assumes "sq_inv fn s0 st"
  shows "sq_inv fn s0 (sq_step fn st (Call q))"
proof (cases "sq_busy st")
  case True
  then have "sq_step fn st (Call q) = st\<lparr>sq_calls := sq_calls st @ [q], sq_waiting := sq_waiting st @ [q]\<rparr>"
    by (simp add: handleQueue_def)
  then show ?thesis using assms True by (simp add: sq_inv_def sq_phase_def sq_started_def)
next
  case False
  note i = sq_inv_idle [OF assms False]
  have "sq_step fn st (Call q) = start_call fn q (st\<lparr>sq_calls := sq_calls st @ [q]\<rparr>)"
    using False by (simp add: handleQueue_def)
  then show ?thesis using i sq_inv_quiet [OF assms] by (simp add: start_call_inv)
qed

lemma sq_microtask_inv:
  assumes "sq_inv fn s0 st"
  shows "sq_inv fn s0 (sq_step fn st Microtask)"
proof (cases "sq_forced st")
  case (Some q)
  then have "sq_step fn st Microtask = start_call fn q (st\<lparr>sq_forced := None\<rparr>)"
    by (simp add: handleQueue_def)
  then show ?thesis
    using Some sq_inv_forced [OF assms Some] sq_inv_quiet [OF assms] by (simp add: start_call_inv)
qed (simp add: assms)

lemma sq_continue_inv:
  assumes "sq_inv fn s0 st"
  shows "sq_inv fn s0 (sq_step fn st Continue)"
proof (cases "sq_inflight st")
  case (Some qr)
  obtain q r where qr: "sq_inflight st = Some (q, r)" using Some by (cases qr) simp
  note i = sq_inv_inflight [OF assms qr]
  show ?thesis
  proof (cases r)
    case (Inl e)
    then have "sq_step fn st Continue = st\<lparr>sq_inflight := None, sq_rejected := [q]\<rparr>"
      using qr i(1) by (simp add: continue_call_def)
    then show ?thesis using i Inl by (simp add: sq_inv_def sq_phase_def sq_started_def)
  next
    case (Inr res)
    then show ?thesis
      using qr i by (cases "sq_waiting st") (simp_all add: continue_call_def sq_inv_def sq_phase_def sq_started_def)
  qed
qed (simp add: assms continue_call_def)

lemma sq_step_inv: "sq_inv fn s0 st \<Longrightarrow> sq_inv fn s0 (sq_step fn st e)"
  by (cases e) (simp_all only: sq_call_inv sq_continue_inv sq_microtask_inv)

interpretation send_queue: machine_inv "sq_step fn" "sq_inv fn s0" for fn s0
  by unfold_locales (rule sq_step_inv)

lemma sq_inv_new: "sq_inv fn s0 (new_send_queue s0)"
  by (simp add: sq_inv_def sq_phase_def sq_started_def new_send_queue_def)

text \<open>
  C19: Whatever the order in which calls, continuations and microtasks happen, the queue runs the callbacks
  in call order, one at a time, each on the state the one before left: what was resolved are the results
  of a sequential run of a prefix of the calls, the rest is waiting, and at most the last one failed.
\<close>

theorem send_queue_sequential:
  "\<exists>rest. let st = foldl (sq_step fn) (new_send_queue s0) events in
     sq_calls st = sq_started st @ opt_list (sq_forced st) @ sq_waiting st
     \<and> seq_run fn (sq_started st) s0
         = (map (Inr \<circ> snd) (sq_resolved st) @ rest @ map snd (opt_list (sq_inflight st)), sq_state st)
     \<and> length rest = length (sq_rejected st) \<and> length rest \<le> 1 \<and> list_all (\<lambda>r. \<not> is_ok r) rest"
  using send_queue.run_inv [OF sq_inv_new [of fn s0], of events]
  by (auto simp: sq_inv_def sq_phase_def Let_def list_all_iff)

lemma sq_stuck_step:
  "sq_phase st \<Longrightarrow> sq_rejected st \<noteq> [] \<Longrightarrow>
   sq_phase (sq_step fn st e) \<and> sq_rejected (sq_step fn st e) \<noteq> []
   \<and> sq_resolved (sq_step fn st e) = sq_resolved st \<and> sq_state (sq_step fn st e) = sq_state st
   \<and> sq_waiting (sq_step fn st e) = sq_waiting st @ (case e of Call q \<Rightarrow> [q] | _ \<Rightarrow> [])"
  by (cases e) (auto simp: sq_phase_def handleQueue_def continue_call_def)

lemma sq_stuck_run:
  "sq_phase st \<Longrightarrow> sq_rejected st \<noteq> [] \<Longrightarrow>
   sq_resolved (foldl (sq_step fn) st es) = sq_resolved st
   \<and> sq_waiting (foldl (sq_step fn) st es) = sq_waiting st @ concat (map (\<lambda>e. case e of Call q \<Rightarrow> [q] | _ \<Rightarrow> []) es)"
proof (induction es arbitrary: st)
  case (Cons e es)
  show ?case using Cons.IH [of "sq_step fn st e"] sq_stuck_step [OF Cons.prems, of fn e] by simp
qed simp

text \<open>
  C33: One rejected send blocks its connection for good: the busy flag is never cleared, and every call made
  afterwards stays in the queue, neither resolved nor rejected.
\<close>

theorem send_queue_stuck:
  assumes "sq_rejected (foldl (sq_step fn) (new_send_queue s0) es) \<noteq> []"
  shows "sq_resolved (foldl (sq_step fn) (new_send_queue s0) (es @ es'))
           = sq_resolved (foldl (sq_step fn) (new_send_queue s0) es)
     \<and> sq_waiting (foldl (sq_step fn) (new_send_queue s0) (es @ es'))
           = sq_waiting (foldl (sq_step fn) (new_send_queue s0) es)
             @ concat (map (\<lambda>e. case e of Call q \<Rightarrow> [q] | _ \<Rightarrow> []) es')"
  using sq_stuck_run [OF _ assms, of fn es'] send_queue.run_inv [OF sq_inv_new [of fn s0], of es]
  by (simp add: sq_inv_def)

definition odd_fails :: "nat \<Rightarrow> (nat, nat) st_result" where
  "odd_fails n s = (if odd n then Inl (Error ''odd'') else Inr s, s + n)"

lemma send_queue_stuck_witness:
  "sq_waiting (foldl (sq_step odd_fails) (new_send_queue 0) ([Call 2, Call 3, Continue, Microtask, Continue] @ [Call 4, Continue]))
    = [4]"
  using send_queue_stuck [of odd_fails 0 "[Call 2, Call 3, Continue, Microtask, Continue]" "[Call 4, Continue]"]
  by (simp add: new_send_queue_def handleQueue_def start_call_def continue_call_def odd_fails_def)

text \<open>Progress: with callbacks that return, the two event-loop turns of a call resolve it.\<close>

definition drain :: "('q \<Rightarrow> ('s, 'o) st_result) \<Rightarrow> nat \<Rightarrow> ('q, 's, 'o) send_queue \<Rightarrow> ('q, 's, 'o) send_queue" where
  "drain fn n st = foldl (sq_step fn) st (concat (replicate n [Continue, Microtask]))"

lemma drain_simps: "drain fn 0 st = st" "drain fn (Suc n) st = drain fn n (sq_step fn (sq_step fn st Continue) Microtask)"
  by (simp_all add: drain_def)

lemma drain_idle: "sq_inflight st = None \<Longrightarrow> sq_forced st = None \<Longrightarrow> drain fn m st = st"
  by (induction m) (simp_all add: drain_simps continue_call_def)

lemma drain_inflight:
  assumes "\<And>q s. is_ok (fst (fn q s))"
  shows "sq_inv fn s0 st \<Longrightarrow> sq_inflight st \<noteq> None \<Longrightarrow> length (sq_waiting st) < n \<Longrightarrow>
    map fst (sq_resolved (drain fn n st)) = sq_calls st \<and> \<not> sq_busy (drain fn n st)"
proof (induction n arbitrary: st)
  case (Suc n)
  obtain q r where qr: "sq_inflight st = Some (q, r)" using Suc.prems(2) by auto
  note i = sq_inv_inflight [OF Suc.prems(1) qr]
  have "r = fst (fn q (snd (seq_run fn (map fst (sq_resolved st)) s0)))"
  proof -
    obtain rs s' where a: "seq_run fn (map fst (sq_resolved st)) s0 = (rs, s')" by fastforce
    obtain r' s'' where b: "fn q s' = (r', s'')" by fastforce
    show ?thesis using i(2) seq_run_snoc [OF a b] a b by simp
  qed
  then obtain res where r: "r = Inr res" using assms by (auto simp: is_ok_iff)
  let ?st = "sq_step fn (sq_step fn st Continue) Microtask"
  have inv: "sq_inv fn s0 ?st" by (intro sq_step_inv Suc.prems(1))
  show ?case
  proof (cases "sq_waiting st")
    case Nil
    then have idle: "?st = st\<lparr>sq_inflight := None, sq_resolved := sq_resolved st @ [(q, res)], sq_busy := False\<rparr>"
      using qr r i(1) by (simp add: continue_call_def)
    have "drain fn n ?st = ?st" by (rule drain_idle) (simp_all only: idle, simp_all add: i(1))
    then show ?thesis using i(3) Nil by (simp only: drain_simps idle) simp
  next
    case (Cons w ws)
    then have st: "sq_inflight ?st \<noteq> None" "sq_waiting ?st = ws" "sq_calls ?st = sq_calls st"
      using qr r by (simp_all add: continue_call_def handleQueue_def start_call_def split: prod.split)
    have "length ws < n" using Suc.prems(3) Cons by simp
    then show ?thesis using Suc.IH [OF inv] st by (simp add: drain_simps)
  qed
qed simp

text \<open>
  C32: When no callback fails, every call is resolved in order after as many turns of the event loop as there
  are calls, and the queue is idle again: no call is lost or starved.
\<close>

theorem send_queue_drains:
  assumes "\<And>q s. is_ok (fst (fn q s))"
  shows "\<exists>n \<le> Suc (length calls). map fst (sq_resolved (drain fn n (foldl (sq_step fn) (new_send_queue s0) (map Call calls)))) = calls
    \<and> \<not> sq_busy (drain fn n (foldl (sq_step fn) (new_send_queue s0) (map Call calls)))"
proof (cases calls)
  case Nil
  then show ?thesis by (intro exI [of _ 0]) (simp add: drain_simps new_send_queue_def)
next
  case (Cons c cs)
  let ?st = "\<lambda>qs. foldl (sq_step fn) (new_send_queue s0) (map Call qs)"
  have "sq_inflight (?st (c # qs)) \<noteq> None \<and> sq_busy (?st (c # qs)) \<and> sq_waiting (?st (c # qs)) = qs
      \<and> sq_calls (?st (c # qs)) = c # qs" for qs
    by (induction qs rule: rev_induct)
       (auto simp: new_send_queue_def handleQueue_def start_call_def split: prod.splits)
  moreover have inv: "sq_inv fn s0 (?st calls)" by (rule send_queue.run_inv [OF sq_inv_new])
  ultimately show ?thesis
    using drain_inflight [OF assms inv, of "Suc (length cs)"] Cons
    by (intro exI [of _ "Suc (length cs)"]) simp
qed

lemma send_queue_drains_witness:
  "\<exists>n \<le> Suc (length [5, 7 :: nat]). map fst (sq_resolved (drain (\<lambda>q s. (Inr q, s + q)) n
      (foldl (sq_step (\<lambda>q s. (Inr q, s + q))) (new_send_queue (0 :: nat)) (map Call [5, 7])))) = [5, 7]
    \<and> \<not> sq_busy (drain (\<lambda>q s. (Inr q, s + q)) n
      (foldl (sq_step (\<lambda>q s. (Inr q, s + q))) (new_send_queue (0 :: nat)) (map Call [5, 7])))"
  by (rule send_queue_drains) simp

section \<open>Re-referenced packets\<close>

text \<open>
  A re-referenced packet remembers the hash of what it tried to send last. Sending values of the same
  hash again puts an empty payload on the wire, also when the values differ, and also when the first
  attempt failed to encode and the peer has nothing to refer to.
\<close>

theorem rereference_skips:
  assumes "pk_rereference p" "peer \<noteq> - 1" "hashValue b vals = Inr h" "hashValue b vals' = Inr h"
    and "encode_packet core b p peer vals s = (r, s')"
  shows "encode_packet core b p peer vals' s' = (Inr [], s')"
proof -
  let ?tg = "pk_tag p"
  have keep: "snd_last (snd (bindS (with_errs ?tg m) f s1)) = snd_last s1"
    if "\<And>x s. snd (f x s) = s" for f :: "jsval list \<Rightarrow> (send_state, u8 list) st_result" and m s1
    using that by (simp add: with_errs_def bindS_eq split: prod.split sum.split)
  have "snd_last s' ?tg peer = Some h"
  proof (cases "snd_last s ?tg peer = Some h")
    case True
    then have "s' = s" using assms(1,2,3,5) by (simp add: encode_packet_def Let_def)
    then show ?thesis using True by simp
  next
    case False
    let ?s = "s\<lparr>snd_last := (snd_last s)(?tg := (snd_last s ?tg)(peer := Some h))\<rparr>"
    have "s' = snd (bindS (with_errs ?tg (prepareSend p peer vals)) (\<lambda>prepared. liftS (encode_values core p prepared)) ?s)"
      using assms(1,2,3,5) False by (simp add: encode_packet_def Let_def)
    then have "snd_last s' = snd_last ?s" by (simp only:) (rule keep, simp)
    then show ?thesis by simp
  qed
  then show ?thesis using assms(1,2,4) by (simp add: encode_packet_def)
qed

lemma rereference_skips_witness:
  "\<forall>core s. encode_packet core True (sample_packet\<lparr>pk_rereference := True\<rparr>) 0 [JStr (js ''a''), JStr (js ''bc'')]
      (snd (encode_packet core True (sample_packet\<lparr>pk_rereference := True\<rparr>) 0 [JStr (js ''ab''), JStr (js ''c'')] s))
    = (Inr [], snd (encode_packet core True (sample_packet\<lparr>pk_rereference := True\<rparr>) 0 [JStr (js ''ab''), JStr (js ''c'')] s))"
proof (intro allI)
  fix core s
  have h: "hashValue True [JStr (js ''ab''), JStr (js ''c'')] = Inr (H64 (fnv64 HASH_INIT_64 (js ''abc'')))"
    "hashValue True [JStr (js ''a''), JStr (js ''bc'')] = Inr (H64 (fnv64 HASH_INIT_64 (js ''abc'')))"
    using hash64_strings [of "[js ''ab'', js ''c'']"] hash64_strings [of "[js ''a'', js ''bc'']"]
    by (simp_all add: js_def)
  show "encode_packet core True (sample_packet\<lparr>pk_rereference := True\<rparr>) 0 [JStr (js ''a''), JStr (js ''bc'')]
      (snd (encode_packet core True (sample_packet\<lparr>pk_rereference := True\<rparr>) 0 [JStr (js ''ab''), JStr (js ''c'')] s))
    = (Inr [], snd (encode_packet core True (sample_packet\<lparr>pk_rereference := True\<rparr>) 0 [JStr (js ''ab''), JStr (js ''c'')] s))"
    by (rule rereference_skips [OF _ _ h prod.collapse [symmetric]]) simp_all
qed

section \<open>From sender to receiver\<close>

text \<open>
  C23: A plain VARINT packet carries its integers from \<open>send\<close> to the listener: what is encoded in
  TypeScript is accepted by the Rust validator, decoded by the Rust codec and delivered, in order, clamped
  to the signed 32-bit range (so unchanged within it), spread unless the packet says otherwise.
\<close>

theorem varint_packet_delivered:
  assumes "\<not> pk_object p" "pk_types p = [PT_VARINT]" "\<not> pk_gzip p" "\<not> pk_autoFlatten p" "\<not> numeric p"
    and "pk_fields p = None" "\<not> pk_rereference p" "\<not> pk_isParent p" "ints \<noteq> []"
    and "pk_minSize p \<le> int (length ints)" "int (length ints) \<le> pk_maxSize p"
    and "pk_dataMin p = [pk_minSize p]" "pk_dataMax p = [pk_maxSize p]" "0 \<le> pk_minSize p" "pk_maxSize p < 2 ^ 32"
  shows "\<exists>bs s'. encode_packet (with_rust base) b p peer (map (\<lambda>i. JNum (Fin (of_int i))) ints) s = (Inr bs, s')
    \<and> listen lib (with_rust base) ctors p None bs = Inr (js_ints (map clamp32 ints), \<not> pk_dontSpread p)"
proof -
  obtain bs where through: "encodeIntegerVarints (js_ints ints) True = Inr bs
      \<and> (\<forall>mx pkg. decodeNative PT_VARINT bs mx pkg (with_rust base) = Inr (js_ints (map clamp32 ints)))
      \<and> (\<forall>mn mx. mn \<le> length ints \<and> length ints \<le> mx \<longrightarrow> rust_validate_varints bs mn mx = Inr ())"
    using varints_through_rust [of ints base] ..
  note bs = through [THEN conjunct1] through [THEN conjunct2, THEN conjunct1, rule_format]
    through [THEN conjunct2, THEN conjunct2, rule_format, OF conjI]
  have lim: "to_uint32 (pk_minSize p) = pk_minSize p" "to_uint32 (pk_maxSize p) = pk_maxSize p"
    using assms(10,11,14,15) by (simp_all add: to_uint32_id)
  let ?vals = "map (\<lambda>i. JNum (Fin (of_int i))) ints"
  have prep: "prepareSend p peer ?vals errs = (Inr ?vals, errs)" for errs
    using assms(1,4,5,6) by (simp add: prepareSend_def)
  have "processSend (with_rust base) p ?vals = bindR (encodeNative PT_VARINT (JArr ?vals) (pk_enum p) (with_rust base)) Inr"
    using assms(1-3) by (cases ints; cases "tl ints") (simp_all add: processSend_def pk_type_def)
  also have "\<dots> = Inr bs"
    using bs(1) by (simp add: encodeNative_def js_ints_def)
  finally have "processSend (with_rust base) p ?vals = Inr bs" .
  then have enc: "encode_values (with_rust base) p ?vals = Inr bs"
    using assms(1,4,9-11) by (simp add: encode_values_def check_size_def)
  have val: "validateEncoded (with_rust base) PT_VARINT bs (pk_minSize p) (pk_maxSize p) False False None
      = rust_validate_varints bs (nat (pk_minSize p)) (nat (pk_maxSize p))"
    by (simp add: with_rust_def lim)
  have v: "validate_packet (with_rust base) p bs = Inr bs"
    using assms(1-3,10-14) bs(3) [of "nat (pk_minSize p)" "nat (pk_maxSize p)"]
    by (simp add: validate_packet_def pk_type_def validateNative_def val nat_le_iff le_nat_iff)
  have r: "processReceive (with_rust base) p bs = Inr (js_ints (map clamp32 ints))"
    using assms(1,2) bs(2) by (simp add: processReceive_def pk_type_def)
  have f: "finishReceive lib ctors p (js_ints (map clamp32 ints)) = Inr (js_ints (map clamp32 ints))"
    using assms(1,4-6) by (simp add: finishReceive_def)
  have "encode_packet (with_rust base) b p peer ?vals s = (Inr bs, s\<lparr>snd_errs := (snd_errs s)(pk_tag p := snd_errs s (pk_tag p))\<rparr>)"
    using assms(7) prep enc by (simp add: encode_packet_def bindS_eq with_errs_def liftS_def)
  moreover have "listen lib (with_rust base) ctors p None bs = Inr (js_ints (map clamp32 ints), \<not> pk_dontSpread p)"
    using v r f assms(6,8) by (simp add: listen_def listen_body_def)
  ultimately show ?thesis by blast
qed

lemma varint_packet_delivered_witness:
  "\<forall>base. \<exists>bs s'. encode_packet (with_rust base) True (sample_packet\<lparr>pk_fields := None\<rparr>) 0
        (map (\<lambda>i. JNum (Fin (of_int i))) [-5, 2 ^ 40]) no_sends = (Inr bs, s')
      \<and> listen plain_lib (with_rust base) [] (sample_packet\<lparr>pk_fields := None\<rparr>) None bs
        = Inr (js_ints [-5, 2 ^ 31 - 1], \<not> pk_dontSpread (sample_packet\<lparr>pk_fields := None\<rparr>))"
proof
  fix base
  have c: "map clamp32 [-5, 2 ^ 40] = [-5, 2 ^ 31 - 1]" by (simp add: clamp32_def)
  show "\<exists>bs s'. encode_packet (with_rust base) True (sample_packet\<lparr>pk_fields := None\<rparr>) 0
        (map (\<lambda>i. JNum (Fin (of_int i))) [-5, 2 ^ 40]) no_sends = (Inr bs, s')
      \<and> listen plain_lib (with_rust base) [] (sample_packet\<lparr>pk_fields := None\<rparr>) None bs
        = Inr (js_ints [-5, 2 ^ 31 - 1], \<not> pk_dontSpread (sample_packet\<lparr>pk_fields := None\<rparr>))"
    unfolding c [symmetric]
    by (rule varint_packet_delivered)
      (simp_all add: sample_packet_def new_packet_def numeric_def Let_def zero_none_def)
qed

end
