(* ===== verification/Batching.thy ===== *)
theory Batching
  imports Send_Queue Buffer_Util
begin

text \<open>
  \<open>projects/ts/src/ws/util/packets/BatchHelper.ts\<close>: sends of a batched packet are collected until an
  interval of the connection fires. The identifiers \<open>conn.setInterval\<close> returns are fresh and truthy.
  What the interval's callback does with the frame depends on \<open>raw_send\<close>, which throws under
  backpressure: the event says whether it did. A close of the connection clears its intervals. \<open>bt_log\<close> and \<open>bt_queued\<close> are observations: the frames
  sent, and every payload given to \<open>batchPacket\<close>.
\<close>

section \<open>Collecting\<close>

record batcher =
  bt_info :: "nat \<rightharpoonup> nat \<times> bool"
  bt_timeouts :: "nat \<rightharpoonup> nat"
  bt_data :: "nat \<rightharpoonup> u8 list list"
  bt_intervals :: "(nat \<times> nat) list"
  bt_next :: nat
  bt_log :: "(nat \<times> u8 list list \<times> u8 list) list"
  bt_queued :: "(nat \<times> u8 list) list"

definition new_batcher :: batcher where
  "new_batcher = \<lparr>bt_info = Map.empty, bt_timeouts = Map.empty, bt_data = Map.empty, bt_intervals = [],
     bt_next = 1, bt_log = [], bt_queued = []\<rparr>"

definition initiateBatch :: "nat \<Rightarrow> nat \<Rightarrow> bool \<Rightarrow> batcher \<Rightarrow> batcher" where
  "initiateBatch code time compressed b =
     b\<lparr>bt_data := (bt_data b)(code \<mapsto> []), bt_info := (bt_info b)(code \<mapsto> (time, compressed))\<rparr>"

text \<open>An undefined interval (a truncated definition) is not 0, so such a packet is registered too.\<close>

fun register_tags :: "holder \<Rightarrow> jsstr list \<Rightarrow> batcher \<Rightarrow> batcher result" where
  "register_tags h [] b = Inr b"
| "register_tags h (tg # tgs) b =
     bindR (getPacket h tg) (\<lambda>p.
       if pk_dataBatching p = Some 0 then register_tags h tgs b
       else bindR (getKey h tg) (\<lambda>code.
         register_tags h tgs
           (initiateBatch code (case pk_dataBatching p of Some n \<Rightarrow> n | None \<Rightarrow> 0) (pk_gzip p) b)))"

definition registerSendPackets :: "holder \<Rightarrow> batcher \<Rightarrow> batcher result" where
  "registerSendPackets h b = register_tags h (getTags h) b"

definition startBatch :: "nat \<Rightarrow> batcher \<Rightarrow> batcher" where
  "startBatch code b =
     b\<lparr>bt_timeouts := (bt_timeouts b)(code \<mapsto> bt_next b), bt_intervals := bt_intervals b @ [(bt_next b, code)],
       bt_next := bt_next b + 1\<rparr>"

text \<open>\<open>batchedData[code].push\<close> throws for a code that was not registered.\<close>

definition batchPacket :: "nat \<Rightarrow> u8 list \<Rightarrow> (batcher, unit) st_result" where
  "batchPacket code data b =
     (case bt_data b code of
        None \<Rightarrow> (Inl (TypeError ''Cannot read properties of undefined''), b)
      | Some ds \<Rightarrow>
          let b' = b\<lparr>bt_data := (bt_data b)(code \<mapsto> ds @ [data]), bt_queued := bt_queued b @ [(code, data)]\<rparr>
          in (Inr (), if bt_timeouts b' code = None then startBatch code b' else b'))"

definition interval_callback :: "native_core \<Rightarrow> nat \<Rightarrow> bool \<Rightarrow> batcher \<Rightarrow> batcher" where
  "interval_callback core code send_ok b =
     (case (bt_data b code, bt_info b code) of
        (Some ds, Some (time, compressed)) \<Rightarrow>
          if ds = [] then b
          else (case encodeNativeBatch ds compressed core of
                  Inl e \<Rightarrow> b
                | Inr data \<Rightarrow>
                    if \<not> send_ok then b
                    else b\<lparr>bt_log := bt_log b @ [(code, ds, toPacketBuffer code data)],
                           bt_data := (bt_data b)(code \<mapsto> []), bt_timeouts := (bt_timeouts b)(code := None)\<rparr>)
      | _ \<Rightarrow> b)"

text \<open>The close event of the connection clears its intervals; the helper is not told.\<close>

definition intervals_cleared :: "batcher \<Rightarrow> batcher" where
  "intervals_cleared b = b\<lparr>bt_intervals := []\<rparr>"

datatype batch_event =
    Batch nat "u8 list"
  | Fires nat bool
  | Closes

fun batch_step :: "native_core \<Rightarrow> batcher \<Rightarrow> batch_event \<Rightarrow> batcher" where
  "batch_step core b (Batch code data) = snd (batchPacket code data b)"
| "batch_step core b (Fires i send_ok) =
     (case map_of (bt_intervals b) i of None \<Rightarrow> b | Some code \<Rightarrow> interval_callback core code send_ok b)"
| "batch_step core b Closes = intervals_cleared b"

section \<open>Taking a batch apart\<close>

fun listen_all ::
  "js_lib \<Rightarrow> native_core \<Rightarrow> ctor_registry \<Rightarrow> packet \<Rightarrow> validator option \<Rightarrow> u8 list list \<Rightarrow> string + (jsval \<times> bool) list" where
  "listen_all lib core ctors p val [] = Inr []"
| "listen_all lib core ctors p val (sector # sectors) =
     (case listen lib core ctors p val sector of
        Inl msg \<Rightarrow> Inl (''Batched packet: '' @ msg)
      | Inr r \<Rightarrow> (case listen_all lib core ctors p val sectors of Inl msg \<Rightarrow> Inl msg | Inr rs \<Rightarrow> Inr (r # rs)))"

definition unravelBatch ::
  "js_lib \<Rightarrow> native_core \<Rightarrow> ctor_registry \<Rightarrow> packet \<Rightarrow> validator option \<Rightarrow> u8 list \<Rightarrow> string + (jsval \<times> bool) list" where
  "unravelBatch lib core ctors p val data =
     (case decodeNativeBatch data (pk_gzip p) (pk_maxBatchSize p) None core of
        Inl e \<Rightarrow> Inl (''Invalid batch: '' @ js_error_string e)
      | Inr sectors \<Rightarrow> listen_all lib core ctors p val sectors)"

section \<open>Nothing is lost or reordered\<close>

definition queued_for :: "nat \<Rightarrow> batcher \<Rightarrow> u8 list list" where
  "queued_for code b = map snd (filter (\<lambda>(c, _). c = code) (bt_queued b))"

definition flushed_for :: "nat \<Rightarrow> batcher \<Rightarrow> u8 list list" where
  "flushed_for code b = concat (map (\<lambda>(c, ds, f). if c = code then ds else []) (bt_log b))"

definition pending_for :: "nat \<Rightarrow> batcher \<Rightarrow> u8 list list" where
  "pending_for code b = (case bt_data b code of None \<Rightarrow> [] | Some ds \<Rightarrow> ds)"

text \<open>
  Payloads are flushed in order or still pending; while the connection is open pending ones have an armed
  interval of their code; every frame is the encoding of its payloads.
\<close>

definition batch_inv :: "native_core \<Rightarrow> bool \<Rightarrow> batcher \<Rightarrow> bool" where
  "batch_inv core open' b \<longleftrightarrow>
     (\<forall>code. queued_for code b = flushed_for code b @ pending_for code b)
     \<and> (\<forall>code. pending_for code b \<noteq> [] \<longrightarrow> bt_timeouts b code \<noteq> None)
     \<and> (open' \<longrightarrow> (\<forall>code i. bt_timeouts b code = Some i \<longrightarrow> map_of (bt_intervals b) i = Some code))
     \<and> (\<forall>i \<in> fst ` set (bt_intervals b). i < bt_next b)
     \<and> (\<forall>(code, ds, f) \<in> set (bt_log b).
          \<exists>compressed data. encodeNativeBatch ds compressed core = Inr data \<and> f = toPacketBuffer code data)"

lemma map_of_append_fresh:
  "j \<notin> fst ` set al \<Longrightarrow> map_of (al @ [(j, c)]) i = (if i = j then Some c else map_of al i)"
  by (induction al) auto

lemma batch_inv_store:
  assumes "batch_inv core op b" "bt_data b code = Some ds" "bt_timeouts b code \<noteq> None"
  shows "batch_inv core op (b\<lparr>bt_data := (bt_data b)(code \<mapsto> ds @ [data]), bt_queued := bt_queued b @ [(code, data)]\<rparr>)"
    (is "batch_inv core op ?b")
proof -
  have "queued_for c ?b = flushed_for c ?b @ pending_for c ?b" for c
    using assms(1,2) by (simp add: batch_inv_def queued_for_def flushed_for_def pending_for_def)
  moreover have "pending_for c ?b \<noteq> [] \<longrightarrow> bt_timeouts ?b c \<noteq> None" for c
    using assms(1,3) by (simp add: batch_inv_def pending_for_def)
  ultimately show ?thesis using assms(1) by (simp add: batch_inv_def)
qed

lemma batch_inv_start:
  assumes "batch_inv core op b" "bt_timeouts b code = None"
  shows "batch_inv core op (startBatch code b)" (is "batch_inv core op ?b")
proof -
  have fresh: "bt_next b \<notin> fst ` set (bt_intervals b)" using assms(1) by (auto simp: batch_inv_def)
  have "op \<Longrightarrow> bt_timeouts b c = Some i \<Longrightarrow> i \<noteq> bt_next b \<and> map_of (bt_intervals b) i = Some c" for c i
    using assms(1) fresh unfolding batch_inv_def by (metis map_of_eq_None_iff option.distinct(1))
  then have "op \<longrightarrow> bt_timeouts ?b c = Some i \<longrightarrow> map_of (bt_intervals ?b) i = Some c" for c i
    using fresh by (auto simp: startBatch_def map_of_append_fresh simp del: map_of_append)
  moreover have "queued_for c ?b = flushed_for c ?b @ pending_for c ?b" for c
    using assms(1) by (simp add: batch_inv_def startBatch_def queued_for_def flushed_for_def pending_for_def)
  moreover have "pending_for c ?b \<noteq> [] \<longrightarrow> bt_timeouts ?b c \<noteq> None" for c
    using assms(1) by (simp add: batch_inv_def startBatch_def pending_for_def)
  moreover have "\<forall>i \<in> fst ` set (bt_intervals ?b). i < bt_next ?b"
    using assms(1) by (auto simp: batch_inv_def startBatch_def)
  ultimately show ?thesis using assms(1) by (simp add: batch_inv_def startBatch_def)
qed

lemma batch_inv_push:
  assumes "batch_inv core op b"
  shows "batch_inv core op (snd (batchPacket code data b))"
proof (cases "bt_data b code")
  case (Some ds)
  let ?store = "\<lambda>b. b\<lparr>bt_data := (bt_data b)(code \<mapsto> ds @ [data]), bt_queued := bt_queued b @ [(code, data)]\<rparr>"
  show ?thesis
  proof (cases "bt_timeouts b code")
    case None
    then have "snd (batchPacket code data b) = ?store (startBatch code b)"
      using Some by (simp add: batchPacket_def startBatch_def)
    then show ?thesis
      using batch_inv_store [OF batch_inv_start [OF assms None], of code ds data] Some
      by (simp add: startBatch_def)
  next
    case (Some i)
    then show ?thesis
      using batch_inv_store [OF assms, of code ds data] \<open>bt_data b code = Some ds\<close>
      by (simp add: batchPacket_def)
  qed
qed (use assms in \<open>simp add: batchPacket_def\<close>)

lemma batch_inv_flush:
  assumes "batch_inv core op b" "bt_data b code = Some ds" "encodeNativeBatch ds compressed core = Inr data"
  shows "batch_inv core op (b\<lparr>bt_log := bt_log b @ [(code, ds, toPacketBuffer code data)],
      bt_data := (bt_data b)(code \<mapsto> []), bt_timeouts := (bt_timeouts b)(code := None)\<rparr>)" (is "batch_inv core op ?b")
proof -
  have "queued_for c ?b = flushed_for c ?b @ pending_for c ?b" for c
    using assms(1,2) by (auto simp: batch_inv_def queued_for_def flushed_for_def pending_for_def)
  then show ?thesis using assms by (auto simp: batch_inv_def pending_for_def)
qed

text \<open>The intervals of an open connection are not cleared.\<close>

interpretation batching: machine_inv "\<lambda>b e. if op \<and> e = Closes then b else batch_step core b e" "batch_inv core op" for core op
proof
  fix b e
  assume b: "batch_inv core op b"
  show "batch_inv core op (if op \<and> e = Closes then b else batch_step core b e)"
  proof (cases e)
    case (Batch code data)
    then show ?thesis using batch_inv_push [OF b, of code data] by simp
  next
    case (Fires i ok)
    have "batch_inv core op (interval_callback core code ok b)" for code
      using b batch_inv_flush [OF b]
      by (auto simp: interval_callback_def split: option.split sum.split prod.split)
    then show ?thesis using b Fires by (simp split: option.split)
  next
    case Closes
    then show ?thesis
      using b by (auto simp: intervals_cleared_def batch_inv_def queued_for_def flushed_for_def pending_for_def)
  qed
qed

lemma register_tags_empty:
  "register_tags h tgs b = Inr b' \<Longrightarrow> batch_inv core op b \<Longrightarrow> (\<forall>c. pending_for c b = []) \<Longrightarrow>
   bt_queued b = [] \<Longrightarrow> bt_log b = [] \<Longrightarrow> batch_inv core op b'"
proof (induction tgs arbitrary: b)
  case (Cons tg tgs)
  have "batch_inv core op (initiateBatch code t z b) \<and> (\<forall>c. pending_for c (initiateBatch code t z b) = [])
    \<and> bt_queued (initiateBatch code t z b) = [] \<and> bt_log (initiateBatch code t z b) = []" for code t z
    using Cons.prems by (simp add: initiateBatch_def batch_inv_def pending_for_def queued_for_def flushed_for_def)
  then show ?case
    using Cons.prems Cons.IH by (auto simp: bindR_eq_Inr split: if_splits)
qed simp

lemma batch_inv_registered:
  assumes "registerSendPackets h new_batcher = Inr b"
  shows "batch_inv core op b"
  by (rule register_tags_empty [OF assms [unfolded registerSendPackets_def]])
    (simp_all add: new_batcher_def batch_inv_def pending_for_def queued_for_def flushed_for_def)

text \<open>
  C22: On a connection that registered its batched packets, after any sends, interval firings, failed raw
  sends and closes: for every packet the payloads handed to \<open>batchPacket\<close> are those flushed so far, in order,
  followed by those still pending; and whenever something is pending an interval of that packet is armed,
  unless the connection closed, which clears the intervals and leaves what is pending unsent. Flushed means
  handed to \<open>raw_send\<close>.
\<close>

theorem batch_no_loss:
  assumes "registerSendPackets h new_batcher = Inr b0" "b = foldl (batch_step core) b0 es"
  shows "queued_for code b = flushed_for code b @ pending_for code b
    \<and> (pending_for code b = [] \<or> (\<exists>i. map_of (bt_intervals b) i = Some code) \<or> Closes \<in> set es)"
proof -
  let ?op = "Closes \<notin> set es"
  have "foldl (\<lambda>b e. if ?op \<and> e = Closes then b else batch_step core b e) b0 es = b"
    unfolding assms(2) by (rule foldl_cong) auto
  then have "batch_inv core ?op b"
    using batching.run_inv [OF batch_inv_registered [OF assms(1)], of core ?op es] by simp
  then show ?thesis unfolding batch_inv_def by (metis not_Some_eq)
qed

text \<open>A batched packet with key 3: two payloads are flushed, a third is pending, and the interval that fires late fails.\<close>

definition batch_holder :: holder where
  "batch_holder = empty_holder\<lparr>ph_tags := [(3, js ''hi'')], ph_keys := [(js ''hi'', 3)],
     ph_packetMap := [(js ''hi'', sample_packet\<lparr>pk_dataBatching := Some 5\<rparr>)],
     ph_packets := [sample_packet\<lparr>pk_tag := js ''hi'', pk_dataBatching := Some 5\<rparr>]\<rparr>"

lemma batch_holder_registers: "registerSendPackets batch_holder new_batcher = Inr (initiateBatch 3 5 False new_batcher)"
  by (simp add: registerSendPackets_def getTags_def batch_holder_def empty_holder_def getPacket_def getKey_def resolveTag_def
      object_prototype_keys_def sample_packet_def new_packet_def numeric_def Let_def)

lemma batch_no_loss_witness:
  "\<forall>core. queued_for 3 (foldl (batch_step core) (initiateBatch 3 5 False new_batcher)
        [Batch 3 [1], Batch 3 [2], Fires 1 True, Batch 3 [4], Fires 2 False]) = [[1], [2], [4]]
    \<and> flushed_for 3 (foldl (batch_step core) (initiateBatch 3 5 False new_batcher)
        [Batch 3 [1], Batch 3 [2], Fires 1 True, Batch 3 [4], Fires 2 False]) = [[1], [2]]
    \<and> (\<exists>i. map_of (bt_intervals (foldl (batch_step core) (initiateBatch 3 5 False new_batcher)
        [Batch 3 [1], Batch 3 [2], Fires 1 True, Batch 3 [4], Fires 2 False])) i = Some 3)"
proof
  fix core
  let ?b = "foldl (batch_step core) (initiateBatch 3 5 False new_batcher)
        [Batch 3 [1], Batch 3 [2], Fires 1 True, Batch 3 [4], Fires 2 False]"
  have "pending_for 3 ?b = [[4]]" "flushed_for 3 ?b = [[1], [2]]"
    by (simp_all add: initiateBatch_def new_batcher_def batchPacket_def startBatch_def interval_callback_def
        encode_batch_plain pending_for_def flushed_for_def)
  then show "queued_for 3 ?b = [[1], [2], [4]] \<and> flushed_for 3 ?b = [[1], [2]] \<and> (\<exists>i. map_of (bt_intervals ?b) i = Some 3)"
    using batch_no_loss [OF batch_holder_registers refl, of 3 core "[Batch 3 [1], Batch 3 [2], Fires 1 True, Batch 3 [4], Fires 2 False]"]
    by simp
qed

text \<open>
  C24: The receiver of a flushed uncompressed batch listens to exactly the payloads that were queued, in
  order, when its batch limit admits their number; beyond the limit it refuses all of them.
\<close>

theorem batch_delivered:
  assumes "interval_callback core code True b = b'" "bt_data b code = Some ds" "bt_info b code = Some (t, False)"
    "ds \<noteq> []" "\<forall>d \<in> set ds. length d < 2 ^ 32" "\<not> pk_gzip p"
  shows "\<exists>f. bt_log b' = bt_log b @ [(code, ds, toPacketBuffer code f)] \<and> pending_for code b' = []
    \<and> unravelBatch lib (with_rust base) ctors p val f
       = (if batch_refused (pk_maxBatchSize p) (length ds)
          then Inl (''Invalid batch: '' @ js_error_string (Error ''batch exceeds max_batch_size''))
          else listen_all lib (with_rust base) ctors p val ds)"
  using assms
  by (intro exI [of _ "rust_encode_batches ds"])
    (auto simp: interval_callback_def encode_batch_plain pending_for_def unravelBatch_def decode_batch_plain)

lemma batch_delivered_witness:
  "\<forall>base core. \<exists>f. unravelBatch plain_lib (with_rust base) [] (sample_packet\<lparr>pk_maxBatchSize := Some 1\<rparr>) None f
     = Inl (''Invalid batch: '' @ js_error_string (Error ''batch exceeds max_batch_size''))"
proof (intro allI)
  fix base core
  have "\<not> pk_gzip (sample_packet\<lparr>pk_maxBatchSize := Some 1\<rparr>)"
    by (simp add: sample_packet_def new_packet_def numeric_def Let_def)
  from batch_delivered [OF refl, of "new_batcher\<lparr>bt_data := [3 \<mapsto> [[1], [2, 3]]], bt_info := [3 \<mapsto> (0, False)]\<rparr>" 3
      "[[1], [2, 3]]" 0 "sample_packet\<lparr>pk_maxBatchSize := Some 1\<rparr>" core plain_lib base "[]" None] this
  show "\<exists>f. unravelBatch plain_lib (with_rust base) [] (sample_packet\<lparr>pk_maxBatchSize := Some 1\<rparr>) None f
     = Inl (''Invalid batch: '' @ js_error_string (Error ''batch exceeds max_batch_size''))"
    by (auto simp: batch_refused_def to_uint32_id)
qed

definition batch_round :: "nat \<Rightarrow> nat \<Rightarrow> batch_event list" where
  "batch_round code j = [Batch code [7], Fires (Suc j) True]"

lemma batch_rounds:
  fixes code time core k
  defines "b \<equiv> foldl (batch_step core) (initiateBatch code time False new_batcher) (concat (map (batch_round code) [0 ..< k]))"
  shows "bt_intervals b = map (\<lambda>j. (Suc j, code)) [0 ..< k] \<and> bt_next b = Suc k \<and> bt_data b code = Some []
    \<and> bt_info b code = Some (time, False) \<and> bt_timeouts b code = None"
  unfolding b_def
proof (induction k)
  case 0
  show ?case by (simp add: initiateBatch_def new_batcher_def)
next
  case (Suc k)
  have "map_of (map (\<lambda>j. (Suc j, code)) [0 ..< k] @ [(Suc k, code)]) (Suc k) = Some code"
    by (subst map_of_append_fresh) (auto simp del: map_of_append)
  then show ?case
    using Suc.IH
    by (simp add: batch_round_def batchPacket_def startBatch_def interval_callback_def encode_batch_plain
        del: map_of_append)
qed

text \<open>
  Every round of a batched packet (one send, then the interval that flushes it) arms another interval
  and no round disarms one: after \<open>k\<close> rounds \<open>k\<close> intervals are armed for the same packet.
\<close>

theorem batch_interval_leak:
  "map snd (bt_intervals (foldl (batch_step core) (initiateBatch code time False new_batcher)
     (concat (map (batch_round code) [0 ..< k])))) = replicate k code"
  by (simp add: batch_rounds comp_def map_replicate_const)

end
