(* ===== verification/Rate_Limit.thy ===== *)
theory Rate_Limit
  imports Packet_Holder
begin

text \<open>
  \<open>projects/ts/src/ws/util/packets/RateHandler.ts\<close>: the counters of one connection. A key is the text
  \<open>C\<close>, \<open>S\<close>, or \<open>client\<close>/\<open>server\<close> with a packet key, never a member plain objects inherit. The interval
  \<open>start\<close> sets is the operation \<open>rate_reset\<close>, run once a second. The locale \<open>rate_gate\<close> is what the
  connection relies on: between two resets a key with a limit passes at most that many times.
\<close>

section \<open>The interface\<close>

locale rate_gate =
  fixes pass :: "'k \<Rightarrow> 's \<Rightarrow> bool \<times> 's"
    and used :: "'s \<Rightarrow> 'k \<Rightarrow> int"
    and limit_of :: "'s \<Rightarrow> 'k \<Rightarrow> int option"
  assumes pass_limited: "limit_of s k = Some n \<Longrightarrow>
      pass k s = (b, s') \<Longrightarrow> used s' k = used s k + 1 \<and> (b \<longleftrightarrow> used s k + 1 \<le> n)"
    and pass_unlimited: "limit_of s k = None \<Longrightarrow> fst (pass k s)"
    and pass_other: "j \<noteq> k \<Longrightarrow> used (snd (pass k s)) j = used s j"
    and pass_limit: "limit_of (snd (pass k s)) = limit_of s"
begin

fun pass_all :: "'k list \<Rightarrow> 's \<Rightarrow> bool list \<times> 's" where
  "pass_all [] s = ([], s)"
| "pass_all (k # ks) s = (case pass k s of (b, s') \<Rightarrow> (case pass_all ks s' of (bs, s'') \<Rightarrow> (b # bs, s'')))"

definition passed :: "'k \<Rightarrow> 'k list \<Rightarrow> 's \<Rightarrow> nat" where
  "passed k ks s = length (filter (\<lambda>(j, b). j = k \<and> b) (zip ks (fst (pass_all ks s))))"

lemma passed_Nil [simp]: "passed k [] s = 0"
  by (simp add: passed_def)

lemma passed_Cons:
  "passed k (j # ks) s = (if j = k \<and> fst (pass j s) then 1 else 0) + passed k ks (snd (pass j s))"
  by (simp add: passed_def split: prod.split)

lemma passed_count:
  "limit_of s k = Some n \<Longrightarrow>
   int (passed k ks s) = max 0 (min (int (count_list ks k)) (n - used s k))"
proof (induction ks arbitrary: s)
  case (Cons j ks)
  obtain b s' where p: "pass j s = (b, s')" by fastforce
  have lim: "limit_of s' k = Some n" using pass_limit [of j s] Cons.prems p by simp
  note IH = Cons.IH [OF lim]
  show ?case
  proof (cases "j = k")
    case True
    then have "used s' k = used s k + 1 \<and> (b \<longleftrightarrow> used s k + 1 \<le> n)"
      using pass_limited [OF Cons.prems] p by simp
    then show ?thesis using IH True p by (auto simp: passed_Cons)
  next
    case False
    then have "used s' k = used s k" using pass_other [of k j s] p by simp
    then show ?thesis using IH False p by (simp add: passed_Cons)
  qed
qed simp

end

section \<open>The counters\<close>

record rater =
  rt_rates :: "jsstr \<rightharpoonup> int"
  rt_limits :: "jsstr \<rightharpoonup> int"
  rt_closed :: bool

definition new_rater :: rater where
  "new_rater = \<lparr>rt_rates = Map.empty, rt_limits = Map.empty, rt_closed = False\<rparr>"

definition registerRate :: "jsstr \<Rightarrow> int \<Rightarrow> rater \<Rightarrow> rater" where
  "registerRate tg limit r =
     (if limit = 0 then r
      else r\<lparr>rt_rates := (rt_rates r)(tg \<mapsto> 0), rt_limits := (rt_limits r)(tg \<mapsto> limit)\<rparr>)"

fun register_packets :: "holder \<Rightarrow> jsstr \<Rightarrow> packet list \<Rightarrow> rater \<Rightarrow> rater result" where
  "register_packets h prefix [] r = Inr r"
| "register_packets h prefix (p # ps) r =
     bindR (getKey h (pk_tag p)) (\<lambda>key.
       register_packets h prefix ps (registerRate (prefix @ js_of_nat key) (pk_rateLimit p) r))"

definition registerAll :: "holder \<Rightarrow> jsstr \<Rightarrow> rater \<Rightarrow> rater result" where
  "registerAll h prefix r = register_packets h prefix (ph_packets h) r"

text \<open>\<open>trigger\<close> answers whether the limit is exceeded; it then closes the socket with RATELIMIT.\<close>

definition trigger :: "jsstr \<Rightarrow> rater \<Rightarrow> bool \<times> rater" where
  "trigger tg r =
     (case rt_rates r tg of
        None \<Rightarrow> (False, r)
      | Some n \<Rightarrow>
          let r' = r\<lparr>rt_rates := (rt_rates r)(tg \<mapsto> n + 1)\<rparr>
          in if (case rt_limits r tg of None \<Rightarrow> False | Some limit \<Rightarrow> n + 1 > limit)
             then (True, r'\<lparr>rt_closed := True\<rparr>) else (False, r'))"

definition subtract :: "jsstr \<Rightarrow> rater \<Rightarrow> rater" where
  "subtract tg r =
     (case rt_rates r tg of None \<Rightarrow> r | Some n \<Rightarrow> r\<lparr>rt_rates := (rt_rates r)(tg \<mapsto> n - 1)\<rparr>)"

text \<open>\<open>start\<close> sets the interval when something is limited; this is its callback.\<close>

definition rate_started :: "rater \<Rightarrow> bool" where
  "rate_started r \<longleftrightarrow> rt_rates r \<noteq> Map.empty"

definition rate_reset :: "rater \<Rightarrow> rater" where
  "rate_reset r = r\<lparr>rt_rates := (\<lambda>tg. map_option (\<lambda>_. 0) (rt_rates r tg))\<rparr>"

section \<open>The counters are a gate\<close>

definition rate_limit_of :: "rater \<Rightarrow> jsstr \<Rightarrow> int option" where
  "rate_limit_of r k = (case rt_rates r k of None \<Rightarrow> None | Some _ \<Rightarrow> rt_limits r k)"

definition rate_used :: "rater \<Rightarrow> jsstr \<Rightarrow> int" where
  "rate_used r k = (case rt_rates r k of None \<Rightarrow> 0 | Some n \<Rightarrow> n)"

definition admit :: "jsstr \<Rightarrow> rater \<Rightarrow> bool \<times> rater" where
  "admit k r = (case trigger k r of (exceeded, r') \<Rightarrow> (\<not> exceeded, r'))"

interpretation rates: rate_gate admit rate_used rate_limit_of
proof
  fix k :: jsstr and s s' :: rater and n :: int and b :: bool
  assume "rate_limit_of s k = Some n" "admit k s = (b, s')"
  then show "rate_used s' k = rate_used s k + 1 \<and> (b \<longleftrightarrow> rate_used s k + 1 \<le> n)"
    by (auto simp: rate_limit_of_def rate_used_def admit_def trigger_def Let_def split: option.splits if_splits)
next
  fix k :: jsstr and s :: rater
  assume "rate_limit_of s k = None"
  then show "fst (admit k s)"
    by (auto simp: rate_limit_of_def admit_def trigger_def Let_def split: option.splits)
next
  fix j k :: jsstr and s :: rater
  assume "j \<noteq> k"
  then show "rate_used (snd (admit k s)) j = rate_used s j"
    by (auto simp: rate_used_def admit_def trigger_def Let_def split: option.splits)
next
  fix k :: jsstr and s :: rater
  show "rate_limit_of (snd (admit k s)) = rate_limit_of s"
    by (rule ext) (auto simp: rate_limit_of_def admit_def trigger_def Let_def split: option.splits)
qed

text \<open>The answers to a run of triggers, in order.\<close>

fun trigger_all :: "jsstr list \<Rightarrow> rater \<Rightarrow> bool list \<times> rater" where
  "trigger_all [] r = ([], r)"
| "trigger_all (k # ks) r =
     (case trigger k r of (b, r') \<Rightarrow> (case trigger_all ks r' of (bs, r'') \<Rightarrow> (b # bs, r'')))"

definition accepted :: "jsstr \<Rightarrow> jsstr list \<Rightarrow> rater \<Rightarrow> nat" where
  "accepted k ks r = length (filter (\<lambda>(j, exceeded). j = k \<and> \<not> exceeded) (zip ks (fst (trigger_all ks r))))"

lemma accepted_passed: "accepted k ks r = rates.passed k ks r"
proof (induction ks arbitrary: r)
  case (Cons j ks)
  obtain b r' where t: "trigger j r = (b, r')" by fastforce
  then have "admit j r = (\<not> b, r')" by (simp add: admit_def)
  moreover obtain bs r'' where "trigger_all ks r' = (bs, r'')" by fastforce
  ultimately show ?case
    using Cons.IH [of r'] t by (simp add: accepted_def rates.passed_Cons)
qed (simp add: accepted_def)

lemma register_limit: "limit \<noteq> 0 \<Longrightarrow> rate_limit_of (rate_reset (registerRate tg limit r)) tg = Some limit
   \<and> rate_used (rate_reset (registerRate tg limit r)) tg = 0"
  by (simp add: registerRate_def rate_reset_def rate_limit_of_def rate_used_def)

text \<open>
  After a reset, of any run of triggers for any keys, a key registered with limit \<open>n\<close> is accepted
  exactly as often as it occurs up to \<open>n\<close> times, however the other keys are interleaved.
\<close>

theorem rate_window:
  assumes "0 < n"
  shows "accepted tg ks (rate_reset (registerRate tg n r)) = min (count_list ks tg) (nat n)"
proof -
  have "n \<noteq> 0" using assms by simp
  note l = register_limit [OF this, of tg r]
  show ?thesis
    using rates.passed_count [OF l [THEN conjunct1], of ks] l assms by (simp add: accepted_passed)
qed

lemma rate_window_witness:
  "accepted (js ''C'') [js ''C'', js ''S'', js ''C'', js ''C''] (rate_reset (registerRate (js ''C'') 2 new_rater))
    = min (count_list [js ''C'', js ''S'', js ''C'', js ''C''] (js ''C'')) (nat 2)"
  by (rule rate_window) simp

end
