(* ===== verification/Transport.thy ===== *)
theory Transport
  imports Js_Double "HOL-Library.AList"
begin

text \<open>
  The part of a connection that client and server share (\<open>projects/ts/src/ws/Connection.ts\<close>): timers that
  end with the socket, the outbound buffer limits, and raw frames. The host hands out timer identifiers in
  increasing order; \<open>cn_armed\<close> are the host timers that will still fire. What a callback does is not
  modelled: running one appends it to \<open>cn_ran\<close>. \<open>bufferedAmount\<close> is a property of the socket the
  environment changes between events, never within one; \<open>None\<close> when the socket has none.
\<close>

section \<open>State\<close>

record 'c conn =
  cn_closed :: bool
  cn_socketClosed :: bool
  cn_original :: bool
  cn_timers :: "(nat \<times> 'c \<times> bool) list"
  cn_armed :: "nat list"
  cn_next :: nat
  cn_ran :: "'c list"
  cn_buffered :: "jsnum option"
  cn_volatileAt :: rat
  cn_closeAt :: rat
  cn_sent :: "u8 list list"
  cn_listeners :: nat
  cn_heard :: "(nat \<times> u8 list) list"
  cn_closes :: "(int \<times> jsstr) list"
  cn_name :: jsstr

datatype close_code =
  RATELIMIT | SMALL | INVALID_KEY | INVALID_PACKET | INVALID_DATA | REPEATED_HANDSHAKE | DISABLED_PACKET
  | MIDDLEWARE | MANUAL_SHUTDOWN | BACKPRESSURE | HEARTBEAT_TIMEOUT

fun code_number :: "close_code \<Rightarrow> int" where
  "code_number RATELIMIT = 4000"
| "code_number SMALL = 4001"
| "code_number INVALID_KEY = 4002"
| "code_number INVALID_PACKET = 4003"
| "code_number INVALID_DATA = 4004"
| "code_number REPEATED_HANDSHAKE = 4005"
| "code_number DISABLED_PACKET = 4006"
| "code_number MIDDLEWARE = 4007"
| "code_number MANUAL_SHUTDOWN = 4008"
| "code_number BACKPRESSURE = 4009"
| "code_number HEARTBEAT_TIMEOUT = 4010"

definition all_codes :: "(int \<times> string) list" where
  "all_codes = [(4000, ''RATELIMIT''), (4001, ''SMALL''), (4002, ''INVALID_KEY''), (4003, ''INVALID_PACKET''),
     (4004, ''INVALID_DATA''), (4005, ''REPEATED_HANDSHAKE''), (4006, ''DISABLED_PACKET''), (4007, ''MIDDLEWARE''),
     (4008, ''MANUAL_SHUTDOWN''), (4009, ''BACKPRESSURE''), (4010, ''HEARTBEAT_TIMEOUT'')]"

definition getClosureCause :: "int \<Rightarrow> string" where
  "getClosureCause n =
     (if n \<ge> 4000 then (case map_of all_codes n of Some nm \<Rightarrow> nm | None \<Rightarrow> ''UNKNOWN'')
      else if n = 1000 then ''NORMAL_CLOSURE'' else if n = 1001 then ''GOING_AWAY''
      else if n = 1002 then ''PROTOCOL_ERROR'' else if n = 1003 then ''UNSUPPORTED_DATA''
      else if n = 1006 then ''ABNORMAL_CLOSURE'' else ''UNKNOWN'')"

definition new_conn :: "jsstr \<Rightarrow> 'c conn" where
  "new_conn nm = \<lparr>cn_closed = False, cn_socketClosed = False, cn_original = True, cn_timers = [], cn_armed = [],
     cn_next = 1, cn_ran = [], cn_buffered = None, cn_volatileAt = 1048576, cn_closeAt = 16777216, cn_sent = [],
     cn_listeners = 0, cn_heard = [], cn_closes = [], cn_name = nm\<rparr>"

section \<open>Timers\<close>

definition host_timer :: "'c \<Rightarrow> bool \<Rightarrow> 'c conn \<Rightarrow> nat \<times> 'c conn" where
  "host_timer call callOnClose c =
     (cn_next c, c\<lparr>cn_next := cn_next c + 1, cn_armed := cn_armed c @ [cn_next c],
                   cn_timers := AList.update (cn_next c) (call, callOnClose) (cn_timers c)\<rparr>)"

definition conn_setTimeout :: "'c \<Rightarrow> bool \<Rightarrow> 'c conn \<Rightarrow> nat \<times> 'c conn" where
  "conn_setTimeout call callOnClose c = host_timer call callOnClose c"

definition conn_setInterval :: "'c \<Rightarrow> bool \<Rightarrow> 'c conn \<Rightarrow> nat \<times> 'c conn" where
  "conn_setInterval call callOnClose c = host_timer call callOnClose c"

definition conn_clearTimeout :: "nat \<Rightarrow> 'c conn \<Rightarrow> 'c conn" where
  "conn_clearTimeout i c =
     c\<lparr>cn_armed := filter (\<lambda>j. j \<noteq> i) (cn_armed c), cn_timers := AList.delete i (cn_timers c)\<rparr>"

definition conn_clearInterval :: "nat \<Rightarrow> 'c conn \<Rightarrow> 'c conn" where
  "conn_clearInterval i c = conn_clearTimeout i c"

text \<open>
  An armed timer fires: an interval stays armed. A timeout runs the callback and then clears itself; the
  closure holds the callback, so it runs even when the table no longer lists it.
\<close>

definition timeout_fires :: "nat \<Rightarrow> 'c \<Rightarrow> 'c conn \<Rightarrow> 'c conn" where
  "timeout_fires i call c =
     (if i \<in> set (cn_armed c) then conn_clearTimeout i (c\<lparr>cn_ran := cn_ran c @ [call]\<rparr>) else c)"

definition interval_fires :: "nat \<Rightarrow> 'c \<Rightarrow> 'c conn \<Rightarrow> 'c conn" where
  "interval_fires i call c = (if i \<in> set (cn_armed c) then c\<lparr>cn_ran := cn_ran c @ [call]\<rparr> else c)"

text \<open>The close event of the first transport: every timer is cleared, those marked so are called.\<close>

fun close_timers :: "(nat \<times> 'c \<times> bool) list \<Rightarrow> 'c conn \<Rightarrow> 'c conn" where
  "close_timers [] c = c"
| "close_timers ((i, call, shouldCall) # ts) c =
     (let c' = conn_clearTimeout i c
      in close_timers ts (if shouldCall then c'\<lparr>cn_ran := cn_ran c' @ [call]\<rparr> else c'))"

text \<open>The handler of a replacement transport only sets the flag.\<close>

definition close_event :: "'c conn \<Rightarrow> 'c conn" where
  "close_event c =
     (if cn_original c then close_timers (cn_timers c) (c\<lparr>cn_closed := True, cn_socketClosed := True\<rparr>)
      else c\<lparr>cn_closed := True, cn_socketClosed := True\<rparr>)"

definition replaceTransport :: "'c conn \<Rightarrow> 'c conn" where
  "replaceTransport c = c\<lparr>cn_closed := False, cn_socketClosed := False, cn_original := False, cn_buffered := None\<rparr>"

section \<open>Frames\<close>

definition getBufferedAmount :: "'c conn \<Rightarrow> rat" where
  "getBufferedAmount c = (case cn_buffered c of Some (Fin r) \<Rightarrow> r | _ \<Rightarrow> 0)"

definition conn_close :: "int \<Rightarrow> jsstr \<Rightarrow> 'c conn \<Rightarrow> 'c conn" where
  "conn_close code reason c = c\<lparr>cn_closed := True, cn_closes := cn_closes c @ [(code, reason)]\<rparr>"

definition isClosed :: "'c conn \<Rightarrow> bool" where
  "isClosed c \<longleftrightarrow> cn_closed c \<or> cn_socketClosed c"

definition base_raw_send :: "u8 list \<Rightarrow> ('c conn, unit) st_result" where
  "base_raw_send data c =
     (if getBufferedAmount c \<ge> cn_closeAt c
      then (Inl (Error ''SonicWS outbound backpressure limit exceeded''),
            conn_close (code_number BACKPRESSURE) (js ''Outbound buffer exceeded the configured limit'') c)
      else (Inr (), c\<lparr>cn_sent := cn_sent c @ [data],
                      cn_heard := cn_heard c @ map (\<lambda>l. (l, data)) [0 ..< cn_listeners c]\<rparr>))"

definition raw_onsend :: "'c conn \<Rightarrow> 'c conn" where
  "raw_onsend c = c\<lparr>cn_listeners := cn_listeners c + 1\<rparr>"

definition setBackpressureLimits :: "jsnum option \<Rightarrow> jsnum option \<Rightarrow> ('c conn, unit) st_result" where
  "setBackpressureLimits volatileAt closeAt c =
     (case (case volatileAt of None \<Rightarrow> Fin (cn_volatileAt c) | Some v \<Rightarrow> v,
            case closeAt of None \<Rightarrow> Fin (cn_closeAt c) | Some v \<Rightarrow> v) of
        (Fin v, Fin k) \<Rightarrow>
          if v < 0 \<or> k \<le> 0 \<or> v > k then (Inl (Error ''Invalid SonicWS backpressure limits''), c)
          else (Inr (), c\<lparr>cn_volatileAt := v, cn_closeAt := k\<rparr>)
      | _ \<Rightarrow> (Inl (Error ''Invalid SonicWS backpressure limits''), c))"

definition canSendVolatile :: "'c conn \<Rightarrow> bool" where
  "canSendVolatile c \<longleftrightarrow> getBufferedAmount c < cn_volatileAt c"

text \<open>\<open>setName\<close>, given the answer of the \<open>onNameChange\<close> hooks.\<close>

definition setName :: "jsstr \<Rightarrow> bool \<Rightarrow> 'c conn \<Rightarrow> 'c conn" where
  "setName nm cancelled c = (if cancelled then c else c\<lparr>cn_name := nm\<rparr>)"

section \<open>Every operation\<close>

datatype 'c conn_event =
    SetTimeout 'c bool
  | SetInterval 'c bool
  | ClearTimeout nat
  | TimeoutFires nat 'c
  | IntervalFires nat 'c
  | CloseEvent
  | ReplaceTransport
  | RawSend "u8 list"
  | SetLimits "jsnum option" "jsnum option"
  | BufferedChanges "jsnum option"
  | CloseCall int jsstr
  | RawOnsend
  | SetName jsstr bool

fun conn_step :: "'c conn \<Rightarrow> 'c conn_event \<Rightarrow> 'c conn" where
  "conn_step c (SetTimeout call k) = snd (conn_setTimeout call k c)"
| "conn_step c (SetInterval call k) = snd (conn_setInterval call k c)"
| "conn_step c (ClearTimeout i) = conn_clearTimeout i c"
| "conn_step c (TimeoutFires i call) = timeout_fires i call c"
| "conn_step c (IntervalFires i call) = interval_fires i call c"
| "conn_step c CloseEvent = close_event c"
| "conn_step c ReplaceTransport = replaceTransport c"
| "conn_step c (RawSend data) = snd (base_raw_send data c)"
| "conn_step c (SetLimits v k) = snd (setBackpressureLimits v k c)"
| "conn_step c (BufferedChanges b) = c\<lparr>cn_buffered := b\<rparr>"
| "conn_step c (CloseCall n reason) = conn_close n reason c"
| "conn_step c RawOnsend = raw_onsend c"
| "conn_step c (SetName nm cancelled) = setName nm cancelled c"

text \<open>
  \<open>sendVolatile\<close> of both connection classes, for a packet that is not batched: the gate, then whatever happens
  to the connection (\<open>es\<close>) while \<open>send\<close> is awaited, then the write.
\<close>

definition sendVolatile :: "'c conn_event list \<Rightarrow> u8 list \<Rightarrow> ('c conn, bool) st_result" where
  "sendVolatile es data c =
     (if \<not> canSendVolatile c then (Inr False, c)
      else case base_raw_send data (foldl conn_step c es) of
        (Inl e, c') \<Rightarrow> (Inl e, c') | (Inr _, c') \<Rightarrow> (Inr True, c'))"

text \<open>The table lists exactly the armed timers; the limits are ordered.\<close>

definition timers_inv :: "'c conn \<Rightarrow> bool" where
  "timers_inv c \<longleftrightarrow> map fst (cn_timers c) = cn_armed c \<and> sorted_wrt (<) (cn_armed c)
     \<and> (\<forall>i \<in> set (cn_armed c). i < cn_next c)
     \<and> 0 \<le> cn_volatileAt c \<and> cn_volatileAt c \<le> cn_closeAt c \<and> 0 < cn_closeAt c"

lemma fst_delete: "map fst (AList.delete i al) = filter (\<lambda>j. j \<noteq> i) (map fst al)"
  by (induction al) auto

lemma timers_inv_clear: "timers_inv c \<Longrightarrow> timers_inv (conn_clearTimeout i c)"
  by (simp add: timers_inv_def conn_clearTimeout_def fst_delete sorted_wrt_filter)

lemma timers_inv_ran [simp]: "timers_inv (c\<lparr>cn_ran := r\<rparr>) = timers_inv c"
  by (simp add: timers_inv_def)

lemma timers_inv_close: "timers_inv c \<Longrightarrow> timers_inv (close_timers ts c)"
  by (induction ts c rule: close_timers.induct) (auto simp: Let_def timers_inv_clear)

lemma update_new_key: "k \<notin> fst ` set al \<Longrightarrow> AList.update k v al = al @ [(k, v)]"
  by (induction al) auto

lemma timers_inv_host: "timers_inv c \<Longrightarrow> timers_inv (snd (host_timer call k c))"
proof -
  assume c: "timers_inv c"
  then have "fst ` set (cn_timers c) = set (cn_armed c)" by (metis list.set_map timers_inv_def)
  then have "cn_next c \<notin> fst ` set (cn_timers c)" using c by (auto simp: timers_inv_def)
  then show ?thesis
    using c by (auto simp: host_timer_def timers_inv_def update_new_key sorted_wrt_append less_Suc_eq)
qed

interpretation conn_machine: machine_inv conn_step timers_inv
proof
  fix c :: "'c conn" and e
  assume c: "timers_inv c"
  have close: "timers_inv (close_event c)"
    using timers_inv_close [of "c\<lparr>cn_closed := True, cn_socketClosed := True\<rparr>"] c
    by (simp add: close_event_def timers_inv_def)
  have send: "timers_inv (snd (base_raw_send d c))" for d
    using c by (simp add: base_raw_send_def conn_close_def timers_inv_def)
  have lim: "timers_inv (snd (setBackpressureLimits v k c))" for v k
    using c by (auto simp: setBackpressureLimits_def timers_inv_def split: jsnum.split option.split)
  show "timers_inv (conn_step c e)"
    using c close send lim
    by (cases e) (simp_all add: conn_setTimeout_def conn_setInterval_def timers_inv_host timers_inv_clear
        timeout_fires_def interval_fires_def replaceTransport_def conn_close_def raw_onsend_def setName_def,
        simp_all add: timers_inv_def)
qed

section \<open>What the timers do at the end\<close>

lemma close_timers_result:
  "cn_ran (close_timers ts c) = cn_ran c @ map (\<lambda>(i, call, k). call) (filter (\<lambda>(i, call, k). k) ts)"
  "cn_armed (close_timers ts c) = filter (\<lambda>i. i \<notin> fst ` set ts) (cn_armed c)"
  by (induction ts c rule: close_timers.induct) (auto simp: Let_def conn_clearTimeout_def intro: filter_cong)

text \<open>
  C30: Whatever happened before on the first transport, its close event leaves no timer armed, and runs
  exactly the pending callbacks that asked to be called on close, once each and in order of creation.
\<close>

theorem close_ends_timers:
  assumes "c = foldl conn_step (new_conn nm) es" "cn_original c"
  shows "cn_armed (conn_step c CloseEvent) = []
    \<and> cn_ran (conn_step c CloseEvent) = cn_ran c @ map (\<lambda>(i, call, k). call) (filter (\<lambda>(i, call, k). k) (cn_timers c))
    \<and> isClosed (conn_step c CloseEvent)"
proof -
  have "timers_inv (new_conn nm)" by (simp add: timers_inv_def new_conn_def)
  then have "timers_inv c" unfolding assms(1) by (rule conn_machine.run_inv)
  then have "fst ` set (cn_timers c) = set (cn_armed c)" by (metis list.set_map timers_inv_def)
  moreover have "cn_closed (close_timers ts d) = cn_closed d" for ts and d :: "'a conn"
    by (induction ts d rule: close_timers.induct) (simp_all add: Let_def conn_clearTimeout_def)
  ultimately show ?thesis
    using assms(2) by (simp add: close_event_def close_timers_result isClosed_def)
qed

lemma close_ends_timers_witness:
  "cn_ran (conn_step (foldl conn_step (new_conn []) [SetTimeout ''a'' True, SetInterval ''b'' False]) CloseEvent) = [''a'']"
  using close_ends_timers [OF refl, where nm = "[]" and es = "[SetTimeout ''a'' True, SetInterval ''b'' False]"]
  by (simp add: new_conn_def conn_setTimeout_def conn_setInterval_def host_timer_def)

text \<open>
  The close handler that \<open>replaceTransport\<close> itself attaches clears no timer, unlike that of the constructor:
  \<open>ClientCore.attachClientTransport\<close> has to add (and does add) a handler of its own that does.
\<close>

theorem replaced_close_keeps_timers:
  "cn_armed (conn_step (conn_step c ReplaceTransport) CloseEvent) = cn_armed c
   \<and> cn_timers (conn_step (conn_step c ReplaceTransport) CloseEvent) = cn_timers c
   \<and> cn_ran (conn_step (conn_step c ReplaceTransport) CloseEvent) = cn_ran c
   \<and> isClosed (conn_step (conn_step c ReplaceTransport) CloseEvent)"
  by (simp add: replaceTransport_def close_event_def isClosed_def)



end
