(* ===== verification/Middleware.thy ===== *)
theory Middleware
  imports Js_Value "HOL-Library.AList"
begin

text \<open>
  \<open>projects/ts/src/ws/PacketProcessor.ts\<close> and the two middlewares the library ships,
  \<open>debug/Metrics.ts\<close> and \<open>debug/PacketLogger.ts\<close>. A middleware is a partial table of hooks; a hook may
  throw, answers whether its result was truthy, and changes a state \<open>'s\<close> of its own world. A hook that
  adds middleware while it runs is not modelled.
\<close>

section \<open>The holder\<close>

type_synonym ('m, 'a, 's) hooks = "'m \<Rightarrow> ('a \<Rightarrow> ('s, bool) st_result) option"

record ('m, 'a, 's) middleware =
  mw_init :: "('s, unit) st_result option"
  mw_hooks :: "('m, 'a, 's) hooks"

definition addMiddleware ::
  "('m, 'a, 's) middleware \<Rightarrow> ('m, 'a, 's) middleware list \<times> 's \<Rightarrow> ('m, 'a, 's) middleware list \<times> 's" where
  "addMiddleware mw st =
     (case st of (mws, s) \<Rightarrow> (mws @ [mw], case mw_init mw of None \<Rightarrow> s | Some f \<Rightarrow> snd (f s)))"

fun call_hooks :: "bool \<Rightarrow> 'm \<Rightarrow> 'a \<Rightarrow> ('m, 'a, 's) middleware list \<Rightarrow> 's \<Rightarrow> bool \<times> 's" where
  "call_hooks cancelled m args [] s = (cancelled, s)"
| "call_hooks cancelled m args (mw # mws) s =
     (case mw_hooks mw m of
        None \<Rightarrow> call_hooks cancelled m args mws s
      | Some fn \<Rightarrow>
          (case fn args s of
             (Inl e, s') \<Rightarrow> call_hooks cancelled m args mws s'
           | (Inr truthy, s') \<Rightarrow> call_hooks (if truthy then True else cancelled) m args mws s'))"

definition callMiddleware :: "('m, 'a, 's) middleware list \<Rightarrow> 'm \<Rightarrow> 'a \<Rightarrow> 's \<Rightarrow> bool \<times> 's" where
  "callMiddleware mws m args s = call_hooks False m args mws s"

text \<open>One hook on its own, and the state every hook of a list leaves behind.\<close>

definition hook_result :: "'m \<Rightarrow> 'a \<Rightarrow> ('m, 'a, 's) middleware \<Rightarrow> 's \<Rightarrow> bool \<times> 's" where
  "hook_result m args mw s =
     (case mw_hooks mw m of
        None \<Rightarrow> (False, s)
      | Some fn \<Rightarrow> (case fn args s of (Inl _, s') \<Rightarrow> (False, s') | (Inr b, s') \<Rightarrow> (b, s')))"

definition after_hooks :: "'m \<Rightarrow> 'a \<Rightarrow> ('m, 'a, 's) middleware list \<Rightarrow> 's \<Rightarrow> 's" where
  "after_hooks m args mws s = foldl (\<lambda>s mw. snd (hook_result m args mw s)) s mws"

lemma call_hooks_Cons:
  "call_hooks c m args (mw # mws) s =
     call_hooks (c \<or> fst (hook_result m args mw s)) m args mws (snd (hook_result m args mw s))"
  by (cases c) (auto simp: hook_result_def split: option.split prod.split sum.split)

lemma list_ex_Suc_upt: "list_ex P [0 ..< Suc n] \<longleftrightarrow> P 0 \<or> list_ex (\<lambda>i. P (Suc i)) [0 ..< n]"
  by (auto simp: list_ex_iff less_Suc_eq_0_disj Bex_def simp del: upt_Suc)

text \<open>
  \<open>callMiddleware\<close> runs the hook of every middleware in order, each in the state the previous ones
  left: a hook that throws or cancels never keeps a later one from running, and the call is cancelled
  exactly when some hook answered something truthy where it ran.
\<close>

theorem middleware_all_run:
  "callMiddleware mws m args s =
     (list_ex (\<lambda>i. fst (hook_result m args (mws ! i) (after_hooks m args (take i mws) s))) [0 ..< length mws],
      after_hooks m args mws s)"
proof -
  have "call_hooks c m args mws s =
     (c \<or> list_ex (\<lambda>i. fst (hook_result m args (mws ! i) (after_hooks m args (take i mws) s))) [0 ..< length mws],
      after_hooks m args mws s)" for c
  proof (induction mws arbitrary: c s)
    case Nil
    then show ?case by (simp add: after_hooks_def)
  next
    case (Cons mw mws)
    show ?case
      unfolding call_hooks_Cons Cons.IH
      by (simp add: after_hooks_def list_ex_Suc_upt del: upt_Suc)
  qed
  then show ?thesis by (simp add: callMiddleware_def)
qed

section \<open>Metrics\<close>

type_synonym metric = "nat \<times> nat"

record metrics =
  mt_sent :: "(jsstr \<times> metric) list"
  mt_received :: "(jsstr \<times> metric) list"
  mt_broadcasts :: "(jsstr \<times> metric) list"
  mt_closes :: "(jsstr \<times> nat) list"
  mt_sendErrors :: "(jsstr \<times> nat) list"
  mt_volatileDrops :: "(jsstr \<times> nat) list"

definition emptyMetric :: metric where
  "emptyMetric = (0, 0)"

definition addMetric :: "jsstr \<Rightarrow> nat \<Rightarrow> (jsstr \<times> metric) list \<Rightarrow> (jsstr \<times> metric) list" where
  "addMetric tg bytes target =
     (case (case map_of target tg of None \<Rightarrow> emptyMetric | Some c \<Rightarrow> c) of
        (n, b) \<Rightarrow> AList.update tg (n + 1, b + bytes) target)"

definition addCount :: "jsstr \<Rightarrow> (jsstr \<times> nat) list \<Rightarrow> (jsstr \<times> nat) list" where
  "addCount k target = AList.update k ((case map_of target k of None \<Rightarrow> 0 | Some n \<Rightarrow> n) + 1) target"

definition no_metrics :: metrics where
  "no_metrics = \<lparr>mt_sent = [], mt_received = [], mt_broadcasts = [], mt_closes = [], mt_sendErrors = [],
     mt_volatileDrops = []\<rparr>"

datatype metric_event =
    SendPost jsstr nat
  | ReceivePre jsstr nat
  | BroadcastPost jsstr nat
  | ClientDisconnect nat
  | RecordSendError jsstr
  | RecordVolatileDrop jsstr
  | Reset

fun metric_step :: "metrics \<Rightarrow> metric_event \<Rightarrow> metrics" where
  "metric_step m (SendPost tg n) = m\<lparr>mt_sent := addMetric tg (n + 1) (mt_sent m)\<rparr>"
| "metric_step m (ReceivePre tg n) = m\<lparr>mt_received := addMetric tg (n + 1) (mt_received m)\<rparr>"
| "metric_step m (BroadcastPost tg n) = m\<lparr>mt_broadcasts := addMetric tg (n + 1) (mt_broadcasts m)\<rparr>"
| "metric_step m (ClientDisconnect code) = m\<lparr>mt_closes := addCount (js_of_nat code) (mt_closes m)\<rparr>"
| "metric_step m (RecordSendError tg) = m\<lparr>mt_sendErrors := addCount tg (mt_sendErrors m)\<rparr>"
| "metric_step m (RecordVolatileDrop tg) = m\<lparr>mt_volatileDrops := addCount tg (mt_volatileDrops m)\<rparr>"
| "metric_step m Reset = no_metrics"

text \<open>\<open>snapshot\<close> turns the tables into plain objects: maps, whose own records later events do not change.\<close>

record metrics_snapshot =
  ms_sent :: "jsstr \<rightharpoonup> metric"
  ms_received :: "jsstr \<rightharpoonup> metric"
  ms_broadcasts :: "jsstr \<rightharpoonup> metric"
  ms_closes :: "jsstr \<rightharpoonup> nat"
  ms_sendErrors :: "jsstr \<rightharpoonup> nat"
  ms_volatileDrops :: "jsstr \<rightharpoonup> nat"

definition snapshot :: "metrics \<Rightarrow> metrics_snapshot" where
  "snapshot m = \<lparr>ms_sent = map_of (mt_sent m), ms_received = map_of (mt_received m),
     ms_broadcasts = map_of (mt_broadcasts m), ms_closes = map_of (mt_closes m),
     ms_sendErrors = map_of (mt_sendErrors m), ms_volatileDrops = map_of (mt_volatileDrops m)\<rparr>"

fun since_reset :: "metric_event list \<Rightarrow> metric_event list" where
  "since_reset [] = []"
| "since_reset (e # es) = (if Reset \<in> set (e # es) then since_reset es else e # es)"

lemma since_reset_id: "Reset \<notin> set es \<Longrightarrow> since_reset es = es"
  by (cases es) auto

lemma since_reset_snoc: "since_reset (es @ [e]) = (if e = Reset then [] else since_reset es @ [e])"
  by (induction es) auto

text \<open>The sizes of the events of one kind and tag, and what the counters should show for them.\<close>

definition sizes :: "(metric_event \<Rightarrow> nat option) \<Rightarrow> metric_event list \<Rightarrow> nat list" where
  "sizes f es = concat (map (\<lambda>e. case f e of None \<Rightarrow> [] | Some n \<Rightarrow> [n]) es)"

definition sent_of :: "jsstr \<Rightarrow> metric_event \<Rightarrow> nat option" where
  "sent_of tg e = (case e of SendPost t n \<Rightarrow> if t = tg then Some n else None | _ \<Rightarrow> None)"

definition received_of :: "jsstr \<Rightarrow> metric_event \<Rightarrow> nat option" where
  "received_of tg e = (case e of ReceivePre t n \<Rightarrow> if t = tg then Some n else None | _ \<Rightarrow> None)"

definition broadcast_of :: "jsstr \<Rightarrow> metric_event \<Rightarrow> nat option" where
  "broadcast_of tg e = (case e of BroadcastPost t n \<Rightarrow> if t = tg then Some n else None | _ \<Rightarrow> None)"

definition traffic :: "nat list \<Rightarrow> metric option" where
  "traffic ns = (if ns = [] then None else Some (length ns, sum_list ns + length ns))"

definition tally :: "nat \<Rightarrow> nat option" where
  "tally n = (if n = 0 then None else Some n)"

lemma selector_simps [simp]:
  "sent_of tg (SendPost t n) = (if t = tg then Some n else None)"
  "sent_of tg (ReceivePre t n) = None" "sent_of tg (BroadcastPost t n) = None"
  "sent_of tg (ClientDisconnect c) = None" "sent_of tg (RecordSendError t) = None"
  "sent_of tg (RecordVolatileDrop t) = None"
  "received_of tg (ReceivePre t n) = (if t = tg then Some n else None)"
  "received_of tg (SendPost t n) = None" "received_of tg (BroadcastPost t n) = None"
  "received_of tg (ClientDisconnect c) = None" "received_of tg (RecordSendError t) = None"
  "received_of tg (RecordVolatileDrop t) = None"
  "broadcast_of tg (BroadcastPost t n) = (if t = tg then Some n else None)"
  "broadcast_of tg (SendPost t n) = None" "broadcast_of tg (ReceivePre t n) = None"
  "broadcast_of tg (ClientDisconnect c) = None" "broadcast_of tg (RecordSendError t) = None"
  "broadcast_of tg (RecordVolatileDrop t) = None"
  by (simp_all add: sent_of_def received_of_def broadcast_of_def)

lemma sizes_simps [simp]: "sizes f [] = []"
  "sizes f (es @ [e]) = sizes f es @ (case f e of None \<Rightarrow> [] | Some n \<Rightarrow> [n])"
  by (simp_all add: sizes_def)

lemma addMetric_traffic:
  "map_of al = (\<lambda>tg. traffic (ns tg)) \<Longrightarrow>
   map_of (addMetric t (Suc n) al) = (\<lambda>tg. traffic (ns tg @ (if t = tg then [n] else [])))"
  by (rule ext) (auto simp: addMetric_def emptyMetric_def traffic_def update_conv' split: option.split prod.split)

lemma addCount_tally:
  "map_of al = (\<lambda>k. tally (n k)) \<Longrightarrow>
   map_of (addCount j al) = (\<lambda>k. tally (if j = k then Suc (n k) else n k))"
  by (rule ext) (auto simp: addCount_def tally_def update_conv' split: option.split)

lemma empty_totals [simp]: "traffic [] = None" "tally 0 = None"
  by (simp_all add: traffic_def tally_def)

text \<open>
  At any moment the snapshot shows, for every tag, the number of packets and bytes (header byte
  included) sent, received and broadcast since the last \<open>reset\<close>, and for every close code and tag the
  number of closes, failed sends and dropped volatile sends; a tag without an event has no entry.
\<close>

theorem metrics_totals:
  "snapshot (foldl metric_step no_metrics es) =
     \<lparr>ms_sent = (\<lambda>tg. traffic (sizes (sent_of tg) (since_reset es))),
      ms_received = (\<lambda>tg. traffic (sizes (received_of tg) (since_reset es))),
      ms_broadcasts = (\<lambda>tg. traffic (sizes (broadcast_of tg) (since_reset es))),
      ms_closes = (\<lambda>k. tally (length (filter (\<lambda>e. \<exists>c. e = ClientDisconnect c \<and> js_of_nat c = k) (since_reset es)))),
      ms_sendErrors = (\<lambda>tg. tally (count_list (since_reset es) (RecordSendError tg))),
      ms_volatileDrops = (\<lambda>tg. tally (count_list (since_reset es) (RecordVolatileDrop tg)))\<rparr>"
proof (induction es rule: rev_induct)
  case Nil
  then show ?case by (simp add: snapshot_def no_metrics_def)
next
  case (snoc e es)
  then show ?case
    by (cases e, simp_all add: snapshot_def since_reset_snoc addMetric_traffic addCount_tally no_metrics_def)
      (rule ext, simp)+
qed

section \<open>The packet logger\<close>

text \<open>
  \<open>lg_values\<close> is the payload of an entry: \<open>None\<close> is \<open>undefined\<close>. The clock is the environment's.
\<close>

record 'v log_entry =
  lg_send :: bool
  lg_tag :: jsstr
  lg_values :: "'v option"
  lg_bytes :: nat
  lg_time :: nat

record 'v packet_logger =
  pl_includeValues :: bool
  pl_sends :: "jsstr \<rightharpoonup> 'v"
  pl_receiveSizes :: "jsstr \<rightharpoonup> nat list"
  pl_entries :: "'v log_entry list"

definition new_logger :: "bool option \<Rightarrow> 'v packet_logger" where
  "new_logger includeValues =
     \<lparr>pl_includeValues = (case includeValues of None \<Rightarrow> True | Some b \<Rightarrow> b), pl_sends = Map.empty,
      pl_receiveSizes = Map.empty, pl_entries = []\<rparr>"

definition log_emit :: "bool \<Rightarrow> jsstr \<Rightarrow> 'v option \<Rightarrow> nat \<Rightarrow> nat \<Rightarrow> 'v packet_logger \<Rightarrow> 'v packet_logger" where
  "log_emit send tg vals bytes now l =
     l\<lparr>pl_entries := pl_entries l @ [\<lparr>lg_send = send, lg_tag = tg,
         lg_values = (if pl_includeValues l then vals else None), lg_bytes = bytes, lg_time = now\<rparr>]\<rparr>"

definition log_send_pre :: "jsstr \<Rightarrow> 'v \<Rightarrow> 'v packet_logger \<Rightarrow> 'v packet_logger" where
  "log_send_pre tg vals l = l\<lparr>pl_sends := (pl_sends l)(tg \<mapsto> vals)\<rparr>"

definition log_send_post :: "jsstr \<Rightarrow> nat \<Rightarrow> nat \<Rightarrow> 'v packet_logger \<Rightarrow> 'v packet_logger" where
  "log_send_post tg n now l =
     (log_emit True tg (pl_sends l tg) (n + 1) now l)\<lparr>pl_sends := (pl_sends l)(tg := None)\<rparr>"

definition log_receive_pre :: "jsstr \<Rightarrow> nat \<Rightarrow> 'v packet_logger \<Rightarrow> 'v packet_logger" where
  "log_receive_pre tg n l =
     l\<lparr>pl_receiveSizes := (pl_receiveSizes l)
        (tg \<mapsto> (case pl_receiveSizes l tg of None \<Rightarrow> [] | Some q \<Rightarrow> q) @ [n + 1])\<rparr>"

definition log_receive_post :: "jsstr \<Rightarrow> 'v \<Rightarrow> nat \<Rightarrow> 'v packet_logger \<Rightarrow> 'v packet_logger" where
  "log_receive_post tg vals now l =
     (case pl_receiveSizes l tg of
        None \<Rightarrow> log_emit False tg (Some vals) 0 now l
      | Some q \<Rightarrow>
          (log_emit False tg (Some vals) (case q of [] \<Rightarrow> 0 | n # _ \<Rightarrow> n) now l)
            \<lparr>pl_receiveSizes := (pl_receiveSizes l)(tg := (if tl q = [] then None else Some (tl q)))\<rparr>)"

text \<open>
  Two overlapping sends of one packet are logged with the wrong values: the first entry carries the
  values of the second send, and the second entry none.
\<close>

theorem logger_overlapping_sends:
  "map lg_values (pl_entries (log_send_post tg m t2 (log_send_post tg n t1 (log_send_pre tg b (log_send_pre tg a
     (new_logger None)))))) = [Some b, None]"
  by (simp add: log_send_pre_def log_send_post_def log_emit_def new_logger_def)

end
