(* ===== verification/Server_Connection.thy ===== *)
theory Server_Connection
  imports Batching Rate_Limit Transport Middleware
begin

text \<open>
  One client as the server sees it: \<open>projects/ts/src/ws/server/SonicWSConnection.ts\<close>, composed of the
  transport, rate counters and batcher of the imported theories.

  Every \<open>await\<close> of the source is a program counter of a task: \<open>messageHandler\<close> and the RPC part of
  \<open>handleControl\<close> run up to their next await, and an event of the environment resumes one task with
  the answer it waited for (a hook's result, a listener's failure, a responder's value). A whole loop
  of awaited listeners is one program counter. Any order of events is allowed. Printing is left out.
\<close>

section \<open>State\<close>

record server_host =
  sh_client :: holder
  sh_server :: holder
  sh_lib :: js_lib
  sh_core :: native_core
  sh_ctors :: ctor_registry
  sh_validators :: "jsstr \<Rightarrow> validator option"

datatype sc_callback = HandshakeTimeout | RateReset | BatchFlush nat

type_synonym listened = "string + jsval \<times> bool"
type_synonym message = "jsstr \<times> u8 list"

datatype recv_pc =
    AtPre
  | AtListen
  | AtUnravel
  | AtDeliver listened "listened list"
  | AtPost listened "listened list"
  | AtNext "listened list"

datatype rpc_pc =
    RpcPre "u8 list"
  | RpcListen "u8 list"
  | RpcRun "jsval list"

datatype sc_phase = Open | AwaitHandshake | Handshaked

record lane =
  ln_lock :: bool
  ln_queue :: "message list"

text \<open>How a request's promise was settled; \<open>Rejected v\<close> is an error with the text of \<open>v\<close>.\<close>

datatype settlement = Resolved jsval | Rejected jsval | Failed js_error

datatype host_call = ResumeSession jsstr nat

record server_conn =
  sc_conn :: "sc_callback conn"
  sc_rater :: rater
  sc_batcher :: batcher
  sc_phase :: sc_phase
  sc_handshakePacket :: "jsstr option"
  sc_handshakeComplete :: bool
  sc_enabled :: "jsstr \<rightharpoonup> bool"
  sc_async :: "jsstr \<rightharpoonup> bool"
  sc_lanes :: "jsstr option \<Rightarrow> lane"
  sc_lastReceived :: "jsstr \<rightharpoonup> listened"
  sc_listeners :: "jsstr \<rightharpoonup> nat"
  sc_responders :: "jsstr set"
  sc_tasks :: "(message \<times> recv_pc) list"
  sc_rpcs :: "(nat \<times> jsstr \<times> rpc_pc) list"
  sc_nextRequestId :: nat
  sc_pending :: "(nat \<times> nat) list"
  sc_settled :: "(nat \<times> settlement) list"
  sc_handed :: "message list"
  sc_started :: "message list"
  sc_log :: "(bool \<times> message \<times> listened) list"
  sc_hostCalls :: "host_call list"
  sc_rejections :: "js_error list"

text \<open>
  \<open>sc_pending\<close> lists the open requests with their packet keys; a request's host timer is armed as long as it
  is listed. The last group is observed, not kept by the code: promises settled, messages handed to \<open>messageHandler\<close>, those
  whose handler took the lock, the begin (\<open>True\<close>) and end of each run of listeners, calls of the server
  object, and rejections nobody handles.
\<close>

section \<open>Sending\<close>

definition sock_close :: "close_code \<Rightarrow> server_conn \<Rightarrow> server_conn" where
  "sock_close code sc =
     sc\<lparr>sc_conn := (sc_conn sc)\<lparr>cn_closes := cn_closes (sc_conn sc) @ [(code_number code, [])]\<rparr>\<rparr>"

definition sc_close :: "close_code \<Rightarrow> jsstr \<Rightarrow> server_conn \<Rightarrow> server_conn" where
  "sc_close code reason sc = sc\<lparr>sc_conn := conn_close (code_number code) reason (sc_conn sc)\<rparr>"

definition sc_trigger :: "jsstr \<Rightarrow> server_conn \<Rightarrow> bool \<times> server_conn" where
  "sc_trigger tg sc =
     (case trigger tg (sc_rater sc) of
        (exceeded, r) \<Rightarrow>
          (exceeded, if exceeded then sock_close RATELIMIT (sc\<lparr>sc_rater := r\<rparr>) else sc\<lparr>sc_rater := r\<rparr>))"

definition raw_send :: "u8 list \<Rightarrow> (server_conn, unit) st_result" where
  "raw_send data sc =
     (if isClosed (sc_conn sc) then (Inr (), sc)
      else (case sc_trigger (js ''S'') sc of
              (True, sc') \<Rightarrow> (Inr (), sc')
            | (False, sc') \<Rightarrow>
                (case base_raw_send data (sc_conn sc') of (r, c) \<Rightarrow> (r, sc'\<lparr>sc_conn := c\<rparr>))))"

definition host_interval :: "sc_callback \<Rightarrow> server_conn \<Rightarrow> server_conn" where
  "host_interval call sc = sc\<lparr>sc_conn := snd (conn_setInterval call False (sc_conn sc))\<rparr>"

text \<open>\<open>batchPacket\<close>, whose interval is one of the connection's.\<close>

definition sc_batch :: "nat \<Rightarrow> u8 list \<Rightarrow> (server_conn, unit) st_result" where
  "sc_batch code data sc =
     (case batchPacket code data (sc_batcher sc) of
        (r, b) \<Rightarrow>
          (r, if bt_next b = bt_next (sc_batcher sc) then sc\<lparr>sc_batcher := b\<rparr>
              else host_interval (BatchFlush (bt_next (sc_batcher sc))) (sc\<lparr>sc_batcher := b\<rparr>)))"

text \<open>The frame \<open>replayFrame\<close> of the server object makes of a replayable packet is its argument \<open>wrap\<close>.\<close>

definition send_processed ::
  "(u8 list \<Rightarrow> u8 list) \<Rightarrow> nat \<Rightarrow> u8 list \<Rightarrow> packet \<Rightarrow> (server_conn, unit) st_result" where
  "send_processed wrap code data p sc =
     (case sc_trigger (js ''server'' @ js_of_nat code) sc of
        (True, sc') \<Rightarrow> (Inr (), sc')
      | (False, sc') \<Rightarrow>
          if pk_dataBatching p = Some 0
          then raw_send (if pk_replay p then wrap (toPacketBuffer code data) else toPacketBuffer code data) sc'
          else sc_batch code data sc')"

definition run_flush :: "native_core \<Rightarrow> nat \<Rightarrow> server_conn \<Rightarrow> server_conn" where
  "run_flush core i sc =
     (case map_of (bt_intervals (sc_batcher sc)) i of
        None \<Rightarrow> sc
      | Some code \<Rightarrow>
          let b = interval_callback core code True (sc_batcher sc)
          in if length (bt_log b) = length (bt_log (sc_batcher sc)) then sc
             else (case last (bt_log b) of (_, _, frame) \<Rightarrow>
                     (case raw_send frame sc of
                        (Inl e, sc') \<Rightarrow> sc'\<lparr>sc_rejections := sc_rejections sc' @ [e]\<rparr>
                      | (Inr _, sc') \<Rightarrow> sc'\<lparr>sc_batcher := b\<rparr>)))"

text \<open>A host timer of the connection fires.\<close>

definition run_callback :: "native_core \<Rightarrow> sc_callback \<Rightarrow> server_conn \<Rightarrow> server_conn" where
  "run_callback core call sc =
     (case call of
        HandshakeTimeout \<Rightarrow>
          if sc_handshakeComplete sc then sc
          else sc_close INVALID_DATA (js ''Application handshake timed out'') sc
      | RateReset \<Rightarrow> sc\<lparr>sc_rater := rate_reset (sc_rater sc)\<rparr>
      | BatchFlush i \<Rightarrow> run_flush core i sc)"

definition timer_fires :: "native_core \<Rightarrow> nat \<Rightarrow> server_conn \<Rightarrow> server_conn" where
  "timer_fires core i sc =
     (case map_of (cn_timers (sc_conn sc)) i of
        None \<Rightarrow> sc
      | Some (call, _) \<Rightarrow>
          let sc' = run_callback core call sc
          in if call = HandshakeTimeout then sc'\<lparr>sc_conn := conn_clearTimeout i (sc_conn sc')\<rparr> else sc')"

section \<open>Construction\<close>

definition empty_lane :: lane where
  "empty_lane = \<lparr>ln_lock = False, ln_queue = []\<rparr>"

definition register_client_packet :: "server_conn \<Rightarrow> packet \<Rightarrow> server_conn" where
  "register_client_packet sc p =
     sc\<lparr>sc_listeners := (sc_listeners sc)(pk_tag p \<mapsto> 0),
        sc_lastReceived := (sc_lastReceived sc)(pk_tag p := None),
        sc_enabled := (sc_enabled sc)(pk_tag p \<mapsto> pk_enabled p),
        sc_async := (sc_async sc)(pk_tag p \<mapsto> pk_async p)\<rparr>"

definition blank_server_conn :: "jsstr \<Rightarrow> jsstr option \<Rightarrow> server_conn" where
  "blank_server_conn nm handshake =
     \<lparr>sc_conn = new_conn nm, sc_rater = new_rater, sc_batcher = new_batcher,
      sc_phase = (if handshake = None then Open else AwaitHandshake), sc_handshakePacket = handshake,
      sc_handshakeComplete = False, sc_enabled = Map.empty, sc_async = Map.empty, sc_lanes = (\<lambda>_. empty_lane),
      sc_lastReceived = Map.empty, sc_listeners = Map.empty, sc_responders = {}, sc_tasks = [], sc_rpcs = [],
      sc_nextRequestId = 1, sc_pending = [], sc_settled = [], sc_handed = [], sc_started = [], sc_log = [],
      sc_hostCalls = [], sc_rejections = []\<rparr>"

definition new_server_conn ::
  "server_host \<Rightarrow> nat \<Rightarrow> jsstr option \<Rightarrow> int \<Rightarrow> int \<Rightarrow> server_conn result" where
  "new_server_conn host i handshake clientRateLimit serverRateLimit =
     (let sc = foldl register_client_packet (blank_server_conn (js ''Socket '' @ js_of_nat i) handshake)
                 (ph_packets (sh_client host))
      in bindR (registerSendPackets (sh_server host) (sc_batcher sc)) (\<lambda>b.
         bindR (registerAll (sh_client host) (js ''client'')
                  (registerRate (js ''S'') serverRateLimit
                    (registerRate (js ''C'') clientRateLimit (sc_rater sc)))) (\<lambda>r1.
         bindR (registerAll (sh_server host) (js ''server'') r1) (\<lambda>r2.
           let sc1 = sc\<lparr>sc_batcher := b, sc_rater := r2\<rparr>;
               sc2 = (if rate_started r2 then host_interval RateReset sc1 else sc1)
           in Inr (if handshake = None then sc2
                   else sc2\<lparr>sc_conn := snd (conn_setTimeout HandshakeTimeout False (sc_conn sc2))\<rparr>)))))"

section \<open>Reading frames\<close>

datatype ws_data = Binary "u8 list" | NotBinary

definition isControl :: "ws_data \<Rightarrow> bool" where
  "isControl d = (case d of Binary (b # _) \<Rightarrow> b = 0 | _ \<Rightarrow> False)"

definition parseData :: "server_host \<Rightarrow> ws_data \<Rightarrow> server_conn \<Rightarrow> message option \<times> server_conn" where
  "parseData host d sc =
     (case sc_trigger (js ''C'') sc of
        (True, sc1) \<Rightarrow> (None, sc1)
      | (False, sc1) \<Rightarrow>
          (case d of
             NotBinary \<Rightarrow> (None, sc1)
           | Binary [] \<Rightarrow> (None, sock_close SMALL sc1)
           | Binary (key # val) \<Rightarrow>
               (case getTag (sh_client host) (unat key) of
                  None \<Rightarrow> (None, sock_close INVALID_KEY sc1)
                | Some tg \<Rightarrow>
                    if sc_enabled sc1 tg \<noteq> Some True then (None, sock_close DISABLED_PACKET sc1)
                    else (case sc_trigger (js ''client'' @ js_of_nat (unat key)) sc1 of
                            (True, sc2) \<Rightarrow> (None, sc2)
                          | (False, sc2) \<Rightarrow> (Some (tg, val), sc2)))))"

section \<open>Handling messages\<close>

definition isAsync :: "server_conn \<Rightarrow> jsstr \<Rightarrow> bool" where
  "isAsync sc tg \<longleftrightarrow> sc_async sc tg = Some True"

text \<open>Async packets have a lock and a queue of their own, all others share one.\<close>

definition lane_of :: "server_conn \<Rightarrow> jsstr \<Rightarrow> jsstr option" where
  "lane_of sc tg = (if isAsync sc tg then Some tg else None)"

definition set_lane :: "jsstr option \<Rightarrow> lane \<Rightarrow> server_conn \<Rightarrow> server_conn" where
  "set_lane l x sc = sc\<lparr>sc_lanes := (sc_lanes sc)(l := x)\<rparr>"

definition set_lock :: "jsstr option \<Rightarrow> bool \<Rightarrow> server_conn \<Rightarrow> server_conn" where
  "set_lock l b sc = set_lane l ((sc_lanes sc l)\<lparr>ln_lock := b\<rparr>) sc"

definition add_task :: "message \<Rightarrow> recv_pc \<Rightarrow> server_conn \<Rightarrow> server_conn" where
  "add_task m pc sc = sc\<lparr>sc_tasks := sc_tasks sc @ [(m, pc)]\<rparr>"

text \<open>\<open>messageHandler\<close> up to its first await: wait behind the lock, or take it and ask the hooks.\<close>

definition start_message :: "message \<Rightarrow> server_conn \<Rightarrow> server_conn" where
  "start_message m sc =
     (let l = lane_of sc (fst m); x = sc_lanes sc l
      in if ln_lock x then set_lane l (x\<lparr>ln_queue := ln_queue x @ [m]\<rparr>) sc
         else add_task m AtPre ((set_lock l True sc)\<lparr>sc_started := sc_started sc @ [m]\<rparr>))"

definition messageHandler :: "message \<Rightarrow> server_conn \<Rightarrow> server_conn" where
  "messageHandler m sc = start_message m (sc\<lparr>sc_handed := sc_handed sc @ [m]\<rparr>)"

definition releasePacketLock :: "jsstr \<Rightarrow> server_conn \<Rightarrow> server_conn" where
  "releasePacketLock tg sc =
     (let l = lane_of sc tg; sc1 = set_lock l False sc
      in case ln_queue (sc_lanes sc1 l) of
           [] \<Rightarrow> sc1
         | m # ms \<Rightarrow> start_message m (set_lane l ((sc_lanes sc1 l)\<lparr>ln_queue := ms\<rparr>) sc1))"

definition invalidPacket :: "string \<Rightarrow> server_conn \<Rightarrow> server_conn" where
  "invalidPacket listened sc =
     sc\<lparr>sc_conn := (sc_conn sc)\<lparr>cn_closes := cn_closes (sc_conn sc) @ [(code_number INVALID_PACKET, js listened)]\<rparr>\<rparr>"

text \<open>
  \<open>deliverPacket\<close> up to the end of its listeners. A closed connection delivers nothing and keeps the
  lock; a message in place of values closes the socket and runs no listener.
\<close>

definition deliver :: "message \<Rightarrow> listened \<Rightarrow> listened list \<Rightarrow> server_conn \<Rightarrow> server_conn" where
  "deliver m r rest sc =
     (if cn_closed (sc_conn sc) then (if rest = [] then sc else add_task m (AtNext rest) sc)
      else add_task m (AtDeliver r rest)
        (case r of
           Inl msg \<Rightarrow> invalidPacket msg sc
         | Inr _ \<Rightarrow> sc\<lparr>sc_log := sc_log sc @ [(True, m, r)]\<rparr>))"

text \<open>
  The answer a task waited for: whether a hook cancelled, what a listener of the packet threw, whether a
  listener of its group threw.
\<close>

record answer =
  an_cancelled :: bool
  an_listenerThrew :: "string option"
  an_parentThrew :: bool

definition group_listening :: "packet \<Rightarrow> server_conn \<Rightarrow> bool" where
  "group_listening p sc \<longleftrightarrow> truthy_str (pk_parent p) \<and> truthy_str (pk_variant p)
     \<and> sc_listeners sc (the (pk_parent p)) \<notin> {None, Some 0}"

definition end_deliver :: "packet \<Rightarrow> message \<Rightarrow> listened \<Rightarrow> listened list \<Rightarrow> answer \<Rightarrow> server_conn \<Rightarrow> server_conn" where
  "end_deliver p m r rest a sc =
     (case r of
        Inl msg \<Rightarrow> add_task m (AtPost r rest) sc
      | Inr _ \<Rightarrow>
          let sc1 = sc\<lparr>sc_log := sc_log sc @ [(False, m, r)]\<rparr>;
              sc2 = (case an_listenerThrew a of None \<Rightarrow> sc1 | Some msg \<Rightarrow> invalidPacket msg sc1)
          in if group_listening p sc2 \<and> an_parentThrew a
             then sc2\<lparr>sc_rejections := sc_rejections sc2 @ [Error ''listener'']\<rparr>
             else add_task m (AtPost r rest) sc2)"

definition resume_task :: "server_host \<Rightarrow> answer \<Rightarrow> message \<Rightarrow> packet \<Rightarrow> recv_pc \<Rightarrow> server_conn \<Rightarrow> server_conn" where
  "resume_task host a m p pc sc =
     (case pc of
        AtPre \<Rightarrow>
          if an_cancelled a then releasePacketLock (fst m) sc
          else if pk_rereference p \<and> snd m = [] then
            (case sc_lastReceived sc (fst m) of
               None \<Rightarrow> invalidPacket ''No previous value to rereference'' sc
             | Some r \<Rightarrow> deliver m r [] sc)
          else if pk_dataBatching p = Some 0 then add_task m AtListen sc
          else add_task m AtUnravel sc
      | AtListen \<Rightarrow>
          let r = listen (sh_lib host) (sh_core host) (sh_ctors host) p (sh_validators host (fst m)) (snd m)
          in deliver m r [] (sc\<lparr>sc_lastReceived := (sc_lastReceived sc)(fst m \<mapsto> r)\<rparr>)
      | AtUnravel \<Rightarrow>
          (case unravelBatch (sh_lib host) (sh_core host) (sh_ctors host) p (sh_validators host (fst m)) (snd m) of
             Inl msg \<Rightarrow> invalidPacket msg sc
           | Inr [] \<Rightarrow> sc
           | Inr (r # rs) \<Rightarrow> deliver m (Inr r) (map Inr rs) (set_lock (lane_of sc (fst m)) True sc))
      | AtDeliver r rest \<Rightarrow> end_deliver p m r rest a sc
      | AtPost r rest \<Rightarrow>
          let sc1 = releasePacketLock (fst m) sc in if rest = [] then sc1 else add_task m (AtNext rest) sc1
      | AtNext rest \<Rightarrow>
          (case rest of
             [] \<Rightarrow> sc
           | r # rs \<Rightarrow> deliver m r rs (set_lock (lane_of sc (fst m)) True sc)))"

definition remove_at :: "nat \<Rightarrow> 'a list \<Rightarrow> 'a list" where
  "remove_at i xs = take i xs @ drop (Suc i) xs"

text \<open>\<open>getPacket\<close> of a tag that \<open>parseData\<close> accepted does not throw.\<close>

definition resume :: "server_host \<Rightarrow> nat \<Rightarrow> answer \<Rightarrow> server_conn \<Rightarrow> server_conn" where
  "resume host i a sc =
     (if i < length (sc_tasks sc) then
        (case sc_tasks sc ! i of
           (m, pc) \<Rightarrow>
             let sc1 = sc\<lparr>sc_tasks := remove_at i (sc_tasks sc)\<rparr>
             in case getPacket (sh_client host) (fst m) of
                  Inl e \<Rightarrow> sc1\<lparr>sc_rejections := sc_rejections sc1 @ [e]\<rparr>
                | Inr p \<Rightarrow> resume_task host a m p pc sc1)
      else sc)"

section \<open>Control frames and requests\<close>

definition sc_reject :: "js_error \<Rightarrow> server_conn \<Rightarrow> server_conn" where
  "sc_reject e sc = sc\<lparr>sc_rejections := sc_rejections sc @ [e]\<rparr>"

text \<open>A response that cannot be encoded or sent rejects the handler's promise.\<close>

definition send_response :: "nat \<Rightarrow> bool \<Rightarrow> jsval \<Rightarrow> (server_conn, unit) st_result" where
  "send_response i ok v sc =
     (case encodeControlResponse i ok v of Inl e \<Rightarrow> (Inl e, sc) | Inr frame \<Rightarrow> raw_send frame sc)"

definition error_message :: "js_error \<Rightarrow> jsstr" where
  "error_message e = (case e of Error m \<Rightarrow> js m | TypeError m \<Rightarrow> js m | RangeError m \<Rightarrow> js m)"

definition rpc_fails :: "nat \<Rightarrow> js_error \<Rightarrow> server_conn \<Rightarrow> server_conn" where
  "rpc_fails i e sc =
     (case send_response i False (JStr (error_message e)) sc of
        (Inl e', sc') \<Rightarrow> sc_reject e' sc'
      | (Inr _, sc') \<Rightarrow> sc')"

text \<open>\<open>pending.resolve\<close>/\<open>reject\<close> settles the promise of a request once and forgets it.\<close>

definition settle :: "nat \<Rightarrow> settlement \<Rightarrow> server_conn \<Rightarrow> server_conn" where
  "settle i r sc = sc\<lparr>sc_pending := AList.delete i (sc_pending sc), sc_settled := sc_settled sc @ [(i, r)]\<rparr>"

definition start_rpc :: "server_host \<Rightarrow> nat \<Rightarrow> nat \<Rightarrow> u8 list \<Rightarrow> server_conn \<Rightarrow> server_conn" where
  "start_rpc host i packetKey payload sc =
     (case getTag (sh_client host) packetKey of
        None \<Rightarrow> rpc_fails i (Error ''Unknown RPC packet key'') sc
      | Some tg \<Rightarrow>
          if tg = [] then rpc_fails i (Error ''Unknown RPC packet key'') sc
          else if sc_enabled sc tg \<noteq> Some True then sc_close DISABLED_PACKET (js ''Packet is disabled'') sc
          else (case sc_trigger (js ''client'' @ js_of_nat packetKey) sc of
                  (True, sc1) \<Rightarrow> sc_close RATELIMIT (js ''Packet exceeded its rate limit'') sc1
                | (False, sc1) \<Rightarrow> sc1\<lparr>sc_rpcs := sc_rpcs sc1 @ [(i, tg, RpcPre payload)]\<rparr>))"

definition handleControl :: "server_host \<Rightarrow> u8 list \<Rightarrow> server_conn \<Rightarrow> server_conn" where
  "handleControl host data sc =
     (if length data = 1 then sc
      else (case sc_trigger (js ''C'') sc of
        (True, sc1) \<Rightarrow> sc1
      | (False, sc1) \<Rightarrow>
          (case decodeControl data of
             Inl e \<Rightarrow> sc_close INVALID_DATA (js ''Malformed SonicWS control frame'') sc1
           | Inr ControlHeartbeat \<Rightarrow> sc1
           | Inr (ControlResume sessionId lastSequence) \<Rightarrow>
               sc1\<lparr>sc_hostCalls := sc_hostCalls sc1 @ [ResumeSession sessionId lastSequence]\<rparr>
           | Inr message \<Rightarrow>
               if \<not> sc_handshakeComplete sc1 \<and> sc_handshakePacket sc1 \<noteq> None
               then sc_close INVALID_DATA (js ''Handshake required before control requests'') sc1
               else (case message of
                   ControlResponse i ok v \<Rightarrow>
                     (if map_of (sc_pending sc1) i = None then sc1
                      else settle i (if ok then Resolved v else Rejected v) sc1)
                 | ControlRequest i packetKey payload \<Rightarrow> start_rpc host i packetKey payload sc1
                 | _ \<Rightarrow> sc_reject (Error ''A server cannot receive replay delivery frames'') sc1))))"

text \<open>What a responder is called with, and the answer it gives.\<close>

definition rpc_args :: "jsval \<times> bool \<Rightarrow> jsval list" where
  "rpc_args decoded = (case decoded of (JArr vs, True) \<Rightarrow> vs | (v, _) \<Rightarrow> [v])"

definition resume_rpc ::
  "server_host \<Rightarrow> nat \<Rightarrow> answer \<Rightarrow> jsval result \<Rightarrow> server_conn \<Rightarrow> server_conn" where
  "resume_rpc host j a responded sc =
     (if j < length (sc_rpcs sc) then
        (case sc_rpcs sc ! j of
           (i, tg, pc) \<Rightarrow>
             let sc1 = sc\<lparr>sc_rpcs := remove_at j (sc_rpcs sc)\<rparr>
             in case pc of
                  RpcPre payload \<Rightarrow>
                    if an_cancelled a then rpc_fails i (Error ''Packet was rejected by middleware'') sc1
                    else if tg \<notin> sc_responders sc1 then rpc_fails i (Error ''No responder registered for packet'') sc1
                    else sc1\<lparr>sc_rpcs := sc_rpcs sc1 @ [(i, tg, RpcListen payload)]\<rparr>
                | RpcListen payload \<Rightarrow>
                    (case getPacket (sh_client host) tg of
                       Inl e \<Rightarrow> rpc_fails i e sc1
                     | Inr p \<Rightarrow>
                         (case listen (sh_lib host) (sh_core host) (sh_ctors host) p (sh_validators host tg) payload of
                            Inl msg \<Rightarrow> rpc_fails i (Error msg) sc1
                          | Inr r \<Rightarrow> sc1\<lparr>sc_rpcs := sc_rpcs sc1 @ [(i, tg, RpcRun (rpc_args r))]\<rparr>))
                | RpcRun args \<Rightarrow>
                    (case responded of
                       Inl e \<Rightarrow> rpc_fails i e sc1
                     | Inr v \<Rightarrow>
                         (case send_response i True (if v = JUndef then JNull else v) sc1 of
                            (Inl e, sc2) \<Rightarrow> rpc_fails i e sc2
                          | (Inr _, sc2) \<Rightarrow> sc2)))
      else sc)"

text \<open>
  \<open>request\<close> once \<open>processPacket\<close> gave the key and payload; the result is the identifier of the promise.
  A throw inside the promise's executor rejects it but leaves it in the table.
\<close>

definition request :: "nat \<Rightarrow> u8 list \<Rightarrow> (server_conn, nat) st_result" where
  "request packetKey payload sc =
     (case sc_trigger (js ''server'' @ js_of_nat packetKey) sc of
        (True, sc1) \<Rightarrow> (Inl (Error ''Packet exceeded its rate limit''), sc1)
      | (False, sc1) \<Rightarrow>
          let i = sc_nextRequestId sc1; n = i + 1;
              sc2 = sc1\<lparr>sc_nextRequestId := (if n > 2 ^ 31 - 1 then 1 else n),
                        sc_pending := AList.update i packetKey (sc_pending sc1)\<rparr>
          in (case encodeControlRequest i packetKey payload of
                Inl e \<Rightarrow> (Inr i, sc2\<lparr>sc_settled := sc_settled sc2 @ [(i, Failed e)]\<rparr>)
              | Inr frame \<Rightarrow>
                  (case raw_send frame sc2 of
                     (Inl e, sc3) \<Rightarrow> (Inr i, sc3\<lparr>sc_settled := sc_settled sc3 @ [(i, Failed e)]\<rparr>)
                   | (Inr _, sc3) \<Rightarrow> (Inr i, sc3))))"

definition request_times_out :: "nat \<Rightarrow> server_conn \<Rightarrow> server_conn" where
  "request_times_out i sc =
     (if map_of (sc_pending sc) i = None then sc else settle i (Failed (Error ''RPC request timed out'')) sc)"

section \<open>Every operation\<close>

definition handle_parsed :: "server_host \<Rightarrow> ws_data \<Rightarrow> server_conn \<Rightarrow> server_conn" where
  "handle_parsed host d sc =
     (case parseData host d sc of (None, sc1) \<Rightarrow> sc1 | (Some m, sc1) \<Rightarrow> messageHandler m sc1)"

definition handshakeHandler :: "server_host \<Rightarrow> ws_data \<Rightarrow> server_conn \<Rightarrow> server_conn" where
  "handshakeHandler host d sc =
     (case parseData host d sc of
        (None, sc1) \<Rightarrow> sock_close INVALID_DATA sc1
      | (Some m, sc1) \<Rightarrow>
          if Some (fst m) \<noteq> sc_handshakePacket sc1 then sock_close INVALID_DATA sc1
          else (messageHandler m sc1)\<lparr>sc_phase := Handshaked, sc_handshakeComplete := True\<rparr>)"

definition handshakedMessage :: "server_host \<Rightarrow> ws_data \<Rightarrow> server_conn \<Rightarrow> server_conn" where
  "handshakedMessage host d sc =
     (case parseData host d sc of
        (None, sc1) \<Rightarrow> sock_close INVALID_DATA sc1
      | (Some m, sc1) \<Rightarrow>
          if Some (fst m) = sc_handshakePacket sc1 then sock_close REPEATED_HANDSHAKE sc1
          else messageHandler m sc1)"

text \<open>The listener of the socket's messages: \<open>routeMessage\<close> or one of the two above.\<close>

definition on_message :: "server_host \<Rightarrow> ws_data \<Rightarrow> server_conn \<Rightarrow> server_conn" where
  "on_message host d sc =
     (if isControl d then handleControl host (case d of Binary bs \<Rightarrow> bs | NotBinary \<Rightarrow> []) sc
      else case sc_phase sc of
             Open \<Rightarrow> handle_parsed host d sc
           | AwaitHandshake \<Rightarrow> handshakeHandler host d sc
           | Handshaked \<Rightarrow> handshakedMessage host d sc)"

definition on_socket_close :: "server_conn \<Rightarrow> server_conn" where
  "on_socket_close sc = sc\<lparr>sc_conn := close_event (sc_conn sc), sc_lastReceived := Map.empty\<rparr>"

definition enablePacket :: "jsstr \<Rightarrow> server_conn \<Rightarrow> server_conn" where
  "enablePacket tg sc = sc\<lparr>sc_enabled := (sc_enabled sc)(tg \<mapsto> True)\<rparr>"

definition disablePacket :: "jsstr \<Rightarrow> server_conn \<Rightarrow> server_conn" where
  "disablePacket tg sc = sc\<lparr>sc_enabled := (sc_enabled sc)(tg \<mapsto> False)\<rparr>"

definition on_packet :: "server_host \<Rightarrow> jsstr \<Rightarrow> (server_conn, unit) st_result" where
  "on_packet host tg sc =
     (if \<not> hasTag (sh_client host) tg then (Inl (Error ''Packet tag has not been created''), sc)
      else case resolveTag (sh_client host) tg of
             None \<Rightarrow> (Inl (TypeError ''push''), sc)
           | Some t \<Rightarrow> (Inr (), sc\<lparr>sc_listeners := (sc_listeners sc)
               (t \<mapsto> (case sc_listeners sc t of None \<Rightarrow> 0 | Some n \<Rightarrow> n) + 1)\<rparr>))"

definition respond :: "server_host \<Rightarrow> jsstr \<Rightarrow> server_conn \<Rightarrow> server_conn" where
  "respond host tg sc =
     (case resolveTag (sh_client host) tg of
        None \<Rightarrow> sc | Some t \<Rightarrow> sc\<lparr>sc_responders := insert t (sc_responders sc)\<rparr>)"

text \<open>
  \<open>send\<close> around the queue: \<open>hook\<close> is the answer of \<open>onSend_post\<close>.
\<close>

definition finish_send ::
  "(u8 list \<Rightarrow> u8 list) \<Rightarrow> bool \<Rightarrow> nat \<times> u8 list \<times> packet \<Rightarrow> (server_conn, unit) st_result" where
  "finish_send wrap hook x sc =
     (if hook then (Inr (), sc) else case x of (code, data, p) \<Rightarrow> send_processed wrap code data p sc)"

text \<open>A throw of an operation reaches its caller, not the connection: the step keeps only the state.\<close>

datatype sc_event =
    Message ws_data
  | Resume nat answer
  | ResumeRpc nat answer "jsval result"
  | TimerFires nat
  | SocketClosed
  | FinishSend "u8 list" bool "nat \<times> u8 list \<times> packet"
  | RawSendCall "u8 list"
  | RequestCall nat "u8 list"
  | RequestTimesOut nat
  | CloseCalled close_code jsstr
  | EnablePacket jsstr
  | DisablePacket jsstr
  | OnPacket jsstr
  | Respond jsstr
  | Buffered "jsnum option"

fun sc_step :: "server_host \<Rightarrow> server_conn \<Rightarrow> sc_event \<Rightarrow> server_conn" where
  "sc_step host sc (Message d) = on_message host d sc"
| "sc_step host sc (Resume i a) = resume host i a sc"
| "sc_step host sc (ResumeRpc j a r) = resume_rpc host j a r sc"
| "sc_step host sc (TimerFires i) = timer_fires (sh_core host) i sc"
| "sc_step host sc SocketClosed = on_socket_close sc"
| "sc_step host sc (FinishSend replayed hook x) = snd (finish_send (\<lambda>_. replayed) hook x sc)"
| "sc_step host sc (RawSendCall data) = snd (raw_send data sc)"
| "sc_step host sc (RequestCall k payload) = snd (request k payload sc)"
| "sc_step host sc (RequestTimesOut i) = request_times_out i sc"
| "sc_step host sc (CloseCalled code reason) = sc_close code reason sc"
| "sc_step host sc (EnablePacket tg) = enablePacket tg sc"
| "sc_step host sc (DisablePacket tg) = disablePacket tg sc"
| "sc_step host sc (OnPacket tg) = snd (on_packet host tg sc)"
| "sc_step host sc (Respond tg) = respond host tg sc"
| "sc_step host sc (Buffered b) = sc\<lparr>sc_conn := (sc_conn sc)\<lparr>cn_buffered := b\<rparr>\<rparr>"

text \<open>
  \<open>sendVolatile\<close>: its gate comes before anything else; \<open>es\<close> is what happens to the connection while \<open>send\<close>
  waits for the queue and the hooks.
\<close>

definition sc_sendVolatile ::
  "server_host \<Rightarrow> sc_event list \<Rightarrow> (u8 list \<Rightarrow> u8 list) \<Rightarrow> bool \<Rightarrow> nat \<times> u8 list \<times> packet \<Rightarrow> (server_conn, bool) st_result" where
  "sc_sendVolatile host es wrap hook x sc =
     (if \<not> canSendVolatile (sc_conn sc) then (Inr False, sc)
      else case finish_send wrap hook x (foldl (sc_step host) sc es) of
        (Inl e, sc') \<Rightarrow> (Inl e, sc') | (Inr _, sc') \<Rightarrow> (Inr True, sc'))"

end
