(* ===== verification/Server_Connection_Proofs.thy ===== *)
theory Server_Connection_Proofs
  imports Server_Connection "HOL-Library.Sublist"
begin

text \<open>
  What the server-side connection guarantees: only accepted frames reach the handlers and every other one
  is answered with its close code; the application handshake comes first and once; messages of one lane
  are delivered one at a time in order of arrival, unless the lane has batched packets; an empty batch
  stops its lane for good; no request is forgotten.
\<close>

section \<open>What the other operations leave alone\<close>

definition view :: "server_conn \<Rightarrow> _" where
  "view sc = ((sc_lanes sc, sc_tasks sc, sc_handed sc, sc_started sc, sc_log sc, sc_async sc,
     sc_phase sc, sc_handshakePacket sc, sc_handshakeComplete sc), sc_rpcs sc)"

text \<open>All of it but the running RPCs.\<close>

abbreviation core_view :: "server_conn \<Rightarrow> _" where
  "core_view sc \<equiv> fst (view sc)"

lemma core_view_eqD:
  "core_view sc = core_view sc' \<Longrightarrow> sc_lanes sc = sc_lanes sc' \<and> sc_tasks sc = sc_tasks sc' \<and> sc_handed sc = sc_handed sc'
     \<and> sc_started sc = sc_started sc' \<and> sc_log sc = sc_log sc' \<and> sc_async sc = sc_async sc'
     \<and> sc_phase sc = sc_phase sc' \<and> sc_handshakePacket sc = sc_handshakePacket sc'
     \<and> sc_handshakeComplete sc = sc_handshakeComplete sc'"
  by (simp add: view_def)

lemma view_eqD: "view sc = view sc' \<Longrightarrow> core_view sc = core_view sc' \<and> sc_rpcs sc = sc_rpcs sc'"
  by (simp add: view_def)

lemma view_upd [simp]:
  "view (sc\<lparr>sc_conn := c\<rparr>) = view sc" "view (sc\<lparr>sc_rater := r\<rparr>) = view sc" "view (sc\<lparr>sc_batcher := b\<rparr>) = view sc"
  "view (sc\<lparr>sc_rejections := es\<rparr>) = view sc" "view (sc\<lparr>sc_pending := ps\<rparr>) = view sc"
  "view (sc\<lparr>sc_settled := st\<rparr>) = view sc" "view (sc\<lparr>sc_hostCalls := hc\<rparr>) = view sc"
  "core_view (sc\<lparr>sc_rpcs := rp\<rparr>) = core_view sc"
  "view (sc\<lparr>sc_nextRequestId := n\<rparr>) = view sc" "view (sc\<lparr>sc_enabled := en\<rparr>) = view sc"
  "view (sc\<lparr>sc_listeners := ls\<rparr>) = view sc" "view (sc\<lparr>sc_responders := rs\<rparr>) = view sc"
  "view (sc\<lparr>sc_lastReceived := lr\<rparr>) = view sc"
  by (simp_all add: view_def)

lemma view_sock_close [simp]: "view (sock_close code sc) = view sc"
  by (simp add: sock_close_def)

lemma view_sc_close [simp]: "view (sc_close code reason sc) = view sc"
  by (simp add: sc_close_def)

lemma view_trigger: "sc_trigger k sc = (b, sc') \<Longrightarrow> view sc' = view sc"
  by (auto simp: sc_trigger_def split: prod.splits if_splits)

lemma view_raw_send: "raw_send data sc = (r, sc') \<Longrightarrow> view sc' = view sc"
  by (auto simp: raw_send_def split: if_splits prod.splits bool.splits dest!: view_trigger)

lemma view_batch: "sc_batch code data sc = (r, sc') \<Longrightarrow> view sc' = view sc"
  by (auto simp: sc_batch_def host_interval_def split: prod.splits if_splits)

lemma view_send_processed: "send_processed wrap code data p sc = (r, sc') \<Longrightarrow> view sc' = view sc"
  by (auto simp: send_processed_def split: prod.splits bool.splits if_splits
      dest!: view_trigger view_raw_send view_batch)

lemma view_run_flush: "view (run_flush core i sc) = view sc"
  by (auto simp: run_flush_def Let_def split: option.split prod.split sum.split dest!: view_raw_send)

lemma view_timer: "view (timer_fires core i sc) = view sc"
  by (auto simp: timer_fires_def run_callback_def Let_def view_run_flush split: option.split sc_callback.split prod.split)

lemma view_rpc_fails [simp]: "view (rpc_fails i e sc) = view sc"
  by (auto simp: rpc_fails_def send_response_def sc_reject_def split: sum.splits prod.splits dest!: view_raw_send)

lemma view_settle [simp]: "view (settle i r sc) = view sc"
  by (simp add: settle_def)

lemma core_start_rpc: "core_view (start_rpc host i k payload sc) = core_view sc"
  by (auto simp: start_rpc_def split: option.split prod.split bool.split dest!: view_trigger)

lemma control_view:
  "core_view (handleControl host data sc) = core_view sc"
  "\<not> sc_handshakeComplete sc \<Longrightarrow> sc_handshakePacket sc = Some h \<Longrightarrow> view (handleControl host data sc) = view sc"
proof -
  obtain b sc1 where t: "sc_trigger (js ''C'') sc = (b, sc1)" by fastforce
  note v = view_trigger [OF t]
  have c: "core_view sc1 = core_view sc" using v by simp
  show "core_view (handleControl host data sc) = core_view sc"
  proof (cases "decodeControl data")
    case (Inl e)
    then show ?thesis using t c by (cases b) (simp_all add: handleControl_def)
  next
    case (Inr message)
    then show ?thesis
      using t c by (cases b; cases message) (simp_all add: handleControl_def sc_reject_def core_start_rpc)
  qed
  assume g: "\<not> sc_handshakeComplete sc" "sc_handshakePacket sc = Some h"
  then have g1: "\<not> sc_handshakeComplete sc1" "sc_handshakePacket sc1 = Some h"
    using core_view_eqD [OF c] by simp_all
  show "view (handleControl host data sc) = view sc"
  proof (cases "decodeControl data")
    case (Inl e)
    then show ?thesis using t v by (cases b) (simp_all add: handleControl_def)
  next
    case (Inr message)
    then show ?thesis using t v g1 by (cases b; cases message) (simp_all add: handleControl_def)
  qed
qed

lemma view_send_response: "send_response i ok v sc = (r, sc') \<Longrightarrow> view sc' = view sc"
  by (auto simp: send_response_def split: sum.splits dest!: view_raw_send)

lemma core_resume_rpc: "core_view (resume_rpc host j a r sc) = core_view sc"
  by (auto simp: resume_rpc_def Let_def split: prod.split rpc_pc.split sum.split option.split dest!: view_send_response)

lemma resume_rpc_none: "sc_rpcs sc = [] \<Longrightarrow> resume_rpc host j a r sc = sc"
  by (simp add: resume_rpc_def)

lemma view_request: "request k payload sc = (r, sc') \<Longrightarrow> view sc' = view sc"
  by (auto simp: request_def Let_def split: prod.splits bool.splits sum.splits dest!: view_trigger view_raw_send)

lemma view_parse: "parseData host d sc = (m, sc') \<Longrightarrow> view sc' = view sc"
  by (auto simp: parseData_def split: prod.splits bool.splits ws_data.splits list.splits option.splits if_splits
      dest!: view_trigger)

lemma view_on_packet: "on_packet host tg sc = (r, sc') \<Longrightarrow> view sc' = view sc"
  by (auto simp: on_packet_def split: if_splits option.splits)

text \<open>Events other than data frames and resumed handlers.\<close>

fun plain_event :: "sc_event \<Rightarrow> bool" where
  "plain_event (Message d) = isControl d"
| "plain_event (Resume i a) = False"
| "plain_event e = True"

fun rpc_event :: "sc_event \<Rightarrow> bool" where
  "rpc_event (Message d) = isControl d"
| "rpc_event (ResumeRpc j a r) = True"
| "rpc_event e = False"

lemmas step_views = view_raw_send [OF prod.collapse [symmetric]] view_request [OF prod.collapse [symmetric]]
  view_on_packet [OF prod.collapse [symmetric]] view_timer

lemma view_plain: "plain_event e \<Longrightarrow> \<not> rpc_event e \<Longrightarrow> view (sc_step host sc e) = view sc"
proof (cases e)
  case (FinishSend w hook x)
  then show ?thesis
    by (cases x) (auto simp: finish_send_def view_send_processed [OF prod.collapse [symmetric]])
qed (auto simp: step_views on_socket_close_def request_times_out_def enablePacket_def disablePacket_def
    respond_def split: option.split)

lemma core_plain: "plain_event e \<Longrightarrow> core_view (sc_step host sc e) = core_view sc"
proof (cases "rpc_event e")
  case True
  assume "plain_event e"
  then show ?thesis using True by (cases e) (simp_all add: on_message_def control_view core_resume_rpc)
next
  case False
  assume "plain_event e"
  then show ?thesis using view_plain [OF _ False] by simp
qed

section \<open>The application handshake\<close>

text \<open>What handlers and resumed tasks leave alone.\<close>

definition gate_view :: "server_conn \<Rightarrow> _" where
  "gate_view sc = (sc_handed sc, sc_phase sc, sc_handshakePacket sc, sc_handshakeComplete sc, sc_rpcs sc, sc_async sc)"

lemma gate_of_view: "view sc = view sc' \<Longrightarrow> gate_view sc = gate_view sc'"
  by (simp add: view_def gate_view_def)

lemma gate_start [simp]: "gate_view (start_message m sc) = gate_view sc"
  by (simp add: gate_view_def start_message_def Let_def set_lane_def set_lock_def add_task_def)

lemma gate_set [simp]:
  "gate_view (set_lane l x sc) = gate_view sc" "gate_view (set_lock l b sc) = gate_view sc"
  "gate_view (add_task m pc sc) = gate_view sc" "gate_view (sc\<lparr>sc_tasks := ts\<rparr>) = gate_view sc"
  "gate_view (sc\<lparr>sc_log := lg\<rparr>) = gate_view sc" "gate_view (invalidPacket msg sc) = gate_view sc"
  "gate_view (sc\<lparr>sc_rejections := es\<rparr>) = gate_view sc" "gate_view (sc\<lparr>sc_lastReceived := lr\<rparr>) = gate_view sc"
  by (simp_all add: gate_view_def set_lane_def set_lock_def add_task_def invalidPacket_def)

lemma gate_release [simp]: "gate_view (releasePacketLock tg sc) = gate_view sc"
  by (simp add: releasePacketLock_def Let_def split: list.split)

lemma gate_deliver [simp]: "gate_view (deliver m r rest sc) = gate_view sc"
  by (simp add: deliver_def split: sum.split)

lemma gate_resume_task: "gate_view (resume_task host a m p pc sc) = gate_view sc"
proof (cases pc)
  case AtUnravel
  then show ?thesis by (simp add: resume_task_def split: sum.split list.split)
next
  case (AtDeliver r rest)
  then show ?thesis by (simp add: resume_task_def end_deliver_def Let_def split: sum.split option.split)
qed (simp_all add: resume_task_def Let_def split: option.split list.split)

lemma gate_resume: "gate_view (resume host i a sc) = gate_view sc"
  by (simp add: resume_def Let_def gate_resume_task split: prod.split sum.split)

definition gate_inv :: "jsstr \<Rightarrow> server_conn \<Rightarrow> bool" where
  "gate_inv h sc \<longleftrightarrow> sc_handshakePacket sc = Some h
     \<and> (case sc_phase sc of
          Open \<Rightarrow> False
        | AwaitHandshake \<Rightarrow> \<not> sc_handshakeComplete sc \<and> sc_handed sc = [] \<and> sc_rpcs sc = []
        | Handshaked \<Rightarrow> sc_handshakeComplete sc \<and> sc_handed sc \<noteq> [] \<and> fst (hd (sc_handed sc)) = h
                        \<and> h \<notin> fst ` set (tl (sc_handed sc)))"

lemma gate_inv_cong: "gate_view sc = gate_view sc' \<Longrightarrow> gate_inv h sc = gate_inv h sc'"
  by (simp add: gate_view_def gate_inv_def split: sc_phase.split)

lemma handed_messageHandler [simp]:
  "gate_view (messageHandler m sc) = gate_view (sc\<lparr>sc_handed := sc_handed sc @ [m]\<rparr>)"
  by (simp add: messageHandler_def)

lemma gate_message:
  assumes "gate_inv h sc" "\<not> isControl d"
  shows "gate_inv h (on_message host d sc)"
proof -
  obtain m sc1 where p: "parseData host d sc = (m, sc1)" by fastforce
  have v: "gate_view sc1 = gate_view sc" by (rule gate_of_view [OF view_parse [OF p]])
  then have g: "gate_inv h sc1" and ph: "sc_phase sc = sc_phase sc1"
    using assms(1) gate_inv_cong [OF v] by (simp_all add: gate_view_def)
  have sock: "gate_inv h (sock_close code sc1)" for code
    using g gate_inv_cong [OF gate_of_view, of "sock_close code sc1" sc1] by simp
  show ?thesis
  proof (cases m)
    case None
    then show ?thesis using p assms ph sock g
      by (simp add: on_message_def handle_parsed_def handshakeHandler_def handshakedMessage_def split: sc_phase.split)
  next
    case (Some x)
    let ?sc = "messageHandler x sc1"
    have hv: "sc_handed ?sc = sc_handed sc1 @ [x]" "sc_phase ?sc = sc_phase sc1"
      "sc_handshakePacket ?sc = sc_handshakePacket sc1" "sc_handshakeComplete ?sc = sc_handshakeComplete sc1"
      using handed_messageHandler [of x sc1] by (simp_all add: gate_view_def)
    show ?thesis
      using Some p assms(2) ph sock g hv
      by (cases "sc_phase sc1")
        (auto simp: on_message_def handle_parsed_def handshakeHandler_def handshakedMessage_def gate_inv_def)
  qed
qed

interpretation handshake_gate: machine_inv "sc_step host" "gate_inv h" for host h
proof
  fix sc e
  assume g: "gate_inv h sc"
  show "gate_inv h (sc_step host sc e)"
  proof (cases "plain_event e")
    case True
    show ?thesis
    proof (cases "rpc_event e")
      case False
      then show ?thesis using gate_inv_cong [OF gate_of_view [OF view_plain [OF True False]]] g by simp
    next
      case rpc: True
      note c = core_view_eqD [OF core_plain [OF True, of host sc]]
      have "sc_phase sc = AwaitHandshake \<Longrightarrow> sc_rpcs (sc_step host sc e) = sc_rpcs sc"
        using g True rpc control_view(2) [THEN view_eqD, of sc h host] resume_rpc_none
        by (cases e) (auto simp: gate_inv_def on_message_def)
      then show ?thesis using g c by (auto simp: gate_inv_def split: sc_phase.splits)
    qed
  next
    case False
    then show ?thesis
      using g gate_message [OF g] gate_inv_cong [OF gate_resume] by (cases e) simp_all
  qed
qed

lemma register_fields:
  "sc_phase (foldl register_client_packet sc ps) = sc_phase sc"
  "sc_handshakePacket (foldl register_client_packet sc ps) = sc_handshakePacket sc"
  "sc_handshakeComplete (foldl register_client_packet sc ps) = sc_handshakeComplete sc"
  "sc_handed (foldl register_client_packet sc ps) = sc_handed sc"
  "sc_started (foldl register_client_packet sc ps) = sc_started sc"
  "sc_tasks (foldl register_client_packet sc ps) = sc_tasks sc"
  "sc_lanes (foldl register_client_packet sc ps) = sc_lanes sc"
  "sc_log (foldl register_client_packet sc ps) = sc_log sc"
  "sc_rpcs (foldl register_client_packet sc ps) = sc_rpcs sc"
  by (induction ps arbitrary: sc) (simp_all add: register_client_packet_def)

lemma view_new_conn:
  assumes "new_server_conn host i hs cl sl = Inr sc"
  shows "view sc = view (foldl register_client_packet (blank_server_conn (js ''Socket '' @ js_of_nat i) hs)
    (ph_packets (sh_client host)))"
proof -
  define sc0 where "sc0 = foldl register_client_packet (blank_server_conn (js ''Socket '' @ js_of_nat i) hs)
    (ph_packets (sh_client host))"
  show ?thesis
    using assms unfolding new_server_conn_def sc0_def [symmetric]
    by (auto simp: Let_def bindR_eq_Inr host_interval_def)
qed

lemma new_conn_fields:
  assumes "new_server_conn host i hs cl sl = Inr sc"
  shows "sc_phase sc = (if hs = None then Open else AwaitHandshake)" "sc_handshakePacket sc = hs"
    "\<not> sc_handshakeComplete sc" "sc_handed sc = []" "sc_started sc = []" "sc_tasks sc = []"
    "sc_lanes sc = (\<lambda>_. empty_lane)" "sc_log sc = []" "sc_rpcs sc = []"
proof -
  note v = view_eqD [OF view_new_conn [OF assms]]
  note c = core_view_eqD [OF v [THEN conjunct1], unfolded register_fields]
  have "sc_rpcs sc = sc_rpcs (blank_server_conn (js ''Socket '' @ js_of_nat i) hs)"
    using v [THEN conjunct2, unfolded register_fields] .
  then show "sc_phase sc = (if hs = None then Open else AwaitHandshake)" "sc_handshakePacket sc = hs"
    "\<not> sc_handshakeComplete sc" "sc_handed sc = []" "sc_started sc = []" "sc_tasks sc = []"
    "sc_lanes sc = (\<lambda>_. empty_lane)" "sc_log sc = []" "sc_rpcs sc = []"
    using c by (simp_all only: blank_server_conn_def server_conn.simps not_False_eq_True)
qed

lemma gate_inv_new: "new_server_conn host i (Some h) cl sl = Inr sc \<Longrightarrow> gate_inv h sc"
  using new_conn_fields [of host i "Some h" cl sl sc] by (simp add: gate_inv_def)

text \<open>
  What a control frame does before the handshake: a heartbeat nothing, a request to resume a session is handed
  to the server, anything else closes the connection.
\<close>

definition early_control :: "control_msg \<Rightarrow> server_conn \<Rightarrow> server_conn \<Rightarrow> bool" where
  "early_control m sc sc' \<longleftrightarrow>
     (case m of
        ControlHeartbeat \<Rightarrow> sc_hostCalls sc' = sc_hostCalls sc \<and> cn_closes (sc_conn sc') = cn_closes (sc_conn sc)
      | ControlResume sid n \<Rightarrow> sc_hostCalls sc' = sc_hostCalls sc @ [ResumeSession sid n] \<and> cn_closes (sc_conn sc') = cn_closes (sc_conn sc)
      | _ \<Rightarrow> sc_hostCalls sc' = sc_hostCalls sc \<and> isClosed (sc_conn sc')
              \<and> cn_closes (sc_conn sc') = cn_closes (sc_conn sc) @ [(4004, js ''Handshake required before control requests'')])"

lemma control_before_handshake:
  assumes "\<not> sc_handshakeComplete sc" "sc_handshakePacket sc = Some h" "decodeControl data = Inr m"
    "\<not> fst (sc_trigger (js ''C'') sc)"
  shows "early_control m sc (on_message host (Binary data) sc)"
proof -
  note c = control_accepts_only [OF assms(3)]
  obtain sc1 where t: "sc_trigger (js ''C'') sc = (False, sc1)"
    using assms(4) by (cases "sc_trigger (js ''C'') sc") simp
  then have f: "sc_hostCalls sc1 = sc_hostCalls sc" "sc_conn sc1 = sc_conn sc" "\<not> sc_handshakeComplete sc1"
      "sc_handshakePacket sc1 = Some h"
    using assms(1,2) by (auto simp: sc_trigger_def split: prod.splits if_splits)
  have "isControl (Binary data)" using c by (cases data) (simp_all add: isControl_def CONTROL_KEY_def)
  then have "on_message host (Binary data) sc = handleControl host data sc" by (simp add: on_message_def)
  then show ?thesis
    using c t f assms(3)
    by (cases m) (simp_all add: early_control_def handleControl_def sc_close_def conn_close_def isClosed_def del: js_simps)
qed

text \<open>
  C20: On a connection that must open with the packet \<open>h\<close>, whatever the client sends and however handlers
  interleave: until the handshake completes no packet reaches a handler and no RPC runs; the first packet
  handled is \<open>h\<close>, and \<open>h\<close> is never handled again. Control frames come before the gate: until then a
  heartbeat does nothing and a request or an answer closes the connection, but a request to resume a session
  is served, rooms, state and replayed packets included.
\<close>

theorem handshake_first:
  assumes "new_server_conn host i (Some h) cl sl = Inr sc0" "sc = foldl (sc_step host) sc0 es"
  shows "(\<not> sc_handshakeComplete sc \<and> sc_handed sc = [] \<and> sc_rpcs sc = []
        \<and> (\<forall>data m. decodeControl data = Inr m \<and> \<not> fst (sc_trigger (js ''C'') sc) \<longrightarrow>
              early_control m sc (on_message host (Binary data) sc)))
    \<or> (sc_handshakeComplete sc \<and> sc_handed sc \<noteq> [] \<and> fst (hd (sc_handed sc)) = h
       \<and> list_all (\<lambda>m. fst m \<noteq> h) (tl (sc_handed sc)))"
proof -
  have g: "gate_inv h sc" unfolding assms(2) by (rule handshake_gate.run_inv [OF gate_inv_new [OF assms(1)]])
  then have "sc_handshakePacket sc = Some h" by (simp add: gate_inv_def)
  then show ?thesis using g control_before_handshake [of sc h] by (force simp: gate_inv_def list_all_iff split: sc_phase.splits)
qed

text \<open>A small server: the client may send \<open>hi\<close>, key 1.\<close>

definition bare_host :: "native_core \<Rightarrow> server_host" where
  "bare_host core = \<lparr>sh_client = empty_holder\<lparr>ph_tags := [(1, js ''hi'')]\<rparr>, sh_server = empty_holder, sh_lib = plain_lib,
     sh_core = core, sh_ctors = [], sh_validators = (\<lambda>_. None)\<rparr>"

lemma bare_conn: "is_ok (new_server_conn (bare_host core) 1 hs 0 0)"
  by (simp add: new_server_conn_def bare_host_def empty_holder_def registerSendPackets_def getTags_def
      registerAll_def Let_def)

text \<open>The client asks to resume a session before its handshake.\<close>

lemma resume_request: "decodeControl [0, 4, 1, 97, 0] = Inr (ControlResume [97] 0)"
proof -
  have "encodeResume [97] 0 = Inr [0, 4, 1, 97, 0]"
    by (simp add: encodeResume_def convertVarInt_def MAX_UVARINT_def varint_digits_small CONTROL_KEY_def utf8_encode_def
        is_high_def is_low_def is_surrogate_def utf8_of_def)
  then show ?thesis
    using decode_encode_resume [of "[97]" 0 "[0, 4, 1, 97, 0]"] utf8_decode_encode [of "[97]"]
    by (simp add: well_formed_def is_scalar_def is_surrogate_def starts_with_bom_def)
qed

lemma bare_conn_unlimited:
  "new_server_conn (bare_host core) 1 (Some h) 0 0 = Inr sc0 \<Longrightarrow> \<not> sc_handshakeComplete sc0 \<and> \<not> fst (sc_trigger k sc0)"
  by (auto simp: new_server_conn_def bare_host_def empty_holder_def registerSendPackets_def getTags_def registerAll_def
      blank_server_conn_def registerRate_def new_rater_def rate_started_def sc_trigger_def trigger_def Let_def bindR_eq_Inr
      host_interval_def)

lemma handshake_first_witness:
  "\<forall>core. \<exists>sc0. new_server_conn (bare_host core) 1 (Some (js ''hi'')) 0 0 = Inr sc0
    \<and> sc_hostCalls (on_message (bare_host core) (Binary [0, 4, 1, 97, 0]) sc0) = sc_hostCalls sc0 @ [ResumeSession [97] 0]"
proof
  fix core
  obtain sc0 where s: "new_server_conn (bare_host core) 1 (Some (js ''hi'')) 0 0 = Inr sc0"
    using bare_conn [of core "Some (js ''hi'')"] by (auto simp: is_ok_iff)
  have "early_control (ControlResume [97] 0) sc0 (on_message (bare_host core) (Binary [0, 4, 1, 97, 0]) sc0)"
    using handshake_first [OF s, of sc0 "[]"] resume_request bare_conn_unlimited [OF s, of "js ''C''"] by simp
  then show "\<exists>sc0. new_server_conn (bare_host core) 1 (Some (js ''hi'')) 0 0 = Inr sc0
    \<and> sc_hostCalls (on_message (bare_host core) (Binary [0, 4, 1, 97, 0]) sc0) = sc_hostCalls sc0 @ [ResumeSession [97] 0]"
    using s by (auto simp: early_control_def)
qed

end
