(* ===== verification/Server_Lanes.thy ===== *)
theory Server_Lanes
  imports Server_Connection_Proofs
begin

text \<open>
  Order of delivery on the server: the lock and queue of \<open>messageHandler\<close>. A lane is the shared one
  (\<open>None\<close>) or that of an async packet. Everything is stated on what one lane shows: its lock and queue,
  its tasks, and its part of the messages handed over, of those started, and of the listeners' log.
\<close>

section \<open>One lane\<close>

type_synonym log_item = "bool \<times> message \<times> listened"
type_synonym lane_view = "lane \<times> (message \<times> recv_pc) list \<times> message list \<times> log_item list \<times> message list"

definition lane_in :: "(jsstr \<rightharpoonup> bool) \<Rightarrow> jsstr \<Rightarrow> jsstr option" where
  "lane_in A tg = (if A tg = Some True then Some tg else None)"

lemma lane_of_in: "lane_of sc tg = lane_in (sc_async sc) tg"
  by (simp add: lane_of_def isAsync_def lane_in_def)

definition in_lane :: "(jsstr \<rightharpoonup> bool) \<Rightarrow> jsstr option \<Rightarrow> message \<Rightarrow> bool" where
  "in_lane A l m \<longleftrightarrow> lane_in A (fst m) = l"

definition lv :: "(jsstr \<rightharpoonup> bool) \<Rightarrow> jsstr option \<Rightarrow> server_conn \<Rightarrow> lane_view" where
  "lv A l sc = (sc_lanes sc l, filter (\<lambda>t. in_lane A l (fst t)) (sc_tasks sc), filter (in_lane A l) (sc_started sc),
     filter (\<lambda>x. in_lane A l (fst (snd x))) (sc_log sc), filter (in_lane A l) (sc_handed sc))"

text \<open>The log of a lane: every begin is followed by its own end, but perhaps the last.\<close>

fun serial :: "log_item list \<Rightarrow> bool" where
  "serial [] = True"
| "serial [(b, m, r)] = b"
| "serial ((b, m, r) # (b', m', r') # lg) = (b \<and> \<not> b' \<and> m = m' \<and> r = r' \<and> serial lg)"

definition closed_log :: "log_item list \<Rightarrow> bool" where
  "closed_log lg \<longleftrightarrow> serial lg \<and> even (length lg)"

definition begun :: "log_item list \<Rightarrow> message list" where
  "begun lg = map (\<lambda>x. fst (snd x)) (filter fst lg)"

lemma closed_snoc:
  "closed_log lg \<Longrightarrow> serial (lg @ [(True, m, r)])"
  "closed_log lg \<Longrightarrow> closed_log (lg @ [(True, m, r), (False, m, r)])"
  unfolding closed_log_def by (induction lg rule: serial.induct) simp_all

lemma begun_simps [simp]:
  "begun [] = []" "begun (lg @ lg') = begun lg @ begun lg'"
  "begun [(b, m, r)] = (if b then [m] else [])" "begun ((b, m, r) # lg) = (if b then [m] else []) @ begun lg"
  by (simp_all add: begun_def)

fun pc_ok :: "recv_pc \<Rightarrow> message \<Rightarrow> message list \<Rightarrow> log_item list \<Rightarrow> bool" where
  "pc_ok AtPre m st lg = (closed_log lg \<and> subseq (begun lg) st)"
| "pc_ok AtListen m st lg = (closed_log lg \<and> subseq (begun lg) st)"
| "pc_ok AtUnravel m st lg = False"
| "pc_ok (AtDeliver (Inl msg) rest) m st lg = (rest = [] \<and> closed_log lg \<and> subseq (begun lg) st)"
| "pc_ok (AtDeliver (Inr v) rest) m st lg =
     (rest = [] \<and> (\<exists>lg'. lg = lg' @ [(True, m, Inr v)] \<and> closed_log lg' \<and> subseq (begun lg') st))"
| "pc_ok (AtPost r rest) m st lg = (rest = [] \<and> closed_log lg \<and> subseq (begun lg) (st @ [m]))"
| "pc_ok (AtNext rest) m st lg = False"

fun task_ok :: "(message \<times> recv_pc) list \<Rightarrow> message list \<Rightarrow> log_item list \<Rightarrow> bool" where
  "task_ok [] st lg = (serial lg \<and> subseq (begun lg) st)"
| "task_ok [(m, pc)] st lg = (\<exists>st'. st = st' @ [m] \<and> pc_ok pc m st' lg)"
| "task_ok _ st lg = False"

fun lane_ok :: "lane_view \<Rightarrow> bool" where
  "lane_ok (x, ts, st, lg, hs) =
     ((ln_lock x \<or> ln_queue x = [] \<and> ts = [] \<and> closed_log lg) \<and> hs = st @ ln_queue x \<and> task_ok ts st lg)"

text \<open>How each operation acts on its own lane, and that it leaves every other lane alone.\<close>

fun lv_start :: "message \<Rightarrow> lane_view \<Rightarrow> lane_view" where
  "lv_start m (x, ts, st, lg, hs) =
     (if ln_lock x then (x\<lparr>ln_queue := ln_queue x @ [m]\<rparr>, ts, st, lg, hs)
      else (x\<lparr>ln_lock := True\<rparr>, ts @ [(m, AtPre)], st @ [m], lg, hs))"

fun lv_release :: "lane_view \<Rightarrow> lane_view" where
  "lv_release (x, ts, st, lg, hs) =
     (case ln_queue x of
        [] \<Rightarrow> (x\<lparr>ln_lock := False\<rparr>, ts, st, lg, hs)
      | m # ms \<Rightarrow> (x\<lparr>ln_lock := True, ln_queue := ms\<rparr>, ts @ [(m, AtPre)], st @ [m], lg, hs))"

lemma lv_start_message:
  assumes "sc_async sc = A"
  shows "lv A l (start_message m sc) = (if in_lane A l m then lv_start m (lv A l sc) else lv A l sc)"
  using assms
  by (auto simp: lv_def start_message_def Let_def lane_of_in in_lane_def set_lane_def set_lock_def add_task_def)

lemma lv_set_lane:
  "lv A l (set_lane k x sc) = (if k = l then (x, snd (lv A l sc)) else lv A l sc)"
  by (simp add: lv_def set_lane_def)

lemma async_simps [simp]:
  "sc_async (set_lane k x sc) = sc_async sc" "sc_async (set_lock k b sc) = sc_async sc"
  "sc_async (add_task m pc sc) = sc_async sc" "sc_async (invalidPacket msg sc) = sc_async sc"
  "sc_async (start_message m sc) = sc_async sc"
  by (simp_all add: set_lane_def set_lock_def add_task_def invalidPacket_def start_message_def Let_def)

lemma lv_release_lock:
  assumes "sc_async sc = A" "\<forall>m \<in> set (ln_queue (sc_lanes sc (lane_in A tg))). in_lane A (lane_in A tg) m"
  shows "lv A l (releasePacketLock tg sc) = (if lane_in A tg = l then lv_release (lv A l sc) else lv A l sc)"
proof -
  let ?k = "lane_in A tg"
  let ?sc1 = "set_lock ?k False sc"
  have k: "lane_of sc tg = ?k" using assms by (simp add: lane_of_in)
  have q: "sc_lanes ?sc1 ?k = (sc_lanes sc ?k)\<lparr>ln_lock := False\<rparr>" by (simp add: set_lock_def set_lane_def)
  show ?thesis
  proof (cases "ln_queue (sc_lanes sc ?k)")
    case Nil
    then have "releasePacketLock tg sc = ?sc1"
      using q by (simp add: releasePacketLock_def Let_def k)
    then show ?thesis using Nil by (auto simp: set_lock_def lv_set_lane) (auto simp: lv_def)
  next
    case (Cons m ms)
    then have r: "releasePacketLock tg sc = start_message m (set_lane ?k ((sc_lanes sc ?k)\<lparr>ln_lock := False, ln_queue := ms\<rparr>) ?sc1)"
      using q by (simp add: releasePacketLock_def Let_def k)
    have m: "in_lane A l m \<longleftrightarrow> ?k = l" using assms(2) Cons by (auto simp: in_lane_def)
    have "lv A l (set_lane ?k ((sc_lanes sc ?k)\<lparr>ln_lock := False, ln_queue := ms\<rparr>) ?sc1)
        = (if ?k = l then ((sc_lanes sc ?k)\<lparr>ln_lock := False, ln_queue := ms\<rparr>, snd (lv A l sc)) else lv A l sc)"
      by (simp add: lv_set_lane set_lock_def)
    note set = this
    obtain x ts st lg hs where v: "lv A l sc = (x, ts, st, lg, hs)" by (cases "lv A l sc") auto
    then have "sc_lanes sc l = x" by (simp add: lv_def)
    then show ?thesis
      unfolding r using assms(1) Cons m set v by (cases "?k = l") (simp_all add: lv_start_message)
  qed
qed

lemma lv_add_task:
  "lv A l (add_task m pc sc) =
     (if in_lane A l m then (case lv A l sc of (x, ts, rest) \<Rightarrow> (x, ts @ [(m, pc)], rest)) else lv A l sc)"
  by (simp add: lv_def add_task_def)

lemma lv_upd [simp]:
  "lv A l (sc\<lparr>sc_conn := c\<rparr>) = lv A l sc" "lv A l (sc\<lparr>sc_rejections := es\<rparr>) = lv A l sc"
  "lv A l (sc\<lparr>sc_lastReceived := lr\<rparr>) = lv A l sc" "lv A l (invalidPacket msg sc) = lv A l sc"
  "lv A l (sc\<lparr>sc_phase := ph\<rparr>) = lv A l sc" "lv A l (sc\<lparr>sc_handshakeComplete := b\<rparr>) = lv A l sc"
  by (simp_all add: lv_def invalidPacket_def)

lemma lv_log:
  "lv A l (sc\<lparr>sc_log := sc_log sc @ [(b, m, r)]\<rparr>) =
     (if in_lane A l m then (case lv A l sc of (x, ts, st, lg, hs) \<Rightarrow> (x, ts, st, lg @ [(b, m, r)], hs)) else lv A l sc)"
  by (simp add: lv_def)

lemma filter_remove_at:
  "i < length xs \<Longrightarrow> \<not> P (xs ! i) \<Longrightarrow> filter P (remove_at i xs) = filter P xs"
  "i < length xs \<Longrightarrow> P (xs ! i) \<Longrightarrow> length (filter P xs) \<le> 1 \<Longrightarrow> filter P (remove_at i xs) = [] \<and> filter P xs = [xs ! i]"
proof -
  assume i: "i < length xs"
  then have x: "xs = take i xs @ xs ! i # drop (Suc i) xs" by (rule id_take_nth_drop)
  have f: "filter P xs = filter P (take i xs) @ filter P [xs ! i] @ filter P (drop (Suc i) xs)"
    by (subst x) simp
  show "\<not> P (xs ! i) \<Longrightarrow> filter P (remove_at i xs) = filter P xs"
    using f by (simp add: remove_at_def)
  show "P (xs ! i) \<Longrightarrow> length (filter P xs) \<le> 1 \<Longrightarrow> filter P (remove_at i xs) = [] \<and> filter P xs = [xs ! i]"
    using f by (simp add: remove_at_def)
qed

lemma task_ok_length: "task_ok ts st lg \<Longrightarrow> length ts \<le> 1"
  by (induction ts st lg rule: task_ok.induct) auto

section \<open>Messages\<close>

definition lanes_inv :: "(jsstr \<rightharpoonup> bool) \<Rightarrow> server_conn \<Rightarrow> bool" where
  "lanes_inv A sc \<longleftrightarrow> sc_async sc = A \<and> (\<forall>l. lane_ok (lv A l sc))"

lemma lanes_inv_queue: "lanes_inv A sc \<Longrightarrow> \<forall>m \<in> set (ln_queue (sc_lanes sc l)). in_lane A l m"
proof -
  assume "lanes_inv A sc"
  then have "lane_ok (lv A l sc)" by (simp add: lanes_inv_def)
  then have "set (ln_queue (sc_lanes sc l)) \<subseteq> set (filter (in_lane A l) (sc_handed sc))" by (auto simp: lv_def)
  then show ?thesis by auto
qed

lemma lanes_inv_core: "core_view sc = core_view sc' \<Longrightarrow> lanes_inv A sc = lanes_inv A sc'"
  using core_view_eqD [of sc sc'] by (simp add: lanes_inv_def lv_def)

lemma lane_ok_start:
  "lane_ok (x, ts, st, lg, hs) \<Longrightarrow> lane_ok (lv_start m (x, ts, st, lg, hs @ [m]))"
  by (cases "ln_lock x") auto

lemma lv_handed:
  "lv A l (sc\<lparr>sc_handed := sc_handed sc @ [m]\<rparr>) =
     (if in_lane A l m then (case lv A l sc of (x, ts, st, lg, hs) \<Rightarrow> (x, ts, st, lg, hs @ [m])) else lv A l sc)"
  by (simp add: lv_def)

lemma lanes_inv_message: "lanes_inv A sc \<Longrightarrow> lanes_inv A (messageHandler m sc)"
proof -
  assume i: "lanes_inv A sc"
  have "lane_ok (lv A l (messageHandler m sc))" for l
  proof -
    obtain x ts st lg hs where v: "lv A l sc = (x, ts, st, lg, hs)" by (cases "lv A l sc") auto
    have "lane_ok (x, ts, st, lg, hs)" using i v by (simp add: lanes_inv_def flip: v)
    then show ?thesis
      using i v lane_ok_start [of x ts st lg hs m]
      by (simp add: messageHandler_def lv_start_message lv_handed lanes_inv_def del: lane_ok.simps lv_start.simps)
  qed
  then show ?thesis using i by (simp add: lanes_inv_def messageHandler_def)
qed

lemma lanes_inv_frame: "lanes_inv A sc \<Longrightarrow> \<not> isControl d \<Longrightarrow> lanes_inv A (on_message host d sc)"
proof -
  assume i: "lanes_inv A sc" and d: "\<not> isControl d"
  obtain m sc1 where p: "parseData host d sc = (m, sc1)" by fastforce
  have v: "core_view sc1 = core_view sc" using view_parse [OF p] by simp
  have i1: "lanes_inv A sc1" using lanes_inv_core [OF v] i by simp
  have s: "lanes_inv A (sock_close code sc1)" for code
    using i1 lanes_inv_core [of "sock_close code sc1" sc1 A] by simp
  have h: "lanes_inv A (messageHandler x sc1)" for x by (rule lanes_inv_message [OF i1])
  have g: "lanes_inv A (sc\<lparr>sc_phase := ph, sc_handshakeComplete := b\<rparr>) = lanes_inv A sc" for sc ph b
    by (simp add: lanes_inv_def)
  show ?thesis
    using p d i1 s h g
    by (cases "sc_phase sc")
      (auto simp: on_message_def handle_parsed_def handshakeHandler_def handshakedMessage_def split: option.split)
qed

section \<open>Resumed handlers\<close>

lemma lv_deliver:
  assumes "\<not> in_lane A l m"
  shows "lv A l (deliver m r rest sc) = lv A l sc"
  using assms by (simp add: deliver_def lv_add_task lv_log split: sum.split)

lemma lv_set_lock_other: "k \<noteq> l \<Longrightarrow> lv A l (set_lock k b sc) = lv A l sc"
  by (simp add: set_lock_def lv_set_lane)

lemma lv_resume_other:
  assumes "sc_async sc = A" "lane_in A (fst m) \<noteq> l"
    "\<forall>m' \<in> set (ln_queue (sc_lanes sc (lane_in A (fst m)))). in_lane A (lane_in A (fst m)) m'"
  shows "lv A l (resume_task host a m p pc sc) = lv A l sc"
proof -
  have o: "\<not> in_lane A l m" using assms(2) by (simp add: in_lane_def)
  have r: "lv A l (releasePacketLock (fst m) sc) = lv A l sc"
    using lv_release_lock [OF assms(1,3)] assms(2) by simp
  note simps = resume_task_def lv_deliver [OF o] lv_add_task o r lv_set_lock_other assms(1,2) lane_of_in
  show ?thesis
  proof (cases pc)
    case AtUnravel
    then show ?thesis by (simp add: simps split: sum.split list.split)
  next
    case (AtDeliver x rest)
    then show ?thesis
      by (simp add: simps end_deliver_def Let_def lv_log split: sum.split option.split)
  qed (simp_all add: simps Let_def split: option.split list.split)
qed

definition unbatched :: "server_host \<Rightarrow> bool" where
  "unbatched host \<longleftrightarrow> list_all (\<lambda>(t, p). pk_dataBatching p = Some 0) (ph_packetMap (sh_client host))"

lemma unbatched_packet:
  "unbatched host \<Longrightarrow> getPacket (sh_client host) tg = Inr p \<Longrightarrow> pk_dataBatching p = Some 0"
  by (auto simp: unbatched_def getPacket_def list_all_iff split: option.splits dest!: map_of_SomeD bind_eq_Some_conv [THEN iffD1])

lemma lane_ok_release:
  assumes "ln_lock x" "hs = st @ ln_queue x" "closed_log lg" "subseq (begun lg) st"
  shows "lane_ok (lv_release (x, [], st, lg, hs))"
  using assms by (auto simp: closed_log_def split: list.split)

lemma subseq_snoc: "subseq xs ys \<Longrightarrow> subseq xs (ys @ [y])"
  by (rule subseq_rev_drop_many)

lemma subseq_snoc_snoc: "subseq xs ys \<Longrightarrow> subseq (xs @ [y]) (ys @ [y])"
  by (simp add: list_emb_append_mono)

lemma pc_ok_idle: "pc_ok pc m st lg \<Longrightarrow> serial lg \<and> subseq (begun lg) (st @ [m])"
  by (induction pc m st lg rule: pc_ok.induct)
    (auto simp: closed_log_def subseq_snoc subseq_snoc_snoc closed_snoc(1) [unfolded closed_log_def])

lemma lane_ok_deliver:
  assumes v: "lv A l sc = (x, [], st' @ [m], lg, hs)" and m: "in_lane A l m"
    and ok: "ln_lock x" "hs = (st' @ [m]) @ ln_queue x" "closed_log lg" "subseq (begun lg) st'"
  shows "lane_ok (lv A l (deliver m r [] sc))"
  using assms subseq_snoc [OF ok(4)]
  by (cases r) (auto simp: deliver_def lv_add_task lv_log closed_log_def)

lemma lane_ok_resume:
  assumes a: "sc_async sc = A" and v: "lv A l sc = (x, [], st' @ [m], lg, hs)" and m: "in_lane A l m"
    and q: "\<forall>m' \<in> set (ln_queue (sc_lanes sc l)). in_lane A l m'"
    and ok: "ln_lock x" "hs = (st' @ [m]) @ ln_queue x" "pc_ok pc m st' lg" and b: "pk_dataBatching p = Some 0"
  shows "lane_ok (lv A l (resume_task host an m p pc sc))"
proof -
  have l: "lane_in A (fst m) = l" using m by (simp add: in_lane_def)
  have rel: "lane_ok (lv A l (releasePacketLock (fst m) sc))" if "closed_log lg" "subseq (begun lg) (st' @ [m])"
    using lv_release_lock [OF a, of "fst m" l] q v l lane_ok_release [OF ok(1,2) that] by simp
  show ?thesis
  proof (cases pc)
    case AtPre
    have c: "closed_log lg" "subseq (begun lg) st'" using ok(3) AtPre by simp_all
    note d = lane_ok_deliver [OF v m ok(1,2) c]
    have "lane_ok (lv A l (invalidPacket msg sc))" for msg
      using v c ok(1,2) subseq_snoc [OF c(2)] by (simp add: closed_log_def)
    moreover have "lane_ok (lv A l (add_task m AtListen sc))"
      using v m c ok(1,2) by (simp add: lv_add_task)
    ultimately show ?thesis
      using AtPre rel [OF c(1) subseq_snoc [OF c(2)]] d b
      by (simp add: resume_task_def split: option.split)
  next
    case AtListen
    have c: "closed_log lg" "subseq (begun lg) st'" using ok(3) AtListen by simp_all
    show ?thesis
      using AtListen v lane_ok_deliver [of A l "sc\<lparr>sc_lastReceived := lr\<rparr>" for lr, OF _ m ok(1,2) c]
      by (simp add: resume_task_def Let_def)
  next
    case (AtDeliver r rest)
    show ?thesis
    proof (cases r)
      case (Inl msg)
      have c: "closed_log lg" "subseq (begun lg) st'" "rest = []" using ok(3) AtDeliver Inl by simp_all
      show ?thesis
        using AtDeliver Inl v m c ok(1,2) subseq_snoc [OF c(2)]
        by (simp add: resume_task_def end_deliver_def lv_add_task)
    next
      case (Inr val)
      obtain lg' where c: "lg = lg' @ [(True, m, Inr val)]" "closed_log lg'" "subseq (begun lg') st'" "rest = []"
        using ok(3) AtDeliver Inr by auto
      have "closed_log (lg @ [(False, m, Inr val)])" "subseq (begun (lg @ [(False, m, Inr val)])) (st' @ [m])"
        using closed_snoc(2) [OF c(2)] subseq_snoc_snoc [OF c(3)] c(1) by simp_all
      then show ?thesis
        using AtDeliver Inr v m c(4) ok(1,2)
        by (auto simp: resume_task_def end_deliver_def lv_add_task lv_log Let_def closed_log_def split: option.split)
    qed
  next
    case (AtPost r rest)
    then show ?thesis using ok(3) rel by (simp add: resume_task_def Let_def)
  qed (use ok(3) in simp_all)
qed

lemma lanes_inv_resume:
  assumes i: "lanes_inv A sc" and u: "unbatched host"
  shows "lanes_inv A (resume host n a sc)"
proof (cases "n < length (sc_tasks sc)")
  case True
  obtain m pc where t: "sc_tasks sc ! n = (m, pc)" by fastforce
  let ?sc1 = "sc\<lparr>sc_tasks := remove_at n (sc_tasks sc)\<rparr>"
  let ?k = "lane_in A (fst m)"
  have a: "sc_async sc = A" using i by (simp add: lanes_inv_def)
  have other: "lv A l ?sc1 = lv A l sc" if "?k \<noteq> l" for l
    using filter_remove_at(1) [OF True, of "\<lambda>t. in_lane A l (fst t)"] t that by (simp add: lv_def in_lane_def)
  obtain x ts st lg hs where v: "lv A ?k sc = (x, ts, st, lg, hs)" by (cases "lv A ?k sc") auto
  have ok: "lane_ok (x, ts, st, lg, hs)" using i by (simp add: lanes_inv_def flip: v)
  have "length ts \<le> 1" using ok task_ok_length [of ts st lg] by simp
  moreover have "ts = filter (\<lambda>t. in_lane A ?k (fst t)) (sc_tasks sc)" using v by (simp add: lv_def)
  ultimately have r: "filter (\<lambda>t. in_lane A ?k (fst t)) (remove_at n (sc_tasks sc)) = []" and ts: "ts = [(m, pc)]"
    using filter_remove_at(2) [OF True, of "\<lambda>t. in_lane A ?k (fst t)"] t by (simp_all add: in_lane_def)
  have v1: "lv A ?k ?sc1 = (x, [], st, lg, hs)" using v r by (simp add: lv_def)
  obtain st' where st: "st = st' @ [m]" "pc_ok pc m st' lg" "ln_lock x" "hs = st @ ln_queue x" using ok ts by auto
  have q: "\<forall>m' \<in> set (ln_queue (sc_lanes ?sc1 ?k)). in_lane A ?k m'" using lanes_inv_queue [OF i] by simp
  show ?thesis
  proof (cases "getPacket (sh_client host) (fst m)")
    case (Inl e)
    have "lane_ok (x, [], st, lg, hs)"
      using st pc_ok_idle [OF st(2)] by simp
    then have "lane_ok (lv A l ?sc1)" for l
      using i v1 other [of l] by (cases "?k = l") (simp_all add: lanes_inv_def)
    then show ?thesis using True t Inl a by (simp add: resume_def Let_def lanes_inv_def)
  next
    case (Inr p)
    have e: "resume host n a sc = resume_task host a m p pc ?sc1"
      using True t Inr by (simp add: resume_def Let_def)
    have a1: "sc_async ?sc1 = A" using a by simp
    have "lane_ok (lv A l (resume_task host a m p pc ?sc1))" for l
    proof (cases "?k = l")
      case True
      have m: "in_lane A l m" using True by (simp add: in_lane_def)
      show ?thesis
        using lane_ok_resume [OF a1 _ m] v1 q st unbatched_packet [OF u Inr] True by simp
    next
      case False
      then show ?thesis using lv_resume_other [OF a1 False q] other [OF False] i by (simp add: lanes_inv_def)
    qed
    moreover have "sc_async (resume host n a sc) = A"
      using gate_resume [of host n a sc] a by (simp add: gate_view_def)
    ultimately show ?thesis by (simp add: e lanes_inv_def)
  qed
qed (use i in \<open>simp add: resume_def\<close>)

lemma lanes_inv_step:
  assumes "lanes_inv A sc" "unbatched host"
  shows "lanes_inv A (sc_step host sc e)"
proof (cases "plain_event e")
  case True
  then show ?thesis using lanes_inv_core [OF core_plain [OF True]] assms(1) by simp
next
  case False
  then show ?thesis using lanes_inv_resume [OF assms] lanes_inv_frame [OF assms(1)] by (cases e) simp_all
qed

text \<open>The step of a host all of whose client packets are unbatched; other hosts stand still.\<close>

interpretation lanes: machine_inv "\<lambda>sc e. if unbatched host then sc_step host sc e else sc" "lanes_inv A" for host A
  by unfold_locales (simp add: lanes_inv_step)

lemma lanes_inv_new:
  assumes "new_server_conn host i hs cl sl = Inr sc"
  shows "lanes_inv (sc_async sc) sc"
  using new_conn_fields [OF assms] by (simp add: lanes_inv_def lv_def empty_lane_def closed_log_def)

lemma lane_ok_serial:
  "lane_ok (x, ts, st, lg, hs) \<Longrightarrow> serial lg \<and> subseq (begun lg) hs \<and> (ln_lock x \<or> ln_queue x = [])"
proof -
  assume ok: "lane_ok (x, ts, st, lg, hs)"
  then have "serial lg \<and> subseq (begun lg) st"
    using task_ok_length [of ts st lg] pc_ok_idle
    by (cases "(ts, st, lg)" rule: task_ok.cases) auto
  then show ?thesis using ok by (auto intro: subseq_rev_drop_many)
qed

text \<open>
  C2: When no client packet is batched, then for every lane (the shared one or an async packet's), after
  any frames, hooks, listeners and interleaving of handlers: the listeners of one message end before those
  of another begin, messages are delivered in their order of arrival, each at most once, and none waits
  while the lane is free.
\<close>

theorem serial_delivery:
  assumes "new_server_conn host i hs cl sl = Inr sc0" "unbatched host" "sc = foldl (sc_step host) sc0 es"
  shows "serial (filter (\<lambda>x. in_lane (sc_async sc0) l (fst (snd x))) (sc_log sc))
    \<and> subseq (begun (filter (\<lambda>x. in_lane (sc_async sc0) l (fst (snd x))) (sc_log sc)))
             (filter (in_lane (sc_async sc0) l) (sc_handed sc))
    \<and> (ln_lock (sc_lanes sc l) \<or> ln_queue (sc_lanes sc l) = [])"
proof -
  have "lanes_inv (sc_async sc0) sc"
    unfolding assms(3) using lanes.run_inv [OF lanes_inv_new [OF assms(1)], of host es] assms(2) by simp
  then have "lane_ok (lv (sc_async sc0) l sc)" by (simp add: lanes_inv_def)
  then show ?thesis unfolding lv_def by (rule lane_ok_serial)
qed

lemma serial_delivery_witness:
  "\<forall>core. \<exists>sc0. new_server_conn (bare_host core) 1 None 0 0 = Inr sc0
    \<and> (let sc = foldl (sc_step (bare_host core)) sc0 [EnablePacket (js ''hi''), Message (Binary [1])]
       in ln_lock (sc_lanes sc None) \<or> ln_queue (sc_lanes sc None) = [])"
proof
  fix core
  obtain sc0 where s: "new_server_conn (bare_host core) 1 None 0 0 = Inr sc0"
    using bare_conn [of core None] by (auto simp: is_ok_iff)
  have "unbatched (bare_host core)" by (simp add: unbatched_def bare_host_def empty_holder_def)
  from serial_delivery [OF s this refl, where es = "[EnablePacket (js ''hi''), Message (Binary [1])]" and l = None] s
  show "\<exists>sc0. new_server_conn (bare_host core) 1 None 0 0 = Inr sc0
    \<and> (let sc = foldl (sc_step (bare_host core)) sc0 [EnablePacket (js ''hi''), Message (Binary [1])]
       in ln_lock (sc_lanes sc None) \<or> ln_queue (sc_lanes sc None) = [])"
    unfolding Let_def by blast
qed

section \<open>An empty batch\<close>

text \<open>A lane is stuck when it is locked and no task of it runs. Every queue holds messages of its own lane.\<close>

definition queues_ok :: "(jsstr \<rightharpoonup> bool) \<Rightarrow> server_conn \<Rightarrow> bool" where
  "queues_ok A sc \<longleftrightarrow> sc_async sc = A \<and> (\<forall>k. \<forall>m \<in> set (ln_queue (sc_lanes sc k)). in_lane A k m)"

definition stuck :: "(jsstr \<rightharpoonup> bool) \<Rightarrow> jsstr option \<Rightarrow> message list \<Rightarrow> server_conn \<Rightarrow> bool" where
  "stuck A l S sc \<longleftrightarrow> queues_ok A sc \<and> ln_lock (sc_lanes sc l)
     \<and> filter (\<lambda>t. in_lane A l (fst t)) (sc_tasks sc) = [] \<and> filter (in_lane A l) (sc_started sc) = S"

lemma queues_ok_upd [simp]:
  "queues_ok A (sc\<lparr>sc_conn := c\<rparr>) = queues_ok A sc" "queues_ok A (sc\<lparr>sc_rejections := es\<rparr>) = queues_ok A sc"
  "queues_ok A (sc\<lparr>sc_lastReceived := lr\<rparr>) = queues_ok A sc" "queues_ok A (invalidPacket msg sc) = queues_ok A sc"
  "queues_ok A (sc\<lparr>sc_phase := ph\<rparr>) = queues_ok A sc" "queues_ok A (sc\<lparr>sc_handshakeComplete := b\<rparr>) = queues_ok A sc"
  "queues_ok A (sc\<lparr>sc_tasks := ts\<rparr>) = queues_ok A sc" "queues_ok A (sc\<lparr>sc_log := lg\<rparr>) = queues_ok A sc"
  "queues_ok A (sc\<lparr>sc_handed := hs\<rparr>) = queues_ok A sc" "queues_ok A (add_task m pc sc) = queues_ok A sc"
  by (simp_all add: queues_ok_def invalidPacket_def add_task_def)

lemma queues_ok_set_lock [simp]: "queues_ok A sc \<Longrightarrow> queues_ok A (set_lock k b sc)"
  by (auto simp: queues_ok_def set_lock_def set_lane_def)

lemma queues_ok_start: "queues_ok A sc \<Longrightarrow> queues_ok A (start_message m sc)"
  by (auto simp: queues_ok_def start_message_def Let_def set_lane_def set_lock_def add_task_def lane_of_in in_lane_def)

lemma queues_ok_release: "queues_ok A sc \<Longrightarrow> queues_ok A (releasePacketLock tg sc)"
proof -
  assume q: "queues_ok A sc"
  let ?k = "lane_of sc tg"
  have s: "queues_ok A (set_lock ?k False sc)" using q by simp
  have "queues_ok A (set_lane ?k ((sc_lanes (set_lock ?k False sc) ?k)\<lparr>ln_queue := ms\<rparr>) (set_lock ?k False sc))"
    if "ln_queue (sc_lanes (set_lock ?k False sc) ?k) = m # ms" for m ms
    using s that by (auto simp: queues_ok_def set_lane_def split: if_splits)
  then show ?thesis
    using s queues_ok_start by (auto simp: releasePacketLock_def Let_def split: list.split)
qed

lemma queues_ok_deliver: "queues_ok A sc \<Longrightarrow> queues_ok A (deliver m r rest sc)"
  by (simp add: deliver_def split: sum.split)

lemma queues_ok_task: "queues_ok A sc \<Longrightarrow> queues_ok A (resume_task host a m p pc sc)"
proof (cases pc)
  case (AtDeliver r rest)
  assume "queues_ok A sc"
  then show ?thesis using AtDeliver by (simp add: resume_task_def end_deliver_def Let_def split: sum.split option.split)
next
  case AtUnravel
  assume "queues_ok A sc"
  then show ?thesis using AtUnravel by (simp add: resume_task_def queues_ok_deliver split: sum.split list.split)
qed (simp_all add: resume_task_def Let_def queues_ok_release queues_ok_deliver split: option.split list.split)

lemma stuck_core: "core_view sc = core_view sc' \<Longrightarrow> stuck A l S sc = stuck A l S sc'"
  using core_view_eqD [of sc sc'] by (simp add: stuck_def queues_ok_def)

lemma stuck_lv:
  "stuck A l S sc \<longleftrightarrow> queues_ok A sc \<and> (\<exists>x lg hs. lv A l sc = (x, [], S, lg, hs) \<and> ln_lock x)"
  by (auto simp: stuck_def lv_def)

lemma stuck_message: "stuck A l S sc \<Longrightarrow> stuck A l S (messageHandler m sc)"
  unfolding stuck_lv
  by (auto simp: messageHandler_def queues_ok_start lv_start_message lv_handed queues_ok_def [of A sc])

lemma stuck_frame: "stuck A l S sc \<Longrightarrow> \<not> isControl d \<Longrightarrow> stuck A l S (on_message host d sc)"
proof -
  assume i: "stuck A l S sc" and d: "\<not> isControl d"
  obtain m sc1 where p: "parseData host d sc = (m, sc1)" by fastforce
  have v: "core_view sc1 = core_view sc" using view_parse [OF p] by simp
  have i1: "stuck A l S sc1" using stuck_core [OF v] i by simp
  have s: "stuck A l S (sock_close code sc1)" for code
    using i1 stuck_core [of "sock_close code sc1" sc1] by simp
  have h: "stuck A l S (messageHandler x sc1)" for x by (rule stuck_message [OF i1])
  have g: "stuck A l S (sc\<lparr>sc_phase := ph, sc_handshakeComplete := b\<rparr>) = stuck A l S sc" for sc ph b
    by (simp add: stuck_def)
  show ?thesis
    using p d i1 s h g
    by (cases "sc_phase sc")
      (auto simp: on_message_def handle_parsed_def handshakeHandler_def handshakedMessage_def split: option.split)
qed

lemma stuck_resume: "stuck A l S sc \<Longrightarrow> stuck A l S (resume host n a sc)"
proof (cases "n < length (sc_tasks sc)")
  case True
  assume i: "stuck A l S sc"
  obtain m pc where t: "sc_tasks sc ! n = (m, pc)" by fastforce
  let ?sc1 = "sc\<lparr>sc_tasks := remove_at n (sc_tasks sc)\<rparr>"
  have "(m, pc) \<in> set (sc_tasks sc)" using True t by (metis nth_mem)
  then have o: "lane_in A (fst m) \<noteq> l" using i by (auto simp: stuck_def filter_empty_conv in_lane_def)
  have l: "lv A l ?sc1 = lv A l sc"
    using filter_remove_at(1) [OF True, of "\<lambda>t. in_lane A l (fst t)"] t o by (simp add: lv_def in_lane_def)
  have q: "queues_ok A ?sc1" using i by (simp add: stuck_def)
  have "lv A l (resume_task host a m p pc ?sc1) = lv A l sc" for p
    using lv_resume_other [of ?sc1 A m l] q o l by (simp add: queues_ok_def)
  then show ?thesis
    using i True t l q queues_ok_task [OF q]
    by (simp add: resume_def Let_def stuck_lv split: sum.split)
qed (simp add: resume_def)

interpretation stuck_lane: machine_inv "sc_step host" "stuck A l S" for host A l S
proof
  fix sc e
  assume i: "stuck A l S sc"
  show "stuck A l S (sc_step host sc e)"
  proof (cases "plain_event e")
    case True
    then show ?thesis using stuck_core [OF core_plain [OF True]] i by simp
  next
    case False
    then show ?thesis using stuck_resume [OF i] stuck_frame [OF i] by (cases e) simp_all
  qed
qed

lemma unravel_empty:
  "\<not> pk_gzip p \<Longrightarrow> unravelBatch lib (with_rust base) ctors p val [] = Inr []"
  using decode_batch_plain [of "[]" "pk_maxBatchSize p" None base]
  by (simp add: unravelBatch_def rust_encode_batches_def batch_refused_def split: option.splits)

text \<open>
  C38: A client that sends a batched packet with no payload at all stops its lane for good: the batch holds
  no value, so nobody releases the lock, and whatever arrives later no other message of the lane is ever
  started. For a packet that is not async that is every packet but the async ones.
\<close>

theorem empty_batch_stalls:
  assumes "new_server_conn host i None cl sl = Inr sc0" "sh_core host = with_rust base"
    "getPacket (sh_client host) tg = Inr p" "pk_dataBatching p \<noteq> Some 0" "\<not> pk_rereference p" "\<not> pk_gzip p"
    "key \<noteq> 0" "parseData host (Binary [key]) sc0 = (Some (tg, []), sc1)" "\<not> an_cancelled a"
  shows "filter (in_lane (sc_async sc0) (lane_in (sc_async sc0) tg))
      (sc_started (foldl (sc_step host) sc0 (Message (Binary [key]) # Resume 0 a # Resume 0 b # es))) = [(tg, [])]"
proof -
  let ?A = "sc_async sc0" and ?m = "(tg, []) :: message"
  let ?l = "lane_in ?A tg"
  let ?sc2 = "messageHandler ?m sc1"
  note n = new_conn_fields [OF assms(1)]
  note c = core_view_eqD [OF view_eqD [OF view_parse [OF assms(8)], THEN conjunct1]]
  have l: "lane_of sc tg = ?l" if "sc_async sc = ?A" for sc using that by (simp add: lane_of_in)
  have msg: "on_message host (Binary [key]) sc0 = ?sc2"
    using assms(7,8) n(1) by (simp add: on_message_def isControl_def handle_parsed_def)
  have f2: "sc_tasks ?sc2 = [(?m, AtPre)]" "sc_started ?sc2 = [?m]" "sc_async ?sc2 = ?A" "ln_lock (sc_lanes ?sc2 ?l)"
    using c n l [of sc1]
    by (simp_all add: messageHandler_def start_message_def Let_def lane_of_in empty_lane_def add_task_def set_lock_def set_lane_def)
  have q1: "queues_ok ?A (sc1\<lparr>sc_handed := sc_handed sc1 @ [?m]\<rparr>)"
    using c n by (simp add: queues_ok_def empty_lane_def)
  have q2: "queues_ok ?A ?sc2" unfolding messageHandler_def by (rule queues_ok_start [OF q1])
  have r1: "resume host 0 a ?sc2 = ?sc2\<lparr>sc_tasks := [(?m, AtUnravel)]\<rparr>"
    using f2(1) assms(3-6,9) by (simp add: resume_def remove_at_def resume_task_def Let_def add_task_def)
  have r2: "resume host 0 b (?sc2\<lparr>sc_tasks := [(?m, AtUnravel)]\<rparr>) = ?sc2\<lparr>sc_tasks := []\<rparr>"
    using assms(2,3) unravel_empty [OF assms(6)] by (simp add: resume_def remove_at_def resume_task_def Let_def)
  have "stuck ?A ?l [?m] (?sc2\<lparr>sc_tasks := []\<rparr>)"
    using q2 f2 by (simp add: stuck_def in_lane_def)
  then have "stuck ?A ?l [?m] (foldl (sc_step host) (?sc2\<lparr>sc_tasks := []\<rparr>) es)"
    by (rule stuck_lane.run_inv)
  then show ?thesis by (simp only: foldl_Cons msg sc_step.simps r1 r2 stuck_def)
qed

text \<open>The same small server with \<open>hi\<close> batched.\<close>

definition batched_host :: "native_core \<Rightarrow> server_host" where
  "batched_host core = (bare_host core)\<lparr>sh_client := empty_holder\<lparr>ph_tags := [(1, js ''hi'')], ph_keys := [(js ''hi'', 1)],
     ph_packetMap := [(js ''hi'', sample_packet\<lparr>pk_dataBatching := Some 5\<rparr>)],
     ph_packets := [sample_packet\<lparr>pk_tag := js ''hi'', pk_dataBatching := Some 5\<rparr>]\<rparr>\<rparr>"

definition carry_on :: answer where
  "carry_on = \<lparr>an_cancelled = False, an_listenerThrew = None, an_parentThrew = False\<rparr>"

lemma batched_conn:
  "\<exists>sc0 sc1. new_server_conn (batched_host core) 1 None 0 0 = Inr sc0
     \<and> parseData (batched_host core) (Binary [1]) sc0 = (Some (js ''hi'', []), sc1)"
proof -
  let ?p = "sample_packet\<lparr>pk_tag := js ''hi'', pk_dataBatching := Some 5\<rparr>"
  have r: "pk_rateLimit ?p = 0" "pk_tag ?p = js ''hi''" "pk_enabled ?p"
    by (simp_all add: sample_packet_def new_packet_def numeric_def Let_def)
  have k: "getKey (sh_client (batched_host core)) (js ''hi'') = Inr 1" "ph_packets (sh_client (batched_host core)) = [?p]"
    by (simp_all add: batched_host_def bare_host_def empty_holder_def getKey_def resolveTag_def object_prototype_keys_def)
  have s: "sh_server (batched_host core) = empty_holder" by (simp add: batched_host_def bare_host_def)
  let ?sc = "register_client_packet (blank_server_conn (js ''Socket '' @ js_of_nat 1) None) ?p"
  have n: "new_server_conn (batched_host core) 1 None 0 0 = Inr ?sc"
    unfolding new_server_conn_def registerAll_def s k(2) Let_def
    by (simp only: register_packets.simps k(1) r bindR_simps foldl.simps)
      (simp add: registerSendPackets_def getTags_def empty_holder_def registerRate_def rate_started_def
        blank_server_conn_def new_rater_def register_client_packet_def)
  have "parseData (batched_host core) (Binary [1]) ?sc = (Some (js ''hi'', []), ?sc)"
    using r by (simp add: parseData_def sc_trigger_def trigger_def register_client_packet_def blank_server_conn_def
        new_rater_def batched_host_def bare_host_def getTag_def empty_holder_def)
  then show ?thesis using n by blast
qed

lemma empty_batch_stalls_witness:
  "\<forall>base es. \<exists>sc0. new_server_conn (batched_host (with_rust base)) 1 None 0 0 = Inr sc0
    \<and> filter (in_lane (sc_async sc0) (lane_in (sc_async sc0) (js ''hi'')))
        (sc_started (foldl (sc_step (batched_host (with_rust base))) sc0
          (Message (Binary [1]) # Resume 0 carry_on # Resume 0 carry_on # es))) = [(js ''hi'', [])]"
proof (intro allI)
  fix base es
  let ?h = "batched_host (with_rust base)"
  obtain sc0 sc1 where n: "new_server_conn ?h 1 None 0 0 = Inr sc0" "parseData ?h (Binary [1]) sc0 = (Some (js ''hi'', []), sc1)"
    using batched_conn by blast
  have p: "getPacket (sh_client ?h) (js ''hi'') = Inr (sample_packet\<lparr>pk_dataBatching := Some 5\<rparr>)" "sh_core ?h = with_rust base"
    by (simp_all add: batched_host_def bare_host_def empty_holder_def getPacket_def resolveTag_def object_prototype_keys_def)
  have "filter (in_lane (sc_async sc0) (lane_in (sc_async sc0) (js ''hi'')))
        (sc_started (foldl (sc_step ?h) sc0
          (Message (Binary [1]) # Resume 0 carry_on # Resume 0 carry_on # es))) = [(js ''hi'', [])]"
    by (rule empty_batch_stalls [OF n(1) p(2,1) _ _ _ _ n(2)])
      (simp_all add: sample_packet_def new_packet_def numeric_def Let_def carry_on_def)
  then show "\<exists>sc0. new_server_conn ?h 1 None 0 0 = Inr sc0
    \<and> filter (in_lane (sc_async sc0) (lane_in (sc_async sc0) (js ''hi'')))
        (sc_started (foldl (sc_step ?h) sc0
          (Message (Binary [1]) # Resume 0 carry_on # Resume 0 carry_on # es))) = [(js ''hi'', [])]"
    using n(1) by blast
qed

section \<open>A batch is interrupted\<close>

text \<open>
  Between two values of a batch the lock is released: when another message waits, here one that
  repeats its last value, its listeners begin before the next value of the batch, and that next value
  begins before they end, so the listeners of one lane overlap.
\<close>

theorem batch_interleaves:
  assumes "sc_tasks sc = [(m, AtPost r [Inr v])]" "ln_queue (sc_lanes sc (lane_of sc (fst m))) = (t2, []) # ms"
    "lane_of sc t2 = lane_of sc (fst m)" "getPacket (sh_client host) (fst m) = Inr p"
    "getPacket (sh_client host) t2 = Inr p2" "pk_rereference p2" "sc_lastReceived sc t2 = Some (Inr w)"
    "\<not> cn_closed (sc_conn sc)" "\<not> an_cancelled a"
  shows "sc_log (foldl (sc_step host) sc [Resume 0 a, Resume 0 a, Resume 0 a])
    = sc_log sc @ [(True, (t2, []), Inr w), (True, m, Inr v)]"
proof -
  let ?m2 = "(t2, []) :: message"
  define sc1 where "sc1 = resume host 0 a sc"
  have t1: "sc_tasks sc1 = [(?m2, AtPre), (m, AtNext [Inr v])]" "sc_log sc1 = sc_log sc" "sc_conn sc1 = sc_conn sc"
    "sc_lastReceived sc1 = sc_lastReceived sc"
    using assms(1-4)
    by (simp_all add: sc1_def resume_def remove_at_def resume_task_def Let_def releasePacketLock_def set_lock_def
        set_lane_def lane_of_def isAsync_def start_message_def add_task_def)
  define sc2 where "sc2 = resume host 0 a sc1"
  have t2: "sc_tasks sc2 = [(m, AtNext [Inr v]), (?m2, AtDeliver (Inr w) [])]" "sc_conn sc2 = sc_conn sc"
    "sc_log sc2 = sc_log sc @ [(True, ?m2, Inr w)]"
    using assms(5-9) t1
    by (simp_all add: sc2_def resume_def remove_at_def resume_task_def Let_def deliver_def add_task_def)
  have "sc_log (resume host 0 a sc2) = sc_log sc @ [(True, ?m2, Inr w), (True, m, Inr v)]"
    using assms(4,8) t2
    by (simp add: resume_def remove_at_def resume_task_def Let_def deliver_def add_task_def set_lock_def set_lane_def)
  then show ?thesis by (simp add: sc1_def sc2_def)
qed

lemma batch_interleaves_witness:
  "\<forall>core. sc_log (foldl (sc_step ((bare_host core)\<lparr>sh_client := empty_holder\<lparr>ph_packetMap := [(js ''hi'', sample_packet\<lparr>pk_rereference := True\<rparr>)]\<rparr>\<rparr>))
      ((blank_server_conn [] None)\<lparr>sc_tasks := [((js ''hi'', [7]), AtPost (Inr (JNull, True)) [Inr (JBool True, True)])],
         sc_lanes := (\<lambda>_. \<lparr>ln_lock = True, ln_queue = [(js ''hi'', [])]\<rparr>), sc_lastReceived := [js ''hi'' \<mapsto> Inr (JNull, True)]\<rparr>)
      [Resume 0 carry_on, Resume 0 carry_on, Resume 0 carry_on])
    = [] @ [(True, (js ''hi'', []), Inr (JNull, True)), (True, (js ''hi'', [7]), Inr (JBool True, True))]"
proof
  fix core
  let ?h = "(bare_host core)\<lparr>sh_client := empty_holder\<lparr>ph_packetMap := [(js ''hi'', sample_packet\<lparr>pk_rereference := True\<rparr>)]\<rparr>\<rparr>"
  let ?sc = "(blank_server_conn [] None)\<lparr>sc_tasks := [((js ''hi'', [7]), AtPost (Inr (JNull, True)) [Inr (JBool True, True)])],
         sc_lanes := (\<lambda>_. \<lparr>ln_lock = True, ln_queue = [(js ''hi'', [])]\<rparr>), sc_lastReceived := [js ''hi'' \<mapsto> Inr (JNull, True)]\<rparr>"
  have p: "getPacket (sh_client ?h) (js ''hi'') = Inr (sample_packet\<lparr>pk_rereference := True\<rparr>)"
    by (simp add: empty_holder_def getPacket_def resolveTag_def object_prototype_keys_def)
  have l: "sc_log ?sc = []" by (simp add: blank_server_conn_def)
  have "sc_log (foldl (sc_step ?h) ?sc [Resume 0 carry_on, Resume 0 carry_on, Resume 0 carry_on])
    = sc_log ?sc @ [(True, (js ''hi'', []), Inr (JNull, True)), (True, (js ''hi'', [7]), Inr (JBool True, True))]"
  proof (rule batch_interleaves)
    show "sc_tasks ?sc = [((js ''hi'', [7]), AtPost (Inr (JNull, True)) [Inr (JBool True, True)])]" by simp
    show "getPacket (sh_client ?h) (fst (js ''hi'', [7 :: u8])) = Inr (sample_packet\<lparr>pk_rereference := True\<rparr>)"
      using p by (simp del: js_simps)
    show "pk_rereference (sample_packet\<lparr>pk_rereference := True\<rparr>)"
      by (simp add: sample_packet_def new_packet_def numeric_def Let_def)
  qed (use p in \<open>simp_all add: blank_server_conn_def new_conn_def lane_of_def isAsync_def carry_on_def del: js_simps\<close>)
  then show "sc_log (foldl (sc_step ?h) ?sc [Resume 0 carry_on, Resume 0 carry_on, Resume 0 carry_on])
    = [] @ [(True, (js ''hi'', []), Inr (JNull, True)), (True, (js ''hi'', [7]), Inr (JBool True, True))]"
    unfolding l .
qed

end
