(* ===== verification/Server_Limits.thy ===== *)
theory Server_Limits
  imports Server_Connection_Proofs
begin

text \<open>
  The client rate limit of a whole connection: what \<open>rate_gate\<close> promises for one counter, carried through
  every operation of the server-side connection, with the counters reset by their own timer only.
\<close>

section \<open>Operations only count upwards\<close>

definition counts_up :: "server_conn \<Rightarrow> server_conn \<Rightarrow> bool" where
  "counts_up sc sc' \<longleftrightarrow> sc_handed sc' = sc_handed sc
     \<and> rate_limit_of (sc_rater sc') (js ''C'') = rate_limit_of (sc_rater sc) (js ''C'')
     \<and> rate_used (sc_rater sc) (js ''C'') \<le> rate_used (sc_rater sc') (js ''C'')"

lemma counts_up_refl [simp]: "counts_up sc sc"
  by (simp add: counts_up_def)

lemma counts_up_trans: "counts_up a b \<Longrightarrow> counts_up b c \<Longrightarrow> counts_up a c"
  by (simp add: counts_up_def)

lemma counts_up_upd [simp]:
  "counts_up a (sc\<lparr>sc_conn := c\<rparr>) = counts_up a sc" "counts_up a (sc\<lparr>sc_batcher := b\<rparr>) = counts_up a sc"
  "counts_up a (sc\<lparr>sc_rejections := es\<rparr>) = counts_up a sc" "counts_up a (sc\<lparr>sc_pending := ps\<rparr>) = counts_up a sc"
  "counts_up a (sc\<lparr>sc_settled := st\<rparr>) = counts_up a sc" "counts_up a (sc\<lparr>sc_hostCalls := hc\<rparr>) = counts_up a sc"
  "counts_up a (sc\<lparr>sc_nextRequestId := n\<rparr>) = counts_up a sc" "counts_up a (sc\<lparr>sc_enabled := en\<rparr>) = counts_up a sc"
  "counts_up a (sc\<lparr>sc_listeners := ls\<rparr>) = counts_up a sc" "counts_up a (sc\<lparr>sc_responders := rs\<rparr>) = counts_up a sc"
  "counts_up a (sc\<lparr>sc_lastReceived := lr\<rparr>) = counts_up a sc" "counts_up a (sc\<lparr>sc_rpcs := rp\<rparr>) = counts_up a sc"
  "counts_up a (sc\<lparr>sc_tasks := ts\<rparr>) = counts_up a sc" "counts_up a (sc\<lparr>sc_log := lg\<rparr>) = counts_up a sc"
  "counts_up a (sc\<lparr>sc_started := sd\<rparr>) = counts_up a sc" "counts_up a (sc\<lparr>sc_lanes := lns\<rparr>) = counts_up a sc"
  "counts_up a (sock_close code sc) = counts_up a sc" "counts_up a (sc_close code reason sc) = counts_up a sc"
  by (simp_all add: counts_up_def sock_close_def sc_close_def)

lemma trigger_used:
  "trigger k r = (b, r') \<Longrightarrow> rate_limit_of r' j = rate_limit_of r j \<and> rate_used r j \<le> rate_used r' j"
  using rates.pass_limit [of k r]
  by (auto simp: admit_def trigger_def rate_used_def Let_def fun_eq_iff rate_limit_of_def split: option.splits if_splits)

lemma up_trigger: "counts_up a sc \<Longrightarrow> sc_trigger k sc = (b, sc') \<Longrightarrow> counts_up a sc'"
  using trigger_used [of k "sc_rater sc"]
  by (auto simp: sc_trigger_def counts_up_def sock_close_def split: prod.splits if_splits intro: order_trans)

lemma up_raw_send: "counts_up a sc \<Longrightarrow> raw_send data sc = (r, sc') \<Longrightarrow> counts_up a sc'"
  by (auto simp: raw_send_def split: if_splits prod.splits bool.splits dest: up_trigger)

lemma up_batch: "counts_up a sc \<Longrightarrow> sc_batch code data sc = (r, sc') \<Longrightarrow> counts_up a sc'"
  by (auto simp: sc_batch_def host_interval_def split: prod.splits if_splits)

lemma up_finish_send: "counts_up a sc \<Longrightarrow> finish_send wrap hook x sc = (r, sc') \<Longrightarrow> counts_up a sc'"
  by (auto simp: finish_send_def send_processed_def split: prod.splits bool.splits if_splits
      dest: up_trigger up_raw_send up_batch)

lemma up_send_response: "counts_up a sc \<Longrightarrow> send_response i ok v sc = (r, sc') \<Longrightarrow> counts_up a sc'"
  by (auto simp: send_response_def split: sum.splits dest: up_raw_send)

lemma up_rpc_fails [simp]: "counts_up a sc \<Longrightarrow> counts_up a (rpc_fails i e sc)"
  by (auto simp: rpc_fails_def sc_reject_def split: sum.splits prod.splits dest: up_send_response)

lemma up_start_rpc: "counts_up a sc \<Longrightarrow> counts_up a (start_rpc host i k payload sc)"
  by (auto simp: start_rpc_def split: option.split prod.split bool.split dest: up_trigger)

lemma up_control: "counts_up a sc \<Longrightarrow> counts_up a (handleControl host data sc)"
proof -
  assume u: "counts_up a sc"
  obtain b sc1 where t: "sc_trigger (js ''C'') sc = (b, sc1)" by fastforce
  note v = up_trigger [OF u t]
  show ?thesis
  proof (cases "decodeControl data")
    case (Inl e)
    then show ?thesis using t u v by (cases b) (simp_all add: handleControl_def)
  next
    case (Inr message)
    then show ?thesis
      using t u v up_start_rpc [OF v]
      by (cases b; cases message) (simp_all add: handleControl_def sc_reject_def settle_def)
  qed
qed

lemma up_resume_rpc: "counts_up a sc \<Longrightarrow> counts_up a (resume_rpc host j an r sc)"
proof (cases "j < length (sc_rpcs sc)")
  case True
  assume u: "counts_up a sc"
  obtain i tg pc where t: "sc_rpcs sc ! j = (i, tg, pc)" by (cases "sc_rpcs sc ! j") auto
  have u1: "counts_up a (sc\<lparr>sc_rpcs := remove_at j (sc_rpcs sc)\<rparr>)" using u by simp
  note s = up_send_response [OF u1]
  show ?thesis
    using u t True
    by (cases pc) (auto simp: resume_rpc_def Let_def split: sum.split prod.split dest!: s)
qed (simp add: resume_rpc_def)

lemma up_request: "counts_up a sc \<Longrightarrow> request k payload sc = (r, sc') \<Longrightarrow> counts_up a sc'"
proof -
  assume u: "counts_up a sc" and r: "request k payload sc = (r, sc')"
  obtain b sc1 where t: "sc_trigger (js ''server'' @ js_of_nat k) sc = (b, sc1)" by fastforce
  have s: "raw_send data (sc1\<lparr>sc_nextRequestId := n, sc_pending := ps\<rparr>) = (q, sc2) \<Longrightarrow> counts_up a sc2" for data n ps q sc2
    by (rule up_raw_send) (simp_all add: up_trigger [OF u t])
  show ?thesis
    using r t up_trigger [OF u t]
    by (auto simp: request_def Let_def split: bool.splits sum.splits prod.splits dest!: s)
qed

lemma up_parse: "counts_up a sc \<Longrightarrow> parseData host d sc = (m, sc') \<Longrightarrow> counts_up a sc'"
  by (auto simp: parseData_def split: prod.splits bool.splits ws_data.splits list.splits option.splits if_splits
      dest: up_trigger)

lemma up_set [simp]:
  "counts_up a (set_lane l x sc) = counts_up a sc" "counts_up a (set_lock l b sc) = counts_up a sc"
  "counts_up a (add_task m pc sc) = counts_up a sc" "counts_up a (invalidPacket msg sc) = counts_up a sc"
  by (simp_all add: set_lane_def set_lock_def add_task_def invalidPacket_def)

lemma up_start [simp]: "counts_up a (start_message m sc) = counts_up a sc"
  by (simp add: start_message_def Let_def)

lemma up_release [simp]: "counts_up a (releasePacketLock tg sc) = counts_up a sc"
  by (simp add: releasePacketLock_def Let_def split: list.split)

lemma up_deliver [simp]: "counts_up a (deliver m r rest sc) = counts_up a sc"
  by (simp add: deliver_def split: sum.split)

lemma up_resume: "counts_up a sc \<Longrightarrow> counts_up a (resume host n an sc)"
proof -
  assume u: "counts_up a sc"
  have "counts_up a (resume_task host an m p pc sc)" if "counts_up a sc" for m p pc sc
  proof (cases pc)
    case AtUnravel
    then show ?thesis using that by (simp add: resume_task_def split: sum.split list.split)
  next
    case (AtDeliver r rest)
    then show ?thesis using that by (simp add: resume_task_def end_deliver_def Let_def split: sum.split option.split)
  qed (use that in \<open>simp_all add: resume_task_def Let_def split: option.split list.split\<close>)
  then show ?thesis using u by (simp add: resume_def Let_def split: prod.split sum.split)
qed

section \<open>The client rate limit\<close>

definition quota :: "int \<Rightarrow> nat \<Rightarrow> server_conn \<Rightarrow> bool" where
  "quota n h sc \<longleftrightarrow> rate_limit_of (sc_rater sc) (js ''C'') = Some n
     \<and> int (length (sc_handed sc)) \<le> int h + rate_used (sc_rater sc) (js ''C'')
     \<and> int (length (sc_handed sc)) \<le> int h + n"

lemma quota_up: "quota n h sc \<Longrightarrow> counts_up sc sc' \<Longrightarrow> quota n h sc'"
  by (auto simp: quota_def counts_up_def)

lemma trigger_C:
  assumes "rate_limit_of (sc_rater sc) k = Some n" "sc_trigger k sc = (False, sc')"
  shows "rate_used (sc_rater sc') k = rate_used (sc_rater sc) k + 1 \<and> rate_used (sc_rater sc') k \<le> n
    \<and> rate_limit_of (sc_rater sc') k = Some n \<and> sc_handed sc' = sc_handed sc"
proof -
  have t: "trigger k (sc_rater sc) = (False, sc_rater sc')" and h: "sc_handed sc' = sc_handed sc"
    using assms(2) by (auto simp: sc_trigger_def split: prod.splits if_splits)
  then have "admit k (sc_rater sc) = (True, sc_rater sc')" by (simp add: admit_def)
  then show ?thesis
    using rates.pass_limited [OF assms(1)] rates.pass_limit [of k "sc_rater sc"] assms(1) h by simp
qed

lemma parse_counts:
  assumes "parseData host d sc = (Some m, sc')" "quota n h sc"
  shows "quota n h (sc'\<lparr>sc_handed := sc_handed sc' @ [m]\<rparr>)"
proof -
  obtain sc1 where t: "sc_trigger (js ''C'') sc = (False, sc1)"
    using assms(1) by (auto simp: parseData_def split: prod.splits bool.splits)
  have u: "counts_up sc1 sc'"
    using assms(1) t
    by (auto simp: parseData_def split: prod.splits ws_data.splits list.splits option.splits if_splits bool.splits
        intro: up_trigger [OF counts_up_refl])
  show ?thesis
    using trigger_C [OF _ t, of n] u assms(2) by (simp add: quota_def counts_up_def)
qed

lemma quota_frame: "quota n h sc \<Longrightarrow> \<not> isControl d \<Longrightarrow> quota n h (on_message host d sc)"
proof -
  assume q: "quota n h sc" and d: "\<not> isControl d"
  obtain m sc1 where p: "parseData host d sc = (m, sc1)" by fastforce
  have q1: "quota n h sc1" by (rule quota_up [OF q up_parse [OF counts_up_refl p]])
  have s: "quota n h (sock_close code sc1)" for code using q1 by (simp add: quota_def sock_close_def)
  show ?thesis
  proof (cases m)
    case None
    then show ?thesis using p d q1 s
      by (cases "sc_phase sc") (simp_all add: on_message_def handle_parsed_def handshakeHandler_def handshakedMessage_def)
  next
    case (Some x)
    have "counts_up (sc1\<lparr>sc_handed := sc_handed sc1 @ [x]\<rparr>) (messageHandler x sc1)" by (simp add: messageHandler_def)
    then have h: "quota n h (messageHandler x sc1)"
      using quota_up [OF parse_counts [OF p [unfolded Some] q]] by simp
    have g: "quota n h (y\<lparr>sc_phase := ph, sc_handshakeComplete := b\<rparr>) = quota n h y" for y ph b
      by (simp add: quota_def)
    show ?thesis using Some p d h s g
      by (cases "sc_phase sc") (simp_all add: on_message_def handle_parsed_def handshakeHandler_def handshakedMessage_def)
  qed
qed

lemma up_timer:
  assumes "\<forall>b. map_of (cn_timers (sc_conn sc)) i \<noteq> Some (RateReset, b)"
  shows "counts_up sc (timer_fires core i sc)"
proof -
  have f: "counts_up sc (run_flush core j sc)" for j
    by (auto simp: run_flush_def Let_def split: option.split prod.split sum.split dest!: up_raw_send [OF counts_up_refl])
  show ?thesis
    using assms f by (auto simp: timer_fires_def run_callback_def Let_def split: option.split sc_callback.split)
qed

text \<open>The interval of the counters is one of the connection's timers.\<close>

definition resets :: "server_conn \<Rightarrow> sc_event \<Rightarrow> bool" where
  "resets sc e =
     (case e of
        TimerFires i \<Rightarrow> (case map_of (cn_timers (sc_conn sc)) i of Some (RateReset, _) \<Rightarrow> True | _ \<Rightarrow> False)
      | _ \<Rightarrow> False)"

fun no_reset :: "server_host \<Rightarrow> server_conn \<Rightarrow> sc_event list \<Rightarrow> bool" where
  "no_reset host sc [] = True"
| "no_reset host sc (e # es) = (\<not> resets sc e \<and> no_reset host (sc_step host sc e) es)"

lemma quota_step: "quota n h sc \<Longrightarrow> \<not> resets sc e \<Longrightarrow> quota n h (sc_step host sc e)"
proof -
  assume q: "quota n h sc" and e: "\<not> resets sc e"
  note snd = prod.collapse [symmetric]
  have f: "counts_up sc (snd (finish_send w hk x sc))" "counts_up sc (snd (raw_send d sc))"
    "counts_up sc (snd (request k pl sc))" for w hk x d k pl
    by (rule up_finish_send [OF counts_up_refl snd] up_raw_send [OF counts_up_refl snd] up_request [OF counts_up_refl snd])+
  have t: "e = TimerFires i \<Longrightarrow> counts_up sc (timer_fires core i sc)" for i core
    using e by (intro up_timer) (auto simp: resets_def)
  have "(\<exists>d. e = Message d \<and> \<not> isControl d) \<or> counts_up sc (sc_step host sc e)"
    using f t up_resume [OF counts_up_refl] up_control [OF counts_up_refl] up_resume_rpc [OF counts_up_refl]
    by (cases e) (auto simp: on_message_def on_socket_close_def request_times_out_def settle_def
        enablePacket_def disablePacket_def respond_def on_packet_def split: option.split)
  then show ?thesis using quota_up [OF q] quota_frame [OF q] by auto
qed

interpretation quota_run: machine_inv "\<lambda>sc e. if resets sc e then sc else sc_step host sc e" "quota n h" for host n h
  by unfold_locales (simp add: quota_step)

lemma parse_counts_once:
  assumes "parseData host d sc = (Some m, sc')" "rate_limit_of (sc_rater sc) (js ''C'') = Some n"
  shows "rate_used (sc_rater sc') (js ''C'') = rate_used (sc_rater sc) (js ''C'') + 1"
proof -
  obtain sc1 where t: "sc_trigger (js ''C'') sc = (False, sc1)"
    using assms(1) by (auto simp: parseData_def split: prod.splits bool.splits)
  have o: "rate_used (sc_rater sc2) (js ''C'') = rate_used (sc_rater sc1) (js ''C'')"
    if "sc_trigger (js ''client'' @ k) sc1 = (b, sc2)" for k b sc2
    using that rates.pass_other [of "js ''C''" "js ''client'' @ k" "sc_rater sc1"]
    by (auto simp: sc_trigger_def admit_def sock_close_def js_def split: prod.splits if_splits)
  show ?thesis
    using assms(1) t trigger_C [OF assms(2) t]
    by (auto simp: parseData_def split: ws_data.splits list.splits option.splits if_splits bool.splits prod.splits dest: o
        simp del: js_simps)
qed

text \<open>
  C21: Between two resets of the counters, whatever a client sends, whichever other timers fire and in whatever
  order the handlers run, at most as many of its packet frames reach a handler as its rate limit allows;
  control frames use it up too. A frame counts once whatever it carries, so a batch of many values does.
\<close>

theorem client_flood_bound:
  assumes "rate_limit_of (sc_rater sc) (js ''C'') = Some n" "rate_used (sc_rater sc) (js ''C'') = 0" "0 < n"
    "no_reset host sc es" "sc' = foldl (sc_step host) sc es"
  shows "length (sc_handed sc') \<le> length (sc_handed sc) + nat n
    \<and> (\<forall>d m sc''. parseData host d sc' = (Some m, sc'') \<longrightarrow>
          rate_used (sc_rater sc'') (js ''C'') = rate_used (sc_rater sc') (js ''C'') + 1)"
proof -
  have "foldl (\<lambda>sc e. if resets sc e then sc else sc_step host sc e) sc es = sc'"
    using assms(4) unfolding assms(5) by (induction es arbitrary: sc) simp_all
  moreover have "quota n (length (sc_handed sc)) sc" using assms(1-3) by (simp add: quota_def)
  ultimately have q: "quota n (length (sc_handed sc)) sc'"
    using quota_run.run_inv [of n "length (sc_handed sc)" sc host es] by simp
  then have "int (length (sc_handed sc')) \<le> int (length (sc_handed sc)) + n"
    by (simp add: quota_def)
  then have "length (sc_handed sc') \<le> length (sc_handed sc) + nat n" using assms(3) by linarith
  moreover have "rate_limit_of (sc_rater sc') (js ''C'') = Some n" using q by (simp add: quota_def)
  ultimately show ?thesis using parse_counts_once by blast
qed

text \<open>A client that may send two frames a second sends three; the first two reach the handler.\<close>

definition limited_conn :: server_conn where
  "limited_conn = enablePacket (js ''hi'')
     ((blank_server_conn (js ''a'') None)\<lparr>sc_rater := registerRate (js ''C'') 2 new_rater\<rparr>)"

lemma client_flood_bound_witness:
  "\<forall>core. sc_handed (foldl (sc_step (bare_host core)) limited_conn (replicate 2 (Message (Binary [1])))) = [(js ''hi'', []), (js ''hi'', [])]
    \<and> length (sc_handed (foldl (sc_step (bare_host core)) limited_conn (replicate 3 (Message (Binary [1]))))) \<le> 2"
proof
  fix core
  let ?h = "bare_host core"
  have l: "sc_handed limited_conn = []" "rate_limit_of (sc_rater limited_conn) (js ''C'') = Some 2"
    "rate_used (sc_rater limited_conn) (js ''C'') = 0"
    by (simp_all add: limited_conn_def enablePacket_def blank_server_conn_def registerRate_def rate_limit_of_def
        rate_used_def new_rater_def)
  have "sc_handed (foldl (sc_step ?h) limited_conn (replicate 2 (Message (Binary [1])))) = [(js ''hi'', []), (js ''hi'', [])]"
    by (simp add: limited_conn_def enablePacket_def blank_server_conn_def registerRate_def new_rater_def numeral_2_eq_2
        on_message_def isControl_def handle_parsed_def parseData_def sc_trigger_def trigger_def bare_host_def getTag_def
        empty_holder_def messageHandler_def start_message_def lane_of_def isAsync_def set_lane_def set_lock_def add_task_def
        empty_lane_def Let_def js_def)
  moreover have "no_reset ?h limited_conn (replicate 3 (Message (Binary [1])))"
    by (simp add: numeral_3_eq_3 resets_def)
  ultimately show "sc_handed (foldl (sc_step ?h) limited_conn (replicate 2 (Message (Binary [1])))) = [(js ''hi'', []), (js ''hi'', [])]
    \<and> length (sc_handed (foldl (sc_step ?h) limited_conn (replicate 3 (Message (Binary [1]))))) \<le> 2"
    using client_flood_bound [OF l(2,3) _ _ refl, of ?h "replicate 3 (Message (Binary [1]))"] l(1) by simp
qed

end
