(* ===== verification/Packet_Wire_Proofs.thy ===== *)
theory Packet_Wire_Proofs
  imports Packet_Wire
begin

text \<open>
  The schema bytes round trip: a packet definition that fits the format is read back as the peer's
  view of it (\<open>received\<close>), whole tables and manifests with it. Each reader is shown to consume
  exactly the bytes its writer produced, wherever they stand in a buffer (\<open>at_off\<close>).
\<close>

section \<open>Pieces\<close>

lemma map_of_nat_unat [simp]: "map (\<lambda>x. of_nat (unat x)) (xs :: u8 list) = xs"
  by (induction xs) simp_all

lemma rd_byte_at:
  "at_off data off (of_nat n # xs) \<Longrightarrow> n < 256 \<Longrightarrow> rd_byte data (Some off) = Some n"
  by (auto simp: at_off_Cons rd_byte_def unat_of_nat_u8)

lemma off_slice_at: "at_off data off xs \<Longrightarrow> n = off + length xs \<Longrightarrow> off_slice data (Some off) (Some n) = xs"
  by (simp add: off_slice_def at_off_slice)

lemma off_varint_at:
  "at_off data off (varint_digits v) \<Longrightarrow> v \<le> MAX_UVARINT \<Longrightarrow>
   off_varint data (Some off) = Inr (Some (off + length (varint_digits v)), v)"
  using varint.rd_enc_off [of v data off] by (simp add: off_varint_def)

lemma readVarInts_at:
  "at_off data off (concat (map varint_digits vs)) \<Longrightarrow> \<forall>v \<in> set vs. v \<le> MAX_UVARINT \<Longrightarrow>
   readVarInts data (Some off) (length vs) = Inr (vs, Some (off + length (concat (map varint_digits vs))))"
proof (induction vs arbitrary: off)
  case (Cons v vs)
  then have "off_varint data (Some off) = Inr (Some (off + length (varint_digits v)), v)"
    by (intro off_varint_at) (simp_all add: at_off_append)
  moreover have "readVarInts data (Some (off + length (varint_digits v))) (length vs)
      = Inr (vs, Some (off + length (varint_digits v) + length (concat (map varint_digits vs))))"
    using Cons by (simp add: at_off_append)
  ultimately show ?case by (simp add: add.assoc)
qed simp

text \<open>A text of Latin-1 characters behind its length.\<close>

lemma latin1_bytes:
  assumes "latin1 s" "at_off data off (map of_nat (processCharCodes s))" "n = off + length s"
  shows "as8String (off_slice data (Some off) (Some n)) = Inr s"
proof -
  have "off_slice data (Some off) (Some n) = map of_nat (processCharCodes s)"
    using assms by (intro off_slice_at) (simp_all add: latin1_code_points)
  then show ?thesis using as8String_latin1 [OF assms(1)] by simp
qed

lemma off_simps [simp]: "off_inc (Some i) = Some (Suc i)" "off_add (Some i) (Some k) = Some (i + k)"
  by (simp_all add: off_inc_def off_add_def)

section \<open>Enum packages\<close>

definition enum_value_ok :: "js_lib \<Rightarrow> jsval \<Rightarrow> bool" where
  "enum_value_ok lib v \<longleftrightarrow>
     latin1 (js_String lib v) \<and> length (js_String lib v) < 256 \<and>
     (case v of JArr _ \<Rightarrow> False | JObj _ \<Rightarrow> False | JBytes _ \<Rightarrow> False
      | JNum n \<Rightarrow> lib_number_text lib n | _ \<Rightarrow> True)"

definition enum_ok :: "js_lib \<Rightarrow> enum_pkg \<Rightarrow> bool" where
  "enum_ok lib pkg \<longleftrightarrow>
     latin1 (enum_tag pkg) \<and> length (enum_tag pkg) < 256 \<and> length (enum_values pkg) < 256
     \<and> enum_tag pkg \<notin> set object_prototype_keys
     \<and> list_all (enum_value_ok lib) (enum_values pkg)"

text \<open>The registry has no other package under the tags of these packages, and they agree among themselves.\<close>

definition reg_fits :: "enum_registry \<Rightarrow> enum_pkg list \<Rightarrow> bool" where
  "reg_fits reg pkgs \<longleftrightarrow>
     (\<forall>p \<in> set pkgs. \<forall>q. map_of (set_packages reg) (enum_tag p) = Some q \<longrightarrow> q = p)
     \<and> (\<forall>p \<in> set pkgs. \<forall>q \<in> set pkgs. enum_tag p = enum_tag q \<longrightarrow> p = q)"

lemma type_conversion_back:
  "enum_value_ok lib v \<Longrightarrow> type_conversion lib (getTypedIndex v) (js_String lib v) = Inr v"
  by (cases v) (auto simp: enum_value_ok_def type_conversion_def getTypedIndex_def js_String_def
      lib_number_text_def)

lemma enum_values_at:
  "at_off data off (map of_nat (concat (map (enum_value_codes lib) vs))) \<Longrightarrow>
   list_all (enum_value_ok lib) vs \<Longrightarrow>
   read_enum_values lib data (Some off) (length vs)
     = Inr (vs, Some (off + length (concat (map (enum_value_codes lib) vs))))"
proof (induction vs arbitrary: off)
  case (Cons v vs)
  let ?t = "js_String lib v"
  have ok: "enum_value_ok lib v" "latin1 ?t" "length ?t < 256" "getTypedIndex v < 256"
    using Cons.prems(2) by (auto simp: enum_value_ok_def getTypedIndex_def split: jsval.splits)
  note len = latin1_code_points [OF ok(2)]
  from Cons.prems(1) have a: "at_off data off (of_nat (length ?t) # of_nat (getTypedIndex v)
        # map of_nat (processCharCodes ?t) @ map of_nat (concat (map (enum_value_codes lib) vs)))"
    by (simp add: enum_value_codes_def [of lib v])
  have b: "rd_byte data (Some off) = Some (length ?t)" "rd_byte data (Some (Suc off)) = Some (getTypedIndex v)"
    using a ok(3,4) by (auto simp: at_off_Cons rd_byte_def unat_of_nat_u8)
  have c: "at_off data (Suc (Suc off)) (map of_nat (processCharCodes ?t))"
    "at_off data (Suc (Suc off) + length ?t) (map of_nat (concat (map (enum_value_codes lib) vs)))"
    using a by (simp_all add: at_off_Cons at_off_append len)
  have t: "as8String (off_slice data (Some (Suc (Suc off))) (Some (Suc (Suc off) + length ?t))) = Inr ?t"
    by (rule latin1_bytes [OF ok(2) c(1) refl])
  have "read_enum_values lib data (Some (Suc (Suc off) + length ?t)) (length vs)
      = Inr (vs, Some (Suc (Suc off) + length ?t + length (concat (map (enum_value_codes lib) vs))))"
    using Cons.prems(2) by (intro Cons.IH c(2)) simp
  then show ?case
    using b t type_conversion_back [OF ok(1)]
    by (simp add: Let_def enum_value_codes_def [of lib v] len)
qed simp

lemma find_mismatch_same:
  "list_all (enum_value_ok lib) vs \<Longrightarrow> \<not> js_truthy (find_mismatch lib vs vs)"
  by (induction vs)
     (auto simp: js_truthy_def loose_eq_def nullish_def js_Number_def enum_value_ok_def split: jsval.splits)

lemma DefineEnum_fits:
  assumes "reg_fits reg (p # pkgs)" "enum_ok lib p"
  shows "\<exists>reg'. DefineEnum lib (enum_tag p) (enum_values p) reg = Inr (p, reg') \<and> reg_fits reg' (p # pkgs)
    \<and> (\<forall>ps. reg_fits reg (p # ps) \<longrightarrow> reg_fits reg' (p # ps))"
proof (cases "map_of (set_packages reg) (enum_tag p)")
  case None
  then show ?thesis
    using assms
    by (auto simp: DefineEnum_def enum_ok_def MAX_ENUM_SIZE_def MAX_BYTE_def Let_def reg_fits_def)
next
  case (Some q)
  then have "q = p" using assms(1) by (simp add: reg_fits_def)
  then show ?thesis
    using Some assms find_mismatch_same [of lib "enum_values p"]
    by (auto simp: DefineEnum_def enum_ok_def)
qed

lemma reg_fits_subset: "reg_fits reg ps \<Longrightarrow> set qs \<subseteq> set ps \<Longrightarrow> reg_fits reg qs"
  unfolding reg_fits_def by blast

lemma enums_at:
  "at_off data off (map of_nat (concat (map (enum_serialize lib) pkgs))) \<Longrightarrow>
   list_all (enum_ok lib) pkgs \<Longrightarrow> set pkgs \<subseteq> set all \<Longrightarrow> reg_fits reg all \<Longrightarrow>
   \<exists>reg'. read_enums lib data (Some off) (length pkgs) reg
       = Inr (pkgs, Some (off + length (concat (map (enum_serialize lib) pkgs))), reg') \<and> reg_fits reg' all"
proof (induction pkgs arbitrary: off reg)
  case (Cons p pkgs)
  let ?t = "enum_tag p" and ?vs = "enum_values p"
  let ?codes = "concat (map (enum_value_codes lib) ?vs)"
  have ok: "enum_ok lib p" "latin1 ?t" "length ?t < 256" "length ?vs < 256" "list_all (enum_value_ok lib) ?vs"
    using Cons.prems(2) by (auto simp: enum_ok_def)
  note len = latin1_code_points [OF ok(2)]
  from Cons.prems(1) have a: "at_off data off (of_nat (length ?t) # map of_nat (processCharCodes ?t)
       @ of_nat (length ?vs) # map of_nat ?codes @ map of_nat (concat (map (enum_serialize lib) pkgs)))"
    by (simp add: enum_serialize_def [of lib p])
  define o2 where "o2 = Suc off + length ?t"
  have b: "rd_byte data (Some off) = Some (length ?t)" "rd_byte data (Some o2) = Some (length ?vs)"
    using a ok(3,4) by (auto simp: at_off_Cons at_off_append rd_byte_def unat_of_nat_u8 len o2_def)
  have c: "at_off data (Suc off) (map of_nat (processCharCodes ?t))" "at_off data (Suc o2) (map of_nat ?codes)"
    "at_off data (Suc o2 + length ?codes) (map of_nat (concat (map (enum_serialize lib) pkgs)))"
    using a by (simp_all add: at_off_Cons at_off_append len o2_def)
  have t: "as8String (off_slice data (Some (Suc off)) (Some o2)) = Inr ?t"
    by (rule latin1_bytes [OF ok(2) c(1)]) (simp add: o2_def)
  have v: "read_enum_values lib data (Some (Suc o2)) (length ?vs) = Inr (?vs, Some (Suc o2 + length ?codes))"
    by (rule enum_values_at [OF c(2) ok(5)])
  have pin: "reg_fits reg (p # all)" using Cons.prems(3,4) by (intro reg_fits_subset [OF Cons.prems(4)]) simp
  obtain reg1 where d: "DefineEnum lib ?t ?vs reg = Inr (p, reg1)" "reg_fits reg1 (p # all)"
    using DefineEnum_fits [OF pin ok(1)] by blast
  then have f: "reg_fits reg1 all" by (intro reg_fits_subset [OF d(2)]) auto
  obtain reg' where "read_enums lib data (Some (Suc o2 + length ?codes)) (length pkgs) reg1
      = Inr (pkgs, Some (Suc o2 + length ?codes + length (concat (map (enum_serialize lib) pkgs))), reg')"
    "reg_fits reg' all"
    using Cons.IH [OF c(3) _ _ f] Cons.prems(2,3) by auto
  then show ?case
    using b t v d(1)
    by (intro exI [of _ reg']) (simp add: Let_def o2_def enum_serialize_def [of lib p] len)
qed simp

section \<open>Metadata\<close>

text \<open>Group fields only with a parent, and then with a variant.\<close>

definition group_ok :: "packet \<Rightarrow> bool" where
  "group_ok p \<longleftrightarrow>
     (case pk_parent p of
        None \<Rightarrow> pk_variant p = None \<and> \<not> pk_isParent p \<and> pk_permutation p = None
      | Some _ \<Rightarrow> pk_variant p \<noteq> None)"

definition packet_group :: "packet \<Rightarrow> group_info option" where
  "packet_group p = map_option (\<lambda>par. \<lparr>g_parent = par, g_variant = pk_variant p, g_isParent = pk_isParent p,
                                        g_permutation = pk_permutation p\<rparr>) (pk_parent p)"

lemma js_String_JStr: "map (\<lambda>x. js_String lib (JStr x)) xs = xs"
  by (simp add: js_String_def)

lemma obj_get_opt:
  "obj_get (json_opt k v @ rest) (js k) = (case v of None \<Rightarrow> obj_get rest (js k) | Some w \<Rightarrow> w)"
  "k \<noteq> l \<Longrightarrow> obj_get (json_opt k v @ rest) (js l) = obj_get rest (js l)"
  "obj_get ((js k, w) # rest) (js k) = w"
  "k \<noteq> l \<Longrightarrow> obj_get ((js k, w) # rest) (js l) = obj_get rest (js l)"
  "obj_get [] (js l) = JUndef"
  "obj_get (json_opt k v) (js k) = (case v of None \<Rightarrow> JUndef | Some w \<Rightarrow> w)"
  "k \<noteq> l \<Longrightarrow> obj_get (json_opt k v) (js l) = JUndef"
  by (auto simp: obj_get_def json_opt_def js_inj split: option.split)

lemma read_packet_metadata:
  assumes "group_ok p"
  shows "read_metadata lib (packet_metadata p)
    = Inr \<lparr>wm_fields = pk_fields p, wm_quantized = pk_quantized p, wm_min = pk_valueMin p,
           wm_max = pk_valueMax p, wm_group = packet_group p, wm_constructor = pk_constructorName p,
           wm_replay = pk_replay p\<rparr>"
proof -
  have g: "group_ok p \<Longrightarrow> pk_parent p = Some par \<Longrightarrow> \<exists>v. pk_variant p = Some v" for par
    by (auto simp: group_ok_def)
  show ?thesis
    using assms g
    by (simp add: read_metadata_def packet_metadata_def nullish_def Let_def obj_get_opt
          strs_prop_def num_prop_def str_prop_def packet_group_def js_truthy_def comp_def js_String_JStr
          del: js_simps split: option.split)
       (auto simp: js_String_JStr split: option.split)
qed

section \<open>Packets\<close>

text \<open>
  What the peer holds after the schema exchange, which is not the packet itself: the rate limit, the batch limit
  and \<open>enabled\<close> are not written, so \<open>deserialize\<close> (\<open>Packets.ts\<close>) makes a packet that is not enabled and has
  \<open>-1\<close> for both limits (for a client no batch limit at all); the settings of single values are read for a packet
  of a single type only.
\<close>

definition received :: "bool \<Rightarrow> packet \<Rightarrow> packet" where
  "received client p = p\<lparr>
     pk_enabled := False, pk_client := client, pk_rateLimit := - 1,
     pk_maxBatchSize := (if client then None else Some (- 1)),
     pk_minSize := (if pk_object p then int (length (pk_types p)) else hd (pk_dataMin p)),
     pk_maxSize := (if pk_object p then int (length (pk_types p)) else hd (pk_dataMax p)),
     pk_rereference := (\<not> pk_object p \<and> pk_rereference p),
     pk_quantized := (if pk_object p then None else pk_quantized p),
     pk_valueMin := (if pk_object p then None else pk_valueMin p),
     pk_valueMax := (if pk_object p then None else pk_valueMax p)\<rparr>"

definition limit_ok :: "nat \<Rightarrow> int \<Rightarrow> bool" where
  "limit_ok ty n \<longleftrightarrow> 0 \<le> n \<and> n \<le> int MAX_UVARINT \<and> (ty = PT_NONE \<longrightarrow> n = 0)"

text \<open>The packets whose schema bytes are faithful.\<close>

definition wire_ok :: "js_lib \<Rightarrow> packet \<Rightarrow> bool" where
  "wire_ok lib p \<longleftrightarrow>
     latin1 (pk_tag p) \<and> length (pk_tag p) < 256
     \<and> lib_json lib (packet_metadata p) \<and> group_ok p
     \<and> (\<exists>n < 256. pk_dataBatching p = Some n)
     \<and> length (pk_enumData p) < 256 \<and> list_all (enum_ok lib) (pk_enumData p)
     \<and> length (filter (\<lambda>ty. ty = PT_ENUMS) (pk_types p)) = length (pk_enumData p)
     \<and> length (pk_types p) < 256 \<and> (\<forall>ty \<in> set (pk_types p). ty < 256)
     \<and> list_all2 limit_ok (pk_types p) (pk_dataMax p) \<and> list_all2 limit_ok (pk_types p) (pk_dataMin p)
     \<and> (if pk_object p then pk_maxSize p = int (length (pk_types p)) else length (pk_types p) = 1)"

lemma zero_none_id: "list_all2 limit_ok tys ns \<Longrightarrow> zero_none tys ns = ns"
  by (induction rule: list_all2_induct) (simp_all add: zero_none_def limit_ok_def)

lemma limits_nat:
  "list_all2 limit_ok tys ns \<Longrightarrow> \<exists>ks. ns = map int ks \<and> length ks = length tys \<and> (\<forall>k \<in> set ks. k \<le> MAX_UVARINT)"
proof (induction rule: list_all2_induct)
  case (Cons ty tys n ns)
  then obtain ks where "ns = map int ks" "length ks = length tys" "\<forall>k \<in> set ks. k \<le> MAX_UVARINT" by blast
  then show ?case
    using Cons.hyps by (intro exI [of _ "nat n # ks"]) (auto simp: limit_ok_def nat_le_iff)
qed simp

lemma mapR_convertVarInt:
  "\<forall>k \<in> set ks. k \<le> MAX_UVARINT \<Longrightarrow> mapR convertVarInt (map int ks) = Inr (map varint_digits ks)"
  by (induction ks) (simp_all add: convertVarInt_ok)

lemma final_types_convert:
  "length (filter (\<lambda>ty. ty = PT_ENUMS) tys) = length pkgs \<Longrightarrow> convertTypes (final_types tys pkgs) = (tys, pkgs)"
proof (induction tys arbitrary: pkgs)
  case (Cons ty tys)
  then show ?case
    by (cases pkgs) (auto simp: convertTypes_def convertType_def split: if_splits)
qed (simp add: convertTypes_def)

lemma read_limits_single:
  assumes "at_off data off (varint_digits mx @ varint_digits mn @ [of_nat ty])"
    and "mx \<le> MAX_UVARINT" "mn \<le> MAX_UVARINT" "ty < 256"
  shows "read_limits data (Some off) False
    = Inr ([mx], [mn], [ty], Some (off + length (varint_digits mx @ varint_digits mn @ [of_nat ty :: u8])))"
proof -
  let ?o1 = "off + length (varint_digits mx)" and ?o2 = "off + length (varint_digits mx) + length (varint_digits mn)"
  have "off_varint data (Some off) = Inr (Some ?o1, mx)" "off_varint data (Some ?o1) = Inr (Some ?o2, mn)"
    using assms by (auto simp: at_off_append intro!: off_varint_at)
  moreover have "rd_byte data (Some ?o2) = Some ty"
    using assms by (intro rd_byte_at [of _ _ _ "[]"]) (simp_all add: at_off_append add.assoc)
  ultimately show ?thesis by (simp add: read_limits_def)
qed

lemma read_limits_object:
  assumes "at_off data off (of_nat (length tys) # concat (map varint_digits mxs)
             @ concat (map varint_digits mns) @ map of_nat tys)"
    and "\<forall>v \<in> set mxs. v \<le> MAX_UVARINT" "\<forall>v \<in> set mns. v \<le> MAX_UVARINT" "\<forall>ty \<in> set tys. ty < 256"
    and "length tys < 256" "length mxs = length tys" "length mns = length tys"
  shows "read_limits data (Some off) True = Inr (mxs, mns, tys, Some (off + length (of_nat (length tys)
             # concat (map varint_digits mxs) @ concat (map varint_digits mns) @ map of_nat tys :: u8 list)))"
proof -
  let ?a = "concat (map varint_digits mxs)" and ?b = "concat (map varint_digits mns)"
  have a: "rd_byte data (Some off) = Some (length tys)" using rd_byte_at [OF assms(1,5)] .
  have p: "at_off data (Suc off) ?a" "at_off data (Suc off + length ?a) ?b"
    "at_off data (Suc off + length ?a + length ?b) (map of_nat tys)"
    using assms(1) by (simp_all add: at_off_Cons at_off_append add.assoc)
  have "readVarInts data (Some (Suc off)) (length tys) = Inr (mxs, Some (Suc off + length ?a))"
    using readVarInts_at [OF p(1) assms(2)] assms(6) by simp
  moreover have "readVarInts data (Some (Suc off + length ?a)) (length tys)
      = Inr (mns, Some (Suc off + length ?a + length ?b))"
    using readVarInts_at [OF p(2) assms(3)] assms(7) by simp
  moreover have "off_slice data (Some (Suc off + length ?a + length ?b))
      (Some (Suc off + length ?a + length ?b + length tys)) = map of_nat tys"
    by (rule off_slice_at [OF p(3)]) simp
  moreover have "map (\<lambda>x. unat (of_nat x :: u8)) tys = tys"
    using assms(4) by (intro map_idI) (simp add: unat_of_nat_u8)
  ultimately show ?thesis using a by (simp add: read_limits_def comp_def)
qed

lemma deserialize_head:
  assumes ok: "latin1 tg" "length tg < 256" "length flags \<le> 8" "lib_json lib m"
    and md: "md = utf8_encode (json_stringify lib m)" "length md \<le> MAX_UVARINT"
    and n: "batch < 256" "length pkgs < 256" "list_all (enum_ok lib) pkgs" "set pkgs \<subseteq> set all" "reg_fits reg all"
    and meta: "read_metadata lib m = Inr meta"
    and head: "head = [of_nat (length tg)] @ map of_nat (processCharCodes tg) @ [of_nat (compressBools flags)]
        @ varint_digits (length md) @ md @ [of_nat batch] @ [of_nat (length pkgs)]
        @ map of_nat (concat (map (enum_serialize lib) pkgs))"
    and data: "at_off data off (head @ rest)"
  shows "\<exists>reg'. reg_fits reg' all \<and> deserialize_at lib data off client reg =
     bindR (read_limits data (Some (off + length head)) (decompressBools (compressBools flags) ! 2))
       (\<lambda>(dataMaxes, dataMins, types, off9).
         Inr (new_packet tg (wire_schema (decompressBools (compressBools flags)) (final_types types pkgs)
                dataMins dataMaxes (Some batch) meta) False client, off9, reg'))"
proof -
  note tl = latin1_code_points [OF ok(1)]
  define o2 where "o2 = Suc off + length tg"
  define o4 where "o4 = Suc o2 + length (varint_digits (length md))"
  define o5 where "o5 = o4 + length md"
  have u: "utf8_decode md = json_stringify lib m"
    using ok(4) by (simp add: md lib_json_def utf8_decode_encode)
  have a: "rd_byte data (Some off) = Some (length tg)"
    "rd_byte data (Some o2) = Some (compressBools flags)"
    "rd_byte data (Some o5) = Some batch" "rd_byte data (Some (Suc o5)) = Some (length pkgs)"
    using data ok(2) n(1,2) compressBools_byte [of flags]
    by (auto simp: head at_off_Cons at_off_append rd_byte_def unat_of_nat_u8 tl o2_def o4_def o5_def add.assoc)
  have c: "at_off data (Suc off) (map of_nat (processCharCodes tg))"
    "at_off data (Suc o2) (varint_digits (length md))" "at_off data o4 md"
    "at_off data (Suc (Suc o5)) (map of_nat (concat (map (enum_serialize lib) pkgs)))"
    using data by (auto simp: head at_off_Cons at_off_append tl o2_def o4_def o5_def add.assoc)
  have t: "as8String (off_slice data (Some (Suc off)) (Some o2)) = Inr tg"
    by (rule latin1_bytes [OF ok(1) c(1)]) (simp add: o2_def)
  have v: "off_varint data (Some (Suc o2)) = Inr (Some o4, length md)"
    using off_varint_at [OF c(2) md(2)] by (simp add: o4_def)
  have s: "off_slice data (Some o4) (Some o5) = md"
    by (rule off_slice_at [OF c(3)]) (simp add: o5_def)
  obtain reg' where e: "read_enums lib data (Some (Suc (Suc o5))) (length pkgs) reg
      = Inr (pkgs, Some (Suc (Suc o5) + length (concat (map (enum_serialize lib) pkgs))), reg')"
    "reg_fits reg' all"
    using enums_at [OF c(4) n(3-5)] by blast
  have h: "off + length head = Suc (Suc o5) + length (concat (map (enum_serialize lib) pkgs))"
    by (simp add: head o2_def o4_def o5_def tl)
  have j: "json_parse lib (json_stringify lib m) = Inr m" using ok(4) by (simp add: lib_json_def)
  have "Suc off + length tg = o2" "o4 + length md = o5" by (simp_all add: o2_def o5_def)
  then show ?thesis
    using e(2) by (intro exI [of _ reg'] conjI)
      (simp_all add: deserialize_at_def a t v s e(1) u j meta Let_def h)
qed

lemma packet_flags_length: "length (packet_flags p) = 6"
  by (simp add: packet_flags_def)

lemma packet_flags_back:
  "decompressBools (compressBools (packet_flags p)) ! i = packet_flags p ! i" if "i < 6"
proof -
  have "take 6 (decompressBools (compressBools (packet_flags p))) = packet_flags p"
    using decompress_compressBools [of "packet_flags p"]
    by (simp add: packet_flags_length) 
  then show ?thesis using that by (metis nth_take)
qed

lemma packet_flag_at:
  "decompressBools (compressBools (packet_flags p)) ! 0 = pk_dontSpread p"
  "decompressBools (compressBools (packet_flags p)) ! Suc 0 = pk_async p"
  "decompressBools (compressBools (packet_flags p)) ! 2 = pk_object p"
  "decompressBools (compressBools (packet_flags p)) ! 3 = pk_autoFlatten p"
  "decompressBools (compressBools (packet_flags p)) ! 4 = pk_gzip p"
  "decompressBools (compressBools (packet_flags p)) ! 5 = pk_rereference p"
  using packet_flags_back [of 0 p] packet_flags_back [of 1 p] packet_flags_back [of 2 p]
    packet_flags_back [of 3 p] packet_flags_back [of 4 p] packet_flags_back [of 5 p]
  by (simp_all add: packet_flags_def [of p])

lemma deserialize_serialized:
  assumes "packet_serialize lib p = Inr ns" "wire_ok lib p" "at_off data off (map of_nat ns)"
    and "set (pk_enumData p) \<subseteq> set all" "reg_fits reg all"
  shows "\<exists>reg'. deserialize_at lib data off client reg = Inr (received client p, Some (off + length ns), reg')
    \<and> reg_fits reg' all"
proof -
  define md where "md = utf8_encode (json_stringify lib (packet_metadata p))"
  obtain batch where batch: "pk_dataBatching p = Some batch" "batch < 256"
    using assms(2) by (auto simp: wire_ok_def)
  let ?pkgs = "pk_enumData p" and ?flags = "packet_flags p"
  define head :: "u8 list" where "head = [of_nat (length (pk_tag p))] @ map of_nat (processCharCodes (pk_tag p))
    @ [of_nat (compressBools ?flags)] @ varint_digits (length md) @ md @ [of_nat batch]
    @ [of_nat (length ?pkgs)] @ map of_nat (concat (map (enum_serialize lib) ?pkgs))"
  obtain mxs where mxs: "pk_dataMax p = map int mxs" "length mxs = length (pk_types p)" "\<forall>v \<in> set mxs. v \<le> MAX_UVARINT"
    using limits_nat [of "pk_types p" "pk_dataMax p"] assms(2) by (auto simp: wire_ok_def)
  obtain mns where mns: "pk_dataMin p = map int mns" "length mns = length (pk_types p)" "\<forall>v \<in> set mns. v \<le> MAX_UVARINT"
    using limits_nat [of "pk_types p" "pk_dataMin p"] assms(2) by (auto simp: wire_ok_def)
  have g: "group_ok p" and ft: "convertTypes (final_types (pk_types p) ?pkgs) = (pk_types p, ?pkgs)"
    using assms(2) by (simp_all add: wire_ok_def final_types_convert)
  have z: "zero_none (pk_types p) (map int mxs) = map int mxs" "zero_none (pk_types p) (map int mns) = map int mns"
    using assms(2) mxs(1) mns(1) zero_none_id by (auto simp: wire_ok_def)
  have len: "length md \<le> MAX_UVARINT"
    using assms(1) by (auto simp: packet_serialize_def Let_def bindR_eq_Inr convertVarInt_Inr_iff simp flip: md_def)
  define tail :: "u8 list" where "tail =
    (if pk_object p then of_nat (length (pk_types p)) # concat (map varint_digits mxs) @ concat (map varint_digits mns)
        @ map of_nat (pk_types p)
     else varint_digits (hd mxs) @ varint_digits (hd mns) @ [of_nat (pk_type p)])"
  have bs: "map of_nat ns = head @ tail"
  proof (cases "pk_object p")
    case True
    then show ?thesis
      using assms(1,2) mxs mns batch len
      by (auto simp: packet_serialize_def Let_def bindR_eq_Inr convertVarInt_ok mapR_convertVarInt head_def
          tail_def comp_def wire_ok_def simp flip: md_def)
  next
    case False
    then obtain mx mn where "mxs = [mx]" "mns = [mn]"
      using assms(2) mxs(2) mns(2) by (auto simp: wire_ok_def length_Suc_conv)
    then show ?thesis
      using assms(1) mxs mns batch len False
      by (auto simp: packet_serialize_def Let_def bindR_eq_Inr convertVarInt_ok head_def
          tail_def comp_def simp flip: md_def)
  qed
  have n: "length ns = length head + length tail" using bs by (metis length_append length_map)
  have at: "at_off data off (head @ tail)" using assms(3) by (simp only: bs)
  obtain reg' where reg': "reg_fits reg' all" and d: "deserialize_at lib data off client reg =
     bindR (read_limits data (Some (off + length head)) (decompressBools (compressBools ?flags) ! 2))
       (\<lambda>(dataMaxes, dataMins, types, off9).
         Inr (new_packet (pk_tag p) (wire_schema (decompressBools (compressBools ?flags)) (final_types types ?pkgs)
                dataMins dataMaxes (Some batch)
                \<lparr>wm_fields = pk_fields p, wm_quantized = pk_quantized p, wm_min = pk_valueMin p,
                 wm_max = pk_valueMax p, wm_group = packet_group p, wm_constructor = pk_constructorName p,
                 wm_replay = pk_replay p\<rparr>) False client, off9, reg'))"
    using deserialize_head [OF _ _ _ _ md_def len batch(2) _ _ assms(4,5) read_packet_metadata [OF g] head_def at,
        of client] assms(2)
    by (auto simp: wire_ok_def packet_flags_def)
  have tail_at: "at_off data (off + length head) tail" using at by (simp add: at_off_append)
  have lim: "read_limits data (Some (off + length head)) (pk_object p)
      = Inr (mxs, mns, pk_types p, Some (off + length ns))"
  proof (cases "pk_object p")
    case True
    then show ?thesis
      using read_limits_object [of data "off + length head" "pk_types p" mxs mns] tail_at mxs mns assms(2)
      by (auto simp: tail_def wire_ok_def n add.assoc)
  next
    case False
    then obtain mx mn ty where e: "mxs = [mx]" "mns = [mn]" "pk_types p = [ty]"
      using assms(2) mxs(2) mns(2) by (auto simp: wire_ok_def length_Suc_conv)
    then show ?thesis
      using read_limits_single [of data "off + length head" mx mn ty] tail_at mxs mns assms(2) False
      by (auto simp: tail_def wire_ok_def n add.assoc pk_type_def)
  qed
  have "new_packet (pk_tag p) (wire_schema (decompressBools (compressBools ?flags)) (final_types (pk_types p) ?pkgs)
                mns mxs (Some batch)
                \<lparr>wm_fields = pk_fields p, wm_quantized = pk_quantized p, wm_min = pk_valueMin p,
                 wm_max = pk_valueMax p, wm_group = packet_group p, wm_constructor = pk_constructorName p,
                 wm_replay = pk_replay p\<rparr>) False client = received client p"
    using g batch(1)
    by (intro packet.equality)
       (auto simp: new_packet_def wire_schema_def ft z received_def packet_flag_at
          mxs(1) mns(1) packet_group_def group_ok_def Let_def split: option.splits)
  then show ?thesis
    using d lim reg' by (auto simp: packet_flag_at)
qed

section \<open>Tables and manifests\<close>

lemma packet_serialize_nonempty: "packet_serialize lib p = Inr ns \<Longrightarrow> ns \<noteq> []"
  by (auto simp: packet_serialize_def Let_def bindR_eq_Inr split: if_splits)

lemma deserializeAll_serialized:
  "mapR (packet_serialize lib) ps = Inr nss \<Longrightarrow> \<forall>p \<in> set ps. wire_ok lib p \<Longrightarrow>
   set (concat (map pk_enumData ps)) \<subseteq> set all \<Longrightarrow> reg_fits reg all \<Longrightarrow>
   length data = off + length (concat nss) \<Longrightarrow> at_off data off (map of_nat (concat nss)) \<Longrightarrow>
   \<exists>reg'. deserializeAll_from lib data off client reg = Inr (map (received client) ps, reg') \<and> reg_fits reg' all"
proof (induction ps arbitrary: nss off reg)
  case Nil
  then show ?case by (subst deserializeAll_from.simps) simp
next
  case (Cons p ps)
  from Cons.prems(1) obtain ns nss' where ns: "packet_serialize lib p = Inr ns"
    "mapR (packet_serialize lib) ps = Inr nss'" "nss = ns # nss'"
    by (auto simp: bindR_eq_Inr)
  have a: "at_off data off (map of_nat ns)" "at_off data (off + length ns) (map of_nat (concat nss'))"
    using Cons.prems(6) by (simp_all add: ns(3) at_off_append)
  obtain reg1 where r: "deserialize_at lib data off client reg = Inr (received client p, Some (off + length ns), reg1)"
    "reg_fits reg1 all"
    using deserialize_serialized [OF ns(1) _ a(1), of all reg client] Cons.prems(2-4) by auto
  obtain reg' where "deserializeAll_from lib data (off + length ns) client reg1
      = Inr (map (received client) ps, reg')" "reg_fits reg' all"
    using Cons.IH [OF ns(2) _ _ r(2) _ a(2)] Cons.prems(2,3,5) ns(3) by (auto simp: add.assoc)
  then show ?case
    using r(1) packet_serialize_nonempty [OF ns(1)] Cons.prems(5) ns(3)
    by (subst deserializeAll_from.simps) auto
qed

lemma deserialize_table:
  assumes "serialize_table lib ps = Inr ns" "\<forall>p \<in> set ps. wire_ok lib p"
    and "set (concat (map pk_enumData ps)) \<subseteq> set all" "reg_fits reg all"
  shows "\<exists>reg'. deserializeAll lib (map of_nat ns) client reg = Inr (map (received client) ps, reg') \<and> reg_fits reg' all"
proof -
  obtain nss where n: "mapR (packet_serialize lib) ps = Inr nss" "ns = concat nss"
    using assms(1) by (auto simp: serialize_table_def bindR_eq_Inr)
  show ?thesis
    unfolding deserializeAll_def
    using deserializeAll_serialized [OF n(1) assms(2-4), of "map of_nat ns" 0 client]
      at_offI [of "[]" "map of_nat ns :: u8 list" "[]"]
    by (simp add: n(2))
qed

text \<open>
  A table of packet definitions written for the handshake is read back by the peer packet by packet:
  the same tags, types, limits, flags, fields, quantization, groups and enum packages, with the parts
  that are not negotiated (rate limit, batch limit, whether it is enabled) at their defaults.
\<close>

theorem schema_table_roundtrip:
  assumes "serialize_table lib ps = Inr ns" "\<forall>p \<in> set ps. wire_ok lib p"
    and "reg_fits reg (concat (map pk_enumData ps))"
  shows "\<exists>reg'. deserializeAll lib (map of_nat ns) client reg = Inr (map (received client) ps, reg')"
  using deserialize_table [OF assms(1,2) subset_refl assms(3)] by blast

text \<open>
  C6: A manifest holds both tables: loading what \<open>CreatePacketManifest\<close> made gives the packets of both, in order,
  as a peer sees them (\<open>received False\<close>). Tags, types, value counts, flags, batching interval, field names, enum
  packages, group and metadata are as they were made; what is not written is lost: the rate limit and the batch
  limit come back as -1 and the packet is not enabled, and an object packet comes back without quantisation, value
  limits and \<open>rereference\<close>. This holds for packets that fit the format (\<open>wire_ok\<close>): Latin-1 tags and at most 255
  types, enum packages and values, as many enum packages as enum types, counts between 0 and the largest varint (0
  for \<open>NONE\<close>), a batching interval below 256, a group with its variant, metadata that survives JSON; and for a
  registry without other enum packages of the same tags (\<open>reg_fits\<close>).
\<close>

theorem manifest_roundtrip:
  assumes "CreatePacketManifest lib cs ss = Inr bytes" "\<forall>p \<in> set (cs @ ss). wire_ok lib p"
    and "reg_fits reg (concat (map pk_enumData (cs @ ss)))"
  shows "\<exists>reg'. LoadPacketManifest lib bytes reg = Inr (map (received False) cs, map (received False) ss, reg')"
proof -
  let ?all = "concat (map pk_enumData (cs @ ss))"
  obtain cn sn where n: "serialize_table lib cs = Inr cn" "serialize_table lib ss = Inr sn"
    "length cn \<le> MAX_UVARINT"
    and bytes: "bytes = MAGIC @ [of_nat VERSION] @ varint_digits (length cn) @ map of_nat cn @ map of_nat sn"
    using assms(1) by (auto simp: CreatePacketManifest_def bindR_eq_Inr convertVarInt_Inr_iff)
  let ?d = "varint_digits (length cn)"
  let ?pre = "MAGIC @ [of_nat VERSION] @ ?d"
  have m: "length MAGIC = 4" by (simp add: MAGIC_def)
  have r: "readVarInt bytes 5 = Inr (5 + length ?d, length cn)"
    using varint.rd_enc [OF n(3), of "MAGIC @ [of_nat VERSION]" "map of_nat cn @ map of_nat sn"]
    by (simp add: bytes m)
  have c: "js_slice bytes (5 + length ?d) (5 + length ?d + length cn) = map of_nat cn"
    using js_slice_mid [of ?pre "map of_nat cn" "map of_nat sn"] by (simp add: bytes m)
  have s: "drop (5 + length ?d + length cn) bytes = map of_nat sn" by (simp add: bytes m)
  have v: "bytes ! 4 = of_nat VERSION" "take 4 bytes = MAGIC" by (simp_all add: bytes m nth_append)
  obtain reg1 where r1: "deserializeAll lib (map of_nat cn) False reg = Inr (map (received False) cs, reg1)"
    "reg_fits reg1 ?all"
    using deserialize_table [OF n(1) _ _ assms(3), of False] assms(2) by auto
  obtain reg2 where r2: "deserializeAll lib (map of_nat sn) False reg1 = Inr (map (received False) ss, reg2)"
    using deserialize_table [OF n(2) _ _ r1(2), of False] assms(2) by auto
  have "1 \<le> length ?d" using varint_digits_length [of "length cn"] by (simp add: Suc_leI)
  then have "6 \<le> length bytes" by (simp add: bytes m)
  then show ?thesis
    using r c s v r1(1) r2 by (simp add: LoadPacketManifest_def Let_def bytes [symmetric]) (simp add: bytes m)
qed

definition wire_sample :: packet where
  "wire_sample = new_packet (js ''p'')
     \<lparr>ps_object = False, ps_types = [PT_VARINT], ps_enumData = [], ps_async = True,
      ps_dataMin = [1], ps_dataMax = [2], ps_rateLimit = 5, ps_dontSpread = False, ps_autoFlatten = False,
      ps_rereference = True, ps_dataBatching = Some 0, ps_maxBatchSize = 10, ps_gzip = False,
      ps_fields = None, ps_quantized = None, ps_valueMin = None, ps_valueMax = None,
      ps_group = None, ps_constructorName = None, ps_replay = False\<rparr> True False"

lemma wire_sample_ok: "wire_ok plain_lib wire_sample" "pk_enumData wire_sample = []"
proof -
  have m: "packet_metadata wire_sample = JObj []"
    by (simp add: wire_sample_def new_packet_def packet_metadata_def json_opt_def Let_def)
  have "json_str_ok (js ''{}'')" by (rule json_str_ok_ascii) simp_all
  then have "lib_json plain_lib (JObj [])" by (simp add: lib_json_def plain_lib_def json_str_ok_def)
  then show "wire_ok plain_lib wire_sample" "pk_enumData wire_sample = []"
    unfolding wire_ok_def m
    by (simp_all add: wire_sample_def new_packet_def latin1_def group_ok_def zero_none_def limit_ok_def
        MAX_UVARINT_def Let_def)
qed

lemma wire_sample_fields:
  "pk_tag wire_sample = js ''p''" "pk_object wire_sample = False" "pk_types wire_sample = [PT_VARINT]"
  "pk_dataMin wire_sample = [1]" "pk_dataMax wire_sample = [2]" "pk_dataBatching wire_sample = Some 0"
  "packet_flags wire_sample = [False, True, False, False, False, True]"
  "packet_metadata wire_sample = JObj []"
  by (simp_all add: wire_sample_def new_packet_def packet_metadata_def packet_flags_def json_opt_def
      zero_none_def Let_def)

lemma wire_sample_bytes:
  "packet_serialize plain_lib wire_sample = Inr [1, 112, 68, 2, 123, 125, 0, 0, 2, 1, 9]"
proof -
  have u: "utf8_encode (json_stringify plain_lib (JObj [])) = [123, 125]"
    by (simp add: plain_lib_def utf8_encode_def js_def is_high_def is_low_def is_surrogate_def utf8_of_def)
  have c: "compressBools [False, True, False, False, False, True] = 68" by code_simp
  have t: "processCharCodes (js ''p'') = [112]" "length (js ''p'') = 1" by (simp_all add: js_def)
  have v: "convertVarInt (int 2) = Inr [2]" "convertVarInt 2 = Inr [2]" "convertVarInt 1 = Inr [1]"
    by (simp_all add: convertVarInt_def MAX_UVARINT_def varint_digits_small)
  show ?thesis
    unfolding packet_serialize_def wire_sample_fields u c t wire_sample_ok(2) Let_def
    by (simp add: v pk_type_def wire_sample_fields del: of_nat_numeral)
qed

lemma schema_table_roundtrip_witness:
  "\<exists>reg'. deserializeAll plain_lib (map of_nat [1, 112, 68, 2, 123, 125, 0, 0, 2, 1, 9]) True empty_registry
     = Inr (map (received True) [wire_sample], reg')"
  by (rule schema_table_roundtrip)
     (simp_all add: serialize_table_def wire_sample_bytes wire_sample_ok reg_fits_def)

lemma manifest_roundtrip_witness:
  "\<exists>reg'. LoadPacketManifest plain_lib
        ([0x53, 0x57, 0x53, 0x4d, 25, 11] @ map of_nat [1, 112, 68, 2, 123, 125, 0, 0, 2, 1, 9]) empty_registry
     = Inr (map (received False) [wire_sample], map (received False) [], reg')"
  by (rule manifest_roundtrip)
     (simp_all add: CreatePacketManifest_def serialize_table_def wire_sample_bytes wire_sample_ok reg_fits_def
        convertVarInt_def MAX_UVARINT_def varint_digits_small MAGIC_def VERSION_def)

text \<open>
  The batching interval is stored in one byte: an interval is announced modulo 256, so a packet
  batched every 256 ms is announced like an unbatched one and its frames are misread.
\<close>

theorem batching_interval_wraps:
  "bindR (packet_serialize lib (p\<lparr>pk_dataBatching := Some (n + 256)\<rparr>)) (\<lambda>ns. Inr (map (of_nat :: nat \<Rightarrow> u8) ns))
   = bindR (packet_serialize lib (p\<lparr>pk_dataBatching := Some n\<rparr>)) (\<lambda>ns. Inr (map of_nat ns))"
proof -
  have m: "packet_metadata (p\<lparr>pk_dataBatching := b\<rparr>) = packet_metadata p" for b
    by (simp add: packet_metadata_def)
  have f: "packet_flags (p\<lparr>pk_dataBatching := b\<rparr>) = packet_flags p" for b
    by (simp add: packet_flags_def)
  have w: "(of_nat (n + 256) :: u8) = of_nat n"
    by (simp add: of_nat_eq_iff take_bit_eq_mod)
  have "bindR a (\<lambda>x. bindR b (\<lambda>y. Inr (F x y))) = bindR a (\<lambda>x. bindR b (\<lambda>y. Inr (G x y)))"
    if "\<And>x y. F x y = G x y" for a :: "u8 list result" and b :: "u8 list result" and F G :: "u8 list \<Rightarrow> u8 list \<Rightarrow> u8 list"
    using that by simp
  show ?thesis
    unfolding packet_serialize_def m f Let_def
    by (cases "convertVarInt (int (length (utf8_encode (json_stringify lib (packet_metadata p)))))";
        cases "pk_object p"; cases "convertVarInt (hd (pk_dataMax p))"; cases "convertVarInt (hd (pk_dataMin p))";
        cases "mapR convertVarInt (pk_dataMax p)"; cases "mapR convertVarInt (pk_dataMin p)")
       (simp_all add: w pk_type_def)
qed

end
