(* ===== verification/Recovery.thy ===== *)
theory Recovery
  imports Control Native "HOL-Library.AList"
begin

text \<open>
  Connection recovery: the bounded replay storage of a session (\<open>replayFrame\<close> and the frames
  \<open>resumeSession\<close> repeats, in \<open>projects/ts/src/ws/server/SonicWSServer.ts\<close>). The storage is one session
  object per session id; \<open>expiresAt\<close> is \<open>None\<close> for Infinity. The state object of a session is named by
  the session it was created for, so that two holders of one object share a name.
\<close>

section \<open>Sessions\<close>

record session =
  ses_state :: jsstr
  ses_rooms :: "jsstr list"
  ses_sequence :: nat
  ses_frames :: "(nat \<times> u8 list) list"
  ses_expires :: "int option"

type_synonym sessions = "(jsstr \<times> session) list"

definition new_session :: "jsstr \<Rightarrow> session" where
  "new_session sid = \<lparr>ses_state = sid, ses_rooms = [], ses_sequence = 0, ses_frames = [], ses_expires = None\<rparr>"

definition replayFrame :: "nat \<Rightarrow> jsstr \<Rightarrow> u8 list \<Rightarrow> (sessions, u8 list) st_result" where
  "replayFrame maxPackets sid frame ss =
     (case map_of ss sid of
        None \<Rightarrow> (Inr frame, ss)
      | Some ses \<Rightarrow>
          let n = ses_sequence ses + 1; ses1 = ses\<lparr>ses_sequence := n\<rparr>
          in case encodeReplay n frame of
               Inl e \<Rightarrow> (Inl e, AList.update sid ses1 ss)
             | Inr replay \<Rightarrow>
                 let frames = ses_frames ses1 @ [(n, replay)]
                 in (Inr replay,
                     AList.update sid (ses1\<lparr>ses_frames := drop (length frames - maxPackets) frames\<rparr>) ss))"

definition session_open :: "int \<Rightarrow> session option \<Rightarrow> bool" where
  "session_open now ses =
     (case ses of None \<Rightarrow> False | Some x \<Rightarrow> (case ses_expires x of None \<Rightarrow> True | Some t \<Rightarrow> \<not> t < now))"

definition missed_frames :: "nat \<Rightarrow> session \<Rightarrow> u8 list list" where
  "missed_frames lastSequence ses = map snd (filter (\<lambda>(n, _). n > lastSequence) (ses_frames ses))"

text \<open>Closing a connection starts the countdown; the timer removes what is still expired.\<close>

definition session_closed :: "int \<Rightarrow> jsstr list \<Rightarrow> jsstr \<Rightarrow> sessions \<Rightarrow> sessions" where
  "session_closed expires rooms sid ss =
     (case map_of ss sid of
        None \<Rightarrow> ss | Some ses \<Rightarrow> AList.update sid (ses\<lparr>ses_rooms := rooms, ses_expires := Some expires\<rparr>) ss)"

definition session_expiry :: "int \<Rightarrow> jsstr \<Rightarrow> sessions \<Rightarrow> sessions" where
  "session_expiry now sid ss =
     (case map_of ss sid of
        None \<Rightarrow> ss
      | Some ses \<Rightarrow> (case ses_expires ses of None \<Rightarrow> ss | Some t \<Rightarrow> if t \<le> now then AList.delete sid ss else ss))"

text \<open>The default authorization, and what a resumed connection takes over.\<close>

definition default_authorize :: "(jsstr \<Rightarrow> jsval) \<Rightarrow> jsstr \<Rightarrow> jsstr \<Rightarrow> bool" where
  "default_authorize userId previous current \<longleftrightarrow> userId previous = JUndef \<or> enum_same (userId previous) (userId current)"

definition take_over :: "jsstr \<Rightarrow> jsstr \<Rightarrow> session \<Rightarrow> sessions \<Rightarrow> sessions" where
  "take_over own sid ses ss = AList.update sid (ses\<lparr>ses_expires := None\<rparr>) (AList.delete own ss)"

section \<open>What the storage holds\<close>

fun replay_all :: "nat \<Rightarrow> jsstr \<Rightarrow> u8 list list \<Rightarrow> sessions \<Rightarrow> sessions" where
  "replay_all mx sid [] ss = ss"
| "replay_all mx sid (f # fs) ss = replay_all mx sid fs (snd (replayFrame mx sid f ss))"

lemma replay_all_snoc: "replay_all mx sid (fs @ [f]) ss = snd (replayFrame mx sid f (replay_all mx sid fs ss))"
  by (induction fs arbitrary: ss) simp_all

definition replay_bytes :: "nat \<Rightarrow> u8 list \<Rightarrow> u8 list" where
  "replay_bytes n payload = [CONTROL_KEY, 3] @ varint_digits n @ payload"

lemma encodeReplay_bytes: "n \<le> MAX_UVARINT \<Longrightarrow> encodeReplay n payload = Inr (replay_bytes n payload)"
  using convertVarInt_Inr_iff [of "int n" "varint_digits n"] by (simp add: encodeReplay_def replay_bytes_def)

definition numbered :: "u8 list list \<Rightarrow> (nat \<times> u8 list) list" where
  "numbered fs = map (\<lambda>i. (Suc i, replay_bytes (Suc i) (fs ! i))) [0 ..< length fs]"

lemma numbered_snoc: "numbered (fs @ [f]) = numbered fs @ [(Suc (length fs), replay_bytes (Suc (length fs)) f)]"
  by (simp add: numbered_def nth_append)

lemma numbered_Nil [simp]: "numbered [] = []"
  by (simp add: numbered_def)

lemma length_numbered [simp]: "length (numbered fs) = length fs"
  by (simp add: numbered_def)

lemma replay_all_session:
  assumes "length fs \<le> MAX_UVARINT"
  shows "map_of (replay_all mx sid fs [(sid, new_session sid)]) sid
    = Some ((new_session sid)\<lparr>ses_sequence := length fs, ses_frames := drop (length fs - mx) (numbered fs)\<rparr>)"
  using assms
proof (induction fs rule: rev_induct)
  case Nil
  show ?case by (simp add: new_session_def numbered_def)
next
  case (snoc f fs)
  let ?fr = "drop (length fs - mx) (numbered fs) @ [(Suc (length fs), replay_bytes (Suc (length fs)) f)]"
  have "drop (length ?fr - mx) ?fr = drop (Suc (length fs) - mx) (numbered (fs @ [f]))"
    by (cases "length fs \<le> mx") (auto simp: numbered_snoc Suc_diff_le min_def)
  then show ?case
    using snoc encodeReplay_bytes [of "Suc (length fs)" f]
    by (simp add: replay_all_snoc replayFrame_def Let_def update_conv')
qed

lemma filter_numbered:
  "filter (\<lambda>(n, _). n > i) (drop k (numbered fs)) = drop (max i k) (numbered fs)"
proof (induction fs rule: rev_induct)
  case (snoc f fs)
  then show ?case by (cases "k \<le> length fs") (auto simp: numbered_snoc)
qed (simp add: numbered_def)

text \<open>The frames \<open>replayFrame\<close> returns for the packets sent in turn.\<close>

fun replay_sent :: "nat \<Rightarrow> jsstr \<Rightarrow> u8 list list \<Rightarrow> sessions \<Rightarrow> u8 list list" where
  "replay_sent mx sid [] ss = []"
| "replay_sent mx sid (f # fs) ss =
     (case replayFrame mx sid f ss of
        (Inl _, ss') \<Rightarrow> replay_sent mx sid fs ss' | (Inr x, ss') \<Rightarrow> x # replay_sent mx sid fs ss')"

lemma replay_sent_append:
  "replay_sent mx sid (fs @ gs) ss = replay_sent mx sid fs ss @ replay_sent mx sid gs (replay_all mx sid fs ss)"
  by (induction fs arbitrary: ss) (auto split: prod.splits sum.splits)

lemma replay_sent_session:
  "length fs \<le> MAX_UVARINT \<Longrightarrow> replay_sent mx sid fs [(sid, new_session sid)] = map snd (numbered fs)"
proof (induction fs rule: rev_induct)
  case (snoc f fs)
  have "map_of (replay_all mx sid fs [(sid, new_session sid)]) sid
    = Some ((new_session sid)\<lparr>ses_sequence := length fs, ses_frames := drop (length fs - mx) (numbered fs)\<rparr>)"
    using snoc.prems by (intro replay_all_session) simp
  then show ?case
    using snoc encodeReplay_bytes [of "Suc (length fs)" f]
    by (simp add: replay_sent_append numbered_snoc replayFrame_def Let_def)
qed (simp add: numbered_def)

lemma missed_session:
  assumes "length fs \<le> MAX_UVARINT" "map_of (replay_all mx sid fs [(sid, new_session sid)]) sid = Some ses"
  shows "missed_frames i ses = map snd (drop (max i (length fs - mx)) (numbered fs))"
  using assms(2) replay_all_session [OF assms(1), of mx sid] by (auto simp: missed_frames_def filter_numbered)

end
