(* ===== verification/Schema_Handshake.thy ===== *)
theory Schema_Handshake
  imports Packet_Wire_Proofs Packet_Holder Recovery
begin

text \<open>
  The first frame of a connection: the server's hello (the constructor and connection handler of
  \<open>projects/ts/src/ws/server/SonicWSServer.ts\<close>) and how the client reads it (\<open>serverKeyHandler\<close> of
  \<open>projects/ts/src/ws/client/core/ClientCore.ts\<close>). Deflate and inflate are the WASM module's: that the
  client inflates this one hello to what the server deflated is a hypothesis of the round trip, which the shipped
  codec grants up to its bound of 16 MiB.
\<close>

section \<open>Writing\<close>

definition SERVER_SUFFIX :: jsstr where
  "SERVER_SUFFIX = js ''SWS''"

definition SERVER_SUFFIX_NUMS :: "nat list" where
  "SERVER_SUFFIX_NUMS = processCharCodes SERVER_SUFFIX"

definition server_data :: "u8 list" where
  "server_data = map of_nat (SERVER_SUFFIX_NUMS @ [VERSION])"

definition key_data :: "js_lib \<Rightarrow> holder \<Rightarrow> holder \<Rightarrow> u8 list result" where
  "key_data lib clients servers =
     bindR (holder_serialize lib clients) (\<lambda>cs.
     bindR (holder_serialize lib servers) (\<lambda>ss.
     bindR (convertVarInt (int (length cs))) (\<lambda>len.
       Inr (len @ map of_nat cs @ map of_nat ss))))"

definition server_hello :: "native_core \<Rightarrow> nat \<Rightarrow> jsstr \<Rightarrow> u8 list \<Rightarrow> u8 list result" where
  "server_hello core i sessionId keys =
     (let session = utf8_encode sessionId
      in bindR (convertVarInt (int i)) (\<lambda>iv.
         bindR (convertVarInt (int (length session))) (\<lambda>len.
         bindR (deflateRaw core (iv @ len @ session @ keys)) (\<lambda>z.
           Inr (server_data @ z)))))"

section \<open>Reading\<close>

record hello =
  he_id :: nat
  he_session :: jsstr
  he_clients :: "packet list"
  he_servers :: "packet list"

definition read_header :: "u8 list \<Rightarrow> u8 list result" where
  "read_header data =
     (if length data < 3 then Inl (Error ''The requested server does not use the SonicWS protocol'')
      else bindR (as8String (take 3 data)) (\<lambda>s.
        if s \<noteq> SERVER_SUFFIX then Inl (Error ''The requested server does not use the SonicWS protocol'')
        else if length data < 4 \<or> data ! 3 \<noteq> of_nat VERSION then Inl (Error ''Protocol mismatch'')
        else Inr (drop 4 data)))"

definition read_hello ::
  "js_lib \<Rightarrow> native_core \<Rightarrow> enum_registry \<Rightarrow> u8 list \<Rightarrow> (hello \<times> enum_registry) result" where
  "read_hello lib core reg compressed =
     bindR (read_header compressed) (\<lambda>body.
     bindR (inflateRaw core body None) (\<lambda>data.
     bindR (readVarInt data 0) (\<lambda>(clientKeyOffset, i).
     bindR (readVarInt data clientKeyOffset) (\<lambda>(sessionOffset, sessionLength).
     bindR (readVarInt data (sessionOffset + sessionLength)) (\<lambda>(packetOffset, clientPacketLength).
     bindR (deserializeAll lib (js_slice data packetOffset (packetOffset + clientPacketLength)) True reg) (\<lambda>(cs, reg1).
     bindR (deserializeAll lib (drop (packetOffset + clientPacketLength) data) True reg1) (\<lambda>(ss, reg2).
       Inr (\<lparr>he_id = i, he_session = utf8_decode (js_slice data sessionOffset (sessionOffset + sessionLength)),
              he_clients = cs, he_servers = ss\<rparr>, reg2))))))))"

section \<open>The handshake transmits the tables\<close>

lemma read_server_data: "read_header (server_data @ z) = Inr z"
proof -
  have d: "server_data = [83, 87, 83, 25]"
    by (simp add: server_data_def SERVER_SUFFIX_NUMS_def SERVER_SUFFIX_def VERSION_def js_def is_high_def)
  have "as8String [83, 87, 83] = Inr SERVER_SUFFIX"
    by (simp add: as8String_def convertCharCodes_def utf16_of_def SERVER_SUFFIX_def js_def)
  then show ?thesis by (simp add: d read_header_def VERSION_def)
qed

text \<open>What the server deflates: its id, the session id with its length, and the tables.\<close>

definition hello_content :: "nat \<Rightarrow> jsstr \<Rightarrow> u8 list \<Rightarrow> u8 list" where
  "hello_content i sid keys =
     varint_digits i @ varint_digits (length (utf8_encode sid)) @ utf8_encode sid @ keys"

text \<open>
  C9: The client reads from the server's first frame exactly what the server put in: its id, its session
  id and both packet tables, each packet with the parts that are negotiated and with the keys the order
  implies. The codec is asked for no more than this: if it deflates the content of this hello, it inflates the
  result to the same content. The shipped one refuses to inflate more than 16 MiB (\<open>gzip.rs\<close>), so for it that
  holds of a hello of up to that size, and a larger one reaches no client. As for a manifest, the packets are the
  peer's view (\<open>received True\<close>) of packets that fit the format (\<open>wire_ok\<close>).
\<close>

theorem hello_roundtrip:
  assumes "key_data lib clients servers = Inr keys" "server_hello core i sid keys = Inr frame"
    and "\<And>z. deflateRaw core (hello_content i sid keys) = Inr z \<Longrightarrow>
      inflateRaw core z None = Inr (hello_content i sid keys)"
    and "\<forall>p \<in> set (ph_packets clients @ ph_packets servers). wire_ok lib p"
    and "reg_fits reg (concat (map pk_enumData (ph_packets clients @ ph_packets servers)))"
    and "well_formed sid" "\<not> starts_with_bom sid"
  shows "\<exists>reg'. read_hello lib core reg frame =
    Inr (\<lparr>he_id = i, he_session = sid, he_clients = map (received True) (ph_packets clients),
          he_servers = map (received True) (ph_packets servers)\<rparr>, reg')"
proof -
  let ?all = "concat (map pk_enumData (ph_packets clients @ ph_packets servers))"
  obtain cn sn where n: "serialize_table lib (ph_packets clients) = Inr cn" "serialize_table lib (ph_packets servers) = Inr sn"
    "length cn \<le> MAX_UVARINT" and keys: "keys = varint_digits (length cn) @ map of_nat cn @ map of_nat sn"
    using assms(1) by (auto simp: key_data_def holder_serialize_def bindR_eq_Inr convertVarInt_Inr_iff)
  let ?u = "utf8_encode sid"
  let ?i = "varint_digits i" and ?l = "varint_digits (length ?u)" and ?c = "varint_digits (length cn)"
  let ?data = "?i @ ?l @ ?u @ ?c @ map of_nat cn @ map of_nat sn"
  obtain z where z: "i \<le> MAX_UVARINT" "length ?u \<le> MAX_UVARINT" "deflateRaw core ?data = Inr z" "frame = server_data @ z"
    using assms(2) keys by (auto simp: server_hello_def Let_def bindR_eq_Inr convertVarInt_Inr_iff)
  have inf: "inflateRaw core z None = Inr ?data" using assms(3) [of z] z(3) by (simp add: hello_content_def keys)
  have r1: "readVarInt ?data 0 = Inr (length ?i, i)"
    using varint.rd_enc [OF z(1), of "[]"] by simp
  have r2: "readVarInt ?data (length ?i) = Inr (length ?i + length ?l, length ?u)"
    using varint.rd_enc [OF z(2), of ?i] by simp
  have r3: "readVarInt ?data (length ?i + length ?l + length ?u) = Inr (length ?i + length ?l + length ?u + length ?c, length cn)"
    using varint.rd_enc [OF n(3), of "?i @ ?l @ ?u"] by (simp add: add.assoc)
  have s1: "js_slice ?data (length ?i + length ?l) (length ?i + length ?l + length ?u) = ?u"
    using js_slice_mid [of "?i @ ?l" ?u] by simp
  have s2: "js_slice ?data (length ?i + length ?l + length ?u + length ?c) (length ?i + length ?l + length ?u + length ?c + length cn) = map of_nat cn"
    using js_slice_mid [of "?i @ ?l @ ?u @ ?c" "map of_nat cn" "map of_nat sn"] by (simp add: add.assoc)
  obtain reg1 where d1: "deserializeAll lib (map of_nat cn) True reg = Inr (map (received True) (ph_packets clients), reg1)"
    "reg_fits reg1 ?all"
    using deserialize_table [OF n(1) _ _ assms(5), of True] assms(4) by auto
  obtain reg2 where d2: "deserializeAll lib (map of_nat sn) True reg1 = Inr (map (received True) (ph_packets servers), reg2)"
    using deserialize_table [OF n(2) _ _ d1(2), of True] assms(4) by auto
  have u: "utf8_decode ?u = sid" by (rule utf8_decode_encode [OF assms(6,7)])
  show ?thesis
    using d1(1) d2 by (simp add: read_hello_def z(4) read_server_data inf r1 r2 r3 s1 s2 u)
qed

text \<open>A core that stores instead of compressing.\<close>

definition storing :: "native_core \<Rightarrow> native_core" where
  "storing core = core\<lparr>deflateRaw := (\<lambda>x. Inr x), inflateRaw := (\<lambda>x _. Inr x)\<rparr>"

text \<open>The same, with the bound of the shipped codec: more than 16 MiB are not inflated.\<close>

definition bounded_storing :: "native_core \<Rightarrow> native_core" where
  "bounded_storing core = core\<lparr>deflateRaw := (\<lambda>x. Inr x),
     inflateRaw := (\<lambda>x _. if 16 * 1024 * 1024 < length x then Inl (Error ''inflate exceeds limit'') else Inr x)\<rparr>"

lemma hello_roundtrip_witness:
  "\<forall>core. \<exists>keys frame reg'. key_data plain_lib (empty_holder\<lparr>ph_packets := [wire_sample]\<rparr>) empty_holder = Inr keys
    \<and> server_hello (bounded_storing core) 3 (js ''ab'') keys = Inr frame
    \<and> read_hello plain_lib (bounded_storing core) empty_registry frame =
        Inr (\<lparr>he_id = 3, he_session = js ''ab'', he_clients = map (received True) [wire_sample], he_servers = []\<rparr>, reg')"
proof
  fix core
  let ?c = "empty_holder\<lparr>ph_packets := [wire_sample]\<rparr>"
  have k: "\<exists>keys. key_data plain_lib ?c empty_holder = Inr keys \<and> length keys = 12"
    by (simp add: key_data_def holder_serialize_def serialize_table_def wire_sample_bytes empty_holder_def
        convertVarInt_def MAX_UVARINT_def varint_digits_small)
  then obtain keys where k: "key_data plain_lib ?c empty_holder = Inr keys" and l: "length keys = 12" by blast
  have u: "utf8_encode (js ''ab'') = [97, 98]"
    by (simp add: utf8_encode_def js_def is_high_def is_low_def is_surrogate_def utf8_of_def)
  have "is_ok (server_hello (bounded_storing core) 3 (js ''ab'') keys)"
    by (simp add: server_hello_def u bounded_storing_def convertVarInt_def MAX_UVARINT_def del: js_simps)
  then obtain frame where f: "server_hello (bounded_storing core) 3 (js ''ab'') keys = Inr frame" by (auto simp: is_ok_iff)
  have w: "well_formed (js ''ab'')" "\<not> starts_with_bom (js ''ab'')"
    by (simp_all add: well_formed_def js_def is_high_def is_scalar_def is_surrogate_def starts_with_bom_def)
  have "length (hello_content 3 (js ''ab'') keys) = 16"
    by (simp add: hello_content_def u l varint_digits_small del: js_simps)
  then have "\<exists>reg'. read_hello plain_lib (bounded_storing core) empty_registry frame =
        Inr (\<lparr>he_id = 3, he_session = js ''ab'', he_clients = map (received True) (ph_packets ?c),
              he_servers = map (received True) (ph_packets empty_holder)\<rparr>, reg')"
    by (intro hello_roundtrip [OF k f _ _ _ w])
      (auto simp: bounded_storing_def empty_holder_def wire_sample_ok reg_fits_def empty_registry_def)
  then show "\<exists>keys frame reg'. key_data plain_lib ?c empty_holder = Inr keys
    \<and> server_hello (bounded_storing core) 3 (js ''ab'') keys = Inr frame
    \<and> read_hello plain_lib (bounded_storing core) empty_registry frame =
        Inr (\<lparr>he_id = 3, he_session = js ''ab'', he_clients = map (received True) [wire_sample], he_servers = []\<rparr>, reg')"
    using k f by (auto simp: empty_holder_def)
qed

end
