(* ===== verification/Reconnect.thy ===== *)
theory Reconnect
  imports Sonic_Prelude
begin

text \<open>
  The reconnecting part of \<open>projects/ts/src/ws/client/core/ClientCore.ts\<close>: options, back-off, the
  timer, and what closes and negotiations do to them. Times and the jitter are rationals: the rounding of
  JavaScript's doubles is left out, and so is the overflow of \<open>2 ** (attempt - 1)\<close> beyond 1024 attempts.
  \<open>Math.random()\<close> is an argument between 0 and 1, and the calls of \<open>close\<close> that the application's listeners
  make, with whether one throws, are the argument \<open>listeners_answer\<close>.
\<close>

section \<open>Options\<close>

datatype attempts = Unlimited | AtMost int

record reconnect_options =
  ro_enabled :: bool
  ro_attempts :: attempts
  ro_minDelay :: rat
  ro_maxDelay :: rat
  ro_jitter :: rat

record partial_options =
  po_enabled :: "bool option"
  po_attempts :: "attempts option"
  po_minDelay :: "rat option"
  po_maxDelay :: "rat option"
  po_jitter :: "rat option"

datatype reconnect_note = Reconnecting nat int | ReconnectFailed | Reconnected

record reconnect =
  rc_factory :: bool
  rc_options :: reconnect_options
  rc_attempt :: nat
  rc_timer :: "int option"
  rc_intentional :: bool
  rc_connectedOnce :: bool
  rc_notes :: "reconnect_note list"

definition default_options :: reconnect_options where
  "default_options = \<lparr>ro_enabled = False, ro_attempts = Unlimited, ro_minDelay = 500, ro_maxDelay = 10000,
     ro_jitter = 1 / 4\<rparr>"

definition new_reconnect :: reconnect where
  "new_reconnect = \<lparr>rc_factory = False, rc_options = default_options, rc_attempt = 0, rc_timer = None,
     rc_intentional = False, rc_connectedOnce = False, rc_notes = []\<rparr>"

definition or_else :: "'a option \<Rightarrow> 'a \<Rightarrow> 'a" where
  "or_else x d = (case x of None \<Rightarrow> d | Some y \<Rightarrow> y)"

definition options_ok :: "reconnect_options \<Rightarrow> bool" where
  "options_ok o' \<longleftrightarrow> (case ro_attempts o' of Unlimited \<Rightarrow> True | AtMost n \<Rightarrow> 0 \<le> n)
     \<and> 0 \<le> ro_minDelay o' \<and> ro_minDelay o' \<le> ro_maxDelay o' \<and> 0 \<le> ro_jitter o' \<and> ro_jitter o' \<le> 1"

text \<open>The options are stored before they are checked: a throw leaves them in place.\<close>

definition configureReconnect :: "partial_options \<Rightarrow> (reconnect, unit) st_result" where
  "configureReconnect po r =
     (let opts = \<lparr>ro_enabled = or_else (po_enabled po) True, ro_attempts = or_else (po_attempts po) Unlimited,
                  ro_minDelay = or_else (po_minDelay po) 500, ro_maxDelay = or_else (po_maxDelay po) 10000,
                  ro_jitter = or_else (po_jitter po) (1 / 4)\<rparr>;
          r' = r\<lparr>rc_factory := True, rc_options := opts\<rparr>
      in if (case ro_attempts opts of Unlimited \<Rightarrow> False | AtMost n \<Rightarrow> n < 0)
            \<or> ro_minDelay opts < 0 \<or> ro_maxDelay opts < ro_minDelay opts
         then (Inl (Error ''Invalid reconnect timing options''), r')
         else if ro_jitter opts < 0 \<or> ro_jitter opts > 1
         then (Inl (Error ''Reconnect jitter must be between 0 and 1''), r')
         else (Inr (), r'))"

section \<open>Back-off\<close>

definition base_delay :: "reconnect_options \<Rightarrow> nat \<Rightarrow> rat" where
  "base_delay o' attempt = min (ro_maxDelay o') (ro_minDelay o' * 2 ^ (attempt - 1))"

definition js_round :: "rat \<Rightarrow> int" where
  "js_round x = \<lfloor>x + 1 / 2\<rfloor>"

definition delay_ms :: "reconnect_options \<Rightarrow> nat \<Rightarrow> rat \<Rightarrow> int" where
  "delay_ms o' attempt random =
     (let base = base_delay o' attempt; spread = base * ro_jitter o'
      in max 0 (js_round (base - spread + random * spread * 2)))"

definition exhausted :: "reconnect \<Rightarrow> bool" where
  "exhausted r = (case ro_attempts (rc_options r) of Unlimited \<Rightarrow> False | AtMost n \<Rightarrow> int (rc_attempt r) \<ge> n)"

text \<open>
  \<open>close\<close> clears the host timer but keeps its name in \<open>reconnectTimer\<close>: the timer is not armed any more,
  and a later \<open>scheduleReconnect\<close> would find it set. Here the armed timer and the name are one field,
  which is faithful because \<open>intentionalClose\<close> never becomes false again.
\<close>

definition intentional_close :: "reconnect \<Rightarrow> reconnect" where
  "intentional_close r = r\<lparr>rc_intentional := True, rc_timer := None\<rparr>"

text \<open>
  What the application's \<open>on_reconnecting\<close> and \<open>on_reconnect_failed\<close> listeners do while they are called: the
  calls of \<open>close\<close> they make, and whether one of them throws. The timer is assigned after them.
\<close>

datatype listeners_answer =
    ListenersReturn (la_closes: "(int \<times> jsstr) list")
  | ListenersThrow (la_closes: "(int \<times> jsstr) list")

definition run_listeners :: "listeners_answer \<Rightarrow> reconnect \<Rightarrow> reconnect" where
  "run_listeners a r = (if la_closes a = [] then r else intentional_close r)"

definition scheduleReconnect :: "rat \<Rightarrow> listeners_answer \<Rightarrow> reconnect \<Rightarrow> reconnect" where
  "scheduleReconnect random a r =
     (if \<not> rc_factory r \<or> \<not> ro_enabled (rc_options r) \<or> rc_timer r \<noteq> None then r
      else if exhausted r then run_listeners a (r\<lparr>rc_notes := rc_notes r @ [ReconnectFailed]\<rparr>)
      else let attempt = rc_attempt r + 1; delay = delay_ms (rc_options r) attempt random;
               r1 = run_listeners a (r\<lparr>rc_attempt := attempt, rc_notes := rc_notes r @ [Reconnecting attempt delay]\<rparr>)
           in (case a of ListenersReturn _ \<Rightarrow> r1\<lparr>rc_timer := Some delay\<rparr> | ListenersThrow _ \<Rightarrow> r1))"

text \<open>The close handler; \<open>code\<close> is \<open>None\<close> when the event carries none.\<close>

definition transport_closed :: "int option \<Rightarrow> rat \<Rightarrow> listeners_answer \<Rightarrow> reconnect \<Rightarrow> reconnect" where
  "transport_closed code random a r =
     (if \<not> rc_intentional r \<and> code \<noteq> Some 1000 then scheduleReconnect random a r else r)"

text \<open>The timer fires: \<open>beginReconnect\<close>, whose factory or rebinding may throw and is then retried.\<close>

definition reconnect_fires :: "bool \<Rightarrow> rat \<Rightarrow> listeners_answer \<Rightarrow> reconnect \<Rightarrow> reconnect" where
  "reconnect_fires bound random a r =
     (if rc_timer r = None then r
      else let r' = r\<lparr>rc_timer := None\<rparr> in if bound then r' else scheduleReconnect random a r')"

definition negotiated :: "reconnect \<Rightarrow> reconnect" where
  "negotiated r =
     (if rc_connectedOnce r then r\<lparr>rc_attempt := 0, rc_notes := rc_notes r @ [Reconnected]\<rparr>
      else r\<lparr>rc_connectedOnce := True\<rparr>)"

section \<open>What reconnecting promises\<close>

datatype reconnect_event =
    TransportClosed "int option" rat listeners_answer
  | ReconnectFires bool rat listeners_answer
  | Negotiated
  | IntentionalClose

fun reconnect_step :: "reconnect \<Rightarrow> reconnect_event \<Rightarrow> reconnect" where
  "reconnect_step r (TransportClosed code random a) = transport_closed code random a r"
| "reconnect_step r (ReconnectFires bound random a) = reconnect_fires bound random a r"
| "reconnect_step r Negotiated = negotiated r"
| "reconnect_step r IntentionalClose = intentional_close r"

text \<open>The attempts announced since the last successful negotiation.\<close>

fun since_success :: "reconnect_note list \<Rightarrow> nat list" where
  "since_success [] = []"
| "since_success (Reconnecting n d # ns) = (if Reconnected \<in> set ns then since_success ns else n # since_success ns)"
| "since_success (x # ns) = since_success ns"

lemma since_success_snoc [simp]:
  "since_success (ns @ [Reconnecting n d]) = since_success ns @ [n]"
  "since_success (ns @ [ReconnectFailed]) = since_success ns"
  "since_success (ns @ [Reconnected]) = []"
  by (induction ns rule: since_success.induct) auto

fun event_ok :: "reconnect_event \<Rightarrow> bool" where
  "event_ok (TransportClosed code random a) = (0 \<le> random \<and> random \<le> 1)"
| "event_ok (ReconnectFires bound random a) = (0 \<le> random \<and> random \<le> 1)"
| "event_ok e = True"

fun note_ok :: "reconnect_options \<Rightarrow> reconnect_note \<Rightarrow> bool" where
  "note_ok o' (Reconnecting n d) =
     (0 \<le> d \<and> js_round (base_delay o' n * (1 - ro_jitter o')) \<le> d
      \<and> d \<le> js_round (base_delay o' n * (1 + ro_jitter o')))"
| "note_ok o' x = True"

lemma js_round_mono: "x \<le> y \<Longrightarrow> js_round x \<le> js_round y"
  by (simp add: js_round_def floor_mono)

lemma delay_note_ok:
  assumes "options_ok o'" "0 \<le> random" "random \<le> 1"
  shows "note_ok o' (Reconnecting n (delay_ms o' n random))"
proof -
  let ?b = "base_delay o' n" and ?j = "ro_jitter o'"
  have b: "0 \<le> ?b" using assms(1) by (simp add: base_delay_def options_ok_def)
  have j: "0 \<le> ?j" "?j \<le> 1" using assms(1) by (simp_all add: options_ok_def)
  have s: "0 \<le> ?b * ?j" using b j(1) by simp
  have "random * (?b * ?j) \<le> 1 * (?b * ?j)" by (rule mult_right_mono [OF assms(3) s])
  then have r: "0 \<le> random * (?b * ?j)" "random * (?b * ?j) \<le> ?b * ?j" using s assms(2) by simp_all
  have e: "?b - ?b * ?j + random * (?b * ?j) * 2 = ?b - ?b * ?j + 2 * (random * (?b * ?j))" by simp
  have lo: "js_round (?b * (1 - ?j)) \<le> js_round (?b - ?b * ?j + random * (?b * ?j) * 2)"
    using r by (intro js_round_mono) (simp add: algebra_simps)
  have hi: "js_round (?b - ?b * ?j + random * (?b * ?j) * 2) \<le> js_round (?b * (1 + ?j))"
  proof (rule js_round_mono)
    have "?b * (1 + ?j) = ?b + ?b * ?j" by (simp add: distrib_left)
    then show "?b - ?b * ?j + random * (?b * ?j) * 2 \<le> ?b * (1 + ?j)" using r by linarith
  qed
  have "0 \<le> ?b * (1 + ?j)" using b j by simp
  then have z: "0 \<le> js_round (?b * (1 + ?j))" by (simp add: js_round_def)
  show ?thesis using lo hi z by (simp add: delay_ms_def Let_def)
qed

fun allows :: "attempts \<Rightarrow> nat \<Rightarrow> bool" where
  "allows Unlimited n = True"
| "allows (AtMost m) n = (int n \<le> m)"

definition reconnect_inv :: "reconnect_options \<Rightarrow> reconnect \<Rightarrow> bool" where
  "reconnect_inv o' r \<longleftrightarrow> options_ok o' \<and> rc_options r = o'
     \<and> since_success (rc_notes r) = [1 ..< Suc (rc_attempt r)]
     \<and> allows (ro_attempts o') (rc_attempt r)
     \<and> list_all (note_ok o') (rc_notes r)"

lemma reconnect_inv_upd [simp]:
  "reconnect_inv o' (r\<lparr>rc_timer := t\<rparr>) = reconnect_inv o' r"
  "reconnect_inv o' (r\<lparr>rc_intentional := b\<rparr>) = reconnect_inv o' r"
  "reconnect_inv o' (r\<lparr>rc_connectedOnce := b\<rparr>) = reconnect_inv o' r"
  by (simp_all add: reconnect_inv_def)

lemma reconnect_inv_schedule:
  assumes "reconnect_inv o' r" "0 \<le> random" "random \<le> 1"
  shows "reconnect_inv o' (scheduleReconnect random a r)"
proof -
  have "note_ok o' (Reconnecting n (delay_ms o' n random))" for n
    using delay_note_ok assms by (simp add: reconnect_inv_def)
  then show ?thesis
    using assms(1)
    by (auto simp: scheduleReconnect_def run_listeners_def intentional_close_def reconnect_inv_def exhausted_def Let_def
        split: attempts.splits listeners_answer.splits simp del: note_ok.simps) simp_all
qed

lemma allows_zero: "allows a n \<Longrightarrow> allows a 0"
  by (cases a) auto

lemma reconnect_inv_step: "reconnect_inv o' r \<Longrightarrow> event_ok e \<Longrightarrow> reconnect_inv o' (reconnect_step r e)"
  by (cases e) (auto simp: transport_closed_def reconnect_fires_def negotiated_def intentional_close_def Let_def
      intro: reconnect_inv_schedule, auto simp: reconnect_inv_def intro: allows_zero)

interpretation reconnecting: machine_inv "\<lambda>r e. if event_ok e then reconnect_step r e else r" "reconnect_inv o'" for o'
  by unfold_locales (simp add: reconnect_inv_step)

text \<open>
  C16: A client that accepted its reconnect options announces, between two successful negotiations, the
  attempts 1, 2, 3, ... in order, never more than allowed, each with the delay of the exponential back-off
  of its number spread by at most the jitter, whatever closes, retries and negotiations happen.
\<close>

theorem reconnect_backoff:
  assumes "configureReconnect po new_reconnect = (Inr (), r0)" "list_all event_ok es"
    and "r = foldl reconnect_step r0 es"
  shows "since_success (rc_notes r) = [1 ..< Suc (rc_attempt r)]
    \<and> allows (ro_attempts (rc_options r0)) (rc_attempt r)
    \<and> list_all (note_ok (rc_options r0)) (rc_notes r)"
proof -
  have "reconnect_inv (rc_options r0) r0"
    using assms(1)
    by (auto simp: configureReconnect_def Let_def reconnect_inv_def options_ok_def new_reconnect_def
        split: if_splits attempts.splits)
  moreover have "foldl (\<lambda>r e. if event_ok e then reconnect_step r e else r) r0 es = r"
    unfolding assms(3) using assms(2) by (induction es arbitrary: r0) simp_all
  ultimately have "reconnect_inv (rc_options r0) r"
    using reconnecting.run_inv [of "rc_options r0" r0 es] by simp
  then show ?thesis by (simp add: reconnect_inv_def)
qed

lemma reconnect_backoff_witness:
  "since_success (rc_notes (foldl reconnect_step
       (snd (configureReconnect \<lparr>po_enabled = None, po_attempts = Some (AtMost 2), po_minDelay = None,
          po_maxDelay = None, po_jitter = None\<rparr> new_reconnect))
       [TransportClosed (Some 1006) 0 (ListenersReturn []), ReconnectFires False 1 (ListenersReturn []),
        TransportClosed None 0 (ListenersReturn [])])) = [1, 2]"
proof -
  let ?po = "\<lparr>po_enabled = None, po_attempts = Some (AtMost 2), po_minDelay = None, po_maxDelay = None, po_jitter = None\<rparr>"
  let ?es = "[TransportClosed (Some 1006) 0 (ListenersReturn []), ReconnectFires False 1 (ListenersReturn []),
        TransportClosed None 0 (ListenersReturn [])]"
  have "configureReconnect ?po new_reconnect = (Inr (), snd (configureReconnect ?po new_reconnect))"
    by (simp add: configureReconnect_def or_else_def)
  from reconnect_backoff [OF this, of ?es, OF _ refl]
  have "since_success (rc_notes (foldl reconnect_step (snd (configureReconnect ?po new_reconnect)) ?es))
      = [1 ..< Suc (rc_attempt (foldl reconnect_step (snd (configureReconnect ?po new_reconnect)) ?es))]"
    by simp
  moreover have "rc_attempt (foldl reconnect_step (snd (configureReconnect ?po new_reconnect)) ?es) = 2"
    by (simp add: configureReconnect_def or_else_def new_reconnect_def transport_closed_def scheduleReconnect_def
        exhausted_def Let_def reconnect_fires_def run_listeners_def)
  ultimately show ?thesis by (simp add: upt_rec)
qed

text \<open>The notes of attempts.\<close>

definition announced :: "reconnect \<Rightarrow> reconnect_note list" where
  "announced r = filter (\<lambda>x. case x of Reconnecting _ _ \<Rightarrow> True | _ \<Rightarrow> False) (rc_notes r)"

definition retired :: "reconnect_note list \<Rightarrow> reconnect \<Rightarrow> bool" where
  "retired ns r \<longleftrightarrow> rc_intentional r \<and> rc_timer r = None \<and> announced r = ns"

interpretation retired_client: machine_inv reconnect_step "retired ns" for ns
proof
  fix r e
  assume "retired ns r"
  then show "retired ns (reconnect_step r e)"
    by (cases e) (auto simp: retired_def announced_def transport_closed_def reconnect_fires_def negotiated_def
        intentional_close_def)
qed

lemma transport_closed_retired: "rc_intentional r \<Longrightarrow> transport_closed code random a r = r"
  by (simp add: transport_closed_def)

text \<open>
  C17: Once the application calls \<open>close\<close>, no reconnect is ever attempted again: the pending one is cancelled,
  and no later close event, timer or negotiation announces another. The exception is a call made by an
  \<open>on_reconnecting\<close> listener: the timer is armed after it, so the client it closed reconnects.
\<close>

theorem no_reconnect_after_close:
  "announced (foldl reconnect_step (reconnect_step r IntentionalClose) es) = announced r
   \<and> rc_timer (foldl reconnect_step (reconnect_step r IntentionalClose) es) = None
   \<and> (rc_factory r \<and> ro_enabled (rc_options r) \<and> rc_timer r = None \<and> \<not> exhausted r \<and> \<not> rc_intentional r
       \<and> code \<noteq> Some 1000 \<and> calls \<noteq> [] \<longrightarrow>
        (let r' = reconnect_step r (TransportClosed code random (ListenersReturn calls))
         in rc_intentional r' \<and> rc_timer r' = Some (delay_ms (rc_options r) (rc_attempt r + 1) random)
            \<and> (\<forall>d. reconnect_step r' (TransportClosed d random a) = r')))"
proof -
  have "retired (announced r) (reconnect_step r IntentionalClose)"
    by (simp add: retired_def intentional_close_def announced_def)
  then have "retired (announced r) (foldl reconnect_step (reconnect_step r IntentionalClose) es)"
    by (rule retired_client.run_inv)
  then show ?thesis
    by (simp add: retired_def Let_def transport_closed_retired)
      (simp add: transport_closed_def scheduleReconnect_def run_listeners_def intentional_close_def Let_def)
qed

lemma no_reconnect_after_close_witness:
  "rc_timer (reconnect_step (snd (configureReconnect \<lparr>po_enabled = None, po_attempts = None, po_minDelay = None,
      po_maxDelay = None, po_jitter = Some 0\<rparr> new_reconnect)) (TransportClosed None 0 (ListenersReturn [(1000, [])]))) = Some 500"
proof -
  let ?r = "snd (configureReconnect \<lparr>po_enabled = None, po_attempts = None, po_minDelay = None, po_maxDelay = None,
      po_jitter = Some 0\<rparr> new_reconnect)"
  have r: "rc_factory ?r" "ro_enabled (rc_options ?r)" "rc_timer ?r = None" "\<not> exhausted ?r" "\<not> rc_intentional ?r"
      "delay_ms (rc_options ?r) (rc_attempt ?r + 1) 0 = 500"
    by (simp_all add: configureReconnect_def or_else_def new_reconnect_def exhausted_def Let_def delay_ms_def
        base_delay_def js_round_def) (simp add: floor_eq_iff)
  show ?thesis
    using no_reconnect_after_close [where r = ?r and code = None and random = 0 and calls = "[(1000, [])]"] r by (simp add: Let_def)
qed

end
