(* ===== verification/Client_Core.thy ===== *)
theory Client_Core
  imports Server_Connection Schema_Handshake Reconnect
begin

text \<open>
  The client: \<open>projects/ts/src/ws/client/core/ClientCore.ts\<close>, composed of the shared connection, the
  batcher, the schema handshake and the reconnect machine. As on the server every \<open>await\<close> of a handler is a
  program counter and the environment resumes handlers in any order. What a transport brings along (packet
  tables, batcher, the locks of async packets, last received values) is replaced with it while handlers
  and intervals that still run keep the old ones: these parts carry the number of their transport. The
  shared lock and its queue survive.

  \<open>bufferHandler\<close> is awaited for a hello, which makes later frames wait (\<open>cl_hello\<close> holds the awaited one);
  for the frames of a ready connection its answer is the event. Listeners of connection events neither throw nor
  close the client, but for those of the reconnect machine, whose answer is part of the event.
\<close>

section \<open>State\<close>

record client_env =
  ce_lib :: js_lib
  ce_core :: native_core
  ce_ctors :: ctor_registry
  ce_validators :: "jsstr \<Rightarrow> validator option"

datatype lane_ref = Shared | Async nat nat

record cl_lane =
  cln_lock :: bool
  cln_queue :: "u8 list list"

datatype cl_pc = CPre | CListen | CUnravel | CDeliver listened bool bool | CPost listened

datatype cl_rpc_pc = CDecoded listened | CRun "jsval list"

record cl_task =
  tk_data :: "u8 list"
  tk_lane :: lane_ref
  tk_transport :: nat
  tk_tag :: jsstr
  tk_packet :: packet
  tk_pc :: cl_pc

record client =
  cl_conn :: "(nat \<times> nat) conn"
  cl_batchers :: "nat \<Rightarrow> batcher"
  cl_clientPackets :: holder
  cl_serverPackets :: holder
  cl_registry :: enum_registry
  cl_id :: int
  cl_pastKeys :: bool
  cl_reading :: bool
  cl_hello :: "u8 list list"
  cl_readQueue :: "u8 list list"
  cl_ready :: "nat option"
  cl_readyCalls :: nat
  cl_preListen :: "(jsstr \<times> nat) list option"
  cl_listeners :: "jsstr \<rightharpoonup> nat"
  cl_responders :: "jsstr set"
  cl_transport :: nat
  cl_asyncMap :: "nat \<rightharpoonup> bool"
  cl_lanes :: "lane_ref \<Rightarrow> cl_lane"
  cl_tasks :: "cl_task list"
  cl_lastReceived :: "nat \<times> jsstr \<rightharpoonup> listened"
  cl_rpcs :: "(nat \<times> jsstr \<times> cl_rpc_pc) list"
  cl_nextRequestId :: nat
  cl_pending :: "(nat \<times> nat) list"
  cl_settled :: "(nat \<times> settlement) list"
  cl_sessionId :: "jsstr option"
  cl_lastReplay :: nat
  cl_pendingResume :: "jsstr option"
  cl_handshakeTimer :: bool
  cl_reconnect :: reconnect
  cl_replayed :: "u8 list list"
  cl_log :: "(bool \<times> u8 list \<times> listened) list"
  cl_recovered :: "(bool \<times> nat) list"
  cl_errors :: "js_error list"

text \<open>
  Observed, not kept by the code: \<open>cl_readyCalls\<close>, \<open>cl_settled\<close>, the replayed payloads that were handled, the
  begin and end of each run of listeners, the recovery events, and what was thrown with nobody to
  catch it.
\<close>

definition free_lane :: cl_lane where
  "free_lane = \<lparr>cln_lock = False, cln_queue = []\<rparr>"

definition new_client :: client where
  "new_client =
     \<lparr>cl_conn = new_conn (js ''LocalSocket''), cl_batchers = (\<lambda>_. new_batcher), cl_clientPackets = empty_holder,
      cl_serverPackets = empty_holder, cl_registry = empty_registry, cl_id = - 1, cl_pastKeys = False,
      cl_reading = False, cl_hello = [], cl_readQueue = [], cl_ready = Some 0, cl_readyCalls = 0, cl_preListen = Some [],
      cl_listeners = Map.empty, cl_responders = {}, cl_transport = 0, cl_asyncMap = Map.empty,
      cl_lanes = (\<lambda>_. free_lane), cl_tasks = [], cl_lastReceived = Map.empty, cl_rpcs = [],
      cl_nextRequestId = 1, cl_pending = [], cl_settled = [], cl_sessionId = None, cl_lastReplay = 0,
      cl_pendingResume = None, cl_handshakeTimer = True, cl_reconnect = new_reconnect, cl_replayed = [],
      cl_log = [], cl_recovered = [], cl_errors = []\<rparr>"

section \<open>Sending\<close>

definition cl_raw_send :: "u8 list \<Rightarrow> (client, unit) st_result" where
  "cl_raw_send data cl = (case base_raw_send data (cl_conn cl) of (r, c) \<Rightarrow> (r, cl\<lparr>cl_conn := c\<rparr>))"

definition cl_throw :: "js_error \<Rightarrow> client \<Rightarrow> client" where
  "cl_throw e cl = cl\<lparr>cl_errors := cl_errors cl @ [e]\<rparr>"

text \<open>A statement of a handler nobody awaits: a throw is an unhandled rejection.\<close>

definition unawaited :: "(client, unit) st_result \<Rightarrow> client \<Rightarrow> client" where
  "unawaited m cl = (case m cl of (Inl e, cl') \<Rightarrow> cl_throw e cl' | (Inr _, cl') \<Rightarrow> cl')"

definition cl_close :: "int \<Rightarrow> jsstr \<Rightarrow> client \<Rightarrow> client" where
  "cl_close code reason cl =
     cl\<lparr>cl_reconnect := intentional_close (cl_reconnect cl), cl_conn := conn_close code reason (cl_conn cl)\<rparr>"

definition cl_batch :: "nat \<Rightarrow> u8 list \<Rightarrow> (client, unit) st_result" where
  "cl_batch code data cl =
     (let g = cl_transport cl; b0 = cl_batchers cl g
      in case batchPacket code data b0 of
        (r, b) \<Rightarrow>
          (r, let cl1 = cl\<lparr>cl_batchers := (cl_batchers cl)(g := b)\<rparr>
              in if bt_next b = bt_next b0 then cl1
                 else cl1\<lparr>cl_conn := snd (conn_setInterval (g, bt_next b0) False (cl_conn cl))\<rparr>))"

text \<open>\<open>send\<close> once the queue gave its result; the answer of the hooks that follow is ignored.\<close>

definition cl_finish_send :: "nat \<times> u8 list \<times> packet \<Rightarrow> (client, unit) st_result" where
  "cl_finish_send x cl =
     (case x of (code, data, p) \<Rightarrow>
        if pk_dataBatching p = Some 0 then cl_raw_send (toPacketBuffer code data) cl else cl_batch code data cl)"

definition cl_flush :: "native_core \<Rightarrow> nat \<Rightarrow> nat \<Rightarrow> client \<Rightarrow> client" where
  "cl_flush core g i cl =
     (case map_of (bt_intervals (cl_batchers cl g)) i of
        None \<Rightarrow> cl
      | Some code \<Rightarrow>
          let b = interval_callback core code True (cl_batchers cl g)
          in if length (bt_log b) = length (bt_log (cl_batchers cl g)) then cl
             else (case last (bt_log b) of (_, _, frame) \<Rightarrow>
                     (case cl_raw_send frame cl of
                        (Inl e, cl') \<Rightarrow> cl_throw e cl'
                      | (Inr _, cl') \<Rightarrow> cl'\<lparr>cl_batchers := (cl_batchers cl')(g := b)\<rparr>)))"

definition cl_timer_fires :: "native_core \<Rightarrow> nat \<Rightarrow> client \<Rightarrow> client" where
  "cl_timer_fires core i cl =
     (case map_of (cn_timers (cl_conn cl)) i of
        None \<Rightarrow> cl | Some ((g, j), _) \<Rightarrow> cl_flush core g j cl)"

definition cl_request :: "nat \<Rightarrow> u8 list \<Rightarrow> (client, nat) st_result" where
  "cl_request packetKey payload cl =
     (let i = cl_nextRequestId cl; n = i + 1;
          cl1 = cl\<lparr>cl_nextRequestId := (if n > 2 ^ 31 - 1 then 1 else n),
                   cl_pending := AList.update i packetKey (cl_pending cl)\<rparr>
      in case encodeControlRequest i packetKey payload of
           Inl e \<Rightarrow> (Inr i, cl1\<lparr>cl_settled := cl_settled cl1 @ [(i, Failed e)]\<rparr>)
         | Inr frame \<Rightarrow>
             (case cl_raw_send frame cl1 of
                (Inl e, cl2) \<Rightarrow> (Inr i, cl2\<lparr>cl_settled := cl_settled cl2 @ [(i, Failed e)]\<rparr>)
              | (Inr _, cl2) \<Rightarrow> (Inr i, cl2)))"

definition cl_settle :: "nat \<Rightarrow> settlement \<Rightarrow> client \<Rightarrow> client" where
  "cl_settle i r cl =
     (if map_of (cl_pending cl) i = None then cl
      else cl\<lparr>cl_pending := AList.delete i (cl_pending cl), cl_settled := cl_settled cl @ [(i, r)]\<rparr>)"

section \<open>Listeners\<close>

definition cl_listen :: "jsstr \<Rightarrow> client \<Rightarrow> client" where
  "cl_listen tg cl =
     (if \<not> hasTag (cl_serverPackets cl) tg then cl
      else case resolveTag (cl_serverPackets cl) tg of
             None \<Rightarrow> cl
           | Some t \<Rightarrow> cl\<lparr>cl_listeners := (cl_listeners cl)
               (t \<mapsto> (case cl_listeners cl t of None \<Rightarrow> 0 | Some n \<Rightarrow> n) + 1)\<rparr>)"

definition cl_on :: "bool \<Rightarrow> jsstr \<Rightarrow> client \<Rightarrow> client" where
  "cl_on isOpen tg cl =
     (if isOpen then cl_listen tg cl
      else let pre = or_else (cl_preListen cl) []
           in cl\<lparr>cl_preListen := Some (AList.update tg (or_else (map_of pre tg) 0 + 1) pre)\<rparr>)"

definition cl_on_ready :: "client \<Rightarrow> client" where
  "cl_on_ready cl =
     (if cl_pastKeys cl then cl\<lparr>cl_readyCalls := cl_readyCalls cl + 1\<rparr>
      else cl\<lparr>cl_ready := Some (or_else (cl_ready cl) 0 + 1)\<rparr>)"

definition cl_respond :: "jsstr \<Rightarrow> client \<Rightarrow> client" where
  "cl_respond tg cl =
     (case resolveTag (cl_serverPackets cl) tg of
        None \<Rightarrow> cl | Some t \<Rightarrow> cl\<lparr>cl_responders := insert t (cl_responders cl)\<rparr>)"

section \<open>Frames\<close>

definition cl_set_lane :: "lane_ref \<Rightarrow> cl_lane \<Rightarrow> client \<Rightarrow> client" where
  "cl_set_lane l x cl = cl\<lparr>cl_lanes := (cl_lanes cl)(l := x)\<rparr>"

definition cl_add_task :: "cl_task \<Rightarrow> client \<Rightarrow> client" where
  "cl_add_task tk cl = cl\<lparr>cl_tasks := cl_tasks cl @ [tk]\<rparr>"

text \<open>\<open>data[0]\<close> of an empty array is \<open>undefined\<close>, which is no packet's key.\<close>

definition frame_key :: "u8 list \<Rightarrow> nat option" where
  "frame_key data = (case data of [] \<Rightarrow> None | k # _ \<Rightarrow> Some (unat k))"

definition cl_lane_of :: "u8 list \<Rightarrow> client \<Rightarrow> lane_ref" where
  "cl_lane_of data cl =
     (case frame_key data of
        None \<Rightarrow> Shared
      | Some k \<Rightarrow> if cl_asyncMap cl k = Some True then Async (cl_transport cl) k else Shared)"

definition frame_packet :: "u8 list \<Rightarrow> client \<Rightarrow> (jsstr \<times> packet) result" where
  "frame_packet data cl =
     (case frame_key data of
        None \<Rightarrow> Inl (Error ''Unknown packet tag'')
      | Some k \<Rightarrow>
          (case getTag (cl_serverPackets cl) k of
             None \<Rightarrow> Inl (Error ''Unknown packet tag'')
           | Some tg \<Rightarrow> bindR (getPacket (cl_serverPackets cl) tg) (\<lambda>p. Inr (tg, p))))"

text \<open>
  \<open>dataHandler\<close> of a packet frame up to its first await. The lock is taken before the packet is looked up:
  a key the table does not have throws with the lock held.
\<close>

definition start_frame :: "u8 list \<Rightarrow> client \<Rightarrow> client" where
  "start_frame data cl =
     (let l = cl_lane_of data cl; x = cl_lanes cl l
      in if cln_lock x then cl_set_lane l (x\<lparr>cln_queue := cln_queue x @ [data]\<rparr>) cl
         else let cl1 = cl_set_lane l (x\<lparr>cln_lock := True\<rparr>) cl
              in case frame_packet data cl of
                   Inl e \<Rightarrow> cl_throw e cl1
                 | Inr (tg, p) \<Rightarrow>
                     cl_add_task \<lparr>tk_data = data, tk_lane = l, tk_transport = cl_transport cl, tk_tag = tg,
                                  tk_packet = p, tk_pc = CPre\<rparr> cl1)"

section \<open>Control frames\<close>

definition cl_response :: "nat \<Rightarrow> bool \<Rightarrow> jsval \<Rightarrow> (client, unit) st_result" where
  "cl_response i ok v cl =
     (case encodeControlResponse i ok v of Inl e \<Rightarrow> (Inl e, cl) | Inr frame \<Rightarrow> cl_raw_send frame cl)"

definition cl_rpc_fails :: "nat \<Rightarrow> js_error \<Rightarrow> client \<Rightarrow> client" where
  "cl_rpc_fails i e = unawaited (cl_response i False (JStr (error_message e)))"

text \<open>A request: the payload is decoded at once, its result awaited.\<close>

definition cl_start_rpc :: "client_env \<Rightarrow> nat \<Rightarrow> nat \<Rightarrow> u8 list \<Rightarrow> client \<Rightarrow> client" where
  "cl_start_rpc env i packetKey payload cl =
     (case getTag (cl_serverPackets cl) packetKey of
        None \<Rightarrow> cl_rpc_fails i (Error ''Unknown RPC packet key'') cl
      | Some tg \<Rightarrow>
          if tg = [] then cl_rpc_fails i (Error ''Unknown RPC packet key'') cl
          else if tg \<notin> cl_responders cl then cl_rpc_fails i (Error ''No responder registered for packet'') cl
          else (case getPacket (cl_serverPackets cl) tg of
                  Inl e \<Rightarrow> cl_rpc_fails i e cl
                | Inr p \<Rightarrow>
                    cl\<lparr>cl_rpcs := cl_rpcs cl @
                      [(i, tg, CDecoded (listen (ce_lib env) (ce_core env) (ce_ctors env) p (ce_validators env tg) payload))]\<rparr>))"

definition cl_resume_rpc :: "nat \<Rightarrow> jsval result \<Rightarrow> client \<Rightarrow> client" where
  "cl_resume_rpc j responded cl =
     (if j < length (cl_rpcs cl) then
        (case cl_rpcs cl ! j of
           (i, tg, pc) \<Rightarrow>
             let cl1 = cl\<lparr>cl_rpcs := remove_at j (cl_rpcs cl)\<rparr>
             in case pc of
                  CDecoded (Inl msg) \<Rightarrow> cl_rpc_fails i (Error msg) cl1
                | CDecoded (Inr r) \<Rightarrow> cl1\<lparr>cl_rpcs := cl_rpcs cl1 @ [(i, tg, CRun (rpc_args r))]\<rparr>
                | CRun args \<Rightarrow>
                    (case responded of
                       Inl e \<Rightarrow> cl_rpc_fails i e cl1
                     | Inr v \<Rightarrow>
                         (case cl_response i True (if v = JUndef then JNull else v) cl1 of
                            (Inl e, cl2) \<Rightarrow> cl_rpc_fails i e cl2
                          | (Inr _, cl2) \<Rightarrow> cl2)))
      else cl)"

definition cl_resumed :: "bool \<Rightarrow> nat \<Rightarrow> client \<Rightarrow> client" where
  "cl_resumed recovered replayed cl =
     cl\<lparr>cl_sessionId := (if recovered \<and> truthy_str (cl_pendingResume cl) then cl_pendingResume cl else cl_sessionId cl),
        cl_pendingResume := None, cl_recovered := cl_recovered cl @ [(recovered, replayed)],
        cl_lastReplay := (if recovered then cl_lastReplay cl else 0)\<rparr>"

text \<open>The control frames that do not lead back to \<open>dataHandler\<close>.\<close>

definition cl_control :: "client_env \<Rightarrow> control_msg \<Rightarrow> client \<Rightarrow> client" where
  "cl_control env message cl =
     (case message of
        ControlHeartbeat \<Rightarrow> unawaited (cl_raw_send [0]) cl
      | ControlReplay sequence payload \<Rightarrow> cl
      | ControlResumed recovered replayed \<Rightarrow> cl_resumed recovered replayed cl
      | ControlResume _ _ \<Rightarrow> cl_throw (Error ''A client cannot receive a recovery request'') cl
      | ControlResponse i ok v \<Rightarrow> cl_settle i (if ok then Resolved v else Rejected v) cl
      | ControlRequest i packetKey payload \<Rightarrow> cl_start_rpc env i packetKey payload cl)"

text \<open>
  A replayed payload is handled like a frame that arrived, and may itself be a control frame; it is
  shorter than the frame it came in.
\<close>

lemma replay_shorter: "decodeControl data = Inr (ControlReplay n payload) \<Longrightarrow> length payload + 3 \<le> length data"
  by (auto simp: decodeControl_def Let_def bindR_eq_Inr split: if_splits dest: readVarInt_bounds)

function (sequential) dataHandler :: "client_env \<Rightarrow> u8 list \<Rightarrow> client \<Rightarrow> client"
  and cl_handleControl :: "client_env \<Rightarrow> u8 list \<Rightarrow> client \<Rightarrow> client" where
  "dataHandler env data cl =
     (if frame_key data = Some 0 then cl_handleControl env data cl else start_frame data cl)"
| "cl_handleControl env data cl =
     (if length data = 1 then unawaited (cl_raw_send [0]) cl
      else case decodeControl data of
             Inl e \<Rightarrow> cl_close (code_number INVALID_DATA) (js ''Malformed SonicWS control frame'') cl
           | Inr (ControlReplay sequence payload) \<Rightarrow>
               if sequence \<le> cl_lastReplay cl then cl
               else dataHandler env payload
                 (cl\<lparr>cl_lastReplay := sequence, cl_replayed := cl_replayed cl @ [payload]\<rparr>)
           | Inr message \<Rightarrow> cl_control env message cl)"
  by pat_completeness auto
termination
  by (relation "measure (case_sum (\<lambda>(_, d, _). 2 * length d + 1) (\<lambda>(_, d, _). 2 * length d))")
    (auto dest: replay_shorter)

text \<open>\<open>messageHandler\<close>\<close>

definition cl_messageHandler :: "client_env \<Rightarrow> u8 list \<Rightarrow> client \<Rightarrow> client" where
  "cl_messageHandler env data cl = (if length data < 1 then cl else dataHandler env data cl)"

section \<open>Delivering\<close>

definition cl_release :: "client_env \<Rightarrow> lane_ref \<Rightarrow> client \<Rightarrow> client" where
  "cl_release env l cl =
     (let cl1 = cl_set_lane l ((cl_lanes cl l)\<lparr>cln_lock := False\<rparr>) cl
      in case cln_queue (cl_lanes cl1 l) of
           [] \<Rightarrow> cl1
         | data # ds \<Rightarrow> dataHandler env data (cl_set_lane l ((cl_lanes cl1 l)\<lparr>cln_queue := ds\<rparr>) cl1))"

definition cl_invalidPacket :: "string \<Rightarrow> client \<Rightarrow> client" where
  "cl_invalidPacket listened = cl_throw (Error ''SonicWS rejected data from the server'')"

text \<open>
  \<open>deliverPacket\<close>, which nobody awaits: up to its listeners, and from there to the hooks. The packet is
  looked up in the tables of the current transport.
\<close>

definition cl_deliver :: "client_env \<Rightarrow> cl_task \<Rightarrow> listened \<Rightarrow> client \<Rightarrow> client" where
  "cl_deliver env tk r cl =
     (if cn_closed (cl_conn cl) then cl_release env (tk_lane tk) cl
      else case getPacket (cl_serverPackets cl) (tk_tag tk) of
        Inl e \<Rightarrow> cl_throw e cl
      | Inr p \<Rightarrow>
          let own = cl_listeners cl (tk_tag tk) \<noteq> None;
              par = truthy_str (pk_parent p) \<and> cl_listeners cl (the (pk_parent p)) \<noteq> None
          in if \<not> own \<and> \<not> par then cl_release env (tk_lane tk) cl
             else (case r of
                 Inl msg \<Rightarrow> if own then cl_invalidPacket msg cl else cl_add_task (tk\<lparr>tk_pc := CPost r\<rparr>) cl
               | Inr _ \<Rightarrow>
                   cl_add_task (tk\<lparr>tk_pc := CDeliver r own (par \<and> truthy_str (pk_variant p))\<rparr>)
                     (cl\<lparr>cl_log := cl_log cl @ [(True, tk_data tk, r)]\<rparr>)))"

definition cl_end_deliver :: "cl_task \<Rightarrow> listened \<Rightarrow> bool \<Rightarrow> bool \<Rightarrow> answer \<Rightarrow> client \<Rightarrow> client" where
  "cl_end_deliver tk r own par a cl =
     (let cl1 = cl\<lparr>cl_log := cl_log cl @ [(False, tk_data tk, r)]\<rparr>
      in if own \<and> an_listenerThrew a \<noteq> None then cl_invalidPacket (the (an_listenerThrew a)) cl1
         else if par \<and> an_parentThrew a then cl_throw (Error ''listener'') cl1
         else cl_add_task (tk\<lparr>tk_pc := CPost r\<rparr>) cl1)"

text \<open>\<open>dataHandler\<close> from its first await on; the values of a batch are all delivered at once.\<close>

definition cl_resume_task :: "client_env \<Rightarrow> answer \<Rightarrow> cl_task \<Rightarrow> client \<Rightarrow> client" where
  "cl_resume_task env a tk cl =
     (let p = tk_packet tk; last = (tk_transport tk, tk_tag tk); val = drop 1 (tk_data tk)
      in case tk_pc tk of
           CPre \<Rightarrow>
             if an_cancelled a then cl_release env (tk_lane tk) cl
             else if pk_rereference p \<and> val = [] then
               (case cl_lastReceived cl last of
                  None \<Rightarrow> cl_invalidPacket ''No previous value to rereference'' cl
                | Some r \<Rightarrow> cl_deliver env tk r cl)
             else if pk_dataBatching p = Some 0 then cl_add_task (tk\<lparr>tk_pc := CListen\<rparr>) cl
             else cl_add_task (tk\<lparr>tk_pc := CUnravel\<rparr>) cl
         | CListen \<Rightarrow>
             let r = listen (ce_lib env) (ce_core env) (ce_ctors env) p (ce_validators env (tk_tag tk)) val
             in cl_deliver env tk r (cl\<lparr>cl_lastReceived := (cl_lastReceived cl)(last \<mapsto> r)\<rparr>)
         | CUnravel \<Rightarrow>
             (case unravelBatch (ce_lib env) (ce_core env) (ce_ctors env) p (ce_validators env (tk_tag tk)) val of
                Inl msg \<Rightarrow> cl_invalidPacket msg cl
              | Inr rs \<Rightarrow> foldl (\<lambda>c r. cl_deliver env tk (Inr r) c) cl rs)
         | CDeliver r own par \<Rightarrow> cl_end_deliver tk r own par a cl
         | CPost r \<Rightarrow> cl_release env (tk_lane tk) cl)"

definition cl_resume :: "client_env \<Rightarrow> nat \<Rightarrow> answer \<Rightarrow> client \<Rightarrow> client" where
  "cl_resume env i a cl =
     (if i < length (cl_tasks cl)
      then cl_resume_task env a (cl_tasks cl ! i) (cl\<lparr>cl_tasks := remove_at i (cl_tasks cl)\<rparr>) else cl)"

section \<open>The hello\<close>

text \<open>
  What \<open>serverKeyHandler\<close> stores as it goes: a hello that is cut short leaves the id, the session and the
  table of client packets it got to.
\<close>

definition store_tables :: "client_env \<Rightarrow> u8 list \<Rightarrow> u8 list \<Rightarrow> (client, unit) st_result" where
  "store_tables env cdata sdata cl =
     (case bindR (deserializeAll (ce_lib env) cdata True (cl_registry cl)) (\<lambda>(cs, reg).
             bindR (holdPackets cs (cl_clientPackets cl)) (\<lambda>h. Inr (h, reg))) of
        Inl e \<Rightarrow> (Inl e, cl)
      | Inr (ch, reg1) \<Rightarrow>
          let cl1 = cl\<lparr>cl_clientPackets := ch, cl_registry := reg1\<rparr>
          in (case bindR (deserializeAll (ce_lib env) sdata True reg1) (\<lambda>(ss, reg).
                     bindR (holdPackets ss (cl_serverPackets cl)) (\<lambda>h. Inr (h, reg))) of
                Inl e \<Rightarrow> (Inl e, cl1)
              | Inr (sh, reg2) \<Rightarrow> (Inr (), cl1\<lparr>cl_serverPackets := sh, cl_registry := reg2\<rparr>)))"

definition store_hello :: "client_env \<Rightarrow> u8 list \<Rightarrow> (client, unit) st_result" where
  "store_hello env data cl =
     (case readVarInt data 0 of
        Inl e \<Rightarrow> (Inl e, cl)
      | Inr (clientKeyOffset, i) \<Rightarrow>
          let cl1 = cl\<lparr>cl_id := int i\<rparr>
          in (case readVarInt data clientKeyOffset of
                Inl e \<Rightarrow> (Inl e, cl1)
              | Inr (sessionOffset, sessionLength) \<Rightarrow>
                  let sid = utf8_decode (js_slice data sessionOffset (sessionOffset + sessionLength));
                      cl2 = cl1\<lparr>cl_sessionId := Some sid\<rparr>
                  in (case readVarInt data (sessionOffset + sessionLength) of
                        Inl e \<Rightarrow> (Inl e, cl2)
                      | Inr (packetOffset, clientPacketLength) \<Rightarrow>
                          store_tables env (js_slice data packetOffset (packetOffset + clientPacketLength))
                            (drop (packetOffset + clientPacketLength) data) cl2)))"

definition note_async :: "client \<Rightarrow> packet \<Rightarrow> client" where
  "note_async cl p =
     (case getKey (cl_serverPackets cl) (pk_tag p) of
        Inl e \<Rightarrow> cl
      | Inr k \<Rightarrow>
          let cl1 = cl\<lparr>cl_asyncMap := (cl_asyncMap cl)(k \<mapsto> pk_async p)\<rparr>
          in if pk_async p then cl_set_lane (Async (cl_transport cl) k) free_lane cl1 else cl1)"

definition bind_pre :: "client \<Rightarrow> jsstr \<times> nat \<Rightarrow> client" where
  "bind_pre cl x =
     (if hasTag (cl_serverPackets cl) (fst x) then (cl_listen (fst x) ^^ snd x) cl else cl)"

definition now_ready :: "client \<Rightarrow> client" where
  "now_ready cl =
     cl\<lparr>cl_preListen := None, cl_pastKeys := True, cl_handshakeTimer := False,
        cl_reconnect := negotiated (cl_reconnect cl),
        cl_readyCalls := cl_readyCalls cl + or_else (cl_ready cl) 0, cl_ready := None\<rparr>"

text \<open>A new session asks for the old one; then the frames that had to wait are handled.\<close>

definition ask_resume :: "jsstr option \<Rightarrow> (client, unit) st_result" where
  "ask_resume previous cl =
     (if truthy_str previous \<and> previous \<noteq> cl_sessionId cl then
        (let cl1 = cl\<lparr>cl_pendingResume := previous\<rparr>
         in case encodeResume (the previous) (cl_lastReplay cl) of
              Inl e \<Rightarrow> (Inl e, cl1) | Inr frame \<Rightarrow> cl_raw_send frame cl1)
      else (Inr (), cl))"

definition drain_read_queue :: "client_env \<Rightarrow> client \<Rightarrow> client" where
  "drain_read_queue env cl =
     foldl (\<lambda>c data. cl_messageHandler env data c) (cl\<lparr>cl_readQueue := []\<rparr>) (cl_readQueue cl)"

definition finish_hello :: "client_env \<Rightarrow> jsstr option \<Rightarrow> client \<Rightarrow> client" where
  "finish_hello env previous cl =
     (case registerSendPackets (cl_clientPackets cl) (cl_batchers cl (cl_transport cl)) of
        Inl e \<Rightarrow> cl_throw e cl
      | Inr b \<Rightarrow>
          let cl1 = cl\<lparr>cl_batchers := (cl_batchers cl)(cl_transport cl := b)\<rparr>;
              cl2 = foldl note_async cl1 (ph_packets (cl_serverPackets cl1));
              cl3 = now_ready (foldl bind_pre cl2 (or_else (cl_preListen cl2) []))
          in (case ask_resume previous cl3 of
                (Inl e, cl4) \<Rightarrow> cl_throw e cl4
              | (Inr _, cl4) \<Rightarrow> drain_read_queue env cl4))"

definition read_server_keys :: "client_env \<Rightarrow> u8 list \<Rightarrow> client \<Rightarrow> client" where
  "read_server_keys env data cl =
     (if data = [0] then
        (case cl_raw_send [0] cl of
           (Inl e, cl1) \<Rightarrow> cl_throw e cl1 | (Inr _, cl1) \<Rightarrow> cl1\<lparr>cl_reading := False\<rparr>)
      else case read_header data of
             Inl e \<Rightarrow> cl_throw e (cl_close 1000 [] cl)
           | Inr body \<Rightarrow>
               (case inflateRaw (ce_core env) body None of
                  Inl e \<Rightarrow> cl_throw e cl
                | Inr hello \<Rightarrow>
                    (case store_hello env hello cl of
                       (Inl e, cl1) \<Rightarrow> cl_throw e cl1
                     | (Inr _, cl1) \<Rightarrow> finish_hello env (cl_sessionId cl) cl1)))"

text \<open>\<open>serverKeyHandler\<close> up to its await, and the answer of \<open>bufferHandler\<close>.\<close>

definition serverKeyHandler :: "u8 list \<Rightarrow> client \<Rightarrow> client" where
  "serverKeyHandler data cl =
     (if cl_reading cl then cl\<lparr>cl_readQueue := cl_readQueue cl @ [data]\<rparr>
      else cl\<lparr>cl_reading := True, cl_hello := cl_hello cl @ [data]\<rparr>)"

definition hello_buffered :: "client_env \<Rightarrow> nat \<Rightarrow> client \<Rightarrow> client" where
  "hello_buffered env i cl =
     (if i < length (cl_hello cl)
      then read_server_keys env (cl_hello cl ! i) (cl\<lparr>cl_hello := remove_at i (cl_hello cl)\<rparr>) else cl)"

section \<open>Transports\<close>

text \<open>The reconnect machine goes on to \<open>r\<close>; a listener it called may have closed the client.\<close>

definition cl_rescheduled :: "reconnect \<Rightarrow> listeners_answer \<Rightarrow> client \<Rightarrow> client" where
  "cl_rescheduled r a cl =
     (if rc_notes r = rc_notes (cl_reconnect cl) then cl\<lparr>cl_reconnect := r\<rparr>
      else cl\<lparr>cl_reconnect := r, cl_conn := foldl (\<lambda>c (code, reason). conn_close code reason c) (cl_conn cl) (la_closes a)\<rparr>)"

lemma cl_rescheduled_simps [simp]:
  "cl_lanes (cl_rescheduled r a cl) = cl_lanes cl" "cl_tasks (cl_rescheduled r a cl) = cl_tasks cl"
  "cl_transport (cl_rescheduled r a cl) = cl_transport cl" "cl_reconnect (cl_rescheduled r a cl) = r"
  "cl_readyCalls (cl_rescheduled r a cl) = cl_readyCalls cl" "cl_clientPackets (cl_rescheduled r a cl) = cl_clientPackets cl"
  by (simp_all add: cl_rescheduled_def)

text \<open>The close handlers of the shared part and of the client.\<close>

definition cl_socket_closed :: "int option \<Rightarrow> rat \<Rightarrow> listeners_answer \<Rightarrow> client \<Rightarrow> client" where
  "cl_socket_closed code random a cl =
     (let c = close_event (cl_conn cl);
          cl1 = cl\<lparr>cl_conn := close_timers (cn_timers c) c,
                   cl_lastReceived := (\<lambda>(g, tg). if g = cl_transport cl then None else cl_lastReceived cl (g, tg))\<rparr>
      in cl_rescheduled (transport_closed code random a (cl_reconnect cl)) a cl1)"

definition new_transport :: "client \<Rightarrow> client" where
  "new_transport cl =
     cl\<lparr>cl_clientPackets := empty_holder, cl_serverPackets := empty_holder, cl_transport := cl_transport cl + 1,
        cl_asyncMap := Map.empty, cl_reading := False, cl_readQueue := [], cl_pastKeys := False,
        cl_preListen := Some [], cl_conn := replaceTransport (cl_conn cl), cl_handshakeTimer := True\<rparr>"

text \<open>\<open>beginReconnect\<close>, when the timer fires: \<open>bound\<close> is whether the factory and the rebinding returned.\<close>

definition cl_reconnect_fires :: "bool \<Rightarrow> rat \<Rightarrow> listeners_answer \<Rightarrow> client \<Rightarrow> client" where
  "cl_reconnect_fires bound random a cl =
     (let cl1 = cl_rescheduled (reconnect_fires bound random a (cl_reconnect cl)) a cl
      in if rc_timer (cl_reconnect cl) \<noteq> None \<and> bound then new_transport cl1 else cl1)"

definition handshake_times_out :: "client \<Rightarrow> client" where
  "handshake_times_out cl =
     (if cl_handshakeTimer cl then
        (let cl1 = cl\<lparr>cl_handshakeTimer := False\<rparr>
         in if cl_pastKeys cl then cl1
            else cl1\<lparr>cl_conn := (cl_conn cl1)\<lparr>cn_closes := cn_closes (cl_conn cl1) @
              [(code_number INVALID_DATA, js ''SonicWS schema handshake timed out'')]\<rparr>\<rparr>)
      else cl)"

definition configureHandshakeTimeout :: "jsnum \<Rightarrow> (client, unit) st_result" where
  "configureHandshakeTimeout ms cl =
     (case ms of
        Fin r \<Rightarrow> if r \<le> 0 then (Inl (Error ''Handshake timeout must be positive''), cl)
                 else (Inr (), cl\<lparr>cl_handshakeTimer := True\<rparr>)
      | _ \<Rightarrow> (Inl (Error ''Handshake timeout must be positive''), cl))"

section \<open>Every operation\<close>

datatype cl_event =
    FrameArrives "u8 list"
  | HelloBuffered nat
  | TaskResumes nat answer
  | RpcResumes nat "jsval result"
  | TimerRuns nat
  | SocketClosed "int option" rat listeners_answer
  | ReconnectTimer bool rat listeners_answer
  | HandshakeTimer
  | RequestTimer nat
  | SendProcessed "nat \<times> u8 list \<times> packet"
  | RequestProcessed nat "u8 list"
  | CloseCall int jsstr
  | OnCall bool jsstr
  | OnReadyCall
  | RespondCall jsstr
  | ConfigureCall partial_options
  | ConfigureTimeout jsnum

definition cl_frame :: "client_env \<Rightarrow> u8 list \<Rightarrow> client \<Rightarrow> client" where
  "cl_frame env data cl =
     (if cl_pastKeys cl then cl_messageHandler env data cl else serverKeyHandler data cl)"

fun cl_step :: "client_env \<Rightarrow> client \<Rightarrow> cl_event \<Rightarrow> client" where
  "cl_step env cl (FrameArrives data) = cl_frame env data cl"
| "cl_step env cl (HelloBuffered i) = hello_buffered env i cl"
| "cl_step env cl (TaskResumes i a) = cl_resume env i a cl"
| "cl_step env cl (RpcResumes j r) = cl_resume_rpc j r cl"
| "cl_step env cl (TimerRuns i) = cl_timer_fires (ce_core env) i cl"
| "cl_step env cl (SocketClosed code random a) = cl_socket_closed code random a cl"
| "cl_step env cl (ReconnectTimer bound random a) = cl_reconnect_fires bound random a cl"
| "cl_step env cl HandshakeTimer = handshake_times_out cl"
| "cl_step env cl (RequestTimer i) = cl_settle i (Failed (Error ''RPC request timed out'')) cl"
| "cl_step env cl (SendProcessed x) = snd (cl_finish_send x cl)"
| "cl_step env cl (RequestProcessed k payload) = snd (cl_request k payload cl)"
| "cl_step env cl (CloseCall code reason) = cl_close code reason cl"
| "cl_step env cl (OnCall isOpen tg) = cl_on isOpen tg cl"
| "cl_step env cl OnReadyCall = cl_on_ready cl"
| "cl_step env cl (RespondCall tg) = cl_respond tg cl"
| "cl_step env cl (ConfigureCall po) = cl\<lparr>cl_reconnect := snd (configureReconnect po (cl_reconnect cl))\<rparr>"
| "cl_step env cl (ConfigureTimeout ms) = snd (configureHandshakeTimeout ms cl)"

text \<open>\<open>sendVolatile\<close>: the gate, what happens while \<open>send\<close> is awaited, and the end of \<open>send\<close>.\<close>

definition cl_sendVolatile ::
  "client_env \<Rightarrow> cl_event list \<Rightarrow> nat \<times> u8 list \<times> packet \<Rightarrow> (client, bool) st_result" where
  "cl_sendVolatile env es x cl =
     (if \<not> canSendVolatile (cl_conn cl) then (Inr False, cl)
      else case cl_finish_send x (foldl (cl_step env) cl es) of
        (Inl e, cl') \<Rightarrow> (Inl e, cl') | (Inr _, cl') \<Rightarrow> (Inr True, cl'))"

end
