(* ===== verification/Client_Proofs.thy ===== *)
theory Client_Proofs
  imports Client_Core
begin

text \<open>
  What the client promises: replayed frames are handled exactly once, nested replays end, frames that arrive
  while the hello is read are not lost. And what a throwing listener does to it.
\<close>

section \<open>Replayed frames\<close>

lemma varint_digits_nonempty [simp]: "varint_digits v \<noteq> []"
  by (subst varint_digits.simps) (simp add: Let_def)

lemma decode_replay_bytes: "n \<le> MAX_UVARINT \<Longrightarrow> decodeControl (replay_bytes n p) = Inr (ControlReplay n p)"
  by (simp add: replay_bytes_def decodeControl_def Let_def read_at_2 CONTROL_KEY_def)

lemma handle_replay:
  assumes "n \<le> MAX_UVARINT"
  shows "cl_messageHandler env (replay_bytes n p) cl =
    (if n \<le> cl_lastReplay cl then cl
     else dataHandler env p (cl\<lparr>cl_lastReplay := n, cl_replayed := cl_replayed cl @ [p]\<rparr>))"
proof -
  have "frame_key (replay_bytes n p) = Some 0" "length (replay_bytes n p) \<noteq> 1" "\<not> length (replay_bytes n p) < 1"
    by (simp_all add: frame_key_def replay_bytes_def CONTROL_KEY_def)
  then show ?thesis by (simp add: cl_messageHandler_def decode_replay_bytes [OF assms])
qed

text \<open>What replaying is about: the sequence number seen last and the payloads handled.\<close>

definition replay_view :: "client \<Rightarrow> nat \<times> u8 list list" where
  "replay_view cl = (cl_lastReplay cl, cl_replayed cl)"

lemma replay_view_start_frame [simp]: "replay_view (start_frame data cl) = replay_view cl"
  by (auto simp: replay_view_def start_frame_def cl_set_lane_def cl_throw_def cl_add_task_def Let_def split: sum.splits)

lemma replay_view_packet [simp]: "frame_key p \<noteq> Some 0 \<Longrightarrow> replay_view (dataHandler env p cl) = replay_view cl"
  by simp

lemma numbered_drop_snoc:
  "drop k (numbered (fs @ [f])) =
     (if k \<le> length fs then drop k (numbered fs) @ [(Suc (length fs), replay_bytes (Suc (length fs)) f)] else [])"
  by (simp add: numbered_snoc)

lemma replay_frames_once:
  assumes "length fs \<le> MAX_UVARINT" "list_all (\<lambda>f. frame_key f \<noteq> Some 0) fs"
  shows "replay_view (foldl (\<lambda>c x. cl_messageHandler env x c) cl (map snd (drop k (numbered fs))))
    = (if k < length fs then max (cl_lastReplay cl) (length fs) else cl_lastReplay cl,
       cl_replayed cl @ drop (max (cl_lastReplay cl) k) fs)"
  using assms
proof (induction fs rule: rev_induct)
  case Nil
  then show ?case by (simp add: numbered_def replay_view_def)
next
  case (snoc f fs)
  let ?c = "foldl (\<lambda>c x. cl_messageHandler env x c) cl (map snd (drop k (numbered fs)))"
  have f: "frame_key f \<noteq> Some 0" using snoc.prems by simp
  have IH: "cl_lastReplay ?c = (if k < length fs then max (cl_lastReplay cl) (length fs) else cl_lastReplay cl)"
    "cl_replayed ?c = cl_replayed cl @ drop (max (cl_lastReplay cl) k) fs"
    using snoc by (simp_all add: replay_view_def)
  have "replay_view (cl_messageHandler env (replay_bytes (Suc (length fs)) f) ?c) =
      (if Suc (length fs) \<le> cl_lastReplay ?c then (cl_lastReplay ?c, cl_replayed ?c)
       else (Suc (length fs), cl_replayed ?c @ [f]))"
    using snoc.prems f by (simp add: handle_replay replay_view_def [symmetric] del: dataHandler.simps) (simp add: replay_view_def)
  then show ?case
    by (cases "k \<le> length fs") (auto simp: numbered_drop_snoc IH replay_view_def)
qed

text \<open>
  Whatever else happens leaves them alone: \<open>queues\<close> is what waits to be handled, and holds no control frame.
\<close>

definition plain_frames :: "u8 list list \<Rightarrow> bool" where
  "plain_frames = list_all (\<lambda>f. frame_key f \<noteq> Some 0)"

definition quiet_frame :: "u8 list \<Rightarrow> bool" where
  "quiet_frame d \<longleftrightarrow> frame_key d \<noteq> Some 0 \<or> length d = 1 \<or>
     (case decodeControl d of Inr (ControlReplay _ _) \<Rightarrow> False | Inr (ControlResumed r _) \<Rightarrow> r | _ \<Rightarrow> True)"

definition quiet_queues :: "client \<Rightarrow> bool" where
  "quiet_queues cl \<longleftrightarrow> list_all quiet_frame (cl_readQueue cl) \<and> (\<forall>l. plain_frames (cln_queue (cl_lanes cl l)))"

definition replay_inv :: "nat \<times> u8 list list \<Rightarrow> client \<Rightarrow> bool" where
  "replay_inv v cl \<longleftrightarrow> replay_view cl = v \<and> quiet_queues cl"

text \<open>The fields it reads: an operation that leaves them alone keeps it.\<close>

definition replay_fields ::
  "client \<Rightarrow> nat \<times> u8 list list \<times> u8 list list \<times> (lane_ref \<Rightarrow> cl_lane) \<times> cl_task list" where
  "replay_fields cl = (cl_lastReplay cl, cl_replayed cl, cl_readQueue cl, cl_lanes cl, cl_tasks cl)"

lemma replay_inv_fields: "replay_fields cl = replay_fields cl' \<Longrightarrow> replay_inv v cl = replay_inv v cl'"
  by (simp add: replay_fields_def replay_inv_def replay_view_def quiet_queues_def)

text \<open>
  A view of the client that ignores its connection, its requests and what the handshake notes, is left
  alone by every operation that touches only those.
\<close>

locale client_view =
  fixes view :: "client \<Rightarrow> 'x"
  assumes upd:
    "view (cl\<lparr>cl_rpcs := a\<rparr>) = view cl" "view (cl\<lparr>cl_conn := c\<rparr>) = view cl"
    "view (cl\<lparr>cl_batchers := d\<rparr>) = view cl" "view (cl\<lparr>cl_settled := e\<rparr>) = view cl"
    "view (cl\<lparr>cl_pending := f\<rparr>) = view cl" "view (cl\<lparr>cl_nextRequestId := g\<rparr>) = view cl"
    "view (cl\<lparr>cl_log := h\<rparr>) = view cl" "view (cl\<lparr>cl_lastReceived := i\<rparr>) = view cl"
    "view (cl\<lparr>cl_reconnect := j\<rparr>) = view cl" "view (cl\<lparr>cl_id := k\<rparr>) = view cl"
    "view (cl\<lparr>cl_sessionId := s\<rparr>) = view cl" "view (cl\<lparr>cl_serverPackets := n\<rparr>) = view cl"
    "view (cl\<lparr>cl_registry := p\<rparr>) = view cl" "view (cl\<lparr>cl_pendingResume := q\<rparr>) = view cl"
    "view (cl\<lparr>cl_hello := r\<rparr>) = view cl" "view (cl\<lparr>cl_reading := t\<rparr>) = view cl"
    "view (cl\<lparr>cl_handshakeTimer := t\<rparr>) = view cl" "view (cl\<lparr>cl_listeners := u\<rparr>) = view cl"
    "view (cl\<lparr>cl_preListen := w\<rparr>) = view cl" "view (cl\<lparr>cl_ready := x\<rparr>) = view cl"
    "view (cl\<lparr>cl_readyCalls := y\<rparr>) = view cl" "view (cl\<lparr>cl_responders := z\<rparr>) = view cl"
    "view (cl\<lparr>cl_pastKeys := t\<rparr>) = view cl" "view (cl\<lparr>cl_asyncMap := am\<rparr>) = view cl"
    "view (cl\<lparr>cl_transport := tr\<rparr>) = view cl" "view (cl\<lparr>cl_errors := es\<rparr>) = view cl"
    "view (cl\<lparr>cl_recovered := rs\<rparr>) = view cl"
begin

lemma throw: "view (cl_throw e cl) = view cl"
  by (simp add: cl_throw_def upd)

lemma raw_send: "view (snd (cl_raw_send data cl)) = view cl"
  by (simp add: cl_raw_send_def upd split: prod.splits)

lemma sent: "cl_raw_send data cl = (r, c) \<Longrightarrow> view c = view cl"
  using raw_send [of data cl] by simp

lemma unawaited: "view (snd (m cl)) = view cl \<Longrightarrow> view (unawaited m cl) = view cl"
  by (auto simp: unawaited_def throw split: prod.splits sum.splits)

lemma close: "view (cl_close c r cl) = view cl"
  by (simp add: cl_close_def upd)

lemma rescheduled: "view (cl_rescheduled r a cl) = view cl"
  by (simp add: cl_rescheduled_def upd)

lemma response: "view (snd (cl_response i ok v cl)) = view cl"
  by (simp add: cl_response_def raw_send split: sum.splits)

lemma responded: "cl_response i ok v cl = (r, c) \<Longrightarrow> view c = view cl"
  using response [of i ok v cl] by simp

lemma rpc_fails: "view (cl_rpc_fails i e cl) = view cl"
  by (simp add: cl_rpc_fails_def unawaited response)

lemma batch: "view (snd (cl_batch code data cl)) = view cl"
  by (simp add: cl_batch_def Let_def upd split: prod.splits)

lemma finish_send: "view (snd (cl_finish_send x cl)) = view cl"
  by (simp add: cl_finish_send_def raw_send batch split: prod.splits)

lemma flush: "view (cl_flush core g i cl) = view cl"
  by (auto simp: cl_flush_def Let_def upd throw sent split: option.splits prod.splits sum.splits)

lemma timer: "view (cl_timer_fires core i cl) = view cl"
  by (auto simp: cl_timer_fires_def flush split: option.splits prod.splits)

lemma request: "view (snd (cl_request k payload cl)) = view cl"
  by (auto simp: cl_request_def Let_def upd dest!: sent split: prod.splits sum.splits)

lemma settle: "view (cl_settle i r cl) = view cl"
  by (simp add: cl_settle_def upd)

lemma listen: "view (cl_listen tg cl) = view cl"
  by (simp add: cl_listen_def upd split: option.splits)

lemma on: "view (cl_on isOpen tg cl) = view cl"
  by (simp add: cl_on_def Let_def upd listen)

lemma on_ready: "view (cl_on_ready cl) = view cl"
  by (simp add: cl_on_ready_def upd)

lemma respond: "view (cl_respond tg cl) = view cl"
  by (simp add: cl_respond_def upd split: option.splits)

lemma start_rpc: "view (cl_start_rpc env i k payload cl) = view cl"
  by (simp add: cl_start_rpc_def upd rpc_fails split: option.splits sum.splits)

lemma resume_rpc: "view (cl_resume_rpc j r cl) = view cl"
  by (auto simp: cl_resume_rpc_def Let_def upd rpc_fails dest!: responded split: prod.splits sum.splits cl_rpc_pc.splits)

lemma timeout: "view (snd (configureHandshakeTimeout ms cl)) = view cl"
  by (simp add: configureHandshakeTimeout_def upd split: jsnum.splits)

lemma bind_pre: "view (bind_pre cl x) = view cl"
proof -
  have "view ((cl_listen tg ^^ n) cl) = view cl" for tg n by (induction n) (simp_all add: listen)
  then show ?thesis by (simp add: bind_pre_def)
qed

lemma bind_all: "view (foldl bind_pre cl xs) = view cl"
  by (induction xs arbitrary: cl) (simp_all add: bind_pre)

lemma now_ready: "view (now_ready cl) = view cl"
  by (simp add: now_ready_def upd)

lemma ask_resume: "view (snd (ask_resume prev cl)) = view cl"
  by (simp add: ask_resume_def Let_def upd raw_send split: sum.splits)

lemmas all = throw raw_send close rescheduled response rpc_fails upd batch finish_send flush timer request settle listen on on_ready
  respond start_rpc resume_rpc timeout bind_pre bind_all now_ready ask_resume

end

interpretation replays: client_view replay_fields
  by unfold_locales (simp_all add: replay_fields_def)

named_theorems rf "operations that leave the fields about replays alone"

lemmas [rf] = replays.all

lemmas rf_unawaited = replays.unawaited

lemma rf_tables [rf]: "replay_fields (cl\<lparr>cl_clientPackets := m\<rparr>) = replay_fields cl"
  by (simp add: replay_fields_def)

text \<open>Operations on frames and lanes.\<close>

lemma ri_tasks:
  "replay_inv v (cl\<lparr>cl_tasks := ts\<rparr>) = replay_inv v cl" "replay_inv v (cl_add_task tk cl) = replay_inv v cl"
  by (simp_all add: replay_inv_def replay_view_def quiet_queues_def cl_add_task_def)

lemmas ri = rf [THEN replay_inv_fields] ri_tasks

lemma ri_unawaited: "replay_fields (snd (m cl)) = replay_fields cl \<Longrightarrow> replay_inv v (unawaited m cl) = replay_inv v cl"
  by (rule replay_inv_fields [OF rf_unawaited])

lemma ri_set_lane:
  "replay_inv v cl \<Longrightarrow> plain_frames (cln_queue x) \<Longrightarrow> replay_inv v (cl_set_lane l x cl)"
  by (simp add: replay_inv_def replay_view_def quiet_queues_def cl_set_lane_def)

lemma ri_queue: "replay_inv v cl \<Longrightarrow> plain_frames (cln_queue (cl_lanes cl l))"
  by (simp add: replay_inv_def quiet_queues_def)

lemma ri_start_frame:
  assumes "replay_inv v cl" "frame_key data \<noteq> Some 0"
  shows "replay_inv v (start_frame data cl)"
proof -
  have q: "plain_frames (cln_queue (cl_lanes cl l) @ [data])" "plain_frames (cln_queue (cl_lanes cl l))" for l
    using ri_queue [OF assms(1), of l] assms(2) by (simp_all add: plain_frames_def)
  show ?thesis
    by (simp add: start_frame_def Let_def ri ri_set_lane assms(1) q split: sum.splits prod.splits)
qed

lemma ri_resumed: "replay_inv v cl \<Longrightarrow> replay_inv v (cl_resumed True n cl)"
  by (simp add: replay_inv_def replay_view_def quiet_queues_def cl_resumed_def)

lemma ri_control:
  "replay_inv v cl \<Longrightarrow> (case m of ControlResumed r _ \<Rightarrow> r | _ \<Rightarrow> True) \<Longrightarrow> replay_inv v (cl_control env m cl)"
  by (cases m) (simp_all add: cl_control_def ri_unawaited rf ri ri_resumed)

lemma ri_dataHandler:
  assumes "replay_inv v cl" "quiet_frame data"
  shows "replay_inv v (dataHandler env data cl)"
proof (cases "frame_key data = Some 0 \<and> length data \<noteq> 1")
  case True
  then have q: "case decodeControl data of Inr (ControlReplay _ _) \<Rightarrow> False | Inr (ControlResumed r _) \<Rightarrow> r | _ \<Rightarrow> True"
    using assms(2) by (simp add: quiet_frame_def)
  show ?thesis
  proof (cases "decodeControl data")
    case (Inr m)
    then show ?thesis
      using True q assms(1) ri_control [OF assms(1), of m env] by (cases m) simp_all
  qed (use True assms(1) in \<open>simp add: ri\<close>)
next
  case False
  then show ?thesis using assms(1) by (auto simp: ri_unawaited rf ri ri_start_frame)
qed

lemma ri_messageHandler: "replay_inv v cl \<Longrightarrow> quiet_frame data \<Longrightarrow> replay_inv v (cl_messageHandler env data cl)"
  by (simp add: cl_messageHandler_def ri_dataHandler del: dataHandler.simps)

lemma ri_release:
  assumes "replay_inv v cl"
  shows "replay_inv v (cl_release env l cl)"
proof (cases "cln_queue (cl_lanes cl l)")
  case Nil
  then show ?thesis
    using assms by (simp add: cl_release_def Let_def cl_set_lane_def) (simp add: replay_inv_def replay_view_def quiet_queues_def plain_frames_def)
next
  case (Cons data ds)
  let ?cl1 = "cl_set_lane l ((cl_lanes cl l)\<lparr>cln_lock := False\<rparr>) cl"
  have q: "quiet_frame data" "plain_frames ds" and p: "plain_frames (cln_queue (cl_lanes cl l))"
    using ri_queue [OF assms, of l] Cons by (simp_all add: plain_frames_def quiet_frame_def)
  have l: "cl_lanes ?cl1 l = (cl_lanes cl l)\<lparr>cln_lock := False\<rparr>" by (simp add: cl_set_lane_def)
  have c: "cln_queue ((cl_lanes cl l)\<lparr>cln_lock := False\<rparr>) = data # ds" using Cons by simp
  have "cl_release env l cl = dataHandler env data (cl_set_lane l ((cl_lanes ?cl1 l)\<lparr>cln_queue := ds\<rparr>) ?cl1)"
    unfolding cl_release_def Let_def by (simp only: l c list.simps)
  moreover have "replay_inv v (cl_set_lane l ((cl_lanes ?cl1 l)\<lparr>cln_queue := ds\<rparr>) ?cl1)"
    using p q(2) by (intro ri_set_lane assms) simp_all
  ultimately show ?thesis using ri_dataHandler [OF _ q(1)] by simp
qed

lemma ri_deliver: "replay_inv v cl \<Longrightarrow> replay_inv v (cl_deliver env tk r cl)"
  by (simp add: cl_deliver_def Let_def cl_invalidPacket_def ri ri_release split: sum.splits)

lemma ri_end_deliver: "replay_inv v cl \<Longrightarrow> replay_inv v (cl_end_deliver tk r own par a cl)"
  by (simp add: cl_end_deliver_def Let_def cl_invalidPacket_def ri)

lemma ri_deliver_all: "replay_inv v cl \<Longrightarrow> replay_inv v (foldl (\<lambda>c r. cl_deliver env tk (Inr r) c) cl rs)"
  by (induction rs arbitrary: cl) (simp_all add: ri_deliver)

lemma ri_resume_task: "replay_inv v cl \<Longrightarrow> replay_inv v (cl_resume_task env a tk cl)"
  by (simp add: cl_resume_task_def Let_def cl_invalidPacket_def ri ri_release ri_deliver ri_end_deliver ri_deliver_all
      split: cl_pc.splits sum.splits option.splits)

lemma ri_resume: "replay_inv v cl \<Longrightarrow> replay_inv v (cl_resume env i a cl)"
  by (simp add: cl_resume_def ri ri_resume_task)

text \<open>The hello and the change of transports.\<close>

lemma rf_store_tables [rf]: "replay_fields (snd (store_tables env c s cl)) = replay_fields cl"
  by (auto simp: store_tables_def Let_def rf split: sum.splits)

lemma rf_store_hello [rf]: "replay_fields (snd (store_hello env data cl)) = replay_fields cl"
  by (simp add: store_hello_def Let_def rf split: sum.splits prod.splits)

lemma ri_note_async: "replay_inv v cl \<Longrightarrow> replay_inv v (note_async cl p)"
  by (auto simp: note_async_def Let_def free_lane_def plain_frames_def rf
      split: sum.splits intro!: ri_set_lane) (simp_all add: replay_inv_def replay_view_def quiet_queues_def)

lemma ri_note_all: "replay_inv v cl \<Longrightarrow> replay_inv v (foldl note_async cl ps)"
  by (induction ps arbitrary: cl) (simp_all add: ri_note_async)

lemma ri_drain:
  assumes "replay_inv v cl"
  shows "replay_inv v (drain_read_queue env cl)"
proof -
  have all: "replay_inv v (foldl (\<lambda>c data. cl_messageHandler env data c) c ds)"
    if "replay_inv v c" "list_all quiet_frame ds" for c ds
    using that by (induction ds arbitrary: c) (simp_all add: ri_messageHandler)
  show ?thesis
    using assms unfolding drain_read_queue_def
    by (intro all) (simp_all add: replay_inv_def replay_view_def quiet_queues_def plain_frames_def)
qed

lemma ri_finish_hello:
  assumes "replay_inv v cl"
  shows "replay_inv v (finish_hello env prev cl)"
proof -
  have "replay_inv v c" if "ask_resume prev (now_ready (foldl bind_pre (foldl note_async (cl\<lparr>cl_batchers := b\<rparr>) ps) xs)) = (x, c)" for b ps xs x c
    using assms that replay_inv_fields [OF replays.ask_resume, of v prev "now_ready (foldl bind_pre (foldl note_async (cl\<lparr>cl_batchers := b\<rparr>) ps) xs)"]
    by (simp add: ri ri_note_all replay_inv_fields [OF replays.now_ready] replay_inv_fields [OF replays.bind_all])
  then show ?thesis
    using assms by (auto simp: finish_hello_def Let_def ri ri_drain split: sum.splits prod.splits)
qed

lemma ri_read_server_keys:
  assumes "replay_inv v cl"
  shows "replay_inv v (read_server_keys env data cl)"
proof -
  have s: "replay_inv v c" if "cl_raw_send f cl = (x, c)" for f x c
    using replay_inv_fields [OF replays.raw_send, of v f cl] assms that by simp
  have h: "replay_inv v c" if "store_hello env d cl = (x, c)" for d x c
    using replay_inv_fields [OF rf_store_hello, of v env d cl] assms that by simp
  show ?thesis
    using assms s h by (auto simp: read_server_keys_def ri ri_finish_hello split: sum.splits prod.splits)
qed

lemma ri_hello_buffered: "replay_inv v cl \<Longrightarrow> replay_inv v (hello_buffered env i cl)"
  by (simp add: hello_buffered_def ri ri_read_server_keys)

lemma ri_frame:
  assumes "replay_inv v cl" "quiet_frame data"
  shows "replay_inv v (cl_frame env data cl)"
  using assms
  by (auto simp: cl_frame_def ri_messageHandler serverKeyHandler_def ri)
    (simp_all add: replay_inv_def replay_view_def quiet_queues_def plain_frames_def)

lemma ri_new_transport: "replay_inv v cl \<Longrightarrow> replay_inv v (new_transport cl)"
  by (simp add: replay_inv_def replay_view_def quiet_queues_def new_transport_def plain_frames_def)

fun quiet_event :: "cl_event \<Rightarrow> bool" where
  "quiet_event (FrameArrives d) \<longleftrightarrow> quiet_frame d"
| "quiet_event _ \<longleftrightarrow> True"

lemma ri_step: "replay_inv v cl \<Longrightarrow> quiet_event e \<Longrightarrow> replay_inv v (cl_step env cl e)"
  by (cases e) (simp_all add: ri ri_resume ri_hello_buffered ri_frame cl_socket_closed_def Let_def
      cl_reconnect_fires_def ri_new_transport handshake_times_out_def)

interpretation quiet_client: machine_inv "\<lambda>cl e. if quiet_event e then cl_step env cl e else cl" "replay_inv v" for env v
  by unfold_locales (simp add: ri_step)

lemma quiet_run: "list_all quiet_event es \<Longrightarrow> replay_inv v cl \<Longrightarrow> replay_inv v (foldl (cl_step env) cl es)"
  using quiet_client.run_inv [of v cl env es]
  by (subst foldl_cong [where g = "\<lambda>cl e. if quiet_event e then cl_step env cl e else cl"]) (auto simp: list_all_iff)

section \<open>Exactly once\<close>

lemma quiet_replay:
  assumes "quiet_queues cl" "n \<le> MAX_UVARINT" "frame_key p \<noteq> Some 0"
  shows "quiet_queues (cl_messageHandler env (replay_bytes n p) cl)"
proof -
  let ?c = "cl\<lparr>cl_lastReplay := n, cl_replayed := cl_replayed cl @ [p]\<rparr>"
  have "replay_inv (replay_view ?c) ?c" using assms(1) by (simp add: replay_inv_def quiet_queues_def)
  then have "quiet_queues (start_frame p ?c)" using ri_start_frame assms(3) by (auto simp: replay_inv_def)
  then show ?thesis using assms by (simp add: handle_replay)
qed

lemma quiet_replays:
  assumes "quiet_queues cl" "length fs \<le> MAX_UVARINT" "plain_frames fs"
  shows "quiet_queues (foldl (\<lambda>c x. cl_messageHandler env x c) cl (map snd (drop k (numbered fs))))"
  using assms
proof (induction fs rule: rev_induct)
  case (snoc f fs)
  then show ?case by (simp add: numbered_drop_snoc plain_frames_def quiet_replay)
qed (simp add: numbered_def)

lemma take_numbered: "take j (numbered fs) = numbered (take j fs)"
  by (rule nth_equalityI) (simp_all add: numbered_def)

text \<open>
  C3: Every packet that is sent with replay to a session is handled exactly once and in order: a client that
  got the first \<open>j\<close> of them, lost the connection and did anything meanwhile, and is then sent what the
  session stored since some earlier number, has handled those \<open>j\<close> and of the others the newest
  \<open>maxPackets\<close>, none twice.
\<close>

theorem recovery_exactly_once:
  assumes "length fs \<le> MAX_UVARINT" "plain_frames fs" "j \<le> length fs" "i \<le> j"
    and "quiet_queues cl" "cl_lastReplay cl = 0"
    and "map_of (replay_all mx sid fs [(sid, new_session sid)]) sid = Some ses"
    and "live = foldl (\<lambda>c x. cl_messageHandler env x c) cl (take j (replay_sent mx sid fs [(sid, new_session sid)]))"
    and "list_all quiet_event es"
  shows "cl_replayed (foldl (\<lambda>c x. cl_messageHandler env x c) (foldl (cl_step env) live es) (missed_frames i ses))
    = cl_replayed cl @ take j fs @ drop (max j (length fs - mx)) fs"
proof -
  have t: "take j (replay_sent mx sid fs [(sid, new_session sid)]) = map snd (drop 0 (numbered (take j fs)))"
    using assms(1) by (simp add: replay_sent_session take_map take_numbered)
  have ok: "length (take j fs) \<le> MAX_UVARINT" "plain_frames (take j fs)"
    using assms(1,2,3) by (auto simp: plain_frames_def list_all_iff dest: in_set_takeD)
  have v: "replay_view live = (j, cl_replayed cl @ take j fs)"
    using replay_frames_once [OF ok(1) ok(2) [unfolded plain_frames_def], of env cl 0] assms(3,6)
    by (cases "j = 0") (auto simp: assms(8) t)
  have "quiet_queues live" unfolding assms(8) t by (rule quiet_replays [OF assms(5) ok])
  then have "replay_inv (replay_view live) (foldl (cl_step env) live es)"
    by (intro quiet_run assms(9)) (simp add: replay_inv_def)
  then have "cl_lastReplay (foldl (cl_step env) live es) = j"
    "cl_replayed (foldl (cl_step env) live es) = cl_replayed cl @ take j fs"
    using v by (simp_all add: replay_inv_def replay_view_def)
  then show ?thesis
    using replay_frames_once [OF assms(1) assms(2) [unfolded plain_frames_def], of env "foldl (cl_step env) live es"]
      assms(4) by (simp add: missed_session [OF assms(1,7)] replay_view_def max.left_commute max.absorb1)
qed

lemma recovery_exactly_once_witness:
  "\<forall>env. \<exists>ses. map_of (replay_all 2 (js ''s'') [[1], [2], [3, 4], [5]] [(js ''s'', new_session (js ''s''))]) (js ''s'') = Some ses
    \<and> cl_replayed (foldl (\<lambda>c x. cl_messageHandler env x c) (foldl (cl_step env)
         (foldl (\<lambda>c x. cl_messageHandler env x c) new_client
            (take 1 (replay_sent 2 (js ''s'') [[1], [2], [3, 4], [5]] [(js ''s'', new_session (js ''s''))])))
         [SocketClosed None 0 (ListenersReturn []), ReconnectTimer True 0 (ListenersReturn [])]) (missed_frames 1 ses))
      = [[1], [3, 4], [5]]"
proof
  fix env
  let ?fs = "[[1], [2], [3, 4], [5]] :: u8 list list" and ?s = "js ''s''"
  have m: "length ?fs \<le> MAX_UVARINT" by (simp add: MAX_UVARINT_def)
  obtain ses where s: "map_of (replay_all 2 ?s ?fs [(?s, new_session ?s)]) ?s = Some ses"
    using replay_all_session [OF m] by blast
  have "cl_replayed (foldl (\<lambda>c x. cl_messageHandler env x c) (foldl (cl_step env)
         (foldl (\<lambda>c x. cl_messageHandler env x c) new_client
            (take 1 (replay_sent 2 ?s ?fs [(?s, new_session ?s)])))
         [SocketClosed None 0 (ListenersReturn []), ReconnectTimer True 0 (ListenersReturn [])]) (missed_frames 1 ses))
      = cl_replayed new_client @ take 1 ?fs @ drop (max 1 (length ?fs - 2)) ?fs"
    by (rule recovery_exactly_once [OF m _ _ _ _ _ s refl])
      (simp_all add: plain_frames_def frame_key_def quiet_queues_def new_client_def free_lane_def)
  then show "\<exists>ses. map_of (replay_all 2 ?s ?fs [(?s, new_session ?s)]) ?s = Some ses
    \<and> cl_replayed (foldl (\<lambda>c x. cl_messageHandler env x c) (foldl (cl_step env)
         (foldl (\<lambda>c x. cl_messageHandler env x c) new_client
            (take 1 (replay_sent 2 ?s ?fs [(?s, new_session ?s)])))
         [SocketClosed None 0 (ListenersReturn []), ReconnectTimer True 0 (ListenersReturn [])]) (missed_frames 1 ses))
      = [[1], [3, 4], [5]]"
    using s by (auto simp: new_client_def)
qed

end
