(* ===== verification/Client_Frames.thy ===== *)
theory Client_Frames
  imports Client_Proofs
begin

text \<open>
  How the client handles frames: nested replays end, what arrives while the hello is read is handled after
  it, and a listener that throws stops the lane of all packets that are not async for good.
\<close>

section \<open>Nested replays end\<close>

lemma replayed_start_frame [simp]: "cl_replayed (start_frame data cl) = cl_replayed cl"
  using replay_view_start_frame [of data cl] by (simp add: replay_view_def)

lemma replayed_fields: "replay_fields c = replay_fields cl \<Longrightarrow> cl_replayed c = cl_replayed cl"
  by (simp add: replay_fields_def)

lemmas replayed_rf = rf [THEN replayed_fields]

lemma replayed_control: "cl_replayed (cl_control env m cl) = cl_replayed cl"
  by (cases m) (simp_all add: cl_control_def replayed_rf rf_unawaited [THEN replayed_fields] rf cl_resumed_def)

definition nested_payloads :: "u8 list \<Rightarrow> client \<Rightarrow> client \<Rightarrow> bool" where
  "nested_payloads data cl cl' \<longleftrightarrow>
     (\<exists>ps. cl_replayed cl' = cl_replayed cl @ ps \<and> sorted_wrt (\<lambda>x y. length y + 3 \<le> length x) (data # ps)
       \<and> 3 * length ps \<le> length data)"

lemma nested_none: "cl_replayed cl' = cl_replayed cl \<Longrightarrow> nested_payloads data cl cl'"
  unfolding nested_payloads_def by (rule exI [of _ "[]"]) simp

lemma nested_more:
  assumes "nested_payloads p (cl\<lparr>cl_lastReplay := n, cl_replayed := cl_replayed cl @ [p]\<rparr>) cl'" "length p + 3 \<le> length data"
  shows "nested_payloads data cl cl'"
proof -
  obtain ps where "cl_replayed cl' = cl_replayed cl @ p # ps" "sorted_wrt (\<lambda>x y. length y + 3 \<le> length x) (p # ps)"
    "3 * length ps \<le> length p"
    using assms(1) by (auto simp: nested_payloads_def)
  then show ?thesis
    unfolding nested_payloads_def using assms(2) by (intro exI [of _ "p # ps"]) auto
qed

lemma nested_replays:
  "nested_payloads data cl (dataHandler env data cl)" "nested_payloads data cl (cl_handleControl env data cl)"
proof (induction env data cl and env data cl rule: dataHandler_cl_handleControl.induct)
  case (1 env data cl)
  then show ?case by (simp add: nested_none del: cl_handleControl.simps)
next
  case (2 env data cl)
  show ?case
  proof (cases "length data = 1")
    case True
    then show ?thesis by (simp add: nested_none replayed_rf rf_unawaited [THEN replayed_fields] rf)
  next
    case False
    show ?thesis
    proof (cases "decodeControl data")
      case (Inl e)
      then show ?thesis using False by (simp add: nested_none replayed_rf)
    next
      case (Inr m)
      show ?thesis
      proof (cases "\<exists>n p. m = ControlReplay n p \<and> \<not> n \<le> cl_lastReplay cl")
        case True
        then obtain n p where m: "m = ControlReplay n p" "\<not> n \<le> cl_lastReplay cl" by blast
        show ?thesis
          using "2.IH" [OF False Inr m] nested_more replay_shorter [OF Inr [unfolded m(1)]] False Inr m
          by (simp del: dataHandler.simps)
      next
        case False
        then show ?thesis
          using Inr \<open>length data \<noteq> 1\<close> by (cases m) (simp_all add: nested_none replayed_control del: dataHandler.simps)
      qed
    qed
  qed
qed

text \<open>
  C14: Handling one frame ends after at most a third of its length in nested replays: each payload is at
  least three bytes shorter than the frame it came in.
\<close>

theorem replay_nesting_ends:
  "\<exists>ps. cl_replayed (dataHandler env data cl) = cl_replayed cl @ ps
    \<and> sorted_wrt (\<lambda>x y. length y + 3 \<le> length x) (data # ps) \<and> length ps \<le> length data div 3"
  using nested_replays(1) [of data cl env] by (fastforce simp: nested_payloads_def simp del: dataHandler.simps)

section \<open>A listener that throws\<close>

definition stalled :: "client \<Rightarrow> bool" where
  "stalled cl \<longleftrightarrow> cln_lock (cl_lanes cl Shared) \<and> list_all (\<lambda>tk. tk_lane tk \<noteq> Shared) (cl_tasks cl)"

lemma stalled_fields: "replay_fields c = replay_fields cl \<Longrightarrow> stalled c = stalled cl"
  by (simp add: replay_fields_def stalled_def)

lemmas st_rf = rf [THEN stalled_fields]

lemma st_add_task: "tk_lane tk \<noteq> Shared \<Longrightarrow> stalled (cl_add_task tk cl) = stalled cl"
  by (simp add: stalled_def cl_add_task_def)

lemma st_set_lane: "l \<noteq> Shared \<or> cln_lock x \<Longrightarrow> stalled cl \<Longrightarrow> stalled (cl_set_lane l x cl)"
  by (auto simp: stalled_def cl_set_lane_def)

lemma st_start_frame:
  assumes "stalled cl"
  shows "stalled (start_frame data cl)"
proof (cases "cl_lane_of data cl = Shared")
  case True
  have "cln_lock (cl_lanes cl Shared)" using assms by (simp add: stalled_def)
  then show ?thesis using assms True by (simp add: start_frame_def Let_def st_set_lane)
next
  case False
  then show ?thesis
    using assms by (simp add: start_frame_def Let_def st_set_lane st_rf st_add_task split: sum.splits prod.splits)
qed

lemma st_control: "stalled cl \<Longrightarrow> stalled (cl_control env m cl)"
  by (cases m) (simp_all add: cl_control_def st_rf rf_unawaited [THEN stalled_fields] rf, simp_all add: cl_resumed_def stalled_def)

lemma st_dataHandler:
  "stalled cl \<Longrightarrow> stalled (dataHandler env data cl)" "stalled cl \<Longrightarrow> stalled (cl_handleControl env data cl)"
proof (induction env data cl and env data cl rule: dataHandler_cl_handleControl.induct)
  case (1 env data cl)
  then show ?case by (simp add: st_start_frame del: cl_handleControl.simps)
next
  case (2 env data cl)
  have upd: "stalled (cl\<lparr>cl_lastReplay := n, cl_replayed := x\<rparr>)" for n x
    using "2.prems" by (simp add: stalled_def)
  show ?case
    using 2 upd
    by (auto simp: st_rf rf_unawaited [THEN stalled_fields] rf st_control simp del: dataHandler.simps
        split: sum.splits control_msg.splits)
qed

lemma st_release: "l \<noteq> Shared \<Longrightarrow> stalled cl \<Longrightarrow> stalled (cl_release env l cl)"
  by (simp add: cl_release_def Let_def st_dataHandler st_set_lane del: dataHandler.simps split: list.splits)

lemma st_deliver: "tk_lane tk \<noteq> Shared \<Longrightarrow> stalled cl \<Longrightarrow> stalled (cl_deliver env tk r cl)"
  by (simp add: cl_deliver_def Let_def cl_invalidPacket_def st_rf st_add_task st_release split: sum.splits)

lemma st_deliver_all:
  "tk_lane tk \<noteq> Shared \<Longrightarrow> stalled cl \<Longrightarrow> stalled (foldl (\<lambda>c r. cl_deliver env tk (Inr r) c) cl rs)"
  by (induction rs arbitrary: cl) (simp_all add: st_deliver)

lemma st_resume_task: "tk_lane tk \<noteq> Shared \<Longrightarrow> stalled cl \<Longrightarrow> stalled (cl_resume_task env a tk cl)"
  by (simp add: cl_resume_task_def Let_def cl_invalidPacket_def st_rf st_add_task st_release st_deliver st_deliver_all
      cl_end_deliver_def split: cl_pc.splits sum.splits option.splits)

lemma st_resume:
  assumes "stalled cl"
  shows "stalled (cl_resume env i a cl)"
proof (cases "i < length (cl_tasks cl)")
  case True
  then have "tk_lane (cl_tasks cl ! i) \<noteq> Shared" using assms by (simp add: stalled_def list_all_length)
  moreover have "stalled (cl\<lparr>cl_tasks := remove_at i (cl_tasks cl)\<rparr>)"
    using assms by (auto simp: stalled_def remove_at_def list_all_iff dest: in_set_takeD in_set_dropD)
  ultimately show ?thesis using True by (simp add: cl_resume_def st_resume_task)
qed (simp add: cl_resume_def assms)

lemma st_note_async: "stalled cl \<Longrightarrow> stalled (note_async cl p)"
  by (simp add: note_async_def Let_def st_set_lane st_rf split: sum.splits)

lemma st_note_all: "stalled cl \<Longrightarrow> stalled (foldl note_async cl ps)"
  by (induction ps arbitrary: cl) (simp_all add: st_note_async)

lemma st_messageHandler: "stalled cl \<Longrightarrow> stalled (cl_messageHandler env data cl)"
  by (simp add: cl_messageHandler_def st_dataHandler del: dataHandler.simps)

lemma st_drain: "stalled cl \<Longrightarrow> stalled (drain_read_queue env cl)"
proof -
  have "stalled c \<Longrightarrow> stalled (foldl (\<lambda>c data. cl_messageHandler env data c) c ds)" for c ds
    by (induction ds arbitrary: c) (simp_all add: st_messageHandler)
  moreover assume "stalled cl"
  ultimately show ?thesis by (simp add: drain_read_queue_def stalled_def)
qed

lemma st_pair:
  assumes "m cl = (x, c)" "replay_fields (snd (m cl)) = replay_fields cl" "stalled cl"
  shows "stalled c"
  using assms stalled_fields [of c cl] by simp

lemma st_finish_hello: "stalled cl \<Longrightarrow> stalled (finish_hello env prev cl)"
  by (auto simp: finish_hello_def Let_def st_rf st_drain st_note_all dest: st_pair [OF _ replays.ask_resume]
      split: sum.splits prod.splits)

lemma st_read_server_keys: "stalled cl \<Longrightarrow> stalled (read_server_keys env data cl)"
  by (auto simp: read_server_keys_def st_rf st_finish_hello split: sum.splits prod.splits
      dest: st_pair [OF _ replays.raw_send] st_pair [OF _ rf_store_hello])

lemma st_step: "stalled cl \<Longrightarrow> stalled (cl_step env cl e)"
  by (cases e) (simp_all add: st_rf st_resume cl_frame_def st_messageHandler hello_buffered_def st_read_server_keys
      serverKeyHandler_def cl_socket_closed_def Let_def cl_reconnect_fires_def handshake_times_out_def,
      simp_all add: stalled_def new_transport_def)

interpretation stalled_client: machine_inv "cl_step env" stalled for env
  by unfold_locales (rule st_step)

text \<open>
  C34: When a listener of a packet that is not async throws, batched or not, while no other handler of the lane
  such packets share is under way, the lock of that lane is never released again: whatever happens afterwards,
  reconnecting included, no packet of that lane is handled. Async packets have locks of their own.
\<close>

theorem client_listener_throw_stalls:
  assumes "i < length (cl_tasks cl)" "tk_lane (cl_tasks cl ! i) = Shared" "cln_lock (cl_lanes cl Shared)"
    and "list_all (\<lambda>tk. tk_lane tk \<noteq> Shared) (remove_at i (cl_tasks cl))"
    and "tk_pc (cl_tasks cl ! i) = CDeliver r True par" "an_listenerThrew a = Some msg"
    and "cl' = foldl (cl_step env) (cl_step env cl (TaskResumes i a)) es"
  shows "cln_lock (cl_lanes cl' Shared) \<and> list_all (\<lambda>tk. tk_lane tk \<noteq> Shared) (cl_tasks cl')"
proof -
  have "stalled (cl_step env cl (TaskResumes i a))"
    using assms(1-6) by (simp add: cl_resume_def cl_resume_task_def Let_def cl_end_deliver_def cl_invalidPacket_def
        cl_throw_def stalled_def)
  then show ?thesis using stalled_client.run_inv [of _ env es] unfolding assms(7) by (simp add: stalled_def)
qed

text \<open>A client whose only handler runs the listeners of the packet with key 1.\<close>

definition busy_client :: client where
  "busy_client = (cl_set_lane Shared \<lparr>cln_lock = True, cln_queue = []\<rparr> new_client)\<lparr>cl_tasks :=
     [\<lparr>tk_data = [1], tk_lane = Shared, tk_transport = 0, tk_tag = js ''a'', tk_packet = sample_packet,
       tk_pc = CDeliver (Inr (JNull, False)) True False\<rparr>]\<rparr>"

lemma client_listener_throw_stalls_witness:
  "\<forall>env. cln_lock (cl_lanes (foldl (cl_step env) (cl_step env busy_client
      (TaskResumes 0 \<lparr>an_cancelled = False, an_listenerThrew = Some ''x'', an_parentThrew = False\<rparr>))
      [SocketClosed None 0 (ListenersReturn []), ReconnectTimer True 0 (ListenersReturn []), FrameArrives [0], HelloBuffered 0]) Shared)"
proof
  fix env
  let ?a = "\<lparr>an_cancelled = False, an_listenerThrew = Some ''x'', an_parentThrew = False\<rparr>"
  let ?es = "[SocketClosed None 0 (ListenersReturn []), ReconnectTimer True 0 (ListenersReturn []), FrameArrives [0], HelloBuffered 0]"
  have "cln_lock (cl_lanes (foldl (cl_step env) (cl_step env busy_client (TaskResumes 0 ?a)) ?es) Shared)
      \<and> list_all (\<lambda>tk. tk_lane tk \<noteq> Shared) (cl_tasks (foldl (cl_step env) (cl_step env busy_client (TaskResumes 0 ?a)) ?es))"
    by (rule client_listener_throw_stalls [where i = 0 and cl = busy_client and a = ?a and es = ?es and r = "Inr (JNull, False)" and par = False, OF _ _ _ _ _ _ refl])
      (simp_all add: busy_client_def cl_set_lane_def remove_at_def)
  then show "cln_lock (cl_lanes (foldl (cl_step env) (cl_step env busy_client (TaskResumes 0 ?a)) ?es) Shared)"
    by simp
qed

section \<open>Frames that arrive while the hello is read\<close>

named_theorems rq "operations that neither use nor change the read queue"

lemma rq_upd [rq]:
  "cl\<lparr>cl_readQueue := q, cl_batchers := b\<rparr> = cl\<lparr>cl_batchers := b, cl_readQueue := q\<rparr>"
  "cl\<lparr>cl_readQueue := q, cl_id := i\<rparr> = cl\<lparr>cl_id := i, cl_readQueue := q\<rparr>"
  "cl\<lparr>cl_readQueue := q, cl_sessionId := s\<rparr> = cl\<lparr>cl_sessionId := s, cl_readQueue := q\<rparr>"
  "cl\<lparr>cl_readQueue := q, cl_pendingResume := s\<rparr> = cl\<lparr>cl_pendingResume := s, cl_readQueue := q\<rparr>"
  by simp_all

lemma rq_throw [rq]: "cl_throw e (cl\<lparr>cl_readQueue := q\<rparr>) = (cl_throw e cl)\<lparr>cl_readQueue := q\<rparr>"
  by (simp add: cl_throw_def)

lemma rq_raw_send [rq]:
  "cl_raw_send data (cl\<lparr>cl_readQueue := q\<rparr>) = (fst (cl_raw_send data cl), (snd (cl_raw_send data cl))\<lparr>cl_readQueue := q\<rparr>)"
  by (simp add: cl_raw_send_def split: prod.splits)

lemma rq_store_tables [rq]:
  "store_tables env c s (cl\<lparr>cl_readQueue := q\<rparr>) =
    (fst (store_tables env c s cl), (snd (store_tables env c s cl))\<lparr>cl_readQueue := q\<rparr>)"
  by (simp add: store_tables_def Let_def split: sum.splits prod.splits)

lemma rq_store_hello [rq]:
  "store_hello env data (cl\<lparr>cl_readQueue := q\<rparr>) =
    (fst (store_hello env data cl), (snd (store_hello env data cl))\<lparr>cl_readQueue := q\<rparr>)"
  by (simp add: store_hello_def Let_def rq split: sum.splits prod.splits)

lemma rq_note_async [rq]: "note_async (cl\<lparr>cl_readQueue := q\<rparr>) p = (note_async cl p)\<lparr>cl_readQueue := q\<rparr>"
  by (simp add: note_async_def Let_def cl_set_lane_def split: sum.splits)

lemma rq_note_all [rq]: "foldl note_async (cl\<lparr>cl_readQueue := q\<rparr>) ps = (foldl note_async cl ps)\<lparr>cl_readQueue := q\<rparr>"
  by (induction ps arbitrary: cl) (simp_all add: rq)

lemma rq_listen: "cl_listen tg (cl\<lparr>cl_readQueue := q\<rparr>) = (cl_listen tg cl)\<lparr>cl_readQueue := q\<rparr>"
  by (simp add: cl_listen_def split: option.splits)

lemma rq_bind_pre [rq]: "bind_pre (cl\<lparr>cl_readQueue := q\<rparr>) x = (bind_pre cl x)\<lparr>cl_readQueue := q\<rparr>"
proof -
  have "(cl_listen tg ^^ n) (cl\<lparr>cl_readQueue := q\<rparr>) = ((cl_listen tg ^^ n) cl)\<lparr>cl_readQueue := q\<rparr>" for tg n
    by (induction n) (simp_all add: rq_listen)
  then show ?thesis by (simp add: bind_pre_def)
qed

lemma rq_bind_all [rq]: "foldl bind_pre (cl\<lparr>cl_readQueue := q\<rparr>) xs = (foldl bind_pre cl xs)\<lparr>cl_readQueue := q\<rparr>"
  by (induction xs arbitrary: cl) (simp_all add: rq)

lemma rq_now_ready [rq]: "now_ready (cl\<lparr>cl_readQueue := q\<rparr>) = (now_ready cl)\<lparr>cl_readQueue := q\<rparr>"
  by (simp add: now_ready_def)

lemma rq_ask_resume [rq]:
  "ask_resume prev (cl\<lparr>cl_readQueue := q\<rparr>) = (fst (ask_resume prev cl), (snd (ask_resume prev cl))\<lparr>cl_readQueue := q\<rparr>)"
  by (simp add: ask_resume_def Let_def rq split: sum.splits)

text \<open>The hello was accepted: the listeners are bound and the queue is about to be drained.\<close>

definition accepted :: "client_env \<Rightarrow> u8 list \<Rightarrow> client \<Rightarrow> client option" where
  "accepted env data cl =
     (if data = [0] then None
      else case bindR (read_header data) (\<lambda>body. inflateRaw (ce_core env) body None) of
        Inl e \<Rightarrow> None
      | Inr hello \<Rightarrow>
          (case store_hello env hello cl of
             (Inl e, cl1) \<Rightarrow> None
           | (Inr _, cl1) \<Rightarrow>
               (case registerSendPackets (cl_clientPackets cl1) (cl_batchers cl1 (cl_transport cl1)) of
                  Inl e \<Rightarrow> None
                | Inr b \<Rightarrow>
                    let cl2 = cl1\<lparr>cl_batchers := (cl_batchers cl1)(cl_transport cl1 := b)\<rparr>;
                        cl3 = foldl note_async cl2 (ph_packets (cl_serverPackets cl2));
                        cl4 = now_ready (foldl bind_pre cl3 (or_else (cl_preListen cl3) []))
                    in (case ask_resume (cl_sessionId cl) cl4 of (Inl e, cl5) \<Rightarrow> None | (Inr _, cl5) \<Rightarrow> Some cl5))))"

lemma accepted_reads:
  "accepted env data cl = Some c \<Longrightarrow> read_server_keys env data cl = drain_read_queue env c"
  by (auto simp: accepted_def read_server_keys_def finish_hello_def Let_def bindR_def split: if_splits sum.splits prod.splits)

lemma accepted_queue:
  "accepted env data cl = Some c \<Longrightarrow> accepted env data (cl\<lparr>cl_readQueue := q\<rparr>) = Some (c\<lparr>cl_readQueue := q\<rparr>)"
  by (auto simp: accepted_def Let_def rq split: if_splits sum.splits prod.splits)

lemma rq_field: "replay_fields c = replay_fields cl \<Longrightarrow> cl_readQueue c = cl_readQueue cl"
  by (simp add: replay_fields_def)

lemma queue_note_all: "cl_readQueue (foldl note_async cl ps) = cl_readQueue cl"
proof (induction ps arbitrary: cl)
  case (Cons p ps)
  have "cl_readQueue (note_async cl p) = cl_readQueue cl"
    by (simp add: note_async_def Let_def cl_set_lane_def split: sum.splits)
  then show ?case using Cons by simp
qed simp

lemma accepted_form:
  "accepted env data cl = Some c \<Longrightarrow>
   \<exists>hello cl1 b ps xs. store_hello env hello cl = (Inr (), cl1)
     \<and> ask_resume (cl_sessionId cl) (now_ready (foldl bind_pre (foldl note_async (cl1\<lparr>cl_batchers := b\<rparr>) ps) xs)) = (Inr (), c)"
  unfolding accepted_def Let_def by (auto split: if_splits sum.splits prod.splits) blast+

lemma accepted_keeps_queue:
  assumes "accepted env data cl = Some c"
  shows "cl_readQueue c = cl_readQueue cl"
proof -
  obtain hello cl1 b ps xs where h: "store_hello env hello cl = (Inr (), cl1)"
    and r: "ask_resume (cl_sessionId cl) (now_ready (foldl bind_pre (foldl note_async (cl1\<lparr>cl_batchers := b\<rparr>) ps) xs)) = (Inr (), c)"
    using accepted_form [OF assms] by blast
  have "cl_readQueue cl1 = cl_readQueue cl" using rf_store_hello [THEN rq_field, of env hello cl] h by simp
  then show ?thesis
    using replays.ask_resume [THEN rq_field, of "cl_sessionId cl" "now_ready (foldl bind_pre (foldl note_async (cl1\<lparr>cl_batchers := b\<rparr>) ps) xs)"] r
    by (simp add: replays.now_ready [THEN rq_field] replays.bind_all [THEN rq_field] queue_note_all)
qed

lemma keys_now_ready: "cl_pastKeys (now_ready cl)"
  by (simp add: now_ready_def)

lemma keys_ask_resume: "cl_pastKeys (snd (ask_resume prev cl)) = cl_pastKeys cl"
  by (simp add: ask_resume_def cl_raw_send_def Let_def split: sum.splits prod.splits)

lemma accepted_ready: "accepted env data cl = Some c \<Longrightarrow> cl_pastKeys c"
  using accepted_form keys_ask_resume keys_now_ready by (metis snd_conv)

lemma keys_dataHandler:
  "cl_pastKeys (dataHandler env data cl) = cl_pastKeys cl" "cl_pastKeys (cl_handleControl env data cl) = cl_pastKeys cl"
proof (induction env data cl and env data cl rule: dataHandler_cl_handleControl.induct)
  case (1 env data cl)
  have "cl_pastKeys (start_frame data cl) = cl_pastKeys cl"
    by (simp add: start_frame_def Let_def cl_set_lane_def cl_throw_def cl_add_task_def split: sum.splits prod.splits)
  then show ?case using 1 by (simp del: cl_handleControl.simps)
next
  case (2 env data cl)
  have s: "cl_pastKeys (unawaited (cl_raw_send f) cl) = cl_pastKeys cl" for f cl
    by (auto simp: unawaited_def cl_raw_send_def cl_throw_def split: sum.splits prod.splits)
  have r: "cl_pastKeys (cl_rpc_fails i e cl) = cl_pastKeys cl" for i e cl
    by (auto simp: cl_rpc_fails_def cl_response_def unawaited_def cl_raw_send_def cl_throw_def split: sum.splits prod.splits)
  have m: "cl_pastKeys (cl_control env m cl) = cl_pastKeys cl" for m
    by (cases m) (simp_all add: cl_control_def s r cl_resumed_def cl_throw_def cl_settle_def cl_start_rpc_def
        split: option.splits sum.splits)
  show ?case
    using 2 by (auto simp: s m cl_close_def simp del: dataHandler.simps split: sum.splits control_msg.splits)
qed

lemma ready_frames:
  "cl_pastKeys cl \<Longrightarrow> foldl (cl_step env) cl (map FrameArrives fs) = foldl (\<lambda>c data. cl_messageHandler env data c) cl fs"
  by (induction fs arbitrary: cl) (simp_all add: cl_frame_def cl_messageHandler_def keys_dataHandler del: dataHandler.simps)

lemma waiting_frames:
  "cl_reading cl \<Longrightarrow> \<not> cl_pastKeys cl \<Longrightarrow>
   foldl (cl_step env) cl (map FrameArrives fs) = cl\<lparr>cl_readQueue := cl_readQueue cl @ fs\<rparr>"
  by (induction fs arbitrary: cl) (simp_all add: cl_frame_def serverKeyHandler_def)

text \<open>The smallest hello: an id, no session and no packets.\<close>

lemma small_hello:
  fixes env :: client_env
  defines "e \<equiv> env\<lparr>ce_core := storing (ce_core env)\<rparr>"
  shows "\<exists>c. accepted e (server_data @ [3, 0, 0]) (new_client\<lparr>cl_reading := True\<rparr>) = Some c
    \<and> cl_conn c = new_conn (js ''LocalSocket'') \<and> cl_readQueue c = []"
proof -
  let ?h = "server_data @ [3, 0, 0] :: u8 list"
  have r: "readVarInt [3, 0, 0] 0 = Inr (1, 3)" "readVarInt [3, 0, 0] 1 = Inr (2, 0)" "readVarInt [3, 0, 0] 2 = Inr (3, 0)"
    using varint.rd_enc [of 3 "[]" "[0, 0]"] varint.rd_enc [of 0 "[3]" "[0]"] varint.rd_enc [of 0 "[3, 0]" "[]"]
    by (simp_all add: varint_digits_small MAX_UVARINT_def numeral_2_eq_2)
  have d: "deserializeAll lib [] True reg = Inr ([], reg)" for lib reg
    by (simp add: deserializeAll_def deserializeAll_from.simps)
  have p: "holdPackets [] empty_holder = Inr empty_holder"
    by (simp add: holdPackets_def empty_holder_def AssertPacketSchema_def ValidatePacketSchema_def Let_def scan_start_def)
  have n: "cl_clientPackets new_client = empty_holder" "cl_serverPackets new_client = empty_holder"
    "cl_sessionId new_client = None" "cl_preListen new_client = Some []" by (simp_all add: new_client_def)
  let ?n = "new_client\<lparr>cl_reading := True\<rparr>"
  let ?c1 = "?n\<lparr>cl_id := 3, cl_sessionId := Some [], cl_clientPackets := empty_holder, cl_serverPackets := empty_holder\<rparr>"
  have s: "store_hello e [3, 0, 0] ?n = (Inr (), ?c1)"
    by (simp add: store_hello_def r r [unfolded One_nat_def numeral_2_eq_2] store_tables_def d p n Let_def utf8_decode_def js_slice_def utf8_points_def utf8_ground_def)
  have i: "bindR (read_header ?h) (\<lambda>body. inflateRaw (ce_core e) body None) = Inr [3, 0, 0]"
    by (simp add: e_def read_server_data storing_def)
  have h: "?h \<noteq> [0]" by (simp add: server_data_def SERVER_SUFFIX_NUMS_def SERVER_SUFFIX_def)
  have b: "registerSendPackets empty_holder b = Inr b" for b
    by (simp add: registerSendPackets_def empty_holder_def getTags_def)
  have e: "ph_packets empty_holder = []" by (simp add: empty_holder_def)
  show ?thesis
    using h unfolding accepted_def i
    by (simp add: s b n e or_else_def Let_def ask_resume_def truthy_str_def now_ready_def)
      (simp add: new_client_def)
qed

text \<open>
  C13: Frames that arrive while the client still reads the server's hello are neither lost nor reordered:
  the outcome is the one of a client that had read the hello before any of them came.
\<close>

theorem early_frames_kept:
  assumes "\<not> cl_pastKeys cl" "\<not> cl_reading cl" "cl_readQueue cl = []" "cl_hello cl = []"
    and "accepted env h (cl\<lparr>cl_reading := True\<rparr>) = Some c"
  shows "foldl (cl_step env) cl (FrameArrives h # map FrameArrives fs @ [HelloBuffered 0])
    = foldl (cl_step env) cl (FrameArrives h # HelloBuffered 0 # map FrameArrives fs)"
proof -
  let ?w = "cl\<lparr>cl_reading := True, cl_hello := [h]\<rparr>"
  have same: "(?w\<lparr>cl_readQueue := q\<rparr>)\<lparr>cl_hello := []\<rparr> = (cl\<lparr>cl_reading := True\<rparr>)\<lparr>cl_readQueue := q\<rparr>" for q
    using assms(4) by simp
  have arrive: "cl_step env cl (FrameArrives h) = ?w"
    using assms(1,2,4) by (simp add: cl_frame_def serverKeyHandler_def)
  have buffered: "hello_buffered env 0 (?w\<lparr>cl_readQueue := q\<rparr>) = drain_read_queue env (c\<lparr>cl_readQueue := q\<rparr>)" for q
    using accepted_reads [OF accepted_queue [OF assms(5)], of q]
    by (simp add: hello_buffered_def remove_at_def same del: dataHandler.simps)
  have w: "?w\<lparr>cl_readQueue := []\<rparr> = ?w" using assms(3) by (cases cl) simp
  have q: "cl_readQueue c = []" using accepted_keeps_queue [OF assms(5)] assms(3) by simp
  have "foldl (cl_step env) ?w (map FrameArrives fs @ [HelloBuffered 0]) = drain_read_queue env (c\<lparr>cl_readQueue := fs\<rparr>)"
    using assms(1,3) by (simp add: waiting_frames buffered)
  also have "\<dots> = foldl (cl_step env) (drain_read_queue env (c\<lparr>cl_readQueue := []\<rparr>)) (map FrameArrives fs)"
    using accepted_ready [OF assms(5)] by (simp add: drain_read_queue_def ready_frames q)
  also have "drain_read_queue env (c\<lparr>cl_readQueue := []\<rparr>) = hello_buffered env 0 ?w"
    using buffered [of "[]"] w by simp
  finally show ?thesis using arrive by simp
qed

lemma early_frames_kept_witness:
  "\<forall>env :: client_env. let e = env\<lparr>ce_core := storing (ce_core env)\<rparr>; h = server_data @ [3, 0, 0]
    in foldl (cl_step e) new_client [FrameArrives h, FrameArrives [7], FrameArrives [0], HelloBuffered 0]
     = foldl (cl_step e) new_client [FrameArrives h, HelloBuffered 0, FrameArrives [7], FrameArrives [0]]"
proof
  fix env :: client_env
  let ?e = "env\<lparr>ce_core := storing (ce_core env)\<rparr>" and ?h = "server_data @ [3, 0, 0] :: u8 list"
  obtain c where c: "accepted ?e ?h (new_client\<lparr>cl_reading := True\<rparr>) = Some c" using small_hello [of env] by blast
  show "let e = ?e; h = ?h
    in foldl (cl_step e) new_client [FrameArrives h, FrameArrives [7], FrameArrives [0], HelloBuffered 0]
     = foldl (cl_step e) new_client [FrameArrives h, HelloBuffered 0, FrameArrives [7], FrameArrives [0]]"
    using early_frames_kept [OF _ _ _ _ c, of "[[7], [0]]"] by (simp add: new_client_def Let_def)
qed

end
