(* ===== verification/Client_Bindings.thy ===== *)
theory Client_Bindings
  imports Client_Frames
begin

text \<open>
  The clients an application constructs: \<open>projects/ts/src/ws/client/browser/ClientBrowser.ts\<close> and
  \<open>client/node/ClientNode.ts\<close>. Both hand a socket to the core of \<open>Client_Core\<close>; the one for browsers can also
  replace the socket's \<open>send\<close> (\<open>antiTamper\<close>). \<open>connect\<close> waits for the schema handshake. The debug menu and the
  enum and flatten methods, which forward, are not repeated here.
\<close>

section \<open>State\<close>

text \<open>How far the promise of \<open>connect\<close> is.\<close>

datatype connecting = Waiting | Connected | ConnectFailed js_error

text \<open>
  \<open>bd_lastSend\<close> is \<open>lastSend\<close>, unset at first. Observed: what the original \<open>send\<close> of the socket was given, and
  the calls of \<open>antiTamperCall\<close>.
\<close>

record bound_client =
  bd_client :: client
  bd_antiTamper :: bool
  bd_lastSend :: "nat option"
  bd_written :: "u8 list list"
  bd_tampers :: nat
  bd_connect :: connecting

text \<open>What both constructors share: the options of \<open>reconnect\<close> count only if it is enabled.\<close>

definition bind_client :: "bool \<Rightarrow> partial_options option \<Rightarrow> jsnum \<Rightarrow> bound_client result" where
  "bind_client antiTamper options readyTimeout =
     (case configureHandshakeTimeout readyTimeout new_client of
        (Inl e, _) \<Rightarrow> Inl e
      | (Inr _, cl) \<Rightarrow>
          let bound = (\<lambda>r. \<lparr>bd_client = cl\<lparr>cl_reconnect := r\<rparr>, bd_antiTamper = antiTamper, bd_lastSend = None,
                            bd_written = [], bd_tampers = 0, bd_connect = Waiting\<rparr>)
          in (case options of
                None \<Rightarrow> Inr (bound (cl_reconnect cl))
              | Some po \<Rightarrow>
                  if po_enabled po \<noteq> Some True then Inr (bound (cl_reconnect cl))
                  else if antiTamper then Inl (Error ''Reconnect and antiTamper cannot currently be enabled together'')
                  else (case configureReconnect po (cl_reconnect cl) of
                          (Inl e, _) \<Rightarrow> Inl e | (Inr _, r) \<Rightarrow> Inr (bound r))))"

definition new_browser :: "bool \<Rightarrow> partial_options option \<Rightarrow> jsnum option \<Rightarrow> bound_client result" where
  "new_browser antiTamper options readyTimeout = bind_client antiTamper options (or_else readyTimeout (Fin 10000))"

definition new_node :: "partial_options option \<Rightarrow> jsnum option \<Rightarrow> bound_client result" where
  "new_node options readyTimeout = bind_client False options (or_else readyTimeout (Fin 10000))"

section \<open>Sending\<close>

text \<open>\<open>this.send\<close>, up to the call of the original one: an unknown tag throws there.\<close>

definition tamper_send :: "jsstr \<Rightarrow> bound_client \<Rightarrow> bound_client" where
  "tamper_send tg b =
     (if \<not> bd_antiTamper b then b
      else case getKey (cl_clientPackets (bd_client b)) tg of
             Inl e \<Rightarrow> b\<lparr>bd_client := cl_throw e (bd_client b)\<rparr>
           | Inr k \<Rightarrow> b\<lparr>bd_lastSend := Some k\<rparr>)"

text \<open>\<open>ws.send\<close>: \<open>data[0]\<close> of an empty array is \<open>undefined\<close>, like \<open>lastSend\<close> before the first packet.\<close>

definition ws_send :: "u8 list \<Rightarrow> bound_client \<Rightarrow> bound_client" where
  "ws_send data b =
     (if bd_antiTamper b \<and> bd_lastSend b \<noteq> frame_key data
      then b\<lparr>bd_tampers := bd_tampers b + 1, bd_client := cl_close 1000 [] (bd_client b)\<rparr>
      else b\<lparr>bd_written := bd_written b @ [data]\<rparr>)"

section \<open>Connecting\<close>

text \<open>
  The listener given to \<open>on_ready\<close>, which \<open>now_ready\<close> calls, and the one given to \<open>on_close\<close>, which is attached
  to the first socket only. The error also names the code. In Node it looks at the packets it got.
\<close>

definition connect_ready :: "client \<Rightarrow> bound_client \<Rightarrow> bound_client" where
  "connect_ready before b =
     (if bd_connect b = Waiting \<and> cl_readyCalls before < cl_readyCalls (bd_client b) then b\<lparr>bd_connect := Connected\<rparr>
      else b)"

definition connect_rejects :: "bound_client \<Rightarrow> bound_client" where
  "connect_rejects b =
     (if bd_connect b = Waiting then b\<lparr>bd_connect := ConnectFailed (Error ''SonicWS connection closed before ready'')\<rparr>
      else b)"

definition browser_closed :: "bound_client \<Rightarrow> bound_client" where
  "browser_closed b = (if cl_transport (bd_client b) = 0 then connect_rejects b else b)"

definition node_closed :: "bound_client \<Rightarrow> bound_client" where
  "node_closed b =
     (if cl_transport (bd_client b) = 0 \<and> ph_packets (cl_clientPackets (bd_client b)) = [] then connect_rejects b else b)"

section \<open>Every operation\<close>

text \<open>
  \<open>BdSend\<close> is a call of \<open>send\<close>; the core then does what it does. The frames a step hands to the socket are
  looked at in order after it.
\<close>

datatype bound_event = BdConnect | BdSend jsstr | BdCore cl_event

definition core_step :: "client_env \<Rightarrow> cl_event \<Rightarrow> bound_client \<Rightarrow> bound_client" where
  "core_step env e b =
     (let cl = cl_step env (bd_client b) e
      in connect_ready (bd_client b)
           (foldl (\<lambda>b data. ws_send data b) (b\<lparr>bd_client := cl\<rparr>)
             (drop (length (cn_sent (cl_conn (bd_client b)))) (cn_sent (cl_conn cl)))))"

definition bound_step ::
  "(bound_client \<Rightarrow> bound_client) \<Rightarrow> client_env \<Rightarrow> bound_client \<Rightarrow> bound_event \<Rightarrow> bound_client" where
  "bound_step on_closed env b e =
     (case e of
        BdConnect \<Rightarrow> connect_ready (bd_client b) (b\<lparr>bd_client := cl_on_ready (bd_client b)\<rparr>)
      | BdSend tg \<Rightarrow> tamper_send tg b
      | BdCore x \<Rightarrow>
          (case x of SocketClosed _ _ _ \<Rightarrow> on_closed (core_step env x b) | _ \<Rightarrow> core_step env x b))"

abbreviation "browser_step \<equiv> bound_step browser_closed"

abbreviation "node_step \<equiv> bound_step node_closed"

section \<open>Keys of the packet tables\<close>

text \<open>Keys count from 1: key 0 is that of control frames.\<close>

definition keys_ok :: "holder \<Rightarrow> bool" where
  "keys_ok h \<longleftrightarrow> 0 < ph_key h \<and> (\<forall>k \<in> snd ` set (ph_keys h). 0 < k)"

lemma keys_update: "x \<in> set (AList.update t k xs) \<Longrightarrow> snd x = k \<or> x \<in> set xs"
  by (induction xs) (auto split: if_splits)

lemma keys_ok_hold: "keys_ok h \<Longrightarrow> keys_ok (hold_packet h p)"
  by (auto simp: keys_ok_def hold_packet_def createKey_def Let_def split: option.split dest!: keys_update)

lemma keys_ok_packets:
  assumes "holdPackets ps h = Inr h'" "keys_ok h"
  shows "keys_ok h'"
proof -
  have "keys_ok h \<Longrightarrow> keys_ok (foldl hold_packet h ps)" for h
    by (induction ps arbitrary: h) (simp_all add: keys_ok_hold)
  moreover have "keys_ok (h\<lparr>ph_packets := ps\<rparr>)" using assms(2) by (simp add: keys_ok_def)
  ultimately show ?thesis using assms(1) by (auto simp: holdPackets_def bindR_eq_Inr)
qed

lemma keys_ok_getKey: "keys_ok h \<Longrightarrow> getKey h tg = Inr k \<Longrightarrow> 0 < k"
  by (auto simp: keys_ok_def getKey_def split: option.splits Option.bind_splits dest!: map_of_SomeD)

interpretation table: client_view cl_clientPackets
  by unfold_locales simp_all

abbreviation table_ok :: "client \<Rightarrow> bool" where
  "table_ok cl \<equiv> keys_ok (cl_clientPackets cl)"

text \<open>The operations that write the table, and those that also handle frames.\<close>

named_theorems tb "operations that leave the table of client packets alone"

lemmas [tb] = table.all

lemma tb_unawaited: "cl_clientPackets (snd (m cl)) = cl_clientPackets cl \<Longrightarrow> cl_clientPackets (unawaited m cl) = cl_clientPackets cl"
  by (rule table.unawaited)

lemma tb_lanes [tb]:
  "cl_clientPackets (cl_set_lane l x cl) = cl_clientPackets cl" "cl_clientPackets (cl_add_task tk cl) = cl_clientPackets cl"
  by (simp_all add: cl_set_lane_def cl_add_task_def)

lemma tb_start_frame [tb]: "cl_clientPackets (start_frame data cl) = cl_clientPackets cl"
  by (simp add: start_frame_def Let_def tb split: sum.splits prod.splits)

lemma tb_control [tb]: "cl_clientPackets (cl_control env m cl) = cl_clientPackets cl"
  by (cases m) (simp_all add: cl_control_def tb_unawaited tb cl_resumed_def)

lemma tb_dataHandler [tb]:
  "cl_clientPackets (dataHandler env data cl) = cl_clientPackets cl"
  "cl_clientPackets (cl_handleControl env data cl) = cl_clientPackets cl"
proof (induction env data cl and env data cl rule: dataHandler_cl_handleControl.induct)
  case (1 env data cl)
  then show ?case by (simp add: tb del: cl_handleControl.simps)
next
  case (2 env data cl)
  then show ?case
    by (auto simp: tb_unawaited tb simp del: dataHandler.simps split: sum.splits control_msg.splits)
qed

declare dataHandler.simps [simp del] cl_handleControl.simps [simp del]

lemma tb_messageHandler [tb]: "cl_clientPackets (cl_messageHandler env data cl) = cl_clientPackets cl"
  by (simp add: cl_messageHandler_def tb)

lemma tb_release [tb]: "cl_clientPackets (cl_release env l cl) = cl_clientPackets cl"
  by (simp add: cl_release_def Let_def tb split: list.splits)

lemma tb_deliver [tb]: "cl_clientPackets (cl_deliver env tk r cl) = cl_clientPackets cl"
  by (simp add: cl_deliver_def Let_def cl_invalidPacket_def tb split: sum.splits)

lemma tb_deliver_all [tb]: "cl_clientPackets (foldl (\<lambda>c r. cl_deliver env tk (Inr r) c) cl rs) = cl_clientPackets cl"
  by (induction rs arbitrary: cl) (simp_all add: tb)

lemma tb_resume [tb]: "cl_clientPackets (cl_resume env i a cl) = cl_clientPackets cl"
  by (simp add: cl_resume_def cl_resume_task_def cl_end_deliver_def Let_def cl_invalidPacket_def tb
      split: cl_pc.splits sum.splits option.splits)

lemma tb_note_all [tb]: "cl_clientPackets (foldl note_async cl ps) = cl_clientPackets cl"
  by (induction ps arbitrary: cl) (simp_all add: note_async_def Let_def tb split: sum.splits)

lemma tb_drain [tb]: "cl_clientPackets (drain_read_queue env cl) = cl_clientPackets cl"
proof -
  have "cl_clientPackets (foldl (\<lambda>c data. cl_messageHandler env data c) cl ds) = cl_clientPackets cl" for cl ds
    by (induction ds arbitrary: cl) (simp_all add: tb)
  then show ?thesis by (simp add: drain_read_queue_def)
qed

lemma tb_finish_hello [tb]: "cl_clientPackets (finish_hello env prev cl) = cl_clientPackets cl"
proof -
  have "cl_clientPackets c = cl_clientPackets cl'" if "ask_resume prev cl' = (r, c)" for r c cl'
    using table.ask_resume [of prev cl'] that by simp
  then show ?thesis by (auto simp: finish_hello_def Let_def tb split: sum.splits prod.splits)
qed

lemma table_store: "table_ok cl \<Longrightarrow> table_ok (snd (store_hello env data cl))"
  by (auto simp: store_hello_def store_tables_def Let_def bindR_eq_Inr keys_ok_packets split: sum.splits prod.splits)

lemma table_hello: "table_ok cl \<Longrightarrow> table_ok (hello_buffered env i cl)"
proof -
  assume t: "table_ok cl"
  have "table_ok c" if "store_hello env d (cl\<lparr>cl_hello := h\<rparr>) = (r, c)" for d h r c
    using table_store [of "cl\<lparr>cl_hello := h\<rparr>" env d] that t by simp
  then show "table_ok (hello_buffered env i cl)"
    using t by (auto simp: hello_buffered_def read_server_keys_def tb dest!: table.sent split: sum.splits prod.splits)
qed

lemma keys_ok_empty: "keys_ok empty_holder"
  by (simp add: keys_ok_def empty_holder_def)

lemma table_step: "table_ok cl \<Longrightarrow> table_ok (cl_step env cl e)"
  by (cases e) (simp_all add: tb table_hello cl_frame_def serverKeyHandler_def cl_socket_closed_def Let_def
      cl_reconnect_fires_def new_transport_def keys_ok_empty handshake_times_out_def)

section \<open>What \<open>antiTamper\<close> does\<close>

text \<open>The last key sent is not that of control frames, so none of them gets through.\<close>

definition mute :: "bound_client \<Rightarrow> bool" where
  "mute b \<longleftrightarrow> bd_antiTamper b \<and> table_ok (bd_client b) \<and> bd_lastSend b \<noteq> Some 0
     \<and> (\<forall>f \<in> set (bd_written b). frame_key f \<noteq> Some 0)"

lemma mute_ws_send: "mute b \<Longrightarrow> mute (ws_send data b)"
  by (auto simp: mute_def ws_send_def tb)

lemma mute_all: "mute b \<Longrightarrow> mute (foldl (\<lambda>b data. ws_send data b) b ds)"
  by (induction ds arbitrary: b) (simp_all add: mute_ws_send)

lemma mute_fields: "mute b \<Longrightarrow> mute (b\<lparr>bd_connect := c\<rparr>)"
  by (simp add: mute_def)

lemma mute_core: "mute b \<Longrightarrow> mute (core_step env e b)"
proof -
  assume m: "mute b"
  then have "mute (b\<lparr>bd_client := cl_step env (bd_client b) e\<rparr>)" by (simp add: mute_def table_step)
  then show ?thesis unfolding core_step_def Let_def connect_ready_def by (simp add: mute_all mute_fields)
qed

lemma mute_send: "mute b \<Longrightarrow> mute (tamper_send tg b)"
  by (auto simp: mute_def tamper_send_def tb split: sum.split dest: keys_ok_getKey)

lemma mute_step: "mute b \<Longrightarrow> mute (browser_step env b e)"
  by (auto simp: bound_step_def mute_core mute_send browser_closed_def connect_rejects_def connect_ready_def mute_fields
      split: bound_event.split cl_event.split) (simp_all add: mute_def tb)

interpretation muted: machine_inv "browser_step env" mute for env
  by unfold_locales (rule mute_step)

lemma new_browser_mute: "new_browser True options timeout = Inr b0 \<Longrightarrow> mute b0"
  by (auto simp: new_browser_def bind_client_def mute_def Let_def configureHandshakeTimeout_def new_client_def keys_ok_empty
      split: jsnum.splits if_splits option.splits)

text \<open>
  C35: A browser client with \<open>antiTamper\<close> never writes a control frame: no answer to a heartbeat, no request, no
  response, whatever was sent before. Each attempt counts as tampering: a heartbeat of the server alone makes
  a connected client close its socket.
\<close>

theorem anti_tamper_mutes:
  assumes "new_browser True options timeout = Inr b0" and "b = foldl (browser_step env) b0 es"
    and "cl_pastKeys (bd_client b)" and "getBufferedAmount (cl_conn (bd_client b)) < cn_closeAt (cl_conn (bd_client b))"
    and "b' = browser_step env b (BdCore (FrameArrives [0]))"
  shows "(\<forall>f \<in> set (bd_written b'). frame_key f \<noteq> Some 0)
    \<and> bd_written b' = bd_written b \<and> bd_tampers b' = bd_tampers b + 1
    \<and> cn_closes (cl_conn (bd_client b')) = cn_closes (cl_conn (bd_client b)) @ [(1000, [])]"
proof -
  have m: "mute b" unfolding assms(2) by (rule muted.run_inv [OF new_browser_mute [OF assms(1)]])
  then have "mute b'" unfolding assms(5) by (rule mute_step)
  let ?cl = "bd_client b"
  have "cl_step env ?cl (FrameArrives [0]) = ?cl\<lparr>cl_conn := snd (base_raw_send [0] (cl_conn ?cl))\<rparr>"
    using assms(3,4)
    by (simp add: cl_frame_def cl_messageHandler_def dataHandler.simps cl_handleControl.simps frame_key_def unawaited_def
        cl_raw_send_def base_raw_send_def)
  then show ?thesis
    using \<open>mute b'\<close> m assms(4)
    by (simp add: assms(5) bound_step_def core_step_def Let_def base_raw_send_def ws_send_def mute_def frame_key_def
        connect_ready_def cl_close_def conn_close_def del: cl_step.simps)
qed

text \<open>The smallest hello, then a heartbeat.\<close>

lemma anti_tamper_mutes_witness:
  "\<forall>env. \<exists>b0. new_browser True None None = Inr b0
    \<and> (let b' = foldl (browser_step (env\<lparr>ce_core := storing (ce_core env)\<rparr>)) b0
           [BdCore (FrameArrives (server_data @ [3, 0, 0])), BdCore (HelloBuffered 0), BdCore (FrameArrives [0])]
       in bd_written b' = [] \<and> bd_tampers b' = 1)"
proof
  fix env :: client_env
  let ?e = "env\<lparr>ce_core := storing (ce_core env)\<rparr>" and ?h = "server_data @ [3, 0, 0] :: u8 list"
  let ?b0 = "\<lparr>bd_client = new_client, bd_antiTamper = True, bd_lastSend = None, bd_written = [], bd_tampers = 0,
    bd_connect = Waiting\<rparr>"
  have n: "new_browser True None None = Inr ?b0"
    by (simp add: new_browser_def bind_client_def or_else_def configureHandshakeTimeout_def Let_def new_client_def)
  obtain c where c: "accepted ?e ?h (new_client\<lparr>cl_reading := True\<rparr>) = Some c" "cl_conn c = new_conn (js ''LocalSocket'')"
    "cl_readQueue c = []" using small_hello [of env] by blast
  let ?b = "foldl (browser_step ?e) ?b0 [BdCore (FrameArrives ?h), BdCore (HelloBuffered 0)]"
  have a: "cl_step ?e new_client (FrameArrives ?h) = new_client\<lparr>cl_reading := True, cl_hello := [?h]\<rparr>"
    by (simp add: cl_frame_def serverKeyHandler_def new_client_def)
  have q: "new_client\<lparr>cl_reading := True, cl_hello := []\<rparr> = new_client\<lparr>cl_reading := True\<rparr>" "c\<lparr>cl_readQueue := []\<rparr> = c"
    using c(3) by (simp_all add: new_client_def)
  have r: "cl_step ?e (new_client\<lparr>cl_reading := True, cl_hello := [?h]\<rparr>) (HelloBuffered 0) = c"
    using accepted_reads [OF c(1)] by (simp add: hello_buffered_def remove_at_def q drain_read_queue_def c(3))
  have b: "bd_client ?b = c" "bd_written ?b = []" "bd_tampers ?b = 0"
    using a r c(2) by (simp_all add: bound_step_def core_step_def Let_def connect_ready_def new_client_def new_conn_def del: cl_step.simps)
  have "getBufferedAmount (cl_conn (bd_client ?b)) < cn_closeAt (cl_conn (bd_client ?b))"
    by (simp only: b c(2)) (simp add: new_conn_def getBufferedAmount_def)
  from anti_tamper_mutes [OF n refl _ this refl]
  have "bd_written (browser_step ?e ?b (BdCore (FrameArrives [0]))) = [] \<and> bd_tampers (browser_step ?e ?b (BdCore (FrameArrives [0]))) = 1"
    using accepted_ready [OF c(1)] b by simp
  then show "\<exists>b0. new_browser True None None = Inr b0 \<and> (let b' = foldl (browser_step ?e) b0
           [BdCore (FrameArrives ?h), BdCore (HelloBuffered 0), BdCore (FrameArrives [0])]
       in bd_written b' = [] \<and> bd_tampers b' = 1)"
    unfolding Let_def foldl_Cons foldl_Nil using n by blast
qed

text \<open>And two packets of different tags that are sent before the first is written count as tampering, too.\<close>

lemma overlapping_sends_tamper:
  assumes "bd_antiTamper b" and "getKey (cl_clientPackets (bd_client b)) tag1 = Inr k1"
    and "getKey (cl_clientPackets (bd_client b)) tag2 = Inr k2" and "k1 \<noteq> k2" "k1 < 256" "pk_dataBatching p = Some 0"
    and "getBufferedAmount (cl_conn (bd_client b)) < cn_closeAt (cl_conn (bd_client b))"
  shows "bd_tampers (foldl (browser_step env) b [BdSend tag1, BdSend tag2, BdCore (SendProcessed (k1, data, p))]) = bd_tampers b + 1"
proof -
  have "frame_key (toPacketBuffer k1 data) = Some k1"
    using assms(5) by (simp add: toPacketBuffer_def frame_key_def unat_of_nat)
  then show ?thesis
    using assms by (simp add: bound_step_def tamper_send_def core_step_def cl_finish_send_def cl_raw_send_def base_raw_send_def
        ws_send_def connect_ready_def Let_def)
qed

section \<open>\<open>connect\<close>\<close>

text \<open>The promise settles once.\<close>

lemma connect_kept: "bd_connect b \<noteq> Waiting \<Longrightarrow> bd_connect (connect_ready cl b) = bd_connect b"
  "bd_connect b \<noteq> Waiting \<Longrightarrow> connect_rejects b = b"
  by (simp_all add: connect_ready_def connect_rejects_def)

lemma ws_send_connect: "bd_connect (foldl (\<lambda>b data. ws_send data b) b ds) = bd_connect b"
  by (induction ds arbitrary: b) (simp_all add: ws_send_def)

lemma core_connect: "bd_connect b \<noteq> Waiting \<Longrightarrow> bd_connect (core_step env e b) = bd_connect b"
  by (simp add: core_step_def Let_def connect_kept ws_send_connect)

lemma connect_once:
  assumes "\<And>b. bd_connect b \<noteq> Waiting \<Longrightarrow> bd_connect (on_closed b) = bd_connect b" "bd_connect b \<noteq> Waiting"
  shows "bd_connect (bound_step on_closed env b e) = bd_connect b"
  using assms by (auto simp: bound_step_def core_connect connect_kept tamper_send_def split: bound_event.split cl_event.split sum.split)

interpretation browser_settled: machine_inv "browser_step env" "\<lambda>b. bd_connect b = r \<and> r \<noteq> Waiting" for env r
  by unfold_locales (auto simp: connect_once browser_closed_def connect_kept)

interpretation node_settled: machine_inv "node_step env" "\<lambda>b. bd_connect b = r \<and> r \<noteq> Waiting" for env r
  by unfold_locales (auto simp: connect_once node_closed_def connect_kept)

text \<open>A close of the first socket settles it in a browser; in Node not if the hello brought client packets.\<close>

lemma ws_send_transport: "cl_transport (bd_client (foldl (\<lambda>b data. ws_send data b) b ds)) = cl_transport (bd_client b)"
  "cl_clientPackets (bd_client (foldl (\<lambda>b data. ws_send data b) b ds)) = cl_clientPackets (bd_client b)"
  "cl_readyCalls (bd_client (foldl (\<lambda>b data. ws_send data b) b ds)) = cl_readyCalls (bd_client b)"
  by (induction ds arbitrary: b) (simp_all add: ws_send_def cl_close_def)

lemma browser_connect_settles:
  assumes "cl_transport (bd_client b) = 0"
  shows "bd_connect (browser_step env b (BdCore (SocketClosed code random a))) \<noteq> Waiting"
  using assms
  by (simp add: bound_step_def core_step_def Let_def connect_ready_def browser_closed_def connect_rejects_def
      ws_send_transport cl_socket_closed_def)

lemma node_connect_hangs:
  assumes "ph_packets (cl_clientPackets (bd_client b)) \<noteq> []" "bd_connect b = Waiting"
  shows "bd_connect (node_step env b (BdCore (SocketClosed code random a))) = Waiting"
  using assms
  by (simp add: bound_step_def core_step_def Let_def connect_ready_def node_closed_def connect_rejects_def
      ws_send_transport ws_send_connect cl_socket_closed_def)

text \<open>Such a client: the table of client packets of its hello was read, that of server packets was not.\<close>

lemma hello_half_read:
  assumes "deserializeAll (ce_lib env) cdata True (cl_registry cl) = Inr (cs, reg)" "holdPackets cs (cl_clientPackets cl) = Inr h"
    and "deserializeAll (ce_lib env) sdata True reg = Inl e"
  shows "fst (store_tables env cdata sdata cl) = Inl e \<and> cl_clientPackets (snd (store_tables env cdata sdata cl)) = h
    \<and> cl_readyCalls (snd (store_tables env cdata sdata cl)) = cl_readyCalls cl"
  using assms by (simp add: store_tables_def bindR_def)

end
