(* ===== verification/Rooms.thy ===== *)
theory Rooms
  imports Js_Value "HOL-Library.AList"
begin

text \<open>
  Tags and rooms of \<open>projects/ts/src/ws/server/SonicWSServer.ts\<close>: which connection is in which room, kept
  in both directions. A connection object is a reference (\<open>'c\<close>), which is not its numeric id. A JavaScript
  \<open>Map\<close> is an association list and a \<open>Set\<close> a list, both in insertion order, because broadcasts visit
  members in that order. Calls of the adapter are an output; a rejected promise of it is only reported.
  The code passes the adapter \<open>socket.id\<close>; a call here names the connection, so an adapter knows as much as
  long as the ids of the connections it was told about are different.
\<close>

section \<open>The interface\<close>

text \<open>
  What broadcasts, sessions and connections rely on: a store of pairs that \<open>add\<close>, \<open>remove\<close> and \<open>drop_all\<close>
  change the way a relation would, whatever it keeps inside.
\<close>

locale room_store =
  fixes add :: "'c \<Rightarrow> 'r \<Rightarrow> 's \<Rightarrow> 's"
    and remove :: "'c \<Rightarrow> 'r \<Rightarrow> 's \<Rightarrow> 's"
    and drop_all :: "'c \<Rightarrow> 's \<Rightarrow> 's"
    and member :: "'s \<Rightarrow> 'c \<Rightarrow> 'r \<Rightarrow> bool"
    and ok :: "'s \<Rightarrow> bool"
  assumes add_member: "ok s \<Longrightarrow> member (add c r s) d q \<longleftrightarrow> (d = c \<and> q = r) \<or> member s d q"
    and remove_member: "ok s \<Longrightarrow> member (remove c r s) d q \<longleftrightarrow> \<not> (d = c \<and> q = r) \<and> member s d q"
    and drop_member: "ok s \<Longrightarrow> member (drop_all c s) d q \<longleftrightarrow> d \<noteq> c \<and> member s d q"
    and add_ok: "ok s \<Longrightarrow> ok (add c r s)"
    and remove_ok: "ok s \<Longrightarrow> ok (remove c r s)"
    and drop_ok: "ok s \<Longrightarrow> ok (drop_all c s)"
begin

text \<open>Joining several rooms, as a resumed session does.\<close>

definition add_all :: "'c \<Rightarrow> 'r list \<Rightarrow> 's \<Rightarrow> 's" where
  "add_all c rs s = foldl (\<lambda>s r. add c r s) s rs"

lemma add_all_ok: "ok s \<Longrightarrow> ok (add_all c rs s)"
  by (induction rs arbitrary: s) (simp_all add: add_all_def add_ok)

lemma add_all_member: "ok s \<Longrightarrow> member (add_all c rs s) d q \<longleftrightarrow> (d = c \<and> q \<in> set rs) \<or> member s d q"
  by (induction rs arbitrary: s) (auto simp: add_all_def add_ok add_member)

text \<open>Leaving everything and then joining is a fresh start.\<close>

lemma move_member: "ok s \<Longrightarrow> member (add c r (drop_all c s)) c q \<longleftrightarrow> q = r"
  by (simp add: drop_ok add_member drop_member)

lemma add_remove_member: "ok s \<Longrightarrow> \<not> member s c r \<Longrightarrow> member (remove c r (add c r s)) d q \<longleftrightarrow> member s d q"
  by (auto simp: add_ok add_member remove_member)

end

section \<open>The two maps\<close>

datatype 'c adapter_call = AdapterJoin 'c jsstr | AdapterLeave 'c jsstr | AdapterDisconnect 'c

record 'c rooms =
  rm_tags :: "('c \<times> jsstr list) list"
  rm_inv :: "(jsstr \<times> 'c list) list"
  rm_adapter :: "'c adapter_call list"

definition no_rooms :: "'c rooms" where
  "no_rooms = \<lparr>rm_tags = [], rm_inv = [], rm_adapter = []\<rparr>"

definition set_add :: "'a \<Rightarrow> 'a list \<Rightarrow> 'a list" where
  "set_add x xs = (if x \<in> set xs then xs else xs @ [x])"

lemma set_set_add [simp]: "set (set_add x xs) = insert x (set xs)"
  by (auto simp: set_add_def)

definition tags_of :: "'c rooms \<Rightarrow> 'c \<Rightarrow> jsstr list" where
  "tags_of s c = (case map_of (rm_tags s) c of None \<Rightarrow> [] | Some ts \<Rightarrow> ts)"

definition members_of :: "'c rooms \<Rightarrow> jsstr \<Rightarrow> 'c list" where
  "members_of s r = (case map_of (rm_inv s) r of None \<Rightarrow> [] | Some cs \<Rightarrow> cs)"

text \<open>\<open>tagsInv.get(tag)?.delete(socket)\<close>\<close>

definition inv_delete :: "'c \<Rightarrow> jsstr \<Rightarrow> 'c rooms \<Rightarrow> 'c rooms" where
  "inv_delete c r s =
     (case map_of (rm_inv s) r of
        None \<Rightarrow> s | Some cs \<Rightarrow> s\<lparr>rm_inv := AList.update r (removeAll c cs) (rm_inv s)\<rparr>)"

definition adapter_notify :: "'c adapter_call \<Rightarrow> 'c rooms \<Rightarrow> 'c rooms" where
  "adapter_notify a s = s\<lparr>rm_adapter := rm_adapter s @ [a]\<rparr>"

fun leave_tags :: "'c \<Rightarrow> jsstr list \<Rightarrow> 'c rooms \<Rightarrow> 'c rooms" where
  "leave_tags c [] s = s"
| "leave_tags c (r # rs) s = leave_tags c rs (adapter_notify (AdapterLeave c r) (inv_delete c r s))"

definition ensure_tags :: "'c \<Rightarrow> jsstr \<Rightarrow> 'c rooms \<Rightarrow> 'c rooms" where
  "ensure_tags c tg s =
     s\<lparr>rm_tags := (if map_of (rm_tags s) c = None then AList.update c [] (rm_tags s) else rm_tags s),
       rm_inv := (if map_of (rm_inv s) tg = None then AList.update tg [] (rm_inv s) else rm_inv s)\<rparr>"

definition clear_tags :: "'c \<Rightarrow> 'c rooms \<Rightarrow> 'c rooms" where
  "clear_tags c s = (leave_tags c (tags_of s c) s)\<lparr>rm_tags := AList.update c [] (rm_tags s)\<rparr>"

definition add_tag :: "'c \<Rightarrow> jsstr \<Rightarrow> 'c rooms \<Rightarrow> 'c rooms" where
  "add_tag c tg s =
     adapter_notify (AdapterJoin c tg)
       (s\<lparr>rm_tags := AList.update c (set_add tg (tags_of s c)) (rm_tags s),
          rm_inv := AList.update tg (set_add c (members_of s tg)) (rm_inv s)\<rparr>)"

definition tag_socket :: "'c \<Rightarrow> jsstr \<Rightarrow> bool \<Rightarrow> 'c rooms \<Rightarrow> 'c rooms" where
  "tag_socket c tg replace s =
     add_tag c tg (if replace then clear_tags c (ensure_tags c tg s) else ensure_tags c tg s)"

definition join_room :: "'c \<Rightarrow> jsstr \<Rightarrow> ('c rooms, unit) st_result" where
  "join_room c room s =
     (if room = [] then (Inl (Error ''Room name cannot be empty''), s) else (Inr (), tag_socket c room False s))"

definition leave_room :: "'c \<Rightarrow> jsstr \<Rightarrow> 'c rooms \<Rightarrow> 'c rooms" where
  "leave_room c room s =
     (let s1 = (case map_of (rm_tags s) c of
                  None \<Rightarrow> s | Some ts \<Rightarrow> s\<lparr>rm_tags := AList.update c (removeAll room ts) (rm_tags s)\<rparr>);
          s2 = inv_delete c room s1
      in adapter_notify (AdapterLeave c room)
           (if map_of (rm_inv s2) room = Some [] then s2\<lparr>rm_inv := AList.delete room (rm_inv s2)\<rparr> else s2))"

definition rooms_of :: "'c \<Rightarrow> 'c rooms \<Rightarrow> jsstr list" where
  "rooms_of c s = tags_of s c"

text \<open>The part of the close handler that forgets a connection.\<close>

fun forget_tags :: "'c \<Rightarrow> jsstr list \<Rightarrow> 'c rooms \<Rightarrow> 'c rooms" where
  "forget_tags c [] s = s"
| "forget_tags c (r # rs) s = forget_tags c rs (inv_delete c r s)"

definition forget_connection :: "'c \<Rightarrow> 'c rooms \<Rightarrow> 'c rooms" where
  "forget_connection c s =
     adapter_notify (AdapterDisconnect c)
       (case map_of (rm_tags s) c of
          None \<Rightarrow> s
        | Some ts \<Rightarrow> (forget_tags c ts s)\<lparr>rm_tags := AList.delete c (rm_tags s)\<rparr>)"

section \<open>The two maps agree\<close>

definition member :: "'c rooms \<Rightarrow> 'c \<Rightarrow> jsstr \<Rightarrow> bool" where
  "member s c r \<longleftrightarrow> r \<in> set (tags_of s c)"

definition rooms_ok :: "'c rooms \<Rightarrow> bool" where
  "rooms_ok s \<longleftrightarrow> (\<forall>c r. c \<in> set (members_of s r) \<longleftrightarrow> r \<in> set (tags_of s c))
     \<and> (\<forall>r. distinct (members_of s r)) \<and> (\<forall>c. distinct (tags_of s c))"

lemma adapter_notify_simps [simp]:
  "tags_of (adapter_notify a s) = tags_of s" "members_of (adapter_notify a s) = members_of s"
  "rm_tags (adapter_notify a s) = rm_tags s" "rm_inv (adapter_notify a s) = rm_inv s"
  by (auto simp: adapter_notify_def tags_of_def members_of_def fun_eq_iff)

lemma inv_delete_simps [simp]:
  "tags_of (inv_delete c r s) = tags_of s" "rm_tags (inv_delete c r s) = rm_tags s"
  "members_of (inv_delete c r s) q = (if q = r then removeAll c (members_of s q) else members_of s q)"
  by (auto simp: inv_delete_def tags_of_def members_of_def fun_eq_iff update_conv' split: option.split)

lemma leave_tags_simps [simp]:
  "rm_tags (leave_tags c rs s) = rm_tags s"
  "members_of (leave_tags c rs s) q = (if q \<in> set rs then removeAll c (members_of s q) else members_of s q)"
  by (induction rs arbitrary: s) auto

lemma forget_tags_simps [simp]:
  "rm_tags (forget_tags c rs s) = rm_tags s"
  "members_of (forget_tags c rs s) q = (if q \<in> set rs then removeAll c (members_of s q) else members_of s q)"
  by (induction rs arbitrary: s) auto

lemma ensure_tags_simps [simp]:
  "tags_of (ensure_tags c tg s) = tags_of s" "members_of (ensure_tags c tg s) = members_of s"
  by (auto simp: ensure_tags_def tags_of_def members_of_def fun_eq_iff update_conv' split: option.split)

lemma clear_tags_simps [simp]:
  "tags_of (clear_tags c s) d = (if d = c then [] else tags_of s d)"
  "members_of (clear_tags c s) q = (if q \<in> set (tags_of s c) then removeAll c (members_of s q) else members_of s q)"
proof -
  show "tags_of (clear_tags c s) d = (if d = c then [] else tags_of s d)"
    by (simp add: clear_tags_def tags_of_def update_conv')
  have "members_of (clear_tags c s) = members_of (leave_tags c (tags_of s c) s)"
    by (simp add: clear_tags_def members_of_def fun_eq_iff)
  then show "members_of (clear_tags c s) q = (if q \<in> set (tags_of s c) then removeAll c (members_of s q) else members_of s q)"
    by simp
qed

lemma add_tag_simps [simp]:
  "tags_of (add_tag c tg s) d = (if d = c then set_add tg (tags_of s d) else tags_of s d)"
  "members_of (add_tag c tg s) q = (if q = tg then set_add c (members_of s q) else members_of s q)"
  by (simp_all add: add_tag_def) (simp_all add: tags_of_def members_of_def update_conv')

lemma map_of_delete: "map_of (AList.delete k al) j = (if j = k then None else map_of al j)"
  by (simp add: delete_conv')

lemma leave_room_simps [simp]:
  "tags_of (leave_room c r s) d = (if d = c then removeAll r (tags_of s d) else tags_of s d)"
  "members_of (leave_room c r s) q = (if q = r then removeAll c (members_of s q) else members_of s q)"
proof -
  let ?s1 = "case map_of (rm_tags s) c of None \<Rightarrow> s | Some ts \<Rightarrow> s\<lparr>rm_tags := AList.update c (removeAll r ts) (rm_tags s)\<rparr>"
  let ?s2 = "inv_delete c r ?s1"
  have t1: "tags_of ?s1 d = (if d = c then removeAll r (tags_of s d) else tags_of s d)" for d
    by (auto simp: tags_of_def update_conv' split: option.split)
  have m1: "members_of ?s1 q = members_of s q" for q
    by (simp add: members_of_def split: option.split)
  have d: "tags_of (?s2\<lparr>rm_inv := AList.delete r (rm_inv ?s2)\<rparr>) = tags_of ?s2" by (simp add: tags_of_def fun_eq_iff)
  show "tags_of (leave_room c r s) d = (if d = c then removeAll r (tags_of s d) else tags_of s d)"
    using t1 d by (simp add: leave_room_def Let_def)
  have "members_of (?s2\<lparr>rm_inv := AList.delete r (rm_inv ?s2)\<rparr>) q = members_of ?s2 q"
    if "map_of (rm_inv ?s2) r = Some []" for q
    using that by (simp add: members_of_def map_of_delete)
  then show "members_of (leave_room c r s) q = (if q = r then removeAll c (members_of s q) else members_of s q)"
    using m1 by (simp add: leave_room_def Let_def)
qed

lemma forget_simps [simp]:
  "tags_of (forget_connection c s) d = (if d = c then [] else tags_of s d)"
  "members_of (forget_connection c s) q = (if q \<in> set (tags_of s c) then removeAll c (members_of s q) else members_of s q)"
proof -
  have m: "members_of (t\<lparr>rm_tags := x\<rparr>) = members_of t" for t :: "'a rooms" and x
    by (simp add: members_of_def fun_eq_iff)
  show "tags_of (forget_connection c s) d = (if d = c then [] else tags_of s d)"
    by (auto simp: forget_connection_def tags_of_def map_of_delete split: option.split)
  show "members_of (forget_connection c s) q = (if q \<in> set (tags_of s c) then removeAll c (members_of s q) else members_of s q)"
    by (auto simp: forget_connection_def m tags_of_def split: option.split)
qed

lemma distinct_set_add [simp]: "distinct (set_add x xs) = distinct xs"
  by (simp add: set_add_def)

interpretation room: room_store "\<lambda>c r s. tag_socket c r False s" leave_room forget_connection member rooms_ok
proof
  fix s :: "'c rooms" and c d :: 'c and r q :: jsstr
  assume s: "rooms_ok s"
  show "member (tag_socket c r False s) d q \<longleftrightarrow> (d = c \<and> q = r) \<or> member s d q"
    by (auto simp: member_def tag_socket_def)
  show "member (leave_room c r s) d q \<longleftrightarrow> \<not> (d = c \<and> q = r) \<and> member s d q"
    by (auto simp: member_def)
  show "member (forget_connection c s) d q \<longleftrightarrow> d \<noteq> c \<and> member s d q"
    by (auto simp: member_def)
  show "rooms_ok (tag_socket c r False s)" using s by (auto simp: rooms_ok_def tag_socket_def)
  show "rooms_ok (leave_room c r s)" using s by (auto simp: rooms_ok_def distinct_removeAll)
  show "rooms_ok (forget_connection c s)" using s by (auto simp: rooms_ok_def distinct_removeAll)
qed

section \<open>Every operation, and the relation it implements\<close>

datatype 'c room_event = Tag 'c jsstr bool | Join 'c jsstr | Leave 'c jsstr | Forget 'c

fun room_step :: "'c rooms \<Rightarrow> 'c room_event \<Rightarrow> 'c rooms" where
  "room_step s (Tag c tg replace) = tag_socket c tg replace s"
| "room_step s (Join c r) = snd (join_room c r s)"
| "room_step s (Leave c r) = leave_room c r s"
| "room_step s (Forget c) = forget_connection c s"

text \<open>The specification: a set of pairs. An adapter that keeps such a set sees the calls one by one.\<close>

fun spec_step :: "('c \<times> jsstr) set \<Rightarrow> 'c room_event \<Rightarrow> ('c \<times> jsstr) set" where
  "spec_step R (Tag c tg replace) = insert (c, tg) (if replace then {x \<in> R. fst x \<noteq> c} else R)"
| "spec_step R (Join c r) = (if r = [] then R else insert (c, r) R)"
| "spec_step R (Leave c r) = R - {(c, r)}"
| "spec_step R (Forget c) = {x \<in> R. fst x \<noteq> c}"

fun adapter_step :: "('c \<times> jsstr) set \<Rightarrow> 'c adapter_call \<Rightarrow> ('c \<times> jsstr) set" where
  "adapter_step R (AdapterJoin c r) = insert (c, r) R"
| "adapter_step R (AdapterLeave c r) = R - {(c, r)}"
| "adapter_step R (AdapterDisconnect c) = {x \<in> R. fst x \<noteq> c}"

definition adapter_view :: "'c rooms \<Rightarrow> ('c \<times> jsstr) set" where
  "adapter_view s = foldl adapter_step {} (rm_adapter s)"

definition relation :: "'c rooms \<Rightarrow> ('c \<times> jsstr) set" where
  "relation s = {x. member s (fst x) (snd x)}"

lemma adapter_view_notify [simp]: "adapter_view (adapter_notify a s) = adapter_step (adapter_view s) a"
  by (simp add: adapter_view_def adapter_notify_def)

lemma adapter_view_eq:
  "adapter_view (inv_delete c r s) = adapter_view s" "adapter_view (ensure_tags c r s) = adapter_view s"
  "adapter_view (s\<lparr>rm_tags := ts\<rparr>) = adapter_view s" "adapter_view (s\<lparr>rm_inv := is\<rparr>) = adapter_view s"
  "adapter_view (forget_tags c rs s) = adapter_view s"
proof -
  show "adapter_view (inv_delete c r s) = adapter_view s" for r s
    by (simp add: adapter_view_def inv_delete_def split: option.split)
  then show "adapter_view (forget_tags c rs s) = adapter_view s" by (induction rs arbitrary: s) simp_all
qed (simp_all add: adapter_view_def ensure_tags_def)

lemma adapter_view_leave: "adapter_view (leave_tags c rs s) = adapter_view s - {c} \<times> set rs"
  by (induction rs arbitrary: s) (auto simp: adapter_view_eq)

lemma adapter_view_clear: "adapter_view (clear_tags c s) = adapter_view s - {c} \<times> set (tags_of s c)"
  by (simp add: clear_tags_def adapter_view_eq adapter_view_leave)

lemma tag_ok: "rooms_ok s \<Longrightarrow> rooms_ok (tag_socket c tg replace s)"
  by (auto simp: rooms_ok_def tag_socket_def distinct_removeAll)

definition rooms_inv :: "'c rooms \<Rightarrow> bool" where
  "rooms_inv s \<longleftrightarrow> rooms_ok s \<and> adapter_view s = relation s"

lemma room_step_ok: "rooms_ok s \<Longrightarrow> rooms_ok (room_step s e)"
  by (cases e) (simp_all add: tag_ok join_room_def room.remove_ok room.drop_ok)

lemma room_step_relation: "rooms_ok s \<Longrightarrow> relation (room_step s e) = spec_step (relation s) e"
  by (cases e) (auto simp: relation_def join_room_def room.add_member room.remove_member room.drop_member,
      auto simp: member_def tag_socket_def split: if_splits)

lemma room_step_adapter:
  assumes "adapter_view s = relation s"
  shows "adapter_view (room_step s e) = spec_step (relation s) e"
proof -
  have tag: "adapter_view (tag_socket c tg replace s) = spec_step (relation s) (Tag c tg replace)" for c tg replace
    using assms by (auto simp: tag_socket_def add_tag_def adapter_view_eq adapter_view_clear relation_def member_def)
  have "adapter_view (leave_room c r s) = relation s - {(c, r)}" for c r
    using assms by (simp add: leave_room_def Let_def adapter_view_eq split: option.split)
  moreover have "adapter_view (forget_connection c s) = {x \<in> relation s. fst x \<noteq> c}" for c
    using assms by (simp add: forget_connection_def adapter_view_eq split: option.split)
  ultimately show ?thesis using tag assms by (cases e) (auto simp: join_room_def)
qed

interpretation rooms_machine: machine_inv room_step rooms_inv
  by unfold_locales (simp add: rooms_inv_def room_step_ok room_step_relation room_step_adapter)

lemma rooms_inv_new: "rooms_inv no_rooms"
  by (simp add: rooms_inv_def rooms_ok_def no_rooms_def tags_of_def members_of_def adapter_view_def relation_def member_def)

lemma rooms_run_spec: "relation (foldl room_step no_rooms es) = foldl spec_step {} es"
proof (induction es rule: rev_induct)
  case Nil
  show ?case by (simp add: relation_def member_def no_rooms_def tags_of_def)
next
  case (snoc e es)
  have "rooms_ok (foldl room_step no_rooms es)"
    using rooms_machine.run_inv [OF rooms_inv_new, of es] by (simp add: rooms_inv_def)
  then show ?case using snoc by (simp add: room_step_relation)
qed

text \<open>
  C8: After any sequence of tagging, joining, leaving and closing, the two maps of the server are the
  relation of the specification read in both directions: a connection's rooms, the members a broadcast
  visits (each once), and what an adapter learns from the calls it was sent are the same relation.
\<close>

theorem rooms_refine:
  "(r \<in> set (rooms_of c (foldl room_step no_rooms es)) \<longleftrightarrow> (c, r) \<in> foldl spec_step {} es)
   \<and> (c \<in> set (members_of (foldl room_step no_rooms es) r) \<longleftrightarrow> (c, r) \<in> foldl spec_step {} es)
   \<and> distinct (members_of (foldl room_step no_rooms es) r)
   \<and> adapter_view (foldl room_step no_rooms es) = foldl spec_step {} es"
proof -
  let ?s = "foldl room_step no_rooms es"
  have i: "rooms_inv ?s" by (rule rooms_machine.run_inv [OF rooms_inv_new])
  then have "(c, r) \<in> relation ?s \<longleftrightarrow> r \<in> set (tags_of ?s c)" by (simp add: relation_def member_def)
  then show ?thesis
    using i rooms_run_spec [of es] by (auto simp: rooms_inv_def rooms_ok_def rooms_of_def)
qed

end
