(* ===== verification/Heartbeat.thy ===== *)
theory Heartbeat
  imports Sonic_Prelude
begin

text \<open>
  The heartbeat of one connection, in the connection handler of
  \<open>projects/ts/src/ws/server/SonicWSServer.ts\<close>. Times are milliseconds of \<open>Date.now()\<close>; a ping reads the
  clock twice. Every ping arms a timer of its own, only the newest of which a frame clears.
\<close>

datatype hb_call = Ping | TimeoutClose | Terminate

record heartbeat =
  hb_interval :: int
  hb_running :: bool
  hb_last :: int
  hb_current :: "nat option"
  hb_armed :: "(nat \<times> int) list"
  hb_next :: nat
  hb_forced :: nat
  hb_log :: "hb_call list"

definition new_heartbeat :: "int \<Rightarrow> int \<Rightarrow> heartbeat" where
  "new_heartbeat interval now =
     \<lparr>hb_interval = interval, hb_running = (interval > 0), hb_last = now, hb_current = None, hb_armed = [],
      hb_next = 0, hb_forced = 0, hb_log = []\<rparr>"

definition clear_current :: "heartbeat \<Rightarrow> heartbeat" where
  "clear_current hb =
     (case hb_current hb of
        None \<Rightarrow> hb | Some i \<Rightarrow> hb\<lparr>hb_armed := filter (\<lambda>(j, _). j \<noteq> i) (hb_armed hb)\<rparr>)"

definition hb_message :: "int \<Rightarrow> heartbeat \<Rightarrow> heartbeat" where
  "hb_message now hb = (clear_current (hb\<lparr>hb_last := now\<rparr>))\<lparr>hb_current := None\<rparr>"

definition pings :: "int \<Rightarrow> bool \<Rightarrow> heartbeat \<Rightarrow> bool" where
  "pings now isOpen hb \<longleftrightarrow> hb_running hb \<and> isOpen \<and> \<not> now - hb_last hb < hb_interval hb"

definition hb_tick :: "int \<Rightarrow> int \<Rightarrow> bool \<Rightarrow> heartbeat \<Rightarrow> heartbeat" where
  "hb_tick now sentAt isOpen hb =
     (if pings now isOpen hb
      then hb\<lparr>hb_log := hb_log hb @ [Ping], hb_armed := hb_armed hb @ [(hb_next hb, sentAt)],
              hb_current := Some (hb_next hb), hb_next := hb_next hb + 1\<rparr>
      else hb)"

definition hb_timeout_fires :: "nat \<Rightarrow> heartbeat \<Rightarrow> heartbeat" where
  "hb_timeout_fires i hb =
     (case map_of (hb_armed hb) i of
        None \<Rightarrow> hb
      | Some sentAt \<Rightarrow>
          let hb1 = hb\<lparr>hb_armed := filter (\<lambda>(j, _). j \<noteq> i) (hb_armed hb)\<rparr>
          in if hb_last hb \<ge> sentAt then hb1
             else hb1\<lparr>hb_log := hb_log hb @ [TimeoutClose], hb_forced := hb_forced hb + 1\<rparr>)"

definition hb_force :: "heartbeat \<Rightarrow> heartbeat" where
  "hb_force hb = (if hb_forced hb = 0 then hb else hb\<lparr>hb_forced := hb_forced hb - 1, hb_log := hb_log hb @ [Terminate]\<rparr>)"

text \<open>The part of the close handler.\<close>

definition hb_close :: "heartbeat \<Rightarrow> heartbeat" where
  "hb_close hb = clear_current (hb\<lparr>hb_running := False\<rparr>)"

datatype hb_event = HbMessage int | HbTick int int bool | HbTimeout nat | HbForce | HbClose

fun hb_step :: "heartbeat \<Rightarrow> hb_event \<Rightarrow> heartbeat" where
  "hb_step hb (HbMessage now) = hb_message now hb"
| "hb_step hb (HbTick now sentAt isOpen) = hb_tick now sentAt isOpen hb"
| "hb_step hb (HbTimeout i) = hb_timeout_fires i hb"
| "hb_step hb HbForce = hb_force hb"
| "hb_step hb HbClose = hb_close hb"

fun hb_times :: "hb_event \<Rightarrow> int list" where
  "hb_times (HbMessage t) = [t]"
| "hb_times (HbTick now sentAt _) = [now, sentAt]"
| "hb_times _ = []"

definition is_message :: "hb_event \<Rightarrow> bool" where
  "is_message e = (case e of HbMessage _ \<Rightarrow> True | _ \<Rightarrow> False)"

section \<open>Who is closed\<close>

lemma armed_clear: "(j, s) \<in> set (hb_armed (clear_current hb)) \<Longrightarrow> (j, s) \<in> set (hb_armed hb)"
  by (auto simp: clear_current_def split: option.splits)

definition hb_inv :: "heartbeat \<Rightarrow> bool" where
  "hb_inv hb \<longleftrightarrow> (\<forall>(j, s) \<in> set (hb_armed hb). j < hb_next hb) \<and> distinct (map fst (hb_armed hb))"

lemma hb_inv_filter: "hb_inv hb \<Longrightarrow> hb_inv (hb\<lparr>hb_armed := filter P (hb_armed hb)\<rparr>)"
  by (auto simp: hb_inv_def intro: distinct_map_filter)

lemma hb_inv_upd [simp]:
  "hb_inv (hb\<lparr>hb_last := t\<rparr>) = hb_inv hb" "hb_inv (hb\<lparr>hb_current := c\<rparr>) = hb_inv hb"
  "hb_inv (hb\<lparr>hb_running := r\<rparr>) = hb_inv hb" "hb_inv (hb\<lparr>hb_log := l\<rparr>) = hb_inv hb"
  "hb_inv (hb\<lparr>hb_forced := f\<rparr>) = hb_inv hb"
  by (simp_all add: hb_inv_def)

lemma hb_inv_clear: "hb_inv hb \<Longrightarrow> hb_inv (clear_current hb)"
  by (simp add: clear_current_def hb_inv_filter split: option.splits)

lemma hb_inv_tick: "hb_inv hb \<Longrightarrow> hb_inv (hb_tick now sentAt isOpen hb)"
  by (fastforce simp: hb_tick_def hb_inv_def)

lemma hb_inv_step: "hb_inv hb \<Longrightarrow> hb_inv (hb_step hb e)"
  by (cases e) (simp_all add: hb_message_def hb_inv_clear hb_inv_tick hb_timeout_fires_def hb_inv_filter Let_def hb_force_def
      hb_close_def split: option.splits)

interpretation heartbeats: machine_inv hb_step hb_inv
  by unfold_locales (rule hb_inv_step)

text \<open>What a ping armed: its timer shows the time it was sent as long as it is armed.\<close>

definition armed_at :: "nat \<Rightarrow> int \<Rightarrow> heartbeat \<Rightarrow> bool" where
  "armed_at i s hb \<longleftrightarrow> i < hb_next hb \<and> (\<forall>s'. (i, s') \<in> set (hb_armed hb) \<longrightarrow> s' = s)"

lemma armed_at_clear: "armed_at i s hb \<Longrightarrow> armed_at i s (clear_current hb)"
  by (auto simp: armed_at_def clear_current_def split: option.splits)

lemma armed_at_upd [simp]:
  "armed_at i s (hb\<lparr>hb_last := t\<rparr>) = armed_at i s hb" "armed_at i s (hb\<lparr>hb_current := c\<rparr>) = armed_at i s hb"
  "armed_at i s (hb\<lparr>hb_running := r\<rparr>) = armed_at i s hb" "armed_at i s (hb\<lparr>hb_log := l\<rparr>) = armed_at i s hb"
  "armed_at i s (hb\<lparr>hb_forced := f\<rparr>) = armed_at i s hb"
  by (simp_all add: armed_at_def)

lemma armed_at_filter: "armed_at i s hb \<Longrightarrow> armed_at i s (hb\<lparr>hb_armed := filter P (hb_armed hb)\<rparr>)"
  by (simp add: armed_at_def)

lemma armed_at_step: "armed_at i s hb \<Longrightarrow> armed_at i s (hb_step hb e)"
  by (cases e) (simp_all add: hb_message_def armed_at_clear hb_timeout_fires_def armed_at_filter Let_def hb_force_def
      hb_close_def split: option.splits, auto simp: hb_tick_def armed_at_def)

interpretation pinged: machine_inv hb_step "armed_at i s" for i s
  by unfold_locales (rule armed_at_step)

lemma last_step: "hb_last (hb_step hb e) = (case e of HbMessage t \<Rightarrow> t | _ \<Rightarrow> hb_last hb)"
  by (cases e) (simp_all add: hb_message_def clear_current_def hb_tick_def hb_timeout_fires_def Let_def hb_force_def
      hb_close_def split: option.splits)

lemma last_silent: "\<not> list_ex is_message es \<Longrightarrow> hb_last (foldl hb_step hb es) = hb_last hb"
  by (induction es arbitrary: hb) (auto simp: last_step is_message_def split: hb_event.splits)

lemma last_after: "list_ex is_message es \<Longrightarrow> list_all ((\<le>) s) (concat (map hb_times es)) \<Longrightarrow> s \<le> hb_last (foldl hb_step hb es)"
proof (induction es rule: rev_induct)
  case (snoc e es)
  then show ?case by (cases e) (auto simp: last_step is_message_def simp del: hb_step.simps)
qed simp

text \<open>
  C10: The timer of a ping closes the connection exactly when no frame arrived after that ping, however many
  other pings, timers and frames there are: a silent peer is closed and an active one never.
\<close>

theorem heartbeat_exact:
  assumes "sorted (concat (map hb_times (HbTick now sentAt True # es2)))"
    and "hb = foldl hb_step (new_heartbeat interval t0) es1" "pings now True hb" "0 < interval"
    and "hb' = foldl hb_step (hb_step hb (HbTick now sentAt True)) es2" "map_of (hb_armed hb') (hb_next hb) \<noteq> None"
  shows "hb_log (hb_timeout_fires (hb_next hb) hb') = hb_log hb' @ (if list_ex is_message es2 then [] else [TimeoutClose])"
proof -
  let ?i = "hb_next hb" and ?p = "hb_step hb (HbTick now sentAt True)"
  have t2: "now \<le> sentAt" "list_all ((\<le>) sentAt) (concat (map hb_times es2))"
    using assms(1) by (auto simp: sorted_append list_all_iff)
  have lt: "hb_last hb < now"
  proof -
    have "hb_interval (hb_step h e) = hb_interval h" for h e
      by (cases e) (simp_all add: hb_message_def clear_current_def hb_tick_def hb_timeout_fires_def Let_def hb_force_def
          hb_close_def split: option.splits)
    then have "hb_interval (foldl hb_step h es) = hb_interval h" for h es
      by (induction es arbitrary: h) simp_all
    then have "hb_interval hb = interval" by (simp add: assms(2) new_heartbeat_def)
    then show ?thesis using assms(3,4) by (simp add: pings_def)
  qed
  have "hb_inv hb" unfolding assms(2) by (rule heartbeats.run_inv) (simp add: new_heartbeat_def hb_inv_def)
  then have "armed_at ?i sentAt ?p" using assms(3) by (fastforce simp: armed_at_def hb_tick_def hb_inv_def)
  then have "armed_at ?i sentAt hb'" unfolding assms(5) by (rule pinged.run_inv)
  then have s: "map_of (hb_armed hb') ?i = Some sentAt"
    using assms(6) by (auto simp: armed_at_def dest: map_of_SomeD)
  have "hb_last ?p = hb_last hb" by (simp add: last_step del: hb_step.simps)
  then have "sentAt \<le> hb_last hb' \<longleftrightarrow> list_ex is_message es2"
    using last_after [OF _ t2(2), of ?p] last_silent [of es2 ?p] lt t2(1)
    by (cases "list_ex is_message es2") (simp_all add: assms(5) del: hb_step.simps)
  then show ?thesis by (simp add: hb_timeout_fires_def s Let_def)
qed

lemma heartbeat_exact_witness:
  "hb_log (hb_timeout_fires 1 (foldl hb_step (new_heartbeat 30 0)
     [HbTick 30 30 True, HbMessage 35, HbTick 70 71 True, HbTimeout 0])) = [Ping, Ping, TimeoutClose]"
proof -
  let ?h = "foldl hb_step (new_heartbeat 30 0) [HbTick 30 30 True, HbMessage 35]"
  let ?h' = "foldl hb_step (hb_step ?h (HbTick 70 71 True)) [HbTimeout 0]"
  have e: "hb_next ?h = 1" "pings 70 True ?h" "map_of (hb_armed ?h') 1 \<noteq> None" "hb_log ?h' = [Ping, Ping]"
    by (simp_all add: new_heartbeat_def hb_tick_def pings_def hb_message_def clear_current_def hb_timeout_fires_def)
  have "hb_log (hb_timeout_fires (hb_next ?h) ?h') = hb_log ?h' @ (if list_ex is_message [HbTimeout 0] then [] else [TimeoutClose])"
    by (rule heartbeat_exact [OF _ refl e(2) _ refl]) (simp, simp, unfold e(1), rule e(3))
  then show ?thesis unfolding e by (simp add: is_message_def del: hb_step.simps)
qed

end
