(* ===== verification/Base64.thy ===== *)
theory Base64
  imports Sonic_Prelude
begin

text \<open>
  What the two adapters (\<open>projects/adapters-ts\<close>) use of Node's \<open>Buffer\<close>: \<open>toString("base64")\<close> and
  \<open>Buffer.from(text, "base64")\<close>. The encoder writes four characters for every three bytes and pads the last
  group with \<open>=\<close>; the reader also takes the two characters of the URL alphabet and skips everything else,
  padding included, so it never throws.
\<close>

section \<open>Digits\<close>

definition b64_digit :: "nat \<Rightarrow> nat" where
  "b64_digit d =
     (if d < 26 then d + 65 else if d < 52 then d + 71 else if d < 62 then d - 4 else if d = 62 then 43 else 47)"

definition b64_value :: "nat \<Rightarrow> nat option" where
  "b64_value u =
     (if 65 \<le> u \<and> u \<le> 90 then Some (u - 65)
      else if 97 \<le> u \<and> u \<le> 122 then Some (u - 71)
      else if 48 \<le> u \<and> u \<le> 57 then Some (u + 4)
      else if u = 43 \<or> u = 45 then Some 62
      else if u = 47 \<or> u = 95 then Some 63
      else None)"

definition b64_char :: "nat \<Rightarrow> 16 word" where
  "b64_char d = of_nat (b64_digit d)"

definition b64_pad :: "16 word" where
  "b64_pad = 61"

lemma b64_value_digit: "d < 64 \<Longrightarrow> b64_value (b64_digit d) = Some d"
  by (auto simp: b64_value_def b64_digit_def)

lemma b64_digit_bounds: "b64_digit d < 123 \<and> b64_digit d \<noteq> 61"
  by (auto simp: b64_digit_def)

lemma b64_char_unat: "unat (b64_char d) = b64_digit d"
proof -
  have "b64_digit d < 2 ^ 16" using b64_digit_bounds [of d] by simp
  then show ?thesis by (simp add: b64_char_def unat_of_nat take_bit_nat_eq_self)
qed

section \<open>The two functions\<close>

fun base64_encode :: "u8 list \<Rightarrow> jsstr" where
  "base64_encode [] = []"
| "base64_encode [a] = [b64_char (unat a div 4), b64_char (unat a mod 4 * 16), b64_pad, b64_pad]"
| "base64_encode [a, b] =
     [b64_char (unat a div 4), b64_char (unat a mod 4 * 16 + unat b div 16), b64_char (unat b mod 16 * 4), b64_pad]"
| "base64_encode (a # b # c # rest) =
     [b64_char (unat a div 4), b64_char (unat a mod 4 * 16 + unat b div 16),
      b64_char (unat b mod 16 * 4 + unat c div 64), b64_char (unat c mod 64)] @ base64_encode rest"

definition b64_byte :: "nat \<Rightarrow> u8" where
  "b64_byte n = of_nat n"

fun b64_bytes :: "nat list \<Rightarrow> u8 list" where
  "b64_bytes (w # x # y # z # rest) =
     [b64_byte (w * 4 + x div 16), b64_byte (x mod 16 * 16 + y div 4), b64_byte (y mod 4 * 64 + z)] @ b64_bytes rest"
| "b64_bytes [w, x, y] = [b64_byte (w * 4 + x div 16), b64_byte (x mod 16 * 16 + y div 4)]"
| "b64_bytes [w, x] = [b64_byte (w * 4 + x div 16)]"
| "b64_bytes [w] = []"
| "b64_bytes [] = []"

definition base64_decode :: "jsstr \<Rightarrow> u8 list" where
  "base64_decode s = b64_bytes (List.map_filter (\<lambda>u. b64_value (unat u)) s)"

section \<open>Round trip and length\<close>

lemma map_filter_digits:
  "d < 64 \<Longrightarrow> List.map_filter (\<lambda>u. b64_value (unat u)) (b64_char d # us)
     = d # List.map_filter (\<lambda>u. b64_value (unat u)) us"
  by (simp add: List.map_filter_simps b64_char_unat b64_value_digit)

lemma map_filter_end: "List.map_filter f [] = []"
  by (simp add: List.map_filter_def)

lemma map_filter_pad:
  "List.map_filter (\<lambda>u. b64_value (unat u)) (b64_pad # us) = List.map_filter (\<lambda>u. b64_value (unat u)) us"
  by (simp add: List.map_filter_simps b64_pad_def b64_value_def)

lemma b64_byte_unat [simp]: "b64_byte (unat a) = a"
  by (simp add: b64_byte_def)

lemma byte_parts: "(x::nat) div 4 * 4 + (x mod 4 * 16 + y) div 16 = x" if "y < 16"
  using that by simp

lemma nibble_parts: "(x mod 4 * 16 + y div 16) mod 16 * 16 + (y mod 16 * 4 + z) div 4 = y"
  if "y < 256" "z < 4" for x y z :: nat
  using that by simp

lemma sextet_parts: "(y mod 16 * 4 + z div 64) mod 4 * 64 + z mod 64 = z" if "z < 256" for y z :: nat
  using that by simp

lemma base64_roundtrip: "base64_decode (base64_encode bs) = bs"
proof (induction bs rule: base64_encode.induct)
  case 1
  show ?case by (simp add: base64_decode_def map_filter_end)
next
  case (2 a)
  have "unat a div 4 < 64" "unat a mod 4 * 16 < 64" using unat_u8_less [of a] by auto
  then show ?case
    using byte_parts [of 0 "unat a"] unat_u8_less [of a]
    by (simp add: base64_decode_def map_filter_digits map_filter_pad map_filter_end del: List.map_filter_simps(2))
next
  case (3 a b)
  have "unat a div 4 < 64" "unat a mod 4 * 16 + unat b div 16 < 64" "unat b mod 16 * 4 < 64"
    using unat_u8_less [of a] unat_u8_less [of b] by auto
  moreover have "unat b div 16 < 16" using unat_u8_less [of b] by auto
  ultimately show ?case
    using byte_parts [of "unat b div 16" "unat a"] nibble_parts [of "unat b" 0 "unat a"] unat_u8_less [of b]
    by (simp add: base64_decode_def map_filter_digits map_filter_pad map_filter_end del: List.map_filter_simps(2))
next
  case (4 a b c rest)
  have "unat a div 4 < 64" "unat a mod 4 * 16 + unat b div 16 < 64" "unat b mod 16 * 4 + unat c div 64 < 64"
    "unat c mod 64 < 64"
    using unat_u8_less [of a] unat_u8_less [of b] unat_u8_less [of c] by auto
  moreover have "unat b div 16 < 16" "unat c div 64 < 4" using unat_u8_less [of b] unat_u8_less [of c] by auto
  ultimately show ?case
    using 4 byte_parts [of "unat b div 16" "unat a"] nibble_parts [of "unat b" "unat c div 64" "unat a"]
      sextet_parts [of "unat c" "unat b"] unat_u8_less [of b] unat_u8_less [of c]
    by (simp add: base64_decode_def map_filter_digits del: List.map_filter_simps(2))
qed

lemma base64_length: "length (base64_encode bs) = 4 * ((length bs + 2) div 3)"
proof (induction bs rule: base64_encode.induct)
  case (4 a b c rest)
  have "(length (a # b # c # rest) + 2) div 3 = Suc ((length rest + 2) div 3)"
    using div_add_self2 [of 3 "length rest + 2"] by simp
  then show ?case using 4 by (simp only:) simp
qed simp_all

lemma base64_ascii: "u \<in> set (base64_encode bs) \<Longrightarrow> unat u < 128"
proof (induction bs rule: base64_encode.induct)
qed (auto simp: b64_char_unat b64_pad_def b64_digit_def)

end
