(* ===== verification/Adapters.thy ===== *)
theory Adapters
  imports Js_Value Base64
begin

text \<open>
  Adapters connect several servers: the contract of \<open>projects/ts/src/ws/server/Adapter.ts\<close> and its two
  implementations, \<open>projects/adapters-ts/redis/src/index.ts\<close> and \<open>projects/adapters-ts/postgres/src/index.ts\<close>.
  The database clients are the environment: when a connection attempt, a subscription or a closing call
  settles is an event, and so is a payload that arrives. What \<open>node:v8\<close> makes of a message is a parameter
  (\<open>serialize\<close> may throw). Publishing waits for the promise of the start: calls that were let in continue in
  call order, one event each.
\<close>

section \<open>The contract\<close>

record adapter_message =
  am_origin :: jsstr
  am_room :: jsstr
  am_tag :: jsstr
  am_values :: "jsval list"

record v8 =
  v8_serialize :: "adapter_message \<Rightarrow> u8 list result"
  v8_deserialize :: "u8 list \<Rightarrow> adapter_message result"

text \<open>How far \<open>initialize\<close> is, which is the state of the promise \<open>startPromise\<close>.\<close>

datatype start_state = Idle | Connecting | Listening | Started | StartFailed js_error

text \<open>
  What both classes keep. \<open>ad_listens\<close> says that the subscription was asked for; the last four are observed:
  calls of \<open>publish\<close> that passed its guards, the payloads handed to the database client, rejected calls, and
  the calls of the receiver (\<open>'r\<close> names it: the last one given to \<open>start\<close>).
\<close>

record 'r adapter =
  ad_channel :: jsstr
  ad_receiver :: "'r option"
  ad_start :: start_state
  ad_closed :: bool
  ad_listens :: bool
  ad_waiting :: "adapter_message list"
  ad_accepted :: "adapter_message list"
  ad_out :: "jsstr list"
  ad_rejected :: "(adapter_message \<times> js_error) list"
  ad_delivered :: "('r \<times> adapter_message) list"
  ad_failures :: nat

definition new_adapter :: "jsstr \<Rightarrow> 'r adapter" where
  "new_adapter channel =
     \<lparr>ad_channel = channel, ad_receiver = None, ad_start = Idle, ad_closed = False, ad_listens = False,
      ad_waiting = [], ad_accepted = [], ad_out = [], ad_rejected = [], ad_delivered = [], ad_failures = 0\<rparr>"

definition adapter_start :: "string \<Rightarrow> 'r \<Rightarrow> (('r, 'x) adapter_scheme, unit) st_result" where
  "adapter_start closed_text receiver s =
     (if ad_closed s then (Inl (Error closed_text), s)
      else (Inr (), s\<lparr>ad_receiver := Some receiver,
                      ad_start := (if ad_start s = Idle then Connecting else ad_start s)\<rparr>))"

text \<open>The part of \<open>publish\<close> before its first \<open>await\<close>.\<close>

definition adapter_publish ::
  "string \<Rightarrow> string \<Rightarrow> adapter_message \<Rightarrow> ('r, 'x) adapter_scheme \<Rightarrow> ('r, 'x) adapter_scheme" where
  "adapter_publish closed_text idle_text m s =
     (if ad_closed s then s\<lparr>ad_rejected := ad_rejected s @ [(m, Error closed_text)]\<rparr>
      else if ad_start s = Idle then s\<lparr>ad_rejected := ad_rejected s @ [(m, Error idle_text)]\<rparr>
      else s\<lparr>ad_waiting := ad_waiting s @ [m], ad_accepted := ad_accepted s @ [m]\<rparr>)"

text \<open>
  The part after it, of the call that waits longest: what it hands to the database client, where \<open>check\<close> is
  what stands between the encoding and that call.
\<close>

definition adapter_payload :: "v8 \<Rightarrow> (jsstr \<Rightarrow> unit result) \<Rightarrow> adapter_message \<Rightarrow> jsstr result" where
  "adapter_payload lib check m =
     bindR (v8_serialize lib m) (\<lambda>bs. bindR (check (base64_encode bs)) (\<lambda>_. Inr (base64_encode bs)))"

definition adapter_continue ::
  "v8 \<Rightarrow> (jsstr \<Rightarrow> unit result) \<Rightarrow> ('r, 'x) adapter_scheme \<Rightarrow> ('r, 'x) adapter_scheme" where
  "adapter_continue lib check s =
     (case ad_waiting s of
        [] \<Rightarrow> s
      | m # ms \<Rightarrow>
          (case ad_start s of
             StartFailed e \<Rightarrow> s\<lparr>ad_waiting := ms, ad_rejected := ad_rejected s @ [(m, e)]\<rparr>
           | Started \<Rightarrow>
               (case adapter_payload lib check m of
                  Inl e \<Rightarrow> s\<lparr>ad_waiting := ms, ad_rejected := ad_rejected s @ [(m, e)]\<rparr>
                | Inr payload \<Rightarrow> s\<lparr>ad_waiting := ms, ad_out := ad_out s @ [payload]\<rparr>)
           | _ \<Rightarrow> s))"

text \<open>
  A payload arrives: what cannot be read is only reported, and \<open>this.receiver?.\<close> calls nothing before there
  is a receiver.
\<close>

definition adapter_receive :: "v8 \<Rightarrow> jsstr \<Rightarrow> ('r, 'x) adapter_scheme \<Rightarrow> ('r, 'x) adapter_scheme" where
  "adapter_receive lib payload s =
     (case v8_deserialize lib (base64_decode payload) of
        Inl e \<Rightarrow> s\<lparr>ad_failures := ad_failures s + 1\<rparr>
      | Inr m \<Rightarrow> (case ad_receiver s of
                    None \<Rightarrow> s | Some r \<Rightarrow> s\<lparr>ad_delivered := ad_delivered s @ [(r, m)]\<rparr>))"

section \<open>Redis\<close>

text \<open>Which client is told to close.\<close>

datatype db_client = Publisher | Subscriber

record 'r redis = "'r adapter" +
  ra_closes :: "db_client list"

definition new_redis :: "jsstr option \<Rightarrow> 'r redis" where
  "new_redis channel =
     adapter.extend (new_adapter (case channel of None \<Rightarrow> js ''sonic-ws:broadcast'' | Some c \<Rightarrow> c)) \<lparr>ra_closes = []\<rparr>"

definition redis_start :: "'r \<Rightarrow> ('r redis, unit) st_result" where
  "redis_start = adapter_start ''Cannot start a closed Redis adapter''"

text \<open>\<open>initialize\<close>: both connections, then the subscription.\<close>

definition redis_connects :: "unit result \<Rightarrow> 'r redis \<Rightarrow> 'r redis" where
  "redis_connects res s =
     (if ad_start s \<noteq> Connecting then s
      else (case res of
              Inl e \<Rightarrow> s\<lparr>ad_start := StartFailed e\<rparr>
            | Inr _ \<Rightarrow> s\<lparr>ad_start := Listening, ad_listens := True\<rparr>))"

definition redis_subscribes :: "unit result \<Rightarrow> 'r redis \<Rightarrow> 'r redis" where
  "redis_subscribes res s =
     (if ad_start s \<noteq> Listening then s
      else s\<lparr>ad_start := (case res of Inl e \<Rightarrow> StartFailed e | Inr _ \<Rightarrow> Started)\<rparr>)"

definition redis_message :: "v8 \<Rightarrow> jsstr \<Rightarrow> 'r redis \<Rightarrow> 'r redis" where
  "redis_message lib payload s = (if ad_listens s then adapter_receive lib payload s else s)"

definition redis_publish :: "adapter_message \<Rightarrow> 'r redis \<Rightarrow> 'r redis" where
  "redis_publish =
     adapter_publish ''Cannot publish using a closed Redis adapter'' ''Redis adapter has not been started''"

definition redis_continue :: "v8 \<Rightarrow> 'r redis \<Rightarrow> 'r redis" where
  "redis_continue lib = adapter_continue lib (\<lambda>_. Inr ())"

text \<open>Whether the clients are open is theirs to say.\<close>

definition redis_close :: "bool \<Rightarrow> bool \<Rightarrow> 'r redis \<Rightarrow> 'r redis" where
  "redis_close subscriberOpen publisherOpen s =
     (if ad_closed s then s
      else s\<lparr>ad_closed := True,
             ra_closes := ra_closes s @ (if subscriberOpen then [Subscriber] else [])
                                     @ (if publisherOpen then [Publisher] else [])\<rparr>)"

datatype 'r redis_event =
    RedisStart 'r
  | RedisConnects "unit result"
  | RedisSubscribes "unit result"
  | RedisMessage jsstr
  | RedisPublish adapter_message
  | RedisContinue
  | RedisClose bool bool

fun redis_step :: "v8 \<Rightarrow> 'r redis \<Rightarrow> 'r redis_event \<Rightarrow> 'r redis" where
  "redis_step lib s (RedisStart r) = snd (redis_start r s)"
| "redis_step lib s (RedisConnects res) = redis_connects res s"
| "redis_step lib s (RedisSubscribes res) = redis_subscribes res s"
| "redis_step lib s (RedisMessage payload) = redis_message lib payload s"
| "redis_step lib s (RedisPublish m) = redis_publish m s"
| "redis_step lib s RedisContinue = redis_continue lib s"
| "redis_step lib s (RedisClose sub pub) = redis_close sub pub s"

section \<open>PostgreSQL\<close>

text \<open>
  \<open>pg_connected\<close> are the flags \<open>publisherConnected\<close> and \<open>subscriberConnected\<close>. \<open>pg_ending\<close> holds what waits for a
  run of \<open>closeClients\<close>: \<open>Some e\<close> the failed \<open>initialize\<close>, \<open>None\<close> the call of \<open>close\<close>. \<open>pg_close_waits\<close>: \<open>close\<close> waits
  for the start to settle. Not in the code: the attempts to connect that did not settle, and the clients
  that are really open.
\<close>

record 'r postgres = "'r adapter" +
  pg_maxPayload :: int
  pg_connected :: "db_client set"
  pg_ending :: "js_error option list"
  pg_close_waits :: bool
  pg_pending :: "db_client set"
  pg_open :: "db_client set"

definition MAX_NOTIFY_PAYLOAD_BYTES :: int where
  "MAX_NOTIFY_PAYLOAD_BYTES = 7999"

text \<open>\<open>utf8_length\<close> is \<open>Buffer.byteLength\<close>; of the channel it only matters whether it is 0.\<close>

definition new_postgres :: "jsstr option \<Rightarrow> jsnum option \<Rightarrow> 'r postgres result" where
  "new_postgres channel maxPayload =
     (let c = (case channel of None \<Rightarrow> js ''sonic_ws_broadcast'' | Some x \<Rightarrow> x);
          m = (case maxPayload of None \<Rightarrow> Fin (of_int MAX_NOTIFY_PAYLOAD_BYTES) | Some x \<Rightarrow> x)
      in if c = [] then Inl (Error ''PostgreSQL adapter channel cannot be empty'')
         else (case m of
                 Fin r \<Rightarrow>
                   if rat_is_int r \<and> 0 < r then
                     Inr (adapter.extend (new_adapter c)
                            \<lparr>pg_maxPayload = \<lfloor>r\<rfloor>, pg_connected = {}, pg_ending = [], pg_close_waits = False,
                             pg_pending = {}, pg_open = {}\<rparr>)
                   else Inl (Error ''PostgreSQL adapter maxPayloadBytes must be a positive integer'')
               | _ \<Rightarrow> Inl (Error ''PostgreSQL adapter maxPayloadBytes must be a positive integer'')))"

text \<open>\<open>start\<close>, which begins to connect both clients the first time.\<close>

definition pg_start :: "'r \<Rightarrow> ('r postgres, unit) st_result" where
  "pg_start receiver s =
     (case adapter_start ''Cannot start a closed PostgreSQL adapter'' receiver s of
        (r, s1) \<Rightarrow>
          (r, if ad_start s = Idle \<and> ad_start s1 = Connecting
              then s1\<lparr>pg_pending := {Publisher, Subscriber}\<rparr> else s1))"

text \<open>The first part of \<open>closeClients\<close>: the clients known to be connected are told to end.\<close>

definition closeClients :: "js_error option \<Rightarrow> 'r postgres \<Rightarrow> 'r postgres" where
  "closeClients why s = s\<lparr>pg_open := pg_open s - pg_connected s, pg_ending := pg_ending s @ [why]\<rparr>"

text \<open>The start settles: a waiting \<open>close\<close> goes on.\<close>

definition start_settles :: "start_state \<Rightarrow> 'r postgres \<Rightarrow> 'r postgres" where
  "start_settles st s =
     (let s1 = s\<lparr>ad_start := st, pg_close_waits := False\<rparr>
      in if pg_close_waits s then closeClients None s1 else s1)"

text \<open>The second part, after the ends settled.\<close>

definition closeClients_done :: "'r postgres \<Rightarrow> 'r postgres" where
  "closeClients_done s =
     (case pg_ending s of
        [] \<Rightarrow> s
      | why # rest \<Rightarrow>
          (let s1 = s\<lparr>pg_ending := rest, pg_connected := {}\<rparr>
           in (case why of None \<Rightarrow> s1 | Some e \<Rightarrow> start_settles (StartFailed e) s1)))"

text \<open>
  One connection attempt of \<open>initialize\<close> settles. The first failure rejects \<open>Promise.all\<close>; the other attempt
  goes on and still sets its flag.
\<close>

definition pg_failing :: "'r postgres \<Rightarrow> bool" where
  "pg_failing s \<longleftrightarrow> (\<exists>e \<in> set (pg_ending s). e \<noteq> None)"

definition pg_connects :: "db_client \<Rightarrow> unit result \<Rightarrow> 'r postgres \<Rightarrow> 'r postgres" where
  "pg_connects c res s =
     (if c \<notin> pg_pending s then s
      else (case res of
              Inr _ \<Rightarrow>
                (let s1 = s\<lparr>pg_pending := pg_pending s - {c}, pg_open := insert c (pg_open s),
                            pg_connected := insert c (pg_connected s)\<rparr>
                 in if ad_start s = Connecting \<and> \<not> pg_failing s \<and> pg_pending s1 = {}
                    then s1\<lparr>ad_start := Listening, ad_listens := True\<rparr> else s1)
            | Inl e \<Rightarrow>
                (let s1 = s\<lparr>pg_pending := pg_pending s - {c}\<rparr>
                 in if ad_start s = Connecting \<and> \<not> pg_failing s then closeClients (Some e) s1 else s1)))"

text \<open>The \<open>LISTEN\<close> query settles.\<close>

definition pg_listens :: "unit result \<Rightarrow> 'r postgres \<Rightarrow> 'r postgres" where
  "pg_listens res s =
     (if ad_start s \<noteq> Listening \<or> pg_failing s then s
      else (case res of Inr _ \<Rightarrow> start_settles Started s | Inl e \<Rightarrow> closeClients (Some e) s))"

text \<open>The \<open>end\<close> event of a client.\<close>

definition pg_ended :: "db_client \<Rightarrow> 'r postgres \<Rightarrow> 'r postgres" where
  "pg_ended c s = s\<lparr>pg_connected := pg_connected s - {c}, pg_open := pg_open s - {c}\<rparr>"

definition handleNotification :: "v8 \<Rightarrow> jsstr \<Rightarrow> 'r postgres \<Rightarrow> 'r postgres" where
  "handleNotification = adapter_receive"

definition pg_notification :: "v8 \<Rightarrow> jsstr \<Rightarrow> jsstr option \<Rightarrow> 'r postgres \<Rightarrow> 'r postgres" where
  "pg_notification lib channel payload s =
     (if \<not> ad_listens s \<or> channel \<noteq> ad_channel s then s
      else (case payload of None \<Rightarrow> s | Some p \<Rightarrow> handleNotification lib p s))"

definition pg_publish :: "adapter_message \<Rightarrow> 'r postgres \<Rightarrow> 'r postgres" where
  "pg_publish =
     adapter_publish ''Cannot publish using a closed PostgreSQL adapter'' ''PostgreSQL adapter has not been started''"

text \<open>Base64 is ASCII: one byte of UTF-8 for each character. The error names both numbers, the model's does not.\<close>

definition pg_check :: "int \<Rightarrow> jsstr \<Rightarrow> unit result" where
  "pg_check limit payload =
     (if int (length payload) > limit
      then Inl (Error ''PostgreSQL adapter payload exceeds the configured byte limit'') else Inr ())"

definition pg_continue :: "v8 \<Rightarrow> 'r postgres \<Rightarrow> 'r postgres" where
  "pg_continue lib s = adapter_continue lib (pg_check (pg_maxPayload s)) s"

definition pg_settled :: "'r postgres \<Rightarrow> bool" where
  "pg_settled s = (case ad_start s of Started \<Rightarrow> True | StartFailed _ \<Rightarrow> True | _ \<Rightarrow> False)"

definition pg_close :: "'r postgres \<Rightarrow> 'r postgres" where
  "pg_close s =
     (if ad_closed s then s
      else (let s1 = s\<lparr>ad_closed := True\<rparr>
            in if ad_start s = Idle \<or> pg_settled s then closeClients None s1 else s1\<lparr>pg_close_waits := True\<rparr>))"

text \<open>A double quote inside an identifier is doubled.\<close>

fun double_quotes :: "jsstr \<Rightarrow> jsstr" where
  "double_quotes [] = []"
| "double_quotes (u # us) = (if u = 34 then [34, 34] else [u]) @ double_quotes us"

definition quoteIdentifier :: "jsstr \<Rightarrow> jsstr" where
  "quoteIdentifier s = [34] @ double_quotes s @ [34]"

datatype 'r pg_event =
    PgStart 'r
  | PgConnects db_client "unit result"
  | PgListens "unit result"
  | PgEnded db_client
  | PgNotification jsstr "jsstr option"
  | PgPublish adapter_message
  | PgContinue
  | PgClose
  | PgClosed

fun pg_step :: "v8 \<Rightarrow> 'r postgres \<Rightarrow> 'r pg_event \<Rightarrow> 'r postgres" where
  "pg_step lib s (PgStart r) = snd (pg_start r s)"
| "pg_step lib s (PgConnects c res) = pg_connects c res s"
| "pg_step lib s (PgListens res) = pg_listens res s"
| "pg_step lib s (PgEnded c) = pg_ended c s"
| "pg_step lib s (PgNotification channel payload) = pg_notification lib channel payload s"
| "pg_step lib s (PgPublish m) = pg_publish m s"
| "pg_step lib s PgContinue = pg_continue lib s"
| "pg_step lib s PgClose = pg_close s"
| "pg_step lib s PgClosed = closeClients_done s"

section \<open>What is published\<close>

text \<open>The messages that reach the client, and the payload of one.\<close>

definition sendable :: "v8 \<Rightarrow> (jsstr \<Rightarrow> unit result) \<Rightarrow> adapter_message \<Rightarrow> bool" where
  "sendable lib check m \<longleftrightarrow> is_ok (adapter_payload lib check m)"

definition payload_of :: "v8 \<Rightarrow> adapter_message \<Rightarrow> jsstr" where
  "payload_of lib m = (case v8_serialize lib m of Inl _ \<Rightarrow> [] | Inr bs \<Rightarrow> base64_encode bs)"

text \<open>The calls that were let in are those that went past the start (\<open>d\<close>) and those that wait, in call order.\<close>

definition publish_inv :: "v8 \<Rightarrow> (jsstr \<Rightarrow> unit result) \<Rightarrow> ('r, 'x) adapter_scheme \<Rightarrow> bool" where
  "publish_inv lib check s \<longleftrightarrow>
     (\<exists>d. ad_accepted s = d @ ad_waiting s
        \<and> ad_out s = (if ad_start s = Started then map (payload_of lib) (filter (sendable lib check) d) else [])
        \<and> (ad_start s \<in> {Idle, Connecting, Listening} \<longrightarrow> d = []))"

text \<open>What changes neither the calls nor the start keeps it; so does the progress of the start.\<close>

lemma publish_inv_same:
  "publish_inv lib check s \<Longrightarrow> ad_accepted s' = ad_accepted s \<Longrightarrow> ad_waiting s' = ad_waiting s
   \<Longrightarrow> ad_out s' = ad_out s \<Longrightarrow> ad_start s' = ad_start s \<Longrightarrow> publish_inv lib check s'"
  by (simp add: publish_inv_def)

lemma publish_inv_start:
  "publish_inv lib check s \<Longrightarrow> ad_start s \<in> {Idle, Connecting, Listening}
   \<Longrightarrow> ad_accepted s' = ad_accepted s \<Longrightarrow> ad_waiting s' = ad_waiting s \<Longrightarrow> ad_out s' = ad_out s
   \<Longrightarrow> publish_inv lib check s'"
  by (auto simp: publish_inv_def)

lemma publish_inv_new: "publish_inv lib check (new_adapter c)"
  by (simp add: publish_inv_def new_adapter_def)

lemma publish_inv_accept: "publish_inv lib check s \<Longrightarrow> publish_inv lib check (adapter_publish t1 t2 m s)"
  by (auto simp: adapter_publish_def publish_inv_def)

lemma adapter_payload_Inr: "adapter_payload lib check m = Inr p \<Longrightarrow> p = payload_of lib m"
  by (auto simp: adapter_payload_def payload_of_def bindR_eq_Inr)

lemma publish_inv_continue:
  assumes "publish_inv lib check s"
  shows "publish_inv lib check (adapter_continue lib check s)"
proof (cases "ad_waiting s")
  case (Cons m ms)
  obtain d where d: "ad_accepted s = d @ m # ms"
    "ad_out s = (if ad_start s = Started then map (payload_of lib) (filter (sendable lib check) d) else [])"
    using assms Cons by (auto simp: publish_inv_def)
  show ?thesis
  proof (cases "ad_start s")
    case Started
    show ?thesis
    proof (cases "adapter_payload lib check m")
      case (Inl e)
      then show ?thesis
        using Cons Started d
        by (auto simp: adapter_continue_def publish_inv_def sendable_def intro!: exI [of _ "d @ [m]"])
    next
      case (Inr p)
      then show ?thesis
        using Cons Started d adapter_payload_Inr [OF Inr]
        by (auto simp: adapter_continue_def publish_inv_def sendable_def intro!: exI [of _ "d @ [m]"])
    qed
  next
    case (StartFailed e)
    then show ?thesis
      using Cons d by (auto simp: adapter_continue_def publish_inv_def intro!: exI [of _ "d @ [m]"])
  qed (use assms Cons in \<open>simp_all add: adapter_continue_def\<close>)
qed (use assms in \<open>simp add: adapter_continue_def\<close>)

lemma adapter_receive_same:
  "ad_accepted (adapter_receive lib p s) = ad_accepted s" "ad_waiting (adapter_receive lib p s) = ad_waiting s"
  "ad_out (adapter_receive lib p s) = ad_out s" "ad_start (adapter_receive lib p s) = ad_start s"
  by (simp_all add: adapter_receive_def split: sum.split option.split)

lemma adapter_start_inv: "publish_inv lib check s \<Longrightarrow> publish_inv lib check (snd (adapter_start t r s))"
  by (auto simp: adapter_start_def publish_inv_def)

lemmas adapter_inv_rules = publish_inv_accept publish_inv_continue adapter_start_inv

interpretation redis_adapter: machine_inv "redis_step lib" "publish_inv lib (\<lambda>_. Inr ())" for lib
proof
  fix s :: "'a redis" and e
  assume i: "publish_inv lib (\<lambda>_. Inr ()) s"
  show "publish_inv lib (\<lambda>_. Inr ()) (redis_step lib s e)"
  proof (cases e)
    case (RedisConnects res)
    then show ?thesis using i by (auto simp: redis_connects_def elim!: publish_inv_start split: sum.split)
  next
    case (RedisSubscribes res)
    then show ?thesis using i by (auto simp: redis_subscribes_def elim!: publish_inv_start split: sum.split)
  next
    case (RedisMessage p)
    then show ?thesis using i by (auto simp: redis_message_def adapter_receive_same elim!: publish_inv_same)
  next
    case (RedisClose sub pub)
    then show ?thesis using i by (auto simp: redis_close_def elim!: publish_inv_same)
  qed (use i in \<open>simp_all add: adapter_inv_rules redis_start_def redis_publish_def redis_continue_def\<close>)
qed

section \<open>The life of a PostgreSQL adapter\<close>

text \<open>
  At most one failed \<open>initialize\<close> is ending the clients, and only before the start has settled; until then and
  until a close, the flags cover the clients that are open; a close waits while the start is under way.
\<close>

definition failed_starts :: "'r postgres \<Rightarrow> nat" where
  "failed_starts s = length (filter (\<lambda>x. x \<noteq> None) (pg_ending s))"

definition underway :: "'r postgres \<Rightarrow> bool" where
  "underway s \<longleftrightarrow> ad_start s = Connecting \<or> ad_start s = Listening"

definition life_inv :: "'r postgres \<Rightarrow> bool" where
  "life_inv s \<longleftrightarrow>
     failed_starts s \<le> 1 \<and> (0 < failed_starts s \<longrightarrow> underway s)
     \<and> (None \<in> set (pg_ending s) \<longrightarrow> ad_closed s \<and> \<not> underway s)
     \<and> (pg_close_waits s \<longleftrightarrow> ad_closed s \<and> underway s)
     \<and> (ad_start s = Idle \<longrightarrow> pg_pending s = {} \<and> pg_open s = {})
     \<and> (ad_start s = Connecting \<and> failed_starts s = 0 \<longrightarrow> pg_open s \<subseteq> pg_connected s)
     \<and> (ad_start s = Listening \<or> ad_start s = Started \<longrightarrow> pg_pending s = {})
     \<and> (ad_start s = Listening \<and> failed_starts s = 0 \<longrightarrow> pg_open s \<subseteq> pg_connected s)
     \<and> (ad_start s = Started \<longrightarrow> pg_open s \<subseteq> pg_connected s \<and> \<not> ad_closed s \<or> pg_open s = {})"

lemma failing_iff: "pg_failing s \<longleftrightarrow> 0 < failed_starts s"
  by (auto simp: pg_failing_def failed_starts_def filter_empty_conv)

lemma failed_starts_append: "failed_starts (s\<lparr>pg_ending := xs @ [w]\<rparr>) = length (filter (\<lambda>x. x \<noteq> None) xs) + (if w = None then 0 else 1)"
  by (simp add: failed_starts_def)

lemma life_start: "life_inv s \<Longrightarrow> life_inv (snd (pg_start r s))"
  by (auto simp: life_inv_def pg_start_def adapter_start_def failed_starts_def underway_def split: if_splits)

lemma life_connects:
  assumes "life_inv s"
  shows "life_inv (pg_connects c res s)"
proof (cases "c \<in> pg_pending s")
  case True
  note defs = pg_connects_def failing_iff life_inv_def closeClients_def failed_starts_def underway_def Let_def
  from True have st: "ad_start s = Connecting \<or> (\<exists>e. ad_start s = StartFailed e)"
    using assms by (cases "ad_start s") (auto simp: life_inv_def)
  show ?thesis
  proof (cases res)
    case (Inl e)
    from st show ?thesis
    proof
      assume "ad_start s = Connecting"
      then show ?thesis using assms True Inl by (simp add: defs)
    next
      assume "\<exists>e. ad_start s = StartFailed e"
      then obtain e' where "ad_start s = StartFailed e'" ..
      then show ?thesis using assms True Inl by (simp add: defs)
    qed
  next
    case (Inr u)
    from st show ?thesis
    proof
      assume "ad_start s = Connecting"
      then show ?thesis using assms True Inr by (simp add: defs insert_mono subset_insertI2)
    next
      assume "\<exists>e. ad_start s = StartFailed e"
      then obtain e' where "ad_start s = StartFailed e'" ..
      then show ?thesis using assms True Inr by (simp add: defs)
    qed
  qed
qed (use assms in \<open>simp add: pg_connects_def\<close>)

lemma life_listens: "life_inv s \<Longrightarrow> life_inv (pg_listens res s)"
  unfolding pg_listens_def failing_iff
  by (auto simp: life_inv_def closeClients_def start_settles_def failed_starts_def underway_def Let_def split: if_splits sum.split)

lemma life_close: "life_inv s \<Longrightarrow> life_inv (pg_close s)"
  by (auto simp: life_inv_def pg_close_def closeClients_def failed_starts_def underway_def pg_settled_def Let_def
      split: if_splits start_state.splits)

lemma life_closed:
  assumes "life_inv s"
  shows "life_inv (closeClients_done s)"
proof (cases "pg_ending s")
  case (Cons why rest)
  show ?thesis
  proof (cases why)
    case None
    then show ?thesis
      using assms Cons by (simp add: life_inv_def closeClients_done_def failed_starts_def underway_def) auto
  next
    case (Some e)
    then have u: "underway s" "filter (\<lambda>x. x \<noteq> None) rest = []" "None \<notin> set rest"
      using assms Cons by (auto simp: life_inv_def failed_starts_def)
    then have "rest = []" by (cases rest) (auto split: if_splits)
    then show ?thesis
      using assms Cons Some u
      by (simp add: life_inv_def closeClients_done_def start_settles_def closeClients_def failed_starts_def underway_def Let_def)
  qed
qed (use assms in \<open>simp add: closeClients_done_def\<close>)

lemma life_ended: "life_inv s \<Longrightarrow> life_inv (pg_ended c s)"
  by (cases "ad_start s") (auto simp: life_inv_def pg_ended_def failed_starts_def underway_def)

definition pg_inv :: "v8 \<Rightarrow> int \<Rightarrow> 'r postgres \<Rightarrow> bool" where
  "pg_inv lib n s \<longleftrightarrow> publish_inv lib (pg_check n) s \<and> pg_maxPayload s = n \<and> life_inv s"

text \<open>It is about the fields of the start and the clients only.\<close>

lemma life_same:
  "life_inv s \<Longrightarrow> ad_start s' = ad_start s \<Longrightarrow> ad_closed s' = ad_closed s \<Longrightarrow> pg_ending s' = pg_ending s
   \<Longrightarrow> pg_close_waits s' = pg_close_waits s \<Longrightarrow> pg_pending s' = pg_pending s \<Longrightarrow> pg_open s' = pg_open s
   \<Longrightarrow> pg_connected s' = pg_connected s \<Longrightarrow> life_inv s'"
  by (simp add: life_inv_def failed_starts_def underway_def)

text \<open>The whole invariant, with the limit, which nothing changes.\<close>

lemma publish_inv_fields [simp]:
  "publish_inv lib check (s\<lparr>pg_pending := x\<rparr>) = publish_inv lib check s"
  "publish_inv lib check (s\<lparr>pg_open := y\<rparr>) = publish_inv lib check s"
  "publish_inv lib check (s\<lparr>pg_connected := z\<rparr>) = publish_inv lib check s"
  "publish_inv lib check (s\<lparr>pg_ending := w\<rparr>) = publish_inv lib check s"
  by (simp_all add: publish_inv_def)

lemma pg_same:
  "publish_inv lib check s \<Longrightarrow> publish_inv lib check (closeClients w s)"
  "pg_maxPayload (closeClients w s) = pg_maxPayload s" "pg_maxPayload (start_settles st s) = pg_maxPayload s"
  by (auto simp: closeClients_def start_settles_def Let_def elim!: publish_inv_same)

lemma publish_inv_settles: "publish_inv lib check s \<Longrightarrow> underway s \<Longrightarrow> publish_inv lib check (start_settles st s)"
  unfolding start_settles_def Let_def underway_def
  by (auto intro!: pg_same elim!: publish_inv_start)

text \<open>The clients' ends settle the start that failed, when one did; the messages, the payload limit
  and the life of the clients are as they were.\<close>
lemma closeClients_done_inv:
  assumes p: "publish_inv lib (pg_check n) s" and n: "pg_maxPayload s = n" and l: "life_inv s"
  shows "publish_inv lib (pg_check n) (closeClients_done s) \<and> pg_maxPayload (closeClients_done s) = n"
proof (cases "pg_ending s")
  case (Cons why rest)
  show ?thesis
  proof (cases why)
    case (Some e)
    then have "underway s" using l Cons by (simp add: life_inv_def failed_starts_def)
    then have "underway (s\<lparr>pg_ending := rest, pg_connected := {}\<rparr>)" by (simp add: underway_def)
    then show ?thesis
      using Cons Some p n by (simp add: closeClients_done_def pg_same publish_inv_settles)
  qed (use Cons p n in \<open>simp add: closeClients_done_def\<close>)
qed (use p n in \<open>simp add: closeClients_done_def\<close>)

text \<open>Receiving, publishing and continuing a publication leave the clients and the limit alone.\<close>
lemma pg_messages_quiet:
  assumes l: "life_inv s"
  shows "life_inv (adapter_receive lib x s) \<and> pg_maxPayload (adapter_receive lib x s) = pg_maxPayload s"
    and "life_inv (pg_publish m s) \<and> pg_maxPayload (pg_publish m s) = pg_maxPayload s"
    and "life_inv (pg_continue lib s) \<and> pg_maxPayload (pg_continue lib s) = pg_maxPayload s"
  using l
  by (auto simp: adapter_receive_def pg_publish_def adapter_publish_def pg_continue_def adapter_continue_def
      split: sum.split option.split list.split start_state.split elim!: life_same)

interpretation pg_adapter: machine_inv "pg_step lib" "pg_inv lib n" for lib n
proof
  fix s :: "'a postgres" and e
  assume i: "pg_inv lib n s"
  then have p: "publish_inv lib (pg_check n) s" and n: "pg_maxPayload s = n" and l: "life_inv s"
    by (simp_all add: pg_inv_def)
  show "pg_inv lib n (pg_step lib s e)"
  proof (cases e)
    case (PgStart r)
    then show ?thesis
      using p n life_start [OF l, of r] adapter_start_inv [OF p, of "''Cannot start a closed PostgreSQL adapter''" r]
      by (simp add: pg_inv_def pg_start_def split: prod.split) (simp add: adapter_start_def split: if_splits)
  next
    case (PgConnects c res)
    then show ?thesis
      using p n life_connects [OF l, of c res]
      by (auto simp: pg_inv_def pg_connects_def Let_def pg_same elim!: publish_inv_same publish_inv_start
          intro!: pg_same split: sum.split)
  next
    case (PgListens res)
    then show ?thesis
      using p n life_listens [OF l, of res]
      by (auto simp: pg_inv_def pg_listens_def pg_same underway_def intro!: pg_same publish_inv_settles split: sum.split)
  next
    case (PgEnded c)
    then show ?thesis using p n life_ended [OF l, of c] by (auto simp: pg_inv_def pg_ended_def elim!: publish_inv_same)
  next
    case (PgNotification ch q)
    then show ?thesis
      using p n l pg_messages_quiet(1) [OF l]
      by (auto simp: pg_inv_def pg_notification_def handleNotification_def adapter_receive_same elim!: publish_inv_same split: option.split)
  next
    case (PgPublish m)
    then show ?thesis
      using p n pg_messages_quiet(2) [OF l] by (simp add: pg_inv_def pg_publish_def adapter_inv_rules)
  next
    case PgContinue
    then show ?thesis
      using p n pg_messages_quiet(3) [OF l] by (simp add: pg_inv_def pg_continue_def adapter_inv_rules)
  next
    case PgClose
    then show ?thesis
      using p n life_close [OF l]
      by (auto simp: pg_inv_def pg_close_def Let_def pg_same intro!: pg_same elim!: publish_inv_same)
  next
    case PgClosed
    then show ?thesis using p n l life_closed [OF l] closeClients_done_inv [OF p n l] by (simp add: pg_inv_def)
  qed
qed

lemma new_postgres_inv: "new_postgres channel limit = Inr s \<Longrightarrow> pg_inv lib (pg_maxPayload s) s"
  by (auto simp: new_postgres_def pg_inv_def publish_inv_def life_inv_def failed_starts_def underway_def
      new_adapter_def adapter.extend_def Let_def split: if_splits jsnum.splits)

lemma sendable_pg:
  "sendable lib (pg_check n) m \<longleftrightarrow>
     (case v8_serialize lib m of Inl _ \<Rightarrow> False | Inr bs \<Rightarrow> 4 * ((int (length bs) + 2) div 3) \<le> n)"
proof -
  have "int (4 * ((k + 2) div 3)) = 4 * ((int k + 2) div 3)" for k :: nat
    by (simp add: zdiv_int)
  then show ?thesis
    by (auto simp: sendable_def adapter_payload_def pg_check_def base64_length split: sum.split)
qed

text \<open>
  C15: In every state of a PostgreSQL adapter the calls of \<open>publish\<close> that were let in are those dealt with, then
  those that wait. A start that failed, or has not succeeded, publishes nothing; after a start that succeeded
  the payloads handed to the database are those of the calls dealt with, in call order, except messages that
  cannot be serialized or whose encoding of \<open>4 * \<lceil>n / 3\<rceil>\<close> characters is over the limit. No payload is over it,
  and each is read back as the message.
\<close>

theorem postgres_publishes:
  assumes "new_postgres channel limit = Inr s0" and "s = foldl (pg_step lib) s0 es"
    and "\<And>m bs. v8_serialize lib m = Inr bs \<Longrightarrow> v8_deserialize lib bs = Inr m"
  shows "\<exists>done. ad_accepted s = done @ ad_waiting s
      \<and> map (\<lambda>p. v8_deserialize lib (base64_decode p)) (ad_out s)
          = (if ad_start s = Started
             then map Inr (filter (\<lambda>m. case v8_serialize lib m of Inl _ \<Rightarrow> False
                 | Inr bs \<Rightarrow> 4 * ((int (length bs) + 2) div 3) \<le> pg_maxPayload s0) done)
             else [])
      \<and> (\<forall>p \<in> set (ad_out s). int (length p) \<le> pg_maxPayload s0)"
proof -
  let ?n = "pg_maxPayload s0" and ?ok = "sendable lib (pg_check (pg_maxPayload s0))"
  have "pg_inv lib ?n s" unfolding assms(2) by (rule pg_adapter.run_inv [OF new_postgres_inv [OF assms(1)]])
  then obtain d where d: "ad_accepted s = d @ ad_waiting s"
    "ad_out s = (if ad_start s = Started then map (payload_of lib) (filter ?ok d) else [])"
    by (auto simp: pg_inv_def publish_inv_def)
  have read: "v8_deserialize lib (base64_decode (payload_of lib m)) = Inr m" "int (length (payload_of lib m)) \<le> ?n"
    if "?ok m" for m
    using that assms(3)
    by (auto simp: sendable_pg payload_of_def base64_roundtrip base64_length zdiv_int add.commute split: sum.splits)
  have ok: "?ok = (\<lambda>m. case v8_serialize lib m of Inl _ \<Rightarrow> False
      | Inr bs \<Rightarrow> 4 * ((int (length bs) + 2) div 3) \<le> ?n)"
    by (simp add: fun_eq_iff sendable_pg)
  have "map (\<lambda>p. v8_deserialize lib (base64_decode p)) (map (payload_of lib) (filter ?ok d)) = map Inr (filter ?ok d)"
    by (simp add: read)
  moreover have "\<forall>p \<in> set (ad_out s). int (length p) \<le> ?n" using d(2) read(2) by (auto split: if_splits)
  ultimately show ?thesis using d unfolding ok by auto
qed

text \<open>A library that knows one message.\<close>

definition one_message :: adapter_message where
  "one_message = \<lparr>am_origin = js ''a'', am_room = js ''r'', am_tag = js ''t'', am_values = []\<rparr>"

definition one_message_v8 :: v8 where
  "one_message_v8 =
     \<lparr>v8_serialize = (\<lambda>m. if m = one_message then Inr [1] else Inl (Error ''DataCloneError'')),
      v8_deserialize = (\<lambda>bs. Inr one_message)\<rparr>"

definition started_events :: "unit pg_event list" where
  "started_events =
     [PgStart (), PgPublish one_message, PgConnects Publisher (Inr ()), PgConnects Subscriber (Inr ()), PgListens (Inr ())]"

lemmas pg_run_simps = started_events_def pg_start_def adapter_start_def pg_publish_def adapter_publish_def pg_connects_def
  pg_failing_def closeClients_def closeClients_done_def start_settles_def pg_listens_def pg_close_def pg_settled_def
  pg_continue_def adapter_continue_def adapter_payload_def pg_check_def new_adapter_def adapter.extend_def Let_def

definition pg0 :: "unit postgres" where
  "pg0 = adapter.extend (new_adapter (js ''sonic_ws_broadcast''))
     \<lparr>pg_maxPayload = 7999, pg_connected = {}, pg_ending = [], pg_close_waits = False, pg_pending = {}, pg_open = {}\<rparr>"

lemma pg0_new: "new_postgres None None = Inr pg0"
  by (simp add: new_postgres_def pg0_def MAX_NOTIFY_PAYLOAD_BYTES_def Let_def)

lemma two_clients: "{Publisher, Subscriber} - {Publisher} - {Subscriber} = {}" "{Publisher, Subscriber} - {Subscriber} = {Publisher}"
  "{Publisher, Subscriber} - {Publisher} = {Subscriber}"
  by auto

lemma postgres_publishes_witness:
  "let s = foldl (pg_step one_message_v8) pg0 (started_events @ [PgContinue])
   in length (ad_out s) = 1 \<and> ad_start s = Started \<and> (\<forall>p \<in> set (ad_out s). int (length p) \<le> 7999)"
proof -
  let ?s = "foldl (pg_step one_message_v8) pg0 (started_events @ [PgContinue])"
  have "v8_serialize one_message_v8 m = Inr bs \<Longrightarrow> v8_deserialize one_message_v8 bs = Inr m" for m bs
    by (auto simp: one_message_v8_def split: if_splits)
  then have "\<forall>p \<in> set (ad_out ?s). int (length p) \<le> pg_maxPayload pg0"
    using postgres_publishes [OF pg0_new refl, of one_message_v8 "started_events @ [PgContinue]"] by blast
  moreover have "length (ad_out ?s) = 1 \<and> ad_start ?s = Started"
    by (simp add: pg_run_simps pg0_def two_clients one_message_v8_def)
  moreover have "pg_maxPayload pg0 = 7999" by (simp add: pg0_def adapter.extend_def)
  ultimately show ?thesis by (simp add: Let_def)
qed

text \<open>
  C18: A PostgreSQL adapter that was started and closed, in whatever order its connections, its subscription and
  its closing settle, leaves no client open.
\<close>

theorem postgres_close:
  assumes "new_postgres channel limit = Inr s0" and "s = foldl (pg_step lib) s0 es"
    and "ad_start s = Started" and "ad_closed s"
  shows "pg_open s = {}"
proof -
  have "pg_inv lib (pg_maxPayload s0) s"
    unfolding assms(2) by (rule pg_adapter.run_inv [OF new_postgres_inv [OF assms(1)]])
  then show ?thesis using assms(3,4) by (auto simp: pg_inv_def life_inv_def)
qed

lemma postgres_close_witness:
  "pg_open (foldl (pg_step one_message_v8) pg0 (started_events @ [PgClose, PgClosed])) = {}"
  by (rule postgres_close [OF pg0_new refl]) (simp_all add: pg_run_simps pg0_def two_clients)

text \<open>
  Not so after a start that failed: a client that connects after \<open>close\<close> ended the clients stays open, and
  nothing is left that would end it.
\<close>

lemma postgres_close_leaks:
  assumes "new_postgres channel limit = Inr s0"
    and "s = foldl (pg_step lib) s0 [PgStart r, PgConnects Subscriber (Inl e), PgClosed, PgClose, PgClosed,
                                   PgConnects Publisher (Inr ())]"
  shows "ad_closed s \<and> pg_ending s = [] \<and> \<not> pg_close_waits s \<and> pg_open s = {Publisher}"
proof -
  have "ad_start s0 = Idle" "\<not> ad_closed s0" "pg_ending s0 = []" "pg_open s0 = {}" "\<not> pg_close_waits s0" "pg_connected s0 = {}"
    using assms(1)
    by (auto simp: new_postgres_def new_adapter_def adapter.extend_def Let_def split: if_splits jsnum.splits)
  moreover have "{Publisher, Subscriber} - {Subscriber} = {Publisher}" by auto
  ultimately show ?thesis
    unfolding assms(2)
    by (simp add: pg_start_def adapter_start_def pg_connects_def pg_failing_def closeClients_def closeClients_done_def
        start_settles_def pg_close_def pg_settled_def Let_def)
qed

text \<open>The identifier of the \<open>LISTEN\<close> query ends where the channel ends, whatever characters it has.\<close>

fun read_identifier :: "jsstr \<Rightarrow> jsstr \<times> jsstr" where
  "read_identifier [] = ([], [])"
| "read_identifier (u # us) =
     (if u \<noteq> 34 then (case read_identifier us of (s, rest) \<Rightarrow> (u # s, rest))
      else (case us of v # vs \<Rightarrow> if v = 34 then (case read_identifier vs of (s, rest) \<Rightarrow> (34 # s, rest)) else ([], us)
            | [] \<Rightarrow> ([], [])))"

lemma read_double_quotes:
  "(rest = [] \<or> hd rest \<noteq> 34) \<Longrightarrow> read_identifier (double_quotes s @ 34 # rest) = (s, rest)"
  by (induction s) (auto split: list.split)

lemma quoteIdentifier_safe:
  "rest = [] \<or> hd rest \<noteq> 34 \<Longrightarrow> read_identifier (tl (quoteIdentifier s @ rest)) = (s, rest)"
  by (simp add: quoteIdentifier_def read_double_quotes)

end
