(* ===== verification/Sonic_Server.thy ===== *)
theory Sonic_Server
  imports Server_Connection Rooms Schema_Handshake Heartbeat Adapters
begin

text \<open>
  The server: \<open>projects/ts/src/ws/server/SonicWSServer.ts\<close>, composed of the connections, rooms, sessions,
  heartbeats and the schema handshake. A connection object is named by its position in \<open>sv_peers\<close>, which is
  not its numeric id. Awaits of hooks, of \<open>processPacket\<close> and of a custom authorization are answered by
  events, in any order. What the environment knows (times, fresh session ids, the \<open>userId\<close> of a state
  object) is an argument of the event. HTTP, files and the update check are not modelled.
\<close>

section \<open>Options\<close>

record server_options =
  op_maxDisconnection :: "jsnum option"
  op_maxPackets :: "jsnum option"
  op_handshakeTimeout :: "jsnum option"
  op_heartbeat :: "bool option"
  op_heartbeatInterval :: "jsnum option"
  op_heartbeatTimeout :: "jsnum option"

definition opt_or :: "'a option \<Rightarrow> 'a \<Rightarrow> 'a" where
  "opt_or x d = (case x of None \<Rightarrow> d | Some y \<Rightarrow> y)"

definition finite_at_least :: "rat \<Rightarrow> jsnum \<Rightarrow> bool" where
  "finite_at_least m x = (case x of Fin r \<Rightarrow> m \<le> r | _ \<Rightarrow> False)"

definition finite_positive :: "jsnum \<Rightarrow> bool" where
  "finite_positive x = (case x of Fin r \<Rightarrow> 0 < r | _ \<Rightarrow> False)"

definition heartbeat_interval :: "server_options \<Rightarrow> jsnum" where
  "heartbeat_interval o' =
     (if opt_or (op_heartbeat o') True then opt_or (op_heartbeatInterval o') (Fin 30000) else Fin 0)"

definition check_options :: "server_options \<Rightarrow> unit result" where
  "check_options o' =
     (if \<not> finite_at_least 0 (opt_or (op_maxDisconnection o') (Fin 120000))
      then Inl (Error ''recovery.maxDisconnectionMs must be a non-negative finite number'')
      else if \<not> (case opt_or (op_maxPackets o') (Fin 1000) of Fin r \<Rightarrow> rat_is_int r \<and> 0 \<le> r | _ \<Rightarrow> False)
      then Inl (Error ''recovery.maxPackets must be a non-negative integer'')
      else if \<not> finite_positive (opt_or (op_handshakeTimeout o') (Fin 10000))
      then Inl (Error ''handshakeTimeoutMs must be positive'')
      else if \<not> finite_at_least 0 (heartbeat_interval o')
           \<or> \<not> finite_positive (opt_or (op_heartbeatTimeout o') (Fin 10000))
      then Inl (Error ''Invalid heartbeat timing options'')
      else Inr ())"

definition normalizeRateLimit :: "jsnum \<Rightarrow> int result" where
  "normalizeRateLimit limit =
     (case limit of
        Fin r \<Rightarrow> if r < 0 then Inl (Error ''Rate limit must be a non-negative finite number'')
                 else let l = \<lfloor>r\<rfloor> in Inr (if l > int MAX_USHORT then 0 else l)
      | _ \<Rightarrow> Inl (Error ''Rate limit must be a non-negative finite number''))"

section \<open>State\<close>

record peer =
  pe_conn :: server_conn
  pe_id :: nat
  pe_own :: jsstr
  pe_session :: jsstr
  pe_state :: jsstr
  pe_heart :: heartbeat
  pe_waiting :: bool
  pe_live :: bool
  pe_closed :: bool

text \<open>
  Whether the hooks are still asked, whether the connection was registered, and whether its close event
  came (which the code does not keep).
\<close>

datatype bc_target = ToAll | ToTagged jsstr | ToFilter "nat \<Rightarrow> bool"

datatype bc_pc = BcPre | BcProcess | BcPost "nat \<times> u8 list \<times> packet"

text \<open>
  A broadcast under way: the recipients (\<open>None\<close> is the live list of connections), and the message an
  adapter is given once it is done.
\<close>

record broadcast =
  bc_recipients :: "nat list option"
  bc_pc :: bc_pc
  bc_publish :: "adapter_message option"

record server =
  sv_host :: server_host
  sv_keys :: "u8 list"
  sv_serverId :: jsstr
  sv_maxPackets :: nat
  sv_maxDisconnection :: int
  sv_interval :: int
  sv_custom :: bool
  sv_available :: "nat list"
  sv_lastId :: nat
  sv_peers :: "peer list"
  sv_connections :: "nat list"
  sv_map :: "nat \<rightharpoonup> nat"
  sv_clientRate :: int
  sv_serverRate :: int
  sv_handshake :: "jsstr option"
  sv_rooms :: "nat rooms"
  sv_sessions :: sessions
  sv_resumes :: "(nat \<times> jsstr \<times> session \<times> nat) list"
  sv_broadcasts :: "broadcast list"
  sv_connects :: "nat list"
  sv_recovered :: "(nat \<times> nat) list"
  sv_published :: "adapter_message list"
  sv_errors :: "js_error list"

text \<open>The last four are observed: calls of the listeners and the adapter, and unhandled rejections.\<close>

definition new_server ::
  "server_host \<Rightarrow> jsstr \<Rightarrow> nat \<Rightarrow> int \<Rightarrow> int \<Rightarrow> bool \<Rightarrow> server result" where
  "new_server host serverId maxPackets maxDisconnection interval custom =
     bindR (key_data (sh_lib host) (sh_client host) (sh_server host)) (\<lambda>keys.
       Inr \<lparr>sv_host = host, sv_keys = keys, sv_serverId = serverId, sv_maxPackets = maxPackets,
            sv_maxDisconnection = maxDisconnection, sv_interval = interval, sv_custom = custom,
            sv_available = [], sv_lastId = 0, sv_peers = [], sv_connections = [], sv_map = Map.empty,
            sv_clientRate = 500, sv_serverRate = 500, sv_handshake = None, sv_rooms = no_rooms,
            sv_sessions = [], sv_resumes = [], sv_broadcasts = [], sv_connects = [], sv_recovered = [],
            sv_published = [], sv_errors = []\<rparr>)"

definition sv_throw :: "js_error \<Rightarrow> server \<Rightarrow> server" where
  "sv_throw e sv = sv\<lparr>sv_errors := sv_errors sv @ [e]\<rparr>"

definition peer :: "nat \<Rightarrow> server \<Rightarrow> peer" where
  "peer c sv = sv_peers sv ! c"

definition set_peer :: "nat \<Rightarrow> peer \<Rightarrow> server \<Rightarrow> server" where
  "set_peer c p sv = sv\<lparr>sv_peers := (sv_peers sv)[c := p]\<rparr>"

definition set_conn :: "nat \<Rightarrow> server_conn \<Rightarrow> server \<Rightarrow> server" where
  "set_conn c sc sv = set_peer c ((peer c sv)\<lparr>pe_conn := sc\<rparr>) sv"

text \<open>\<open>socket.send\<close> and \<open>socket.close\<close>, past the connection object.\<close>

definition socket_send :: "u8 list \<Rightarrow> server_conn \<Rightarrow> server_conn" where
  "socket_send data sc = sc\<lparr>sc_conn := (sc_conn sc)\<lparr>cn_sent := cn_sent (sc_conn sc) @ [data]\<rparr>\<rparr>"

definition socket_close :: "close_code \<Rightarrow> jsstr \<Rightarrow> server_conn \<Rightarrow> server_conn" where
  "socket_close code reason sc =
     sc\<lparr>sc_conn := (sc_conn sc)\<lparr>cn_closes := cn_closes (sc_conn sc) @ [(code_number code, reason)]\<rparr>\<rparr>"

section \<open>Connecting\<close>

definition generateSocketID :: "server \<Rightarrow> nat \<times> server" where
  "generateSocketID sv =
     (case (if sv_available sv = [] then [sv_lastId sv + 1] else sv_available sv) of
        i # rest \<Rightarrow> (i, sv\<lparr>sv_available := rest, sv_lastId := i\<rparr>)
      | [] \<Rightarrow> (0, sv))"

text \<open>A socket arrives: its session and connection object are made, and the hooks asked.\<close>

definition connect :: "jsstr \<Rightarrow> int \<Rightarrow> server \<Rightarrow> server" where
  "connect sid now sv =
     (case generateSocketID (sv\<lparr>sv_sessions := AList.update sid (new_session sid) (sv_sessions sv)\<rparr>) of
        (i, sv1) \<Rightarrow>
          (case new_server_conn (sv_host sv1) i (sv_handshake sv1) (sv_clientRate sv1) (sv_serverRate sv1) of
             Inl e \<Rightarrow> sv_throw e sv1
           | Inr sc \<Rightarrow>
               sv1\<lparr>sv_peers := sv_peers sv1 @
                 [\<lparr>pe_conn = sc, pe_id = i, pe_own = sid, pe_session = sid, pe_state = sid,
                   pe_heart = new_heartbeat (sv_interval sv1) now, pe_waiting = True, pe_live = False,
                   pe_closed = False\<rparr>]\<rparr>))"

text \<open>
  The hooks answered: the connection is turned away, or gets its hello and is registered together with
  the close handler.
\<close>

definition admit :: "nat \<Rightarrow> bool \<Rightarrow> server \<Rightarrow> server" where
  "admit c blocked sv =
     (let p = (peer c sv)\<lparr>pe_waiting := False\<rparr>
      in if blocked then
           (set_peer c (p\<lparr>pe_conn := sc_close MIDDLEWARE (js ''Connection blocked by middleware'') (pe_conn p)\<rparr>) sv)
             \<lparr>sv_available := sv_available sv @ [pe_id p], sv_sessions := AList.delete (pe_own p) (sv_sessions sv)\<rparr>
         else (case server_hello (sh_core (sv_host sv)) (pe_id p) (pe_own p) (sv_keys sv) of
                 Inl e \<Rightarrow> sv_throw e (set_peer c p sv)
               | Inr frame \<Rightarrow>
                   (set_peer c (p\<lparr>pe_conn := socket_send frame (pe_conn p), pe_live := True\<rparr>) sv)
                     \<lparr>sv_connections := sv_connections sv @ [c], sv_map := (sv_map sv)(pe_id p \<mapsto> c),
                      sv_connects := sv_connects sv @ [c]\<rparr>))"

definition splice_out :: "'a \<Rightarrow> 'a list \<Rightarrow> 'a list" where
  "splice_out x xs = (if x \<in> set xs then remove1 x xs else butlast xs)"

text \<open>A socket closes: the handler of the connection object, then the server's if it was registered.\<close>

definition disconnect :: "nat \<Rightarrow> int \<Rightarrow> server \<Rightarrow> server" where
  "disconnect c now sv =
     (let p = peer c sv; p1 = p\<lparr>pe_conn := on_socket_close (pe_conn p), pe_closed := True\<rparr>
      in if \<not> pe_live p then set_peer c p1 sv
         else let rooms = tags_of (sv_rooms sv) c
              in (set_peer c (p1\<lparr>pe_heart := hb_close (pe_heart p)\<rparr>) sv)
                   \<lparr>sv_connections := splice_out c (sv_connections sv), sv_map := (sv_map sv)(pe_id p := None),
                    sv_available := sv_available sv @ [pe_id p], sv_rooms := forget_connection c (sv_rooms sv),
                    sv_sessions := session_closed (now + sv_maxDisconnection sv) rooms (pe_session p) (sv_sessions sv)\<rparr>)"

definition expiry_timer :: "int \<Rightarrow> jsstr \<Rightarrow> server \<Rightarrow> server" where
  "expiry_timer now sid sv = sv\<lparr>sv_sessions := session_expiry now sid (sv_sessions sv)\<rparr>"

text \<open>What the heartbeat does to the socket.\<close>

fun heart_calls :: "hb_call list \<Rightarrow> server_conn \<Rightarrow> server_conn" where
  "heart_calls [] sc = sc"
| "heart_calls (Ping # hs) sc = heart_calls hs (socket_send [0] sc)"
| "heart_calls (TimeoutClose # hs) sc =
     heart_calls hs (socket_close HEARTBEAT_TIMEOUT (js ''Heartbeat timeout'') sc)"
| "heart_calls (Terminate # hs) sc = heart_calls hs sc"

definition heart_event :: "nat \<Rightarrow> hb_event \<Rightarrow> server \<Rightarrow> server" where
  "heart_event c e sv =
     (let p = peer c sv; h = hb_step (pe_heart p) e
      in set_peer c (p\<lparr>pe_heart := h,
                       pe_conn := heart_calls (drop (length (hb_log (pe_heart p))) (hb_log h)) (pe_conn p)\<rparr>) sv)"

section \<open>Sending\<close>

definition send_raw :: "nat \<Rightarrow> u8 list \<Rightarrow> (server, unit) st_result" where
  "send_raw c data sv = (case raw_send data (pe_conn (peer c sv)) of (r, sc) \<Rightarrow> (r, set_conn c sc sv))"

fun send_frames :: "nat \<Rightarrow> u8 list list \<Rightarrow> (server, unit) st_result" where
  "send_frames c [] sv = (Inr (), sv)"
| "send_frames c (f # fs) sv =
     (case send_raw c f sv of (Inl e, sv') \<Rightarrow> (Inl e, sv') | (Inr _, sv') \<Rightarrow> send_frames c fs sv')"

text \<open>
  \<open>send_processed\<close> of one connection: a replayable packet is stored in its session, unless the rate limit
  stopped it before.
\<close>

definition sv_send_processed :: "nat \<Rightarrow> nat \<times> u8 list \<times> packet \<Rightarrow> (server, unit) st_result" where
  "sv_send_processed c x sv =
     (case x of (code, data, p) \<Rightarrow>
        let sc = pe_conn (peer c sv); frame = toPacketBuffer code data
        in if pk_replay p \<and> pk_dataBatching p = Some 0 \<and> \<not> fst (sc_trigger (js ''server'' @ js_of_nat code) sc)
           then (case replayFrame (sv_maxPackets sv) (pe_session (peer c sv)) frame (sv_sessions sv) of
                   (Inl e, ss) \<Rightarrow>
                     (Inl e, set_conn c (snd (sc_trigger (js ''server'' @ js_of_nat code) sc)) (sv\<lparr>sv_sessions := ss\<rparr>))
                 | (Inr f, ss) \<Rightarrow>
                     (case send_processed (\<lambda>_. f) code data p sc of
                        (r, sc') \<Rightarrow> (r, set_conn c sc' (sv\<lparr>sv_sessions := ss\<rparr>))))
           else (case send_processed (\<lambda>f. f) code data p sc of (r, sc') \<Rightarrow> (r, set_conn c sc' sv)))"

text \<open>\<open>send\<close> of a connection, once its queue gave the result and the hooks answered.\<close>

definition sv_finish_send :: "nat \<Rightarrow> bool \<Rightarrow> nat \<times> u8 list \<times> packet \<Rightarrow> (server, unit) st_result" where
  "sv_finish_send c hook x sv = (if hook then (Inr (), sv) else sv_send_processed c x sv)"

section \<open>Recovery\<close>

definition send_resumed :: "nat \<Rightarrow> bool \<Rightarrow> nat \<Rightarrow> (server, unit) st_result" where
  "send_resumed c recovered n sv =
     (case encodeResumed recovered n of Inl e \<Rightarrow> (Inl e, sv) | Inr frame \<Rightarrow> send_raw c frame sv)"

fun join_all :: "nat \<Rightarrow> jsstr list \<Rightarrow> (nat rooms, unit) st_result" where
  "join_all c [] s = (Inr (), s)"
| "join_all c (r # rs) s =
     (case join_room c r s of (Inl e, s') \<Rightarrow> (Inl e, s') | (Inr _, s') \<Rightarrow> join_all c rs s')"

definition refuse_resume :: "nat \<Rightarrow> server \<Rightarrow> server" where
  "refuse_resume c sv = (case send_resumed c False 0 sv of (Inl e, sv') \<Rightarrow> sv_throw e sv' | (Inr _, sv') \<Rightarrow> sv')"

definition restore :: "nat \<Rightarrow> jsstr \<Rightarrow> session \<Rightarrow> server \<Rightarrow> server" where
  "restore c sid ses sv =
     (set_peer c ((peer c sv)\<lparr>pe_session := sid, pe_state := ses_state ses\<rparr>) sv)
       \<lparr>sv_sessions := take_over (pe_session (peer c sv)) sid ses (sv_sessions sv)\<rparr>"

definition rejoin :: "nat \<Rightarrow> session \<Rightarrow> (server, unit) st_result" where
  "rejoin c ses sv = (case join_all c (ses_rooms ses) (sv_rooms sv) of (r, s) \<Rightarrow> (r, sv\<lparr>sv_rooms := s\<rparr>))"

definition repeat_missed :: "nat \<Rightarrow> session \<Rightarrow> nat \<Rightarrow> (server, unit) st_result" where
  "repeat_missed c ses lastSequence sv =
     (case send_frames c (missed_frames lastSequence ses) sv of
        (Inl e, sv') \<Rightarrow> (Inl e, sv')
      | (Inr _, sv') \<Rightarrow> send_resumed c True (length (missed_frames lastSequence ses)) sv')"

text \<open>
  The part of \<open>resumeSession\<close> after the authorization. The session is the object found before it: its
  present contents while it is still listed.
\<close>

definition finish_resume :: "bool \<Rightarrow> nat \<Rightarrow> jsstr \<Rightarrow> session \<Rightarrow> nat \<Rightarrow> server \<Rightarrow> server" where
  "finish_resume authorized c sid found lastSequence sv =
     (if \<not> authorized then refuse_resume c sv
      else let ses = (case map_of (sv_sessions sv) sid of Some s \<Rightarrow> s | None \<Rightarrow> found)
           in (case rejoin c ses (restore c sid ses sv) of
                 (Inl e, sv1) \<Rightarrow> sv_throw e sv1
               | (Inr _, sv1) \<Rightarrow>
                   (case repeat_missed c ses lastSequence sv1 of
                      (Inl e, sv2) \<Rightarrow> sv_throw e sv2
                    | (Inr _, sv2) \<Rightarrow>
                        sv2\<lparr>sv_recovered := sv_recovered sv2 @ [(c, length (missed_frames lastSequence ses))]\<rparr>)))"

definition resumeSession :: "(jsstr \<Rightarrow> jsval) \<Rightarrow> int \<Rightarrow> nat \<Rightarrow> jsstr \<Rightarrow> nat \<Rightarrow> server \<Rightarrow> server" where
  "resumeSession userId now c sid lastSequence sv =
     (case map_of (sv_sessions sv) sid of
        None \<Rightarrow> refuse_resume c sv
      | Some ses \<Rightarrow>
          if \<not> session_open now (Some ses) then refuse_resume c sv
          else if sv_custom sv then sv\<lparr>sv_resumes := sv_resumes sv @ [(c, sid, ses, lastSequence)]\<rparr>
          else finish_resume (default_authorize userId (ses_state ses) (pe_state (peer c sv))) c sid ses lastSequence sv)"

definition authorized_answer :: "nat \<Rightarrow> bool \<Rightarrow> server \<Rightarrow> server" where
  "authorized_answer k ok sv =
     (if k < length (sv_resumes sv) then
        (case sv_resumes sv ! k of
           (c, sid, ses, lastSequence) \<Rightarrow>
             finish_resume ok c sid ses lastSequence (sv\<lparr>sv_resumes := remove_at k (sv_resumes sv)\<rparr>))
      else sv)"

text \<open>A frame of a client: the heartbeat first, then the connection, whose recovery request is served at once.\<close>

fun host_calls :: "(jsstr \<Rightarrow> jsval) \<Rightarrow> int \<Rightarrow> nat \<Rightarrow> host_call list \<Rightarrow> server \<Rightarrow> server" where
  "host_calls userId now c [] sv = sv"
| "host_calls userId now c (ResumeSession sid lastSequence # hs) sv =
     host_calls userId now c hs (resumeSession userId now c sid lastSequence sv)"

definition conn_event :: "(jsstr \<Rightarrow> jsval) \<Rightarrow> int \<Rightarrow> nat \<Rightarrow> sc_event \<Rightarrow> server \<Rightarrow> server" where
  "conn_event userId now c e sv =
     (let sc = pe_conn (peer c sv); sc' = sc_step (sv_host sv) sc e
      in host_calls userId now c (drop (length (sc_hostCalls sc)) (sc_hostCalls sc')) (set_conn c sc' sv))"

definition client_message :: "(jsstr \<Rightarrow> jsval) \<Rightarrow> int \<Rightarrow> nat \<Rightarrow> ws_data \<Rightarrow> server \<Rightarrow> server" where
  "client_message userId now c d sv = conn_event userId now c (Message d) (heart_event c (HbMessage now) sv)"

section \<open>Broadcasting\<close>

definition target_recipients :: "bc_target \<Rightarrow> server \<Rightarrow> nat list option" where
  "target_recipients target sv =
     (case target of
        ToAll \<Rightarrow> None
      | ToTagged tg \<Rightarrow> Some (members_of (sv_rooms sv) tg)
      | ToFilter f \<Rightarrow> Some (filter f (sv_connections sv)))"

definition publish :: "adapter_message option \<Rightarrow> server \<Rightarrow> server" where
  "publish m sv = (case m of None \<Rightarrow> sv | Some x \<Rightarrow> sv\<lparr>sv_published := sv_published sv @ [x]\<rparr>)"

definition broadcastInternal :: "bc_target \<Rightarrow> adapter_message option \<Rightarrow> server \<Rightarrow> server" where
  "broadcastInternal target after sv =
     (if (case target of ToTagged tg \<Rightarrow> map_of (rm_inv (sv_rooms sv)) tg = None | _ \<Rightarrow> False) then publish after sv
      else sv\<lparr>sv_broadcasts := sv_broadcasts sv @
        [\<lparr>bc_recipients = target_recipients target sv, bc_pc = BcPre, bc_publish = after\<rparr>]\<rparr>)"

definition recipients_now :: "broadcast \<Rightarrow> server \<Rightarrow> nat list" where
  "recipients_now b sv = (case bc_recipients b of None \<Rightarrow> sv_connections sv | Some cs \<Rightarrow> cs)"

text \<open>The frame goes to one recipient after the other; a throw ends the loop.\<close>

fun send_each :: "nat list \<Rightarrow> nat \<times> u8 list \<times> packet \<Rightarrow> (server, unit) st_result" where
  "send_each [] x sv = (Inr (), sv)"
| "send_each (c # cs) x sv =
     (case sv_send_processed c x sv of (Inl e, sv') \<Rightarrow> (Inl e, sv') | (Inr _, sv') \<Rightarrow> send_each cs x sv')"

definition resume_broadcast ::
  "nat \<Rightarrow> bool \<Rightarrow> (nat \<times> u8 list \<times> packet) result \<Rightarrow> server \<Rightarrow> server" where
  "resume_broadcast k cancelled processed sv =
     (if k < length (sv_broadcasts sv) then
        let b = sv_broadcasts sv ! k; sv1 = sv\<lparr>sv_broadcasts := remove_at k (sv_broadcasts sv)\<rparr>;
            later = (\<lambda>pc. sv1\<lparr>sv_broadcasts := sv_broadcasts sv1 @ [b\<lparr>bc_pc := pc\<rparr>]\<rparr>)
        in (case bc_pc b of
              BcPre \<Rightarrow>
                if cancelled \<or> recipients_now b sv1 = [] then publish (bc_publish b) sv1 else later BcProcess
            | BcProcess \<Rightarrow>
                (case processed of Inl e \<Rightarrow> sv_throw e sv1 | Inr x \<Rightarrow> later (BcPost x))
            | BcPost x \<Rightarrow>
                if cancelled then publish (bc_publish b) sv1
                else (case send_each (recipients_now b sv1) x sv1 of
                        (Inl e, sv2) \<Rightarrow> sv_throw e sv2
                      | (Inr _, sv2) \<Rightarrow> publish (bc_publish b) sv2))
      else sv)"

definition broadcastRoom :: "jsstr \<Rightarrow> jsstr \<Rightarrow> jsval list \<Rightarrow> server \<Rightarrow> server" where
  "broadcastRoom room tg vs sv =
     broadcastInternal (ToTagged room)
       (Some \<lparr>am_origin = sv_serverId sv, am_room = room, am_tag = tg, am_values = vs\<rparr>) sv"

definition broadcastRoomExcept :: "nat \<Rightarrow> jsstr \<Rightarrow> jsstr \<Rightarrow> jsval list \<Rightarrow> server \<Rightarrow> server" where
  "broadcastRoomExcept c room tg vs sv =
     broadcastInternal (ToFilter (\<lambda>d. d \<noteq> c \<and> room \<in> set (tags_of (sv_rooms sv) d)))
       (Some \<lparr>am_origin = sv_serverId sv, am_room = room, am_tag = tg, am_values = vs\<rparr>) sv"

text \<open>The broadcasts of a connection leave it out.\<close>

definition broadcastFrom :: "nat \<Rightarrow> (nat \<Rightarrow> bool) \<Rightarrow> server \<Rightarrow> server" where
  "broadcastFrom c f sv = broadcastInternal (ToFilter (\<lambda>d. d \<noteq> c \<and> f d)) None sv"

definition receiveAdapterBroadcast :: "adapter_message \<Rightarrow> server \<Rightarrow> server" where
  "receiveAdapterBroadcast m sv =
     (if am_origin m = sv_serverId sv then sv else broadcastInternal (ToTagged (am_room m)) None sv)"

section \<open>Settings\<close>

definition requireHandshake :: "jsstr \<Rightarrow> (server, unit) st_result" where
  "requireHandshake tg sv =
     (if \<not> hasTag (sh_client (sv_host sv)) tg
      then (Inl (Error ''The client does not define the packet so it cannot be used as a handshake''), sv)
      else case getPacket (sh_client (sv_host sv)) tg of
        Inl e \<Rightarrow> (Inl e, sv)
      | Inr p \<Rightarrow>
          if pk_dataBatching p \<noteq> Some 0
          then (Inl (Error ''The batched packet cannot be used as a handshake''), sv)
          else (Inr (), sv\<lparr>sv_handshake := Some tg\<rparr>))"

definition setClientRateLimit :: "jsnum \<Rightarrow> (server, unit) st_result" where
  "setClientRateLimit limit sv =
     (case normalizeRateLimit limit of Inl e \<Rightarrow> (Inl e, sv) | Inr n \<Rightarrow> (Inr (), sv\<lparr>sv_clientRate := n\<rparr>))"

definition setServerRateLimit :: "jsnum \<Rightarrow> (server, unit) st_result" where
  "setServerRateLimit limit sv =
     (case normalizeRateLimit limit of Inl e \<Rightarrow> (Inl e, sv) | Inr n \<Rightarrow> (Inr (), sv\<lparr>sv_serverRate := n\<rparr>))"

text \<open>A packet object is in the list and the map of its table.\<close>

definition set_enabled :: "bool \<Rightarrow> packet \<Rightarrow> holder \<Rightarrow> holder" where
  "set_enabled b p h =
     (let upd = (\<lambda>q. if pk_tag q = pk_tag p then q\<lparr>pk_enabled := b\<rparr> else q)
      in h\<lparr>ph_packetMap := map (\<lambda>(t, q). (t, upd q)) (ph_packetMap h), ph_packets := map upd (ph_packets h)\<rparr>)"

definition sv_set_enabled :: "bool \<Rightarrow> jsstr \<Rightarrow> (server, unit) st_result" where
  "sv_set_enabled b tg sv =
     (case getPacket (sh_client (sv_host sv)) tg of
        Inl e \<Rightarrow> (Inl e, sv)
      | Inr p \<Rightarrow>
          let sv1 = sv\<lparr>sv_host := (sv_host sv)\<lparr>sh_client := set_enabled b p (sh_client (sv_host sv))\<rparr>\<rparr>;
              toggle = (if b then enablePacket tg else disablePacket tg)
          in (Inr (), foldl (\<lambda>s c. set_conn c (toggle (pe_conn (peer c s))) s) sv1 (sv_connections sv1)))"

definition getSocket :: "nat \<Rightarrow> server \<Rightarrow> nat option" where
  "getSocket i sv = sv_map sv i"

definition closeSocket :: "nat \<Rightarrow> int \<Rightarrow> jsstr \<Rightarrow> (server, unit) st_result" where
  "closeSocket i code reason sv =
     (case getSocket i sv of
        None \<Rightarrow> (Inl (TypeError ''close''), sv)
      | Some c \<Rightarrow>
          let sc = pe_conn (peer c sv)
          in (Inr (), set_conn c (sc\<lparr>sc_conn := conn_close code reason (sc_conn sc)\<rparr>) sv))"

definition shutdown :: "server \<Rightarrow> server" where
  "shutdown sv = sv\<lparr>sv_sessions := []\<rparr>"

section \<open>Every operation\<close>

datatype sv_event =
    Connects jsstr int
  | HooksAnswer nat bool
  | Disconnects nat int
  | ExpiryTimer int jsstr
  | Heart nat hb_event
  | ClientMessage "jsstr \<Rightarrow> jsval" int nat ws_data
  | ConnEvent "jsstr \<Rightarrow> jsval" int nat sc_event
  | SendFinished nat bool "nat \<times> u8 list \<times> packet"
  | AuthorizedAnswer nat bool
  | Broadcasts bc_target
  | BroadcastsRoom jsstr jsstr "jsval list"
  | BroadcastsRoomExcept nat jsstr jsstr "jsval list"
  | BroadcastsFrom nat "nat \<Rightarrow> bool"
  | AdapterMessage adapter_message
  | BroadcastAnswer nat bool "(nat \<times> u8 list \<times> packet) result"
  | TagsSocket nat jsstr bool
  | JoinsRoom nat jsstr
  | LeavesRoom nat jsstr
  | RequiresHandshake jsstr
  | SetsClientRate jsnum
  | SetsServerRate jsnum
  | SetsEnabled bool jsstr
  | ClosesSocket nat int jsstr
  | Shutdown

definition on_rooms :: "(nat rooms \<Rightarrow> nat rooms) \<Rightarrow> server \<Rightarrow> server" where
  "on_rooms f sv = sv\<lparr>sv_rooms := f (sv_rooms sv)\<rparr>"

text \<open>Events that have an event of their own above, and connections that exist.\<close>

definition own_event :: "sc_event \<Rightarrow> bool" where
  "own_event e = (case e of Message _ \<Rightarrow> False | Server_Connection.SocketClosed \<Rightarrow> False | FinishSend _ _ _ \<Rightarrow> False | _ \<Rightarrow> True)"

definition known :: "nat \<Rightarrow> server \<Rightarrow> bool" where
  "known c sv \<longleftrightarrow> c < length (sv_peers sv)"

fun sv_step :: "server \<Rightarrow> sv_event \<Rightarrow> server" where
  "sv_step sv (Connects sid now) = connect sid now sv"
| "sv_step sv (HooksAnswer c blocked) = (if known c sv \<and> pe_waiting (peer c sv) then admit c blocked sv else sv)"
| "sv_step sv (Disconnects c now) = (if known c sv \<and> \<not> pe_closed (peer c sv) then disconnect c now sv else sv)"
| "sv_step sv (ExpiryTimer now sid) = expiry_timer now sid sv"
| "sv_step sv (Heart c e) = (if known c sv then heart_event c e sv else sv)"
| "sv_step sv (ClientMessage userId now c d) = (if known c sv then client_message userId now c d sv else sv)"
| "sv_step sv (ConnEvent userId now c e) = (if known c sv \<and> own_event e then conn_event userId now c e sv else sv)"
| "sv_step sv (SendFinished c hook x) = (if known c sv then snd (sv_finish_send c hook x sv) else sv)"
| "sv_step sv (AuthorizedAnswer k ok) = authorized_answer k ok sv"
| "sv_step sv (Broadcasts target) = broadcastInternal target None sv"
| "sv_step sv (BroadcastsRoom room tg vs) = broadcastRoom room tg vs sv"
| "sv_step sv (BroadcastsRoomExcept c room tg vs) = broadcastRoomExcept c room tg vs sv"
| "sv_step sv (BroadcastsFrom c f) = broadcastFrom c f sv"
| "sv_step sv (AdapterMessage m) = receiveAdapterBroadcast m sv"
| "sv_step sv (BroadcastAnswer k cancelled processed) = resume_broadcast k cancelled processed sv"
| "sv_step sv (TagsSocket c tg replace) = (if known c sv then on_rooms (tag_socket c tg replace) sv else sv)"
| "sv_step sv (JoinsRoom c room) = (if known c sv then on_rooms (\<lambda>s. snd (join_room c room s)) sv else sv)"
| "sv_step sv (LeavesRoom c room) = (if known c sv then on_rooms (leave_room c room) sv else sv)"
| "sv_step sv (RequiresHandshake tg) = snd (requireHandshake tg sv)"
| "sv_step sv (SetsClientRate limit) = snd (setClientRateLimit limit sv)"
| "sv_step sv (SetsServerRate limit) = snd (setServerRateLimit limit sv)"
| "sv_step sv (SetsEnabled b tg) = snd (sv_set_enabled b tg sv)"
| "sv_step sv (ClosesSocket i code reason) = snd (closeSocket i code reason sv)"
| "sv_step sv Shutdown = shutdown sv"

text \<open>The states a server reaches.\<close>

inductive reaches :: "server \<Rightarrow> server \<Rightarrow> bool" where
  reaches_refl: "reaches sv sv"
| reaches_step: "reaches sv sv' \<Longrightarrow> reaches sv (sv_step sv' e)"

end
