(* ===== verification/Sonic_Server_Proofs.thy ===== *)
theory Sonic_Server_Proofs
  imports Sonic_Server
begin

text \<open>
  What the server keeps: the registry of connections and the rooms, whatever events come in whatever order;
  what a close takes away for good. And two ways in which the registry goes wrong.
\<close>

section \<open>The registry\<close>

definition flags :: "peer \<Rightarrow> bool \<times> bool \<times> bool" where
  "flags p = (pe_waiting p, pe_live p, pe_closed p)"

lemma join_all_ok: "rooms_ok s \<Longrightarrow> rooms_ok (snd (join_all c rs s))"
proof (induction c rs s rule: join_all.induct)
  case (2 c r rs s)
  then show ?case by (auto simp: join_room_def tag_ok split: prod.splits sum.splits)
qed simp

text \<open>
  What an operation that only sends, stores and answers leaves alone is a relation between the states before
  and after. The operations are gone through once, for every such relation that holds of the updates they are
  made of.
\<close>

locale server_frame =
  fixes rel :: "server \<Rightarrow> server \<Rightarrow> bool"
  assumes refl: "rel sv sv"
    and trans: "rel sv sv1 \<Longrightarrow> rel sv1 sv2 \<Longrightarrow> rel sv sv2"
    and set_peer: "flags p = flags (peer c sv) \<Longrightarrow> rel sv (set_peer c p sv)"
    and rooms: "(rooms_ok (sv_rooms sv) \<Longrightarrow> rooms_ok r) \<Longrightarrow> rel sv (sv\<lparr>sv_rooms := r\<rparr>)"
    and sessions: "rel sv (sv\<lparr>sv_sessions := a\<rparr>)"
    and errors: "rel sv (sv\<lparr>sv_errors := b\<rparr>)"
    and recovered: "rel sv (sv\<lparr>sv_recovered := d\<rparr>)"
    and resumes: "rel sv (sv\<lparr>sv_resumes := e\<rparr>)"
    and settings: "rel sv (sv\<lparr>sv_handshake := g\<rparr>)" "rel sv (sv\<lparr>sv_clientRate := h\<rparr>)"
      "rel sv (sv\<lparr>sv_serverRate := i\<rparr>)" "rel sv (sv\<lparr>sv_host := j\<rparr>)"
begin

lemmas basic [simp] = refl sessions errors recovered resumes settings

lemma set_conn [simp]: "rel sv (set_conn c sc sv)"
  unfolding set_conn_def by (rule set_peer) (simp add: flags_def)

lemma throw [simp]: "rel sv (sv_throw e sv)"
  by (simp add: sv_throw_def)

lemma then_basic:
  "rel sv sv1 \<Longrightarrow> rel sv (sv1\<lparr>sv_sessions := a\<rparr>)" "rel sv sv1 \<Longrightarrow> rel sv (sv1\<lparr>sv_recovered := b\<rparr>)"
  "rel sv sv1 \<Longrightarrow> rel sv (set_conn c sc sv1)" "rel sv sv1 \<Longrightarrow> rel sv (sv_throw e sv1)"
  by (rule trans, assumption, simp)+

lemma heart: "rel sv (heart_event c e sv)"
  unfolding heart_event_def Let_def by (rule set_peer) (simp add: flags_def)

lemma send_raw: "rel sv (snd (send_raw c data sv))"
  by (simp add: send_raw_def split: prod.splits)

lemma send_frames: "rel sv (snd (send_frames c fs sv))"
proof (induction c fs sv rule: send_frames.induct)
  case (2 c f fs sv)
  have "rel sv (snd (send_raw c f sv))" by (rule send_raw)
  then show ?case using 2 by (auto split: prod.splits sum.splits intro: trans)
qed simp

lemma send_resumed: "rel sv (snd (send_resumed c r n sv))"
  by (simp add: send_resumed_def send_raw split: sum.splits)

lemma processed: "rel sv (snd (sv_send_processed c x sv))"
  by (simp add: sv_send_processed_def Let_def then_basic split: prod.splits sum.splits)

lemma pair: "m = (r, sv') \<Longrightarrow> rel sv (snd m) \<Longrightarrow> rel sv sv'"
  by simp

lemma refuse: "rel sv (refuse_resume c sv)"
  using pair [OF _ send_resumed]
  by (auto simp: refuse_resume_def split: prod.splits sum.splits intro: then_basic)

lemma rejoin: "rel sv (snd (rejoin c ses sv))"
proof -
  have "rel sv (sv\<lparr>sv_rooms := snd (join_all c (ses_rooms ses) (sv_rooms sv))\<rparr>)"
    by (intro rooms join_all_ok)
  then show ?thesis
    by (cases "join_all c (ses_rooms ses) (sv_rooms sv)") (simp add: rejoin_def)
qed

lemma restore: "rel sv (restore c sid ses sv)"
  unfolding restore_def by (intro then_basic set_peer) (simp add: flags_def)

lemma repeat: "rel sv (snd (repeat_missed c ses n sv))"
  using pair [OF _ send_frames]
  by (auto simp: repeat_missed_def split: prod.splits sum.splits intro: trans [OF _ send_resumed])

lemma finish_resume: "rel sv (finish_resume ok c sid found n sv)"
proof -
  have r: "rel sv sv1" if "rejoin c ses (restore c sid ses sv) = (x, sv1)" for ses x sv1
    using trans [OF restore [of sv c sid ses] rejoin [of "restore c sid ses sv" c ses]] that by simp
  have m: "rel sv sv2"
    if "rejoin c ses (restore c sid ses sv) = (x, sv1)" "repeat_missed c ses n sv1 = (y, sv2)" for ses sv1 x sv2 y
    using trans [OF r [OF that(1)] repeat [of sv1 c ses n]] that(2) by simp
  show ?thesis
    by (auto simp: finish_resume_def Let_def refuse split: prod.splits sum.splits
        intro!: then_basic dest: r m)
qed

lemma resumeSession: "rel sv (resumeSession userId now c sid n sv)"
  by (simp add: resumeSession_def refuse finish_resume split: option.splits)

lemma authorized: "rel sv (authorized_answer k ok sv)"
proof -
  have "rel sv (finish_resume ok c sid ses n (sv\<lparr>sv_resumes := x\<rparr>))" for c sid ses n x
    using trans [OF resumes finish_resume] .
  then show ?thesis by (simp add: authorized_answer_def split: prod.splits)
qed

lemma host_calls: "rel sv (host_calls userId now c hs sv)"
  by (induction userId now c hs sv rule: host_calls.induct) (auto intro: trans resumeSession)

lemma conn_event: "rel sv (conn_event userId now c e sv)"
  unfolding conn_event_def Let_def by (rule trans [OF set_conn host_calls])

lemma message: "rel sv (client_message userId now c d sv)"
  unfolding client_message_def by (rule trans [OF heart conn_event])

lemma send_each: "rel sv (snd (send_each cs x sv))"
proof (induction cs x sv rule: send_each.induct)
  case (2 c cs x sv)
  have "rel sv (snd (sv_send_processed c x sv))" by (rule processed)
  then show ?case using 2 by (auto split: prod.splits sum.splits intro: trans)
qed simp

lemma set_enabled: "rel sv (snd (sv_set_enabled b tg sv))"
proof -
  have "rel s0 (foldl (\<lambda>s c. set_conn c (f (pe_conn (peer c s))) s) s0 cs)" for f s0 cs
    by (induction cs arbitrary: s0) (auto intro: trans [OF set_conn])
  then show ?thesis
    unfolding sv_set_enabled_def Let_def by (auto split: sum.splits intro: trans [OF settings(4)])
qed

end

text \<open>An operation that is not about connecting and closing.\<close>

definition keeps :: "server \<Rightarrow> server \<Rightarrow> bool" where
  "keeps sv sv' \<longleftrightarrow> sv_connections sv' = sv_connections sv \<and> map flags (sv_peers sv') = map flags (sv_peers sv)
     \<and> (rooms_ok (sv_rooms sv) \<longrightarrow> rooms_ok (sv_rooms sv'))"

interpretation kept: server_frame keeps
proof
  show "keeps sv sv1 \<Longrightarrow> keeps sv1 sv2 \<Longrightarrow> keeps sv sv2" for sv sv1 sv2 by (simp add: keeps_def)
  show "flags p = flags (peer c sv) \<Longrightarrow> keeps sv (set_peer c p sv)" for p c sv
    by (simp add: keeps_def set_peer_def peer_def map_update) (metis list_update_id map_update)
qed (simp_all add: keeps_def)

lemma keeps_upd [simp]: "keeps sv (sv\<lparr>sv_broadcasts := e\<rparr>)" "keeps sv (sv\<lparr>sv_published := f\<rparr>)"
  by (simp_all add: keeps_def)

lemma keeps_then: "keeps sv sv1 \<Longrightarrow> keeps sv (sv1\<lparr>sv_broadcasts := b\<rparr>)"
  by (rule kept.trans [OF _ keeps_upd(1)])

lemma keeps_publish [simp]: "keeps sv (publish m sv)"
  by (simp add: publish_def split: option.splits)

lemma keeps_then_publish: "keeps sv sv1 \<Longrightarrow> keeps sv (publish m sv1)"
  by (rule kept.trans [OF _ keeps_publish])

lemma keeps_broadcast: "keeps sv (broadcastInternal target after sv)"
  by (simp add: broadcastInternal_def)

text \<open>
  Where an answer takes a broadcast: it is over, goes on to its next await, or failed; before it is over or
  fails it may have been sent to recipients.
\<close>

lemma resume_broadcast_outcome:
  assumes "k < length (sv_broadcasts sv)"
    and "b = sv_broadcasts sv ! k" "sv1 = sv\<lparr>sv_broadcasts := remove_at k (sv_broadcasts sv)\<rparr>"
  obtains (over) "resume_broadcast k cancelled processed sv = publish (bc_publish b) sv1"
  | (goes_on) pc where "resume_broadcast k cancelled processed sv
      = sv1\<lparr>sv_broadcasts := sv_broadcasts sv1 @ [b\<lparr>bc_pc := pc\<rparr>]\<rparr>"
  | (failed) e where "resume_broadcast k cancelled processed sv = sv_throw e sv1"
  | (sent) cs x where "resume_broadcast k cancelled processed sv = publish (bc_publish b) (snd (send_each cs x sv1))"
  | (sent_some) cs x e where "resume_broadcast k cancelled processed sv = sv_throw e (snd (send_each cs x sv1))"
proof -
  have r: "resume_broadcast k cancelled processed sv =
      (case bc_pc b of
         BcPre \<Rightarrow> if cancelled \<or> recipients_now b sv1 = [] then publish (bc_publish b) sv1
                  else sv1\<lparr>sv_broadcasts := sv_broadcasts sv1 @ [b\<lparr>bc_pc := BcProcess\<rparr>]\<rparr>
       | BcProcess \<Rightarrow> (case processed of Inl e \<Rightarrow> sv_throw e sv1
                       | Inr x \<Rightarrow> sv1\<lparr>sv_broadcasts := sv_broadcasts sv1 @ [b\<lparr>bc_pc := BcPost x\<rparr>]\<rparr>)
       | BcPost x \<Rightarrow> if cancelled then publish (bc_publish b) sv1
                     else (case send_each (recipients_now b sv1) x sv1 of
                             (Inl e, sv2) \<Rightarrow> sv_throw e sv2 | (Inr _, sv2) \<Rightarrow> publish (bc_publish b) sv2))"
    unfolding resume_broadcast_def Let_def assms(2,3) by (simp only: assms(1) if_True)
  show thesis
  proof (cases "bc_pc b")
    case BcPre
    then show thesis using r over goes_on by (cases "cancelled \<or> recipients_now b sv1 = []") simp_all
  next
    case BcProcess
    then show thesis using r failed goes_on by (cases processed) simp_all
  next
    case (BcPost x)
    obtain q sv2 where q: "send_each (recipients_now b sv1) x sv1 = (q, sv2)" by fastforce
    show thesis
    proof (cases q)
      case (Inl e)
      then have "resume_broadcast k cancelled processed sv = (if cancelled then publish (bc_publish b) sv1
          else sv_throw e (snd (send_each (recipients_now b sv1) x sv1)))"
        using r q BcPost by simp
      then show thesis using over sent_some by (cases cancelled) simp_all
    next
      case (Inr u)
      then have "resume_broadcast k cancelled processed sv = (if cancelled then publish (bc_publish b) sv1
          else publish (bc_publish b) (snd (send_each (recipients_now b sv1) x sv1)))"
        using r q BcPost by simp
      then show thesis using over sent by (cases cancelled) simp_all
    qed
  qed
qed

lemma keeps_resume_broadcast: "keeps sv (resume_broadcast k cancelled processed sv)"
proof (cases "k < length (sv_broadcasts sv)")
  case True
  define sv1 where "sv1 = sv\<lparr>sv_broadcasts := remove_at k (sv_broadcasts sv)\<rparr>"
  have s: "keeps sv sv1" by (simp add: sv1_def)
  have e: "keeps sv (snd (send_each cs x sv1))" for cs x by (rule kept.trans [OF s kept.send_each])
  from True refl sv1_def show ?thesis
    by (cases rule: resume_broadcast_outcome [of _ _ _ _ cancelled processed])
      (simp_all add: s e keeps_then kept.then_basic keeps_then_publish)
qed (simp add: resume_broadcast_def)

text \<open>
  The registry, abstractly: which connection objects wait for the hooks, were registered, or have closed,
  and the list broadcasts use. Every event is one of these moves.
\<close>

type_synonym registry = "nat list \<times> (bool \<times> bool \<times> bool) list"

inductive registry_move :: "registry \<Rightarrow> registry \<Rightarrow> bool" where
  move_none: "registry_move r r"
| move_connect: "registry_move (cs, fs) (cs, fs @ [(True, False, False)])"
| move_turned_away: "c < length fs \<Longrightarrow> fs ! c = (True, l, x) \<Longrightarrow> registry_move (cs, fs) (cs, fs[c := (False, l, x)])"
| move_admit: "c < length fs \<Longrightarrow> fs ! c = (True, l, x) \<Longrightarrow> registry_move (cs, fs) (cs @ [c], fs[c := (False, True, x)])"
| move_close: "c < length fs \<Longrightarrow> fs ! c = (w, False, False) \<Longrightarrow> registry_move (cs, fs) (cs, fs[c := (w, False, True)])"
| move_leave: "c < length fs \<Longrightarrow> fs ! c = (w, True, False) \<Longrightarrow> registry_move (cs, fs) (splice_out c cs, fs[c := (w, True, True)])"

definition registry_of :: "server \<Rightarrow> registry" where
  "registry_of sv = (sv_connections sv, map flags (sv_peers sv))"

lemma registry_keeps: "keeps sv sv' \<Longrightarrow> registry_move (registry_of sv) (registry_of sv')"
  by (simp add: keeps_def registry_of_def registry_move.intros)

lemma flags_nth: "c < length (sv_peers sv) \<Longrightarrow> map flags (sv_peers sv) ! c = flags (peer c sv)"
  by (simp add: peer_def)

lemma generate_keeps: "generateSocketID sv = (i, sv1) \<Longrightarrow> registry_of sv1 = registry_of sv \<and> sv_rooms sv1 = sv_rooms sv"
  by (auto simp: generateSocketID_def registry_of_def split: if_splits list.splits)

lemma registry_connect: "registry_move (registry_of sv) (registry_of (connect sid now sv)) \<and> sv_rooms (connect sid now sv) = sv_rooms sv"
proof -
  let ?s = "sv\<lparr>sv_sessions := AList.update sid (new_session sid) (sv_sessions sv)\<rparr>"
  obtain i sv1 where g: "generateSocketID ?s = (i, sv1)" by (cases "generateSocketID ?s")
  have r: "sv_connections sv1 = sv_connections sv" "map flags (sv_peers sv1) = map flags (sv_peers sv)" "sv_rooms sv1 = sv_rooms sv"
    using generate_keeps [OF g] by (simp_all add: registry_of_def)
  show ?thesis
  proof (cases "new_server_conn (sv_host sv1) i (sv_handshake sv1) (sv_clientRate sv1) (sv_serverRate sv1)")
    case (Inl e)
    then show ?thesis by (simp add: connect_def g sv_throw_def registry_of_def r move_none)
  next
    case (Inr sc)
    then show ?thesis
      by (simp add: connect_def g registry_of_def r flags_def [abs_def] move_connect [of _ "map flags _", unfolded flags_def [abs_def]])
        (simp add: r [unfolded flags_def [abs_def]] move_connect)
  qed
qed

lemma registry_set_peer:
  "registry_of (set_peer c p sv) = (sv_connections sv, (map flags (sv_peers sv))[c := flags p])"
  by (simp add: registry_of_def set_peer_def map_update)

lemma registry_admit:
  assumes "known c sv" "pe_waiting (peer c sv)"
  shows "registry_move (registry_of sv) (registry_of (admit c blocked sv)) \<and> sv_rooms (admit c blocked sv) = sv_rooms sv"
proof -
  let ?p = "peer c sv"
  have c: "c < length (map flags (sv_peers sv))" using assms(1) by (simp add: known_def)
  have f: "map flags (sv_peers sv) ! c = (True, pe_live ?p, pe_closed ?p)"
    using assms flags_nth [of c sv] by (simp add: known_def flags_def)
  have r: "sv_rooms (admit c blocked sv) = sv_rooms sv"
    by (simp add: admit_def Let_def set_peer_def sv_throw_def split: sum.splits)
  show ?thesis
  proof (cases "blocked \<or> (\<exists>e. server_hello (sh_core (sv_host sv)) (pe_id ?p) (pe_own ?p) (sv_keys sv) = Inl e)")
    case True
    then have "registry_of (admit c blocked sv) = (sv_connections sv, (map flags (sv_peers sv))[c := (False, pe_live ?p, pe_closed ?p)])"
      by (auto simp: admit_def Let_def registry_of_def set_peer_def map_update sv_throw_def flags_def)
    then show ?thesis using move_turned_away [OF c f, of "sv_connections sv"] r by (simp add: registry_of_def [of sv])
  next
    case False
    then obtain frame where "\<not> blocked" "server_hello (sh_core (sv_host sv)) (pe_id ?p) (pe_own ?p) (sv_keys sv) = Inr frame"
      by (metis sum.exhaust)
    then have "registry_of (admit c blocked sv) = (sv_connections sv @ [c], (map flags (sv_peers sv))[c := (False, True, pe_closed ?p)])"
      by (simp add: admit_def Let_def registry_of_def set_peer_def map_update flags_def)
    then show ?thesis using move_admit [OF c f, of "sv_connections sv"] r by (simp add: registry_of_def [of sv])
  qed
qed

lemma registry_disconnect:
  assumes "known c sv" "\<not> pe_closed (peer c sv)"
  shows "registry_move (registry_of sv) (registry_of (disconnect c now sv))"
proof -
  let ?p = "peer c sv"
  have c: "c < length (map flags (sv_peers sv))" using assms(1) by (simp add: known_def)
  have f: "map flags (sv_peers sv) ! c = (pe_waiting ?p, pe_live ?p, False)"
    using assms flags_nth [of c sv] by (simp add: known_def flags_def)
  show ?thesis
    using move_close [OF c, of "pe_waiting ?p" "sv_connections sv"] move_leave [OF c, of "pe_waiting ?p" "sv_connections sv"] f
    by (cases "pe_live ?p") (simp_all add: disconnect_def Let_def registry_of_def set_peer_def map_update flags_def)
qed

text \<open>Every event of the server moves the registry and keeps the rooms consistent.\<close>

lemma keeps_rooms: "(rooms_ok (sv_rooms sv) \<Longrightarrow> rooms_ok (f (sv_rooms sv))) \<Longrightarrow> keeps sv (on_rooms f sv)"
  by (simp add: keeps_def on_rooms_def)

lemma sv_step_keeps:
  "(\<forall>sid now. e \<noteq> Connects sid now) \<Longrightarrow> (\<forall>c b. e \<noteq> HooksAnswer c b) \<Longrightarrow> (\<forall>c now. e \<noteq> Disconnects c now) \<Longrightarrow>
   keeps sv (sv_step sv e)"
  by (cases e) (auto simp: expiry_timer_def kept.heart kept.message kept.conn_event sv_finish_send_def kept.processed
      kept.authorized keeps_broadcast broadcastRoom_def broadcastRoomExcept_def broadcastFrom_def receiveAdapterBroadcast_def
      keeps_resume_broadcast tag_ok join_room_def room.remove_ok requireHandshake_def setClientRateLimit_def
      setServerRateLimit_def kept.set_enabled closeSocket_def Let_def shutdown_def split: sum.splits option.splits
      intro!: keeps_rooms)

lemma sv_step_registry: "registry_move (registry_of sv) (registry_of (sv_step sv e))"
proof (cases e)
  case (Connects sid now)
  then show ?thesis using registry_connect by simp
next
  case (HooksAnswer c b)
  then show ?thesis using registry_admit by (simp add: move_none)
next
  case (Disconnects c now)
  then show ?thesis using registry_disconnect by (simp add: move_none)
qed (use sv_step_keeps [of e sv] registry_keeps [of sv "sv_step sv e"] in \<open>simp_all del: sv_step.simps\<close>)

lemma sv_step_rooms: "rooms_ok (sv_rooms sv) \<Longrightarrow> rooms_ok (sv_rooms (sv_step sv e))"
proof (cases e)
  case (Connects sid now)
  assume "rooms_ok (sv_rooms sv)"
  then show ?thesis using Connects registry_connect by simp
next
  case (HooksAnswer c b)
  assume "rooms_ok (sv_rooms sv)"
  then show ?thesis using HooksAnswer registry_admit by simp
next
  case (Disconnects c now)
  assume "rooms_ok (sv_rooms sv)"
  then show ?thesis using Disconnects by (simp add: disconnect_def Let_def set_peer_def room.drop_ok)
qed (use sv_step_keeps [of e sv] in \<open>simp_all add: keeps_def\<close>)

section \<open>What the registry guarantees\<close>

text \<open>What the three flags of an object and its place in the list of connections have to do with each other.\<close>

fun entry_ok :: "bool \<Rightarrow> bool \<times> bool \<times> bool \<Rightarrow> bool" where
  "entry_ok listed (waiting, live, gone) \<longleftrightarrow>
     (listed \<longrightarrow> live) \<and> (live \<and> \<not> gone \<longrightarrow> listed) \<and> (waiting \<longrightarrow> \<not> live)"

definition registry_ok :: "registry \<Rightarrow> bool" where
  "registry_ok r \<longleftrightarrow> distinct (fst r) \<and> set (fst r) \<subseteq> {..< length (snd r)}
     \<and> (\<forall>c < length (snd r). entry_ok (c \<in> set (fst r)) (snd r ! c))"

lemma registry_okD: "registry_ok (cs, fs) \<Longrightarrow> c < length fs \<Longrightarrow> entry_ok (c \<in> set cs) (fs ! c)"
  by (simp add: registry_ok_def)

lemma registry_ok_set:
  assumes "registry_ok (cs, fs)" "distinct cs'" "\<And>d. d \<noteq> c \<Longrightarrow> d \<in> set cs' \<longleftrightarrow> d \<in> set cs"
    and "c < length fs" "entry_ok (c \<in> set cs') f"
  shows "registry_ok (cs', fs[c := f])"
  using assms by (auto simp: registry_ok_def nth_list_update) (metis lessThan_iff subsetD)

lemma registry_ok_move: "registry_move r r' \<Longrightarrow> registry_ok r \<Longrightarrow> registry_ok r'"
proof (induction rule: registry_move.induct)
  case (move_connect cs fs)
  then have "length fs \<notin> set cs" by (auto simp: registry_ok_def)
  then show ?case using move_connect by (auto simp: registry_ok_def nth_append less_Suc_eq)
next
  case (move_turned_away c fs l x cs)
  then show ?case using registry_okD [OF move_turned_away(3,1)]
    by (intro registry_ok_set [of cs fs]) (auto simp: registry_ok_def)
next
  case (move_admit c fs l x cs)
  then show ?case using registry_okD [OF move_admit(3,1)]
    by (intro registry_ok_set [of cs fs]) (auto simp: registry_ok_def)
next
  case (move_close c fs w cs)
  then show ?case using registry_okD [OF move_close(3,1)]
    by (intro registry_ok_set [of cs fs]) (auto simp: registry_ok_def)
next
  case (move_leave c fs w cs)
  then have "c \<in> set cs" "distinct cs" using registry_okD [OF move_leave(3,1)] by (auto simp: registry_ok_def)
  then show ?case using registry_okD [OF move_leave(3,1)] move_leave
    by (intro registry_ok_set [of cs fs]) (auto simp: splice_out_def)
qed simp

lemma registry_ok_of:
  "registry_ok (registry_of sv) \<longleftrightarrow> distinct (sv_connections sv) \<and> (\<forall>c \<in> set (sv_connections sv). known c sv)
     \<and> (\<forall>c. known c sv \<longrightarrow> entry_ok (c \<in> set (sv_connections sv)) (flags (peer c sv)))"
  by (auto simp: registry_ok_def registry_of_def known_def peer_def)

definition server_ok :: "server \<Rightarrow> bool" where
  "server_ok sv \<longleftrightarrow> registry_ok (registry_of sv) \<and> rooms_ok (sv_rooms sv)"

interpretation servers: machine_inv sv_step server_ok
  by unfold_locales (auto simp: server_ok_def intro: registry_ok_move sv_step_registry sv_step_rooms)

lemma server_ok_new: "new_server host i mp md iv cu = Inr sv \<Longrightarrow> server_ok sv"
  using rooms_inv_new
  by (auto simp: new_server_def bindR_eq_Inr server_ok_def registry_of_def registry_ok_def rooms_inv_def)

lemma server_ok_reaches: "reaches sv sv' \<Longrightarrow> server_ok sv \<Longrightarrow> server_ok sv'"
  by (induction rule: reaches.induct) (auto intro: servers.keeps)

lemma reaches_run: "reaches sv (foldl sv_step sv es)"
  by (induction es rule: rev_induct) (auto intro: reaches.intros)

text \<open>A registered connection that closed: it is off the list, and stays off it.\<close>

lemma registry_gone_move:
  "registry_move r r' \<Longrightarrow> c < length (snd r) \<Longrightarrow> snd r ! c = (False, l, True) \<Longrightarrow> c \<notin> set (fst r) \<Longrightarrow>
   c < length (snd r') \<and> snd r' ! c = (False, l, True) \<and> c \<notin> set (fst r')"
  by (induction rule: registry_move.induct)
    (auto simp: nth_append nth_list_update splice_out_def dest: in_set_butlastD set_remove1_subset [THEN subsetD])

definition gone :: "nat \<Rightarrow> server \<Rightarrow> bool" where
  "gone c sv \<longleftrightarrow> known c sv \<and> \<not> pe_waiting (peer c sv) \<and> pe_closed (peer c sv) \<and> c \<notin> set (sv_connections sv)"

interpretation gone_for_good: machine_inv sv_step "gone c" for c
proof
  fix sv e
  assume g: "gone c sv"
  have "c < length (snd (registry_of sv))" "snd (registry_of sv) ! c = (False, pe_live (peer c sv), True)"
    "c \<notin> set (fst (registry_of sv))"
    using g by (simp_all add: gone_def registry_of_def known_def peer_def flags_def)
  from registry_gone_move [OF sv_step_registry [of sv e] this]
  have "known c (sv_step sv e)" "flags (peer c (sv_step sv e)) = (False, pe_live (peer c sv), True)"
    "c \<notin> set (sv_connections (sv_step sv e))"
    by (auto simp: registry_of_def known_def peer_def simp del: sv_step.simps)
  then show "gone c (sv_step sv e)" by (simp add: gone_def flags_def del: sv_step.simps)
qed

lemma disconnect_forgets:
  assumes "server_ok sv" "known c sv" "pe_live (peer c sv)" "\<not> pe_closed (peer c sv)" "sv1 = sv_step sv (Disconnects c t)"
  shows "set (sv_connections sv1) = set (sv_connections sv) - {c}
    \<and> (member (sv_rooms sv1) d q \<longleftrightarrow> d \<noteq> c \<and> member (sv_rooms sv) d q)
    \<and> getSocket (pe_id (peer c sv)) sv1 = None \<and> gone c sv1"
proof -
  have ok: "rooms_ok (sv_rooms sv)" "distinct (sv_connections sv)" "c \<in> set (sv_connections sv)" "\<not> pe_waiting (peer c sv)"
    using assms(1-4) by (auto simp: server_ok_def registry_ok_of flags_def)
  have s: "sv1 = disconnect c t sv" using assms(2,4,5) by simp
  show ?thesis
    using assms(2,3) ok
    by (simp add: s disconnect_def Let_def splice_out_def getSocket_def gone_def known_def set_peer_def peer_def
        room.drop_member [OF ok(1)])
qed


definition empty_host :: "native_core \<Rightarrow> server_host" where
  "empty_host core = \<lparr>sh_client = empty_holder, sh_server = empty_holder, sh_lib = plain_lib, sh_core = storing core,
     sh_ctors = [], sh_validators = (\<lambda>_. None)\<rparr>"

lemma empty_server: "\<exists>sv. new_server (empty_host core) [] 10 1000 0 False = Inr sv \<and> sv_available sv = [] \<and> sv_lastId sv = 0
   \<and> sv_peers sv = [] \<and> sv_host sv = empty_host core \<and> sv_handshake sv = None \<and> sv_clientRate sv = 500 \<and> sv_serverRate sv = 500"
proof -
  have "is_ok (key_data plain_lib empty_holder empty_holder)"
    by (simp add: key_data_def holder_serialize_def serialize_table_def empty_holder_def convertVarInt_def MAX_UVARINT_def)
  then show ?thesis by (auto simp: is_ok_iff new_server_def empty_host_def)
qed

lemma empty_host_conn: "is_ok (new_server_conn (empty_host core) i hs cr sr)"
  by (simp add: new_server_conn_def empty_host_def empty_holder_def registerSendPackets_def getTags_def
      registerAll_def Let_def)

section \<open>Where it goes wrong\<close>

lemma registry_leak_move:
  "registry_move r r' \<Longrightarrow> registry_ok r \<Longrightarrow> c \<in> set (fst r) \<Longrightarrow> snd (snd (snd r ! c)) \<Longrightarrow>
   c \<in> set (fst r') \<and> snd (snd (snd r' ! c))"
proof (induction rule: registry_move.induct)
  case (move_leave d fs w cs)
  then have "d \<in> set cs" "d \<noteq> c" using registry_okD [OF move_leave(3,1)] by auto
  then show ?case using move_leave by (simp add: splice_out_def)
qed (auto simp: registry_ok_def nth_append nth_list_update subset_iff)

definition leaked :: "nat \<Rightarrow> server \<Rightarrow> bool" where
  "leaked c sv \<longleftrightarrow> server_ok sv \<and> c \<in> set (sv_connections sv) \<and> pe_closed (peer c sv)"

interpretation leak: machine_inv sv_step "leaked c" for c
proof
  fix sv e
  assume l: "leaked c sv"
  then have ok: "registry_ok (registry_of sv)" by (simp add: leaked_def server_ok_def)
  have view: "snd (snd (snd (registry_of s) ! c)) = pe_closed (peer c s)" if "known c s" for s
    using that by (simp add: registry_of_def known_def peer_def flags_def)
  have "known c sv" using l ok by (simp add: leaked_def registry_ok_of)
  then have m: "c \<in> set (sv_connections (sv_step sv e)) \<and> snd (snd (snd (registry_of (sv_step sv e)) ! c))"
    using registry_leak_move [OF sv_step_registry ok] l view
    by (simp add: leaked_def registry_of_def del: sv_step.simps)
  have s: "server_ok (sv_step sv e)" using l servers.keeps by (simp add: leaked_def del: sv_step.simps)
  then have "known c (sv_step sv e)" using m by (simp add: server_ok_def registry_ok_of del: sv_step.simps)
  then show "leaked c (sv_step sv e)" using m s view by (simp add: leaked_def del: sv_step.simps)
qed

text \<open>
  C36: A connection that closes while the \<open>onClientConnect\<close> hooks are still running is registered
  nevertheless and never leaves the list of connections again.
\<close>

theorem closed_while_connecting_leaks:
  assumes "new_server host i mp md iv cu = Inr sv0" "reaches sv0 sv"
    and "known c sv" "pe_waiting (peer c sv)" "\<not> pe_closed (peer c sv)"
    and "server_hello (sh_core (sv_host sv)) (pe_id (peer c sv)) (pe_own (peer c sv)) (sv_keys sv) = Inr frame"
  shows "c \<in> set (sv_connections (foldl sv_step (sv_step (sv_step sv (Disconnects c t)) (HooksAnswer c False)) es))"
proof -
  let ?s1 = "sv_step sv (Disconnects c t)" and ?s2 = "sv_step (sv_step sv (Disconnects c t)) (HooksAnswer c False)"
  have ok: "server_ok sv" by (rule server_ok_reaches [OF assms(2) server_ok_new [OF assms(1)]])
  have "\<not> pe_live (peer c sv)"
    using ok assms(3,4) by (auto simp: server_ok_def registry_ok_of flags_def)
  then have s1: "?s1 = set_peer c ((peer c sv)\<lparr>pe_conn := on_socket_close (pe_conn (peer c sv)), pe_closed := True\<rparr>) sv"
    using assms(3,5) by (simp add: disconnect_def Let_def)
  have p1: "peer c ?s1 = (peer c sv)\<lparr>pe_conn := on_socket_close (pe_conn (peer c sv)), pe_closed := True\<rparr>" "known c ?s1"
    using assms(3) unfolding s1 by (simp_all add: peer_def set_peer_def known_def)
  have h: "sv_host ?s1 = sv_host sv" "sv_keys ?s1 = sv_keys sv" "sv_connections ?s1 = sv_connections sv"
    unfolding s1 by (simp_all add: set_peer_def)
  have "c \<in> set (sv_connections ?s2) \<and> pe_closed (peer c ?s2)"
    using p1 assms(4,6) h by (simp add: admit_def Let_def set_peer_def peer_def [of _ "_\<lparr>sv_peers := _\<rparr>"] known_def del: sv_step.simps(3))
      (simp add: peer_def known_def)
  then have "leaked c ?s2" using ok servers.keeps by (simp add: leaked_def del: sv_step.simps)
  then show ?thesis using leak.run_inv [of c ?s2 es] by (simp add: leaked_def del: sv_step.simps)
qed

text \<open>One connection asks the hooks.\<close>

lemma first_connect:
  assumes "new_server (empty_host core) [] 10 1000 0 False = Inr sv0"
  shows "known 0 (sv_step sv0 (Connects (js ''a'') 0)) \<and> pe_waiting (peer 0 (sv_step sv0 (Connects (js ''a'') 0)))
    \<and> \<not> pe_closed (peer 0 (sv_step sv0 (Connects (js ''a'') 0)))
    \<and> (\<exists>frame. server_hello (sh_core (sv_host (sv_step sv0 (Connects (js ''a'') 0)))) (pe_id (peer 0 (sv_step sv0 (Connects (js ''a'') 0))))
        (pe_own (peer 0 (sv_step sv0 (Connects (js ''a'') 0)))) (sv_keys (sv_step sv0 (Connects (js ''a'') 0))) = Inr frame)"
proof -
  have f: "sv_available sv0 = []" "sv_lastId sv0 = 0" "sv_peers sv0 = []" "sv_host sv0 = empty_host core"
    using assms by (auto simp: new_server_def bindR_eq_Inr)
  obtain sc where c: "new_server_conn (empty_host core) 1 (sv_handshake sv0) (sv_clientRate sv0) (sv_serverRate sv0) = Inr sc"
    using empty_host_conn [of core 1 "sv_handshake sv0" "sv_clientRate sv0" "sv_serverRate sv0"] by (auto simp: is_ok_iff)
  have "is_ok (server_hello (storing core) 1 (js ''a'') keys)" for keys
    by (simp add: server_hello_def storing_def utf8_encode_def js_def is_high_def is_low_def is_surrogate_def utf8_of_def
        convertVarInt_def MAX_UVARINT_def)
  then have h: "\<exists>frame. server_hello (storing core) (Suc 0) (js ''a'') keys = Inr frame" for keys
    by (simp add: is_ok_iff)
  show ?thesis
    using c by (simp add: connect_def generateSocketID_def f known_def peer_def del: js_simps) (simp add: empty_host_def h del: js_simps)
qed


lemma closed_while_connecting_leaks_witness:
  "\<forall>core. \<exists>sv0. new_server (empty_host core) [] 10 1000 0 False = Inr sv0
    \<and> 0 \<in> set (sv_connections (foldl sv_step (sv_step (sv_step (sv_step sv0 (Connects (js ''a'') 0)) (Disconnects 0 5))
        (HooksAnswer 0 False)) [ExpiryTimer 2000 (js ''a''), Shutdown]))"
proof
  fix core
  obtain sv0 where s: "new_server (empty_host core) [] 10 1000 0 False = Inr sv0" using empty_server by blast
  note f = first_connect [OF s]
  obtain frame where h: "server_hello (sh_core (sv_host (sv_step sv0 (Connects (js ''a'') 0)))) (pe_id (peer 0 (sv_step sv0 (Connects (js ''a'') 0))))
        (pe_own (peer 0 (sv_step sv0 (Connects (js ''a'') 0)))) (sv_keys (sv_step sv0 (Connects (js ''a'') 0))) = Inr frame"
    using f by blast
  have "reaches sv0 (sv_step sv0 (Connects (js ''a'') 0))" by (intro reaches.intros)
  from closed_while_connecting_leaks [OF s this _ _ _ h, of 5 "[ExpiryTimer 2000 (js ''a''), Shutdown]"] f
  have "0 \<in> set (sv_connections (foldl sv_step (sv_step (sv_step (sv_step sv0 (Connects (js ''a'') 0)) (Disconnects 0 5))
        (HooksAnswer 0 False)) [ExpiryTimer 2000 (js ''a''), Shutdown]))" by blast
  with s show "\<exists>sv0. new_server (empty_host core) [] 10 1000 0 False = Inr sv0
    \<and> 0 \<in> set (sv_connections (foldl sv_step (sv_step (sv_step (sv_step sv0 (Connects (js ''a'') 0)) (Disconnects 0 5))
        (HooksAnswer 0 False)) [ExpiryTimer 2000 (js ''a''), Shutdown]))" by blast
qed

lemma connect_next:
  assumes "is_ok (new_server_conn (sv_host sv) (hd (sv_available sv @ [sv_lastId sv + 1])) (sv_handshake sv) (sv_clientRate sv) (sv_serverRate sv))"
  shows "\<exists>p. sv_peers (connect sid now sv) = sv_peers sv @ [p] \<and> pe_id p = hd (sv_available sv @ [sv_lastId sv + 1])
    \<and> \<not> pe_closed p \<and> sv_available (connect sid now sv) = tl (sv_available sv) \<and> sv_lastId (connect sid now sv) = pe_id p
    \<and> sv_host (connect sid now sv) = sv_host sv \<and> sv_handshake (connect sid now sv) = sv_handshake sv
    \<and> sv_clientRate (connect sid now sv) = sv_clientRate sv \<and> sv_serverRate (connect sid now sv) = sv_serverRate sv"
  using assms by (cases "sv_available sv") (auto simp: is_ok_iff connect_def generateSocketID_def)

text \<open>
  C37: Ids are not unique: when the only free id is the one of the connection that just closed, the next two
  connections get it and its successor, even if the successor is the id of an open connection.
\<close>

theorem ids_collide:
  assumes "sv_available sv = []" "known c sv" "pe_live (peer c sv)" "\<not> pe_closed (peer c sv)"
    and "known d sv" "\<not> pe_closed (peer d sv)" "pe_id (peer d sv) = pe_id (peer c sv) + 1"
    and "\<forall>i. is_ok (new_server_conn (sv_host sv) i (sv_handshake sv) (sv_clientRate sv) (sv_serverRate sv))"
    and "sv' = foldl sv_step sv [Disconnects c t, Connects s1 t1, Connects s2 t2]"
  shows "\<exists>e. e \<noteq> d \<and> known e sv' \<and> known d sv' \<and> pe_id (peer e sv') = pe_id (peer d sv')
    \<and> \<not> pe_closed (peer e sv') \<and> \<not> pe_closed (peer d sv')"
proof -
  let ?i = "pe_id (peer c sv)" and ?n = "length (sv_peers sv)"
  define sv1 where "sv1 = disconnect c t sv"
  have f1: "sv_available sv1 = [?i]" "length (sv_peers sv1) = ?n" "sv_host sv1 = sv_host sv" "sv_handshake sv1 = sv_handshake sv"
    "sv_clientRate sv1 = sv_clientRate sv" "sv_serverRate sv1 = sv_serverRate sv"
    using assms(1,3) by (simp_all add: sv1_def disconnect_def Let_def set_peer_def)
  have ne: "c \<noteq> d" using assms(7) by auto
  have d1: "sv_peers sv1 ! d = peer d sv"
    using ne assms(3) by (simp add: sv1_def disconnect_def Let_def set_peer_def peer_def)
  obtain p where p: "sv_peers (connect s1 t1 sv1) = sv_peers sv1 @ [p]" "sv_available (connect s1 t1 sv1) = []"
    "sv_lastId (connect s1 t1 sv1) = ?i" "sv_host (connect s1 t1 sv1) = sv_host sv" "sv_handshake (connect s1 t1 sv1) = sv_handshake sv"
    "sv_clientRate (connect s1 t1 sv1) = sv_clientRate sv" "sv_serverRate (connect s1 t1 sv1) = sv_serverRate sv"
    using connect_next [of sv1 s1 t1] assms(8) by (auto simp: f1)
  obtain q where q: "sv_peers (connect s2 t2 (connect s1 t1 sv1)) = (sv_peers sv1 @ [p]) @ [q]" "pe_id q = ?i + 1" "\<not> pe_closed q"
    using connect_next [of "connect s1 t1 sv1" s2 t2] assms(8) by (auto simp: p)
  have d: "d < ?n" using assms(5) by (simp add: known_def)
  have "sv' = connect s2 t2 (connect s1 t1 sv1)" using assms(2,4,9) by (simp add: sv1_def)
  then have "sv_peers sv' = sv_peers sv1 @ [p, q]" using q(1) by simp
  then have "peer (Suc ?n) sv' = q" "known (Suc ?n) sv'" "known d sv'" "peer d sv' = peer d sv"
    using d f1(2) d1 by (simp_all add: peer_def known_def nth_append)
  then show ?thesis using q assms(6,7) d by (intro exI [of _ "Suc ?n"]) simp
qed

text \<open>Two open connections with the ids 1 and 2.\<close>

lemma ids_collide_witness:
  "\<forall>core. \<exists>sv. sv_available sv = [] \<and> (\<exists>e. e \<noteq> 1 \<and> pe_id (peer e (foldl sv_step sv [Disconnects 0 5, Connects (js ''c'') 6, Connects (js ''d'') 7]))
    = pe_id (peer 1 (foldl sv_step sv [Disconnects 0 5, Connects (js ''c'') 6, Connects (js ''d'') 7])))"
proof
  fix core
  obtain sv0 where s: "new_server (empty_host core) [] 10 1000 0 False = Inr sv0" "sv_available sv0 = []" "sv_lastId sv0 = 0"
      "sv_peers sv0 = []" "sv_host sv0 = empty_host core" using empty_server by blast
  note ok = empty_host_conn [of core]
  obtain p where p: "sv_peers (connect (js ''a'') 0 sv0) = [p]" "sv_available (connect (js ''a'') 0 sv0) = []" "pe_id p = 1"
      "\<not> pe_closed p" "sv_lastId (connect (js ''a'') 0 sv0) = 1" "sv_host (connect (js ''a'') 0 sv0) = empty_host core"
    using connect_next [of sv0 "js ''a''" 0] by (auto simp: s ok simp del: js_simps)
  obtain q where q: "sv_peers (connect (js ''b'') 0 (connect (js ''a'') 0 sv0)) = [p, q]" "pe_id q = 2" "\<not> pe_closed q"
      "sv_available (connect (js ''b'') 0 (connect (js ''a'') 0 sv0)) = []" "sv_host (connect (js ''b'') 0 (connect (js ''a'') 0 sv0)) = empty_host core"
    using connect_next [of "connect (js ''a'') 0 sv0" "js ''b''" 0] by (auto simp: p ok simp del: js_simps)
  define sv where "sv = set_peer 0 (p\<lparr>pe_live := True\<rparr>) (connect (js ''b'') 0 (connect (js ''a'') 0 sv0))"
  have f: "sv_peers sv = [p\<lparr>pe_live := True\<rparr>, q]" "sv_available sv = []" "sv_host sv = empty_host core"
    by (simp_all add: sv_def set_peer_def q del: js_simps)
  have "\<exists>e. e \<noteq> 1 \<and> known e (foldl sv_step sv [Disconnects 0 5, Connects (js ''c'') 6, Connects (js ''d'') 7])
      \<and> known 1 (foldl sv_step sv [Disconnects 0 5, Connects (js ''c'') 6, Connects (js ''d'') 7])
      \<and> pe_id (peer e (foldl sv_step sv [Disconnects 0 5, Connects (js ''c'') 6, Connects (js ''d'') 7]))
        = pe_id (peer 1 (foldl sv_step sv [Disconnects 0 5, Connects (js ''c'') 6, Connects (js ''d'') 7]))
      \<and> \<not> pe_closed (peer e (foldl sv_step sv [Disconnects 0 5, Connects (js ''c'') 6, Connects (js ''d'') 7]))
      \<and> \<not> pe_closed (peer 1 (foldl sv_step sv [Disconnects 0 5, Connects (js ''c'') 6, Connects (js ''d'') 7]))"
    by (rule ids_collide [OF f(2) _ _ _ _ _ _ _ refl, of 0]) (simp_all add: f known_def peer_def p q ok)
  then show "\<exists>sv. sv_available sv = [] \<and> (\<exists>e. e \<noteq> 1 \<and> pe_id (peer e (foldl sv_step sv [Disconnects 0 5, Connects (js ''c'') 6, Connects (js ''d'') 7]))
    = pe_id (peer 1 (foldl sv_step sv [Disconnects 0 5, Connects (js ''c'') 6, Connects (js ''d'') 7])))"
    using f(2) by blast
qed

end
