(* ===== verification/Server_Delivery.thy ===== *)
theory Server_Delivery
  imports Sonic_Server_Proofs
begin

text \<open>
  Who gets what: the recipients of a broadcast, and a connection that takes over the session of an earlier
  one.
\<close>

section \<open>Broadcasts\<close>

lemma peer_set_conn: "known c sv \<Longrightarrow> pe_conn (peer d (set_conn c sc sv)) = (if d = c then sc else pe_conn (peer d sv))"
  by (simp add: set_conn_def set_peer_def peer_def known_def)

lemma known_set_conn [simp]: "known d (set_conn c sc sv) = known d sv"
  by (simp add: set_conn_def set_peer_def known_def)

text \<open>What sending a packet that is not replayed does to one connection.\<close>

definition sent_to :: "nat \<times> u8 list \<times> packet \<Rightarrow> server_conn \<Rightarrow> unit result \<times> server_conn" where
  "sent_to x sc = (case x of (code, data, p) \<Rightarrow> send_processed (\<lambda>f. f) code data p sc)"

lemma processed_plain:
  "\<not> pk_replay (snd (snd x)) \<Longrightarrow> sv_send_processed c x sv =
    (fst (sent_to x (pe_conn (peer c sv))), set_conn c (snd (sent_to x (pe_conn (peer c sv)))) sv)"
  by (cases x) (simp add: sv_send_processed_def sent_to_def split_beta Let_def)

definition reached :: "(nat \<Rightarrow> bool) \<Rightarrow> nat list \<Rightarrow> nat list" where
  "reached ok cs = take (Suc (length (takeWhile ok cs))) cs"

definition gets_through :: "nat \<times> u8 list \<times> packet \<Rightarrow> server \<Rightarrow> nat \<Rightarrow> bool" where
  "gets_through x sv c \<longleftrightarrow> is_ok (fst (sent_to x (pe_conn (peer c sv))))"

lemma reached_Cons: "reached ok (c # cs) = (if ok c then c # reached ok cs else [c])"
  by (simp add: reached_def)

lemma reached_cong: "(\<And>d. d \<in> set cs \<Longrightarrow> f d = g d) \<Longrightarrow> reached f cs = reached g cs"
  by (simp add: reached_def cong: takeWhile_cong)

lemma reached_subset: "set (reached ok cs) \<subseteq> set cs"
  by (simp add: reached_def set_take_subset)

lemma send_each_reaches:
  assumes "distinct cs" "\<forall>c \<in> set cs. known c sv" "\<not> pk_replay (snd (snd x))" "send_each cs x sv = (r, sv')"
  shows "pe_conn (peer c sv') =
    (if c \<in> set (reached (gets_through x sv) cs) then snd (sent_to x (pe_conn (peer c sv))) else pe_conn (peer c sv))"
  using assms
proof (induction cs arbitrary: sv)
  case (Cons d cs)
  let ?sc = "pe_conn (peer d sv)"
  have k: "known d sv" "d \<notin> set cs" using Cons.prems(1,2) by simp_all
  note one = processed_plain [OF Cons.prems(3), of d sv]
  show ?case
  proof (cases "fst (sent_to x ?sc)")
    case (Inl e)
    have no: "\<not> gets_through x sv d" by (simp add: Inl gets_through_def)
    have "set_conn d (snd (sent_to x ?sc)) sv = sv'"
      using Cons.prems(4) unfolding send_each.simps one Inl by simp
    with no show ?thesis using k by (auto simp: reached_Cons peer_set_conn)
  next
    case (Inr u)
    let ?s = "set_conn d (snd (sent_to x ?sc)) sv"
    have yes: "gets_through x sv d" by (simp add: Inr gets_through_def)
    have same: "pe_conn (peer e ?s) = pe_conn (peer e sv)" if "e \<noteq> d" for e
      using that k by (simp add: peer_set_conn)
    have r: "reached (gets_through x ?s) cs = reached (gets_through x sv) cs"
      using k(2) by (intro reached_cong) (metis gets_through_def same)
    have run: "send_each cs x ?s = (r, sv')" using Cons.prems(4) unfolding send_each.simps one Inr by simp
    have IH: "pe_conn (peer c sv') = (if c \<in> set (reached (gets_through x sv) cs)
        then snd (sent_to x (pe_conn (peer c ?s))) else pe_conn (peer c ?s))"
      using Cons.IH [OF _ _ Cons.prems(3) run] Cons.prems(1,2) by (simp add: r)
    have "d \<notin> set (reached (gets_through x sv) cs)" using k(2) reached_subset by blast
    then show ?thesis
      using k(1) IH same [of c] by (cases "c = d") (simp_all add: reached_Cons yes peer_set_conn)
  qed
qed (simp add: reached_def)

text \<open>
  C12: A broadcast to everybody of a packet without \<open>replay\<close> sends the packet once to each registered connection, in the order of the
  list, up to and including the first whose sending throws; the connections behind that one get nothing.
\<close>

theorem broadcast_reaches:
  assumes "new_server host i mp md iv cu = Inr sv0" "reaches sv0 sv"
    and "k < length (sv_broadcasts sv)" "bc_recipients (sv_broadcasts sv ! k) = None" "bc_pc (sv_broadcasts sv ! k) = BcPost x"
    and "\<not> pk_replay (snd (snd x))" "sv' = sv_step sv (BroadcastAnswer k False r)"
  shows "pe_conn (peer c sv') =
    (if c \<in> set (reached (gets_through x sv) (sv_connections sv))
     then snd (sent_to x (pe_conn (peer c sv))) else pe_conn (peer c sv))"
proof -
  let ?s = "sv\<lparr>sv_broadcasts := remove_at k (sv_broadcasts sv)\<rparr>"
  have ok: "registry_ok (registry_of sv)"
    using server_ok_reaches [OF assms(2) server_ok_new [OF assms(1)]] by (simp add: server_ok_def)
  obtain q sv2 where q: "send_each (sv_connections sv) x ?s = (q, sv2)" by fastforce
  have p: "peer d ?s = peer d sv" "known d ?s = known d sv" for d by (simp_all add: peer_def known_def)
  have "pe_conn (peer c sv2) =
    (if c \<in> set (reached (gets_through x sv) (sv_connections sv))
     then snd (sent_to x (pe_conn (peer c sv))) else pe_conn (peer c sv))"
    using send_each_reaches [OF _ _ assms(6) q, of c] ok by (simp add: registry_ok_of p gets_through_def [abs_def])
  moreover have "pe_conn (peer c sv') = pe_conn (peer c sv2)"
    using assms(3-5) q
    by (cases q) (simp_all add: assms(7) resume_broadcast_def Let_def recipients_now_def peer_def sv_throw_def publish_def
        split: option.splits)
  ultimately show ?thesis by simp
qed

section \<open>Taking over a session\<close>

text \<open>
  An open connection below its closing limit, and how many frames the limit of the server's own messages
  still lets through until the counters are reset. The amount the platform buffers is not touched by a handler.
\<close>

definition sends_open :: "server_conn \<Rightarrow> bool" where
  "sends_open sc \<longleftrightarrow> \<not> isClosed (sc_conn sc) \<and> getBufferedAmount (sc_conn sc) < cn_closeAt (sc_conn sc)"

definition frames_left :: "server_conn \<Rightarrow> nat \<Rightarrow> nat" where
  "frames_left sc k =
     (case rate_limit_of (sc_rater sc) (js ''S'') of
        None \<Rightarrow> k | Some n \<Rightarrow> min k (nat (n - rate_used (sc_rater sc) (js ''S''))))"

definition sent_conn :: "u8 list \<Rightarrow> server_conn \<Rightarrow> server_conn" where
  "sent_conn data sc = snd (raw_send data sc)"

lemma raw_send_open:
  assumes "sends_open sc"
  shows "raw_send data sc = (Inr (), sent_conn data sc) \<and> sends_open (sent_conn data sc)
    \<and> cn_sent (sc_conn (sent_conn data sc)) = cn_sent (sc_conn sc) @ take (frames_left sc (Suc 0)) [data]
    \<and> frames_left (sent_conn data sc) k = frames_left sc (Suc k) - frames_left sc (Suc 0)"
proof -
  have a: "Rate_Limit.admit (js ''S'') (sc_rater sc) = (b, r) \<Longrightarrow> sc_trigger (js ''S'') sc = (\<not> b, if b then sc\<lparr>sc_rater := r\<rparr> else sock_close RATELIMIT (sc\<lparr>sc_rater := r\<rparr>))" for b r
    by (auto simp: Rate_Limit.admit_def sc_trigger_def split: prod.splits)
  have w: "sends_open (sc\<lparr>sc_rater := r, sc_conn := (sc_conn sc)\<lparr>cn_sent := x, cn_heard := y\<rparr>\<rparr>)" for r x y
    using assms by (simp add: sends_open_def isClosed_def getBufferedAmount_def)
  obtain b r where g: "Rate_Limit.admit (js ''S'') (sc_rater sc) = (b, r)" by fastforce
  have lim: "rate_limit_of r (js ''S'') = rate_limit_of (sc_rater sc) (js ''S'')"
    using rates.pass_limit [of "js ''S''" "sc_rater sc"] g by simp
  show ?thesis
  proof (cases b)
    case True
    then have r: "raw_send data sc = (Inr (), sent_conn data sc)"
      "sent_conn data sc = sc\<lparr>sc_rater := r, sc_conn := snd (base_raw_send data (sc_conn sc))\<rparr>"
      using assms a [OF g] by (simp_all add: sent_conn_def raw_send_def sends_open_def base_raw_send_def del: js_simps)
    then show ?thesis
      using assms w True lim rates.pass_limited [OF _ g] unfolding r(2)
      by (auto simp: frames_left_def base_raw_send_def sends_open_def isClosed_def getBufferedAmount_def min_def
          split: option.split simp del: js_simps)
  next
    case False
    then have r: "raw_send data sc = (Inr (), sent_conn data sc)"
      "sent_conn data sc = sock_close RATELIMIT (sc\<lparr>sc_rater := r\<rparr>)"
      using assms a [OF g] by (simp_all add: sent_conn_def raw_send_def sends_open_def del: js_simps)
    then show ?thesis
      using assms False lim rates.pass_limited [OF _ g] rates.pass_unlimited [of "sc_rater sc" "js ''S''"] g unfolding r(2)
      by (auto simp: frames_left_def sends_open_def sock_close_def isClosed_def getBufferedAmount_def min_def
          split: option.split simp del: js_simps)
  qed
qed

lemma set_conn_again: "set_conn c y (set_conn c x sv) = set_conn c y sv"
  by (cases "c < length (sv_peers sv)") (simp_all add: set_conn_def set_peer_def peer_def list_update_beyond)

text \<open>Frames sent one after the other: as many as the limit lets through.\<close>

lemma send_frames_open:
  assumes "known c sv" "sends_open (pe_conn (peer c sv))"
  shows "\<exists>sc. send_frames c fs sv = (Inr (), set_conn c sc sv) \<and> sends_open sc
    \<and> cn_sent (sc_conn sc) = cn_sent (sc_conn (pe_conn (peer c sv))) @ take (frames_left (pe_conn (peer c sv)) (length fs)) fs
    \<and> (\<forall>k. frames_left sc k = frames_left (pe_conn (peer c sv)) (length fs + k) - frames_left (pe_conn (peer c sv)) (length fs))"
  using assms
proof (induction fs arbitrary: sv)
  case Nil
  have "set_conn c (pe_conn (peer c sv)) sv = sv" by (simp add: set_conn_def set_peer_def peer_def)
  moreover have "frames_left sc 0 = 0" for sc by (simp add: frames_left_def split: option.split)
  ultimately show ?case using Nil by (intro exI [of _ "pe_conn (peer c sv)"]) simp
next
  case (Cons f fs)
  let ?sc = "pe_conn (peer c sv)"
  let ?s = "set_conn c (sent_conn f ?sc) sv"
  note o = raw_send_open [OF Cons.prems(2), of f]
  have "known c ?s" "pe_conn (peer c ?s) = sent_conn f ?sc"
    using Cons.prems(1) by (simp_all add: peer_set_conn)
  with Cons.IH [of ?s] o obtain sc where s: "send_frames c fs ?s = (Inr (), set_conn c sc ?s)" "sends_open sc"
    "cn_sent (sc_conn sc) = cn_sent (sc_conn ?sc) @ take (frames_left ?sc (Suc 0)) [f]
      @ take (frames_left ?sc (Suc (length fs)) - frames_left ?sc (Suc 0)) fs"
    "\<forall>k. frames_left sc k = (frames_left ?sc (Suc (length fs + k)) - frames_left ?sc (Suc 0))
      - (frames_left ?sc (Suc (length fs)) - frames_left ?sc (Suc 0))" by auto
  have m: "frames_left ?sc (Suc 0) \<le> 1" "frames_left ?sc (Suc 0) = 0 \<Longrightarrow> frames_left ?sc j = 0"
    "frames_left ?sc (Suc 0) = 0 \<or> 1 \<le> frames_left ?sc (Suc j)" for j
    by (auto simp: frames_left_def split: option.splits)
  have t: "take (frames_left ?sc (Suc 0)) [f] @ take (frames_left ?sc (Suc (length fs)) - frames_left ?sc (Suc 0)) fs
      = take (frames_left ?sc (Suc (length fs))) (f # fs)"
    using m(1) m(2) [of "Suc (length fs)"] m(3) [of "length fs"]
    by (cases "frames_left ?sc (Suc 0)"; cases "frames_left ?sc (Suc (length fs))") auto
  have d: "frames_left ?sc (Suc (length fs + k)) - (frames_left ?sc (Suc 0) + (frames_left ?sc (Suc (length fs)) - frames_left ?sc (Suc 0)))
      = frames_left ?sc (Suc (length fs + k)) - frames_left ?sc (Suc (length fs))" for k
    using m(1) m(2) [of "Suc (length fs)"] m(3) [of "length fs"] by auto
  show ?case
    using s o by (intro exI [of _ sc]) (simp add: send_raw_def set_conn_again t d)
qed

lemma join_all_rooms: "[] \<notin> set rs \<Longrightarrow> join_all c rs s = (Inr (), room.add_all c rs s)"
  by (induction rs arbitrary: s) (auto simp: room.add_all_def join_room_def)

text \<open>
  A connection that asks for a session that is still stored, and is authorized, takes it over: it is
  sent every frame the session still has beyond the number it names, in order, and then the result, as far
  as the limit of the server's messages goes; what exceeds it is dropped. It is in the rooms of the session besides its own, nobody else's rooms change, the session no longer expires
  and the one the connection was given is gone.
\<close>

lemma resume_restores:
  assumes "known c sv" "map_of (sv_sessions sv) sid = Some ses" "session_open now (Some ses)" "\<not> sv_custom sv"
    and "default_authorize userId (ses_state ses) (pe_state (peer c sv))" "[] \<notin> set (ses_rooms ses)"
    and "sends_open (pe_conn (peer c sv))" "rooms_ok (sv_rooms sv)"
    and "length (missed_frames n ses) \<le> MAX_UVARINT" "sv' = resumeSession userId now c sid n sv"
  shows "(\<exists>r. encodeResumed True (length (missed_frames n ses)) = Inr r
      \<and> cn_sent (sc_conn (pe_conn (peer c sv'))) = cn_sent (sc_conn (pe_conn (peer c sv)))
          @ take (frames_left (pe_conn (peer c sv)) (Suc (length (missed_frames n ses)))) (missed_frames n ses @ [r]))
    \<and> pe_session (peer c sv') = sid \<and> pe_state (peer c sv') = ses_state ses
    \<and> (member (sv_rooms sv') d q \<longleftrightarrow> (d = c \<and> q \<in> set (ses_rooms ses)) \<or> member (sv_rooms sv) d q)
    \<and> map_of (sv_sessions sv') sid = Some (ses\<lparr>ses_expires := None\<rparr>)
    \<and> (pe_session (peer c sv) = sid \<or> map_of (sv_sessions sv') (pe_session (peer c sv)) = None)"
proof -
  let ?m = "missed_frames n ses"
  define sv1 where "sv1 = (restore c sid ses sv)\<lparr>sv_rooms := room.add_all c (ses_rooms ses) (sv_rooms sv)\<rparr>"
  have rj: "rejoin c ses (restore c sid ses sv) = (Inr (), sv1)"
    using assms(6) by (simp add: rejoin_def join_all_rooms restore_def set_peer_def sv1_def)
  have k: "known c sv1" and pc: "pe_conn (peer c sv1) = pe_conn (peer c sv)" "pe_session (peer c sv1) = sid"
    "pe_state (peer c sv1) = ses_state ses"
    using assms(1) by (simp_all add: sv1_def restore_def set_peer_def peer_def known_def)
  let ?sc = "pe_conn (peer c sv)"
  obtain sc where f: "send_frames c ?m sv1 = (Inr (), set_conn c sc sv1)" "sends_open sc"
    "cn_sent (sc_conn sc) = cn_sent (sc_conn ?sc) @ take (frames_left ?sc (length ?m)) ?m"
    "frames_left sc (Suc 0) = frames_left ?sc (Suc (length ?m)) - frames_left ?sc (length ?m)"
    using send_frames_open [OF k, of ?m] assms(7) pc(1) by auto
  obtain r where r: "encodeResumed True (length ?m) = Inr r"
    using assms(9) by (simp add: encodeResumed_def convertVarInt_ok)
  have p: "pe_conn (peer c (set_conn c sc sv1)) = sc" using k by (simp add: peer_set_conn)
  note o = raw_send_open [OF f(2), of r]
  have "repeat_missed c ses n sv1 = (Inr (), set_conn c (sent_conn r sc) sv1)"
    using o by (simp add: repeat_missed_def f(1) send_resumed_def r send_raw_def p set_conn_again)
  then have e: "sv' = (set_conn c (sent_conn r sc) sv1)\<lparr>sv_recovered := sv_recovered sv1 @ [(c, length ?m)]\<rparr>"
    using assms(2-5) by (simp add: assms(10) resumeSession_def finish_resume_def rj Let_def) (simp add: set_conn_def set_peer_def)
  have t: "take (frames_left ?sc (length ?m)) ?m @ take (frames_left sc (Suc 0)) [r] = take (frames_left ?sc (Suc (length ?m))) (?m @ [r])"
    unfolding f(4) by (auto simp: frames_left_def min_def split: option.split)
  have c: "c < length (sv_peers sv1)" using k by (simp add: known_def)
  have peer': "peer c sv' = (peer c sv1)\<lparr>pe_conn := sent_conn r sc\<rparr>"
    using c by (simp add: e set_conn_def set_peer_def peer_def)
  have rest: "sv_rooms sv' = room.add_all c (ses_rooms ses) (sv_rooms sv)"
    "sv_sessions sv' = take_over (pe_session (peer c sv)) sid ses (sv_sessions sv)"
    by (simp_all add: e set_conn_def set_peer_def sv1_def restore_def)
  show ?thesis
    using o
    by (auto simp: peer' rest r f(3) t pc room.add_all_member [OF assms(8)] take_over_def update_conv' delete_conv' simp del: take_append)
qed

section \<open>Examples\<close>

lemma broadcast_reaches_witness:
  "\<forall>core. \<exists>sv. sv_connections sv = [0] \<and> pe_conn (peer 0 (sv_step sv (BroadcastAnswer 0 False (Inl (Error ''x'')))))
     = snd (sent_to (1, [7], sample_packet) (pe_conn (peer 0 sv)))"
proof
  fix core
  let ?x = "(1, [7], sample_packet) :: nat \<times> u8 list \<times> packet"
  obtain sv0 where s: "new_server (empty_host core) [] 10 1000 0 False = Inr sv0" using empty_server by blast
  let ?s1 = "sv_step sv0 (Connects (js ''a'') 0)"
  have f: "sv_connections sv0 = []" "sv_broadcasts sv0 = []" using s by (auto simp: new_server_def bindR_eq_Inr)
  have g: "generateSocketID s = (i, s') \<Longrightarrow> sv_connections s' = sv_connections s \<and> sv_broadcasts s' = sv_broadcasts s" for s i s'
    by (auto simp: generateSocketID_def split: if_splits list.splits)
  have c1: "sv_connections ?s1 = [] \<and> sv_broadcasts ?s1 = []"
    using f by (auto simp: connect_def sv_throw_def split: prod.splits sum.splits dest!: g)
  define s2 where "s2 = sv_step ?s1 (HooksAnswer 0 False)"
  have c2: "sv_connections s2 = [0]" "sv_broadcasts s2 = []"
    using first_connect [OF s] c1 unfolding s2_def
    by (auto simp: admit_def Let_def set_peer_def simp del: sv_step.simps(1) js_simps)
  let ?b = "\<lparr>bc_recipients = None, bc_pc = BcPre, bc_publish = None\<rparr>"
  define s3 where "s3 = sv_step s2 (Broadcasts ToAll)"
  have c3: "s3 = s2\<lparr>sv_broadcasts := [?b]\<rparr>"
    by (simp add: s3_def broadcastInternal_def c2 target_recipients_def)
  define s4 where "s4 = sv_step s3 (BroadcastAnswer 0 False (Inr ?x))"
  have c4: "s4 = s2\<lparr>sv_broadcasts := [?b\<lparr>bc_pc := BcProcess\<rparr>]\<rparr>"
    by (simp add: s4_def c3 resume_broadcast_def recipients_now_def c2 remove_at_def)
  define s5 where "s5 = sv_step s4 (BroadcastAnswer 0 False (Inr ?x))"
  have c5: "s5 = s2\<lparr>sv_broadcasts := [?b\<lparr>bc_pc := BcPost ?x\<rparr>]\<rparr>"
    by (simp add: s5_def c4 resume_broadcast_def remove_at_def)
  have r: "reaches sv0 s5" unfolding s5_def s4_def s3_def s2_def by (intro reaches.intros)
  have "\<not> pk_replay sample_packet" by (simp add: sample_packet_def new_packet_def Let_def)
  then have "pe_conn (peer 0 (sv_step s5 (BroadcastAnswer 0 False (Inl (Error ''x'')))))
      = (if 0 \<in> set (reached (gets_through ?x s5) (sv_connections s5)) then snd (sent_to ?x (pe_conn (peer 0 s5))) else pe_conn (peer 0 s5))"
    by (intro broadcast_reaches [OF s r _ _ _ _ refl, where k = 0]) (simp_all add: c5)
  then show "\<exists>sv. sv_connections sv = [0] \<and> pe_conn (peer 0 (sv_step sv (BroadcastAnswer 0 False (Inl (Error ''x'')))))
     = snd (sent_to ?x (pe_conn (peer 0 sv)))"
    by (intro exI [of _ s5]) (simp add: c5 c2 reached_def del: sv_step.simps)
qed

end
