(* ===== verification/Cluster.thy ===== *)
theory Cluster
  imports Sonic_Server_Proofs Adapters "HOL-Library.Multiset"
begin

text \<open>
  Several servers behind one adapter channel: \<open>broadcastRoom\<close> of \<open>projects/ts/src/ws/server/SonicWSServer.ts\<close>
  publishes, every adapter that listens gets the payload, and \<open>receiveAdapterBroadcast\<close> of its server starts a
  local broadcast unless the message is its own. The interface \<open>message_bus\<close> is what a cluster needs of an
  adapter; both adapters provide it.
\<close>

section \<open>What a server gives its adapter\<close>

text \<open>What a server has published and what its pending broadcasts will publish.\<close>

definition pub_view :: "server \<Rightarrow> jsstr \<times> adapter_message list \<times> broadcast list" where
  "pub_view sv = (sv_serverId sv, sv_published sv, sv_broadcasts sv)"

definition silent :: "server \<Rightarrow> server \<Rightarrow> bool" where
  "silent sv sv' \<longleftrightarrow> pub_view sv' = pub_view sv"

interpretation quiet: server_frame silent
  by unfold_locales (simp_all add: silent_def pub_view_def set_peer_def)

lemma silent_rooms: "silent sv (sv\<lparr>sv_rooms := r\<rparr>)"
  by (simp add: silent_def pub_view_def)

lemma silent_connect: "silent sv (connect sid now sv)"
  by (auto simp: connect_def generateSocketID_def silent_def pub_view_def sv_throw_def split: prod.splits list.splits sum.splits if_splits)

lemma silent_admit: "silent sv (admit c b sv)"
  by (simp add: admit_def Let_def silent_def pub_view_def set_peer_def sv_throw_def split: sum.splits)

lemma silent_disconnect: "silent sv (disconnect c now sv)"
  by (simp add: disconnect_def Let_def silent_def pub_view_def set_peer_def)

definition broadcast_event :: "sv_event \<Rightarrow> bool" where
  "broadcast_event e =
     (case e of Broadcasts _ \<Rightarrow> True | BroadcastsRoom _ _ _ \<Rightarrow> True | BroadcastsRoomExcept _ _ _ _ \<Rightarrow> True
      | BroadcastsFrom _ _ \<Rightarrow> True | AdapterMessage _ \<Rightarrow> True | BroadcastAnswer _ _ _ \<Rightarrow> True | _ \<Rightarrow> False)"

lemma silent_step: "\<not> broadcast_event e \<Longrightarrow> silent sv (sv_step sv e)"
  by (cases e) (auto simp: broadcast_event_def expiry_timer_def quiet.heart quiet.message quiet.conn_event
      sv_finish_send_def quiet.processed quiet.authorized silent_connect silent_admit silent_disconnect on_rooms_def
      requireHandshake_def setClientRateLimit_def setServerRateLimit_def quiet.set_enabled closeSocket_def Let_def
      shutdown_def silent_rooms split: sum.splits option.splits)

text \<open>
  A broadcast moves what it will publish from the pending broadcasts to the adapter, or loses it with an
  error; only \<open>broadcastRoom\<close> and \<open>broadcastRoomExcept\<close> add something.
\<close>

definition promised :: "server \<Rightarrow> adapter_message multiset" where
  "promised sv = mset (sv_published sv) + mset (List.map_filter bc_publish (sv_broadcasts sv))"

definition room_call :: "jsstr \<Rightarrow> sv_event \<Rightarrow> adapter_message multiset" where
  "room_call own e =
     (case e of
        BroadcastsRoom room tg vs \<Rightarrow> {#\<lparr>am_origin = own, am_room = room, am_tag = tg, am_values = vs\<rparr>#}
      | BroadcastsRoomExcept _ room tg vs \<Rightarrow> {#\<lparr>am_origin = own, am_room = room, am_tag = tg, am_values = vs\<rparr>#}
      | _ \<Rightarrow> {#})"

definition pub_grows :: "server \<Rightarrow> server \<Rightarrow> adapter_message multiset \<Rightarrow> bool" where
  "pub_grows sv sv' new \<longleftrightarrow> sv_serverId sv' = sv_serverId sv \<and> (\<exists>ms. sv_published sv' = sv_published sv @ ms)
     \<and> promised sv' \<subseteq># promised sv + new"

lemma map_filter_append: "List.map_filter f (xs @ ys) = List.map_filter f xs @ List.map_filter f ys"
  by (simp add: List.map_filter_def)

lemma map_filter_one: "List.map_filter f [x] = (case f x of None \<Rightarrow> [] | Some y \<Rightarrow> [y])"
  by (simp add: List.map_filter_def split: option.split)

lemma silent_grows: "silent sv sv' \<Longrightarrow> pub_grows sv sv' new"
  by (simp add: silent_def pub_view_def pub_grows_def promised_def)

lemma broadcast_grows:
  "pub_grows sv (broadcastInternal target after sv) (case after of None \<Rightarrow> {#} | Some m \<Rightarrow> {#m#})"
  by (auto simp: broadcastInternal_def publish_def pub_grows_def promised_def map_filter_append map_filter_one
      split: option.split bc_target.split)

lemma remove_at_promise:
  assumes "k < length bs"
  shows "mset (List.map_filter f bs) = mset (List.map_filter f (remove_at k bs)) + mset (List.map_filter f [bs ! k])"
proof -
  have "bs = take k bs @ bs ! k # drop (Suc k) bs" using assms by (simp add: id_take_nth_drop)
  then have "mset (List.map_filter f bs)
      = mset (List.map_filter f (take k bs)) + mset (List.map_filter f [bs ! k]) + mset (List.map_filter f (drop (Suc k) bs))"
    by (metis (no_types, lifting) append.assoc append_Cons append_Nil map_filter_append mset_append)
  then show ?thesis by (simp add: remove_at_def map_filter_append)
qed

lemma pub_grows_then: "pub_grows sv sv1 new \<Longrightarrow> silent sv1 sv2 \<Longrightarrow> pub_grows sv sv2 new"
  by (simp add: silent_def pub_view_def pub_grows_def promised_def)

lemma resume_grows: "pub_grows sv (resume_broadcast k cancelled processed sv) {#}"
proof (cases "k < length (sv_broadcasts sv)")
  case True
  define b where "b = sv_broadcasts sv ! k"
  define sv1 where "sv1 = sv\<lparr>sv_broadcasts := remove_at k (sv_broadcasts sv)\<rparr>"
  have split: "promised sv = promised sv1 + mset (List.map_filter bc_publish [b])"
    using remove_at_promise [OF True, of bc_publish] by (simp add: promised_def sv1_def b_def)
  have drops: "pub_grows sv sv1 {#}" by (simp add: pub_grows_def split) (simp add: sv1_def)
  have over: "pub_grows sv (publish (bc_publish b) sv2) {#}" if "silent sv1 sv2" for sv2
    using that split
    by (cases "bc_publish b") (auto simp: pub_grows_def silent_def pub_view_def promised_def publish_def sv1_def map_filter_one)
  have on: "pub_grows sv (sv1\<lparr>sv_broadcasts := sv_broadcasts sv1 @ [b\<lparr>bc_pc := pc\<rparr>]\<rparr>) {#}" for pc
    using split by (simp add: pub_grows_def promised_def map_filter_append map_filter_one sv1_def)
  from True b_def sv1_def show ?thesis
  proof (cases rule: resume_broadcast_outcome [of _ _ _ _ cancelled processed])
    case (sent_some cs x e)
    then show ?thesis
      using pub_grows_then [OF drops quiet.trans [OF quiet.send_each quiet.throw]] by simp
  qed (simp_all add: over on quiet.send_each pub_grows_then [OF drops])
qed (simp add: resume_broadcast_def silent_grows)

lemma sv_step_grows: "pub_grows sv (sv_step sv e) (room_call (sv_serverId sv) e)"
proof (cases "broadcast_event e")
  case True
  then show ?thesis
    using broadcast_grows [of sv _ None] broadcast_grows [of sv _ "Some _"]
    by (cases e) (auto simp: broadcast_event_def room_call_def broadcastRoom_def broadcastRoomExcept_def
        broadcastFrom_def receiveAdapterBroadcast_def resume_grows silent_grows)
qed (simp add: silent_grows silent_step del: sv_step.simps)

section \<open>The interface\<close>

text \<open>What the servers call, and what the state of an adapter is read for.\<close>

record ('a, 'e) bus_ops =
  bo_publish :: "adapter_message \<Rightarrow> 'a \<Rightarrow> 'a"
  bo_deliver :: "jsstr \<Rightarrow> 'a \<Rightarrow> 'a"
  bo_own :: "'a \<Rightarrow> 'e \<Rightarrow> 'a"
  bo_accepted :: "'a \<Rightarrow> adapter_message list"
  bo_out :: "'a \<Rightarrow> jsstr list"
  bo_delivered :: "'a \<Rightarrow> adapter_message list"

record 'a node =
  nd_server :: server
  nd_adapter :: 'a

record 'a cluster =
  cs_nodes :: "'a node list"
  cs_bus :: "jsstr list"

text \<open>
  A server does something, and what it newly published goes to its adapter; an adapter does something of its
  own, and what it newly handed out is on the bus; the bus brings one payload to one adapter, and what that
  newly gives its receiver is handled by the server.
\<close>

datatype 'e cluster_event = ServerDoes nat sv_event | AdapterDoes nat 'e | Delivers nat nat

definition node_server :: "('a, 'e) bus_ops \<Rightarrow> sv_event \<Rightarrow> 'a node \<Rightarrow> 'a node" where
  "node_server ops e nd =
     (let sv = sv_step (nd_server nd) e
      in \<lparr>nd_server = sv,
          nd_adapter = foldl (\<lambda>a m. bo_publish ops m a) (nd_adapter nd)
                         (drop (length (sv_published (nd_server nd))) (sv_published sv))\<rparr>)"

definition node_deliver :: "('a, 'e) bus_ops \<Rightarrow> jsstr \<Rightarrow> 'a node \<Rightarrow> 'a node" where
  "node_deliver ops payload nd =
     (let a = bo_deliver ops payload (nd_adapter nd)
      in foldl (\<lambda>nd m. node_server ops (AdapterMessage m) nd) (nd\<lparr>nd_adapter := a\<rparr>)
           (drop (length (bo_delivered ops (nd_adapter nd))) (bo_delivered ops a)))"

definition server_own :: "sv_event \<Rightarrow> bool" where
  "server_own e = (case e of AdapterMessage _ \<Rightarrow> False | _ \<Rightarrow> True)"

fun cluster_step :: "('a, 'e) bus_ops \<Rightarrow> 'a cluster \<Rightarrow> 'e cluster_event \<Rightarrow> 'a cluster" where
  "cluster_step ops cl (ServerDoes i e) =
     (if i < length (cs_nodes cl) \<and> server_own e
      then cl\<lparr>cs_nodes := (cs_nodes cl)[i := node_server ops e (cs_nodes cl ! i)]\<rparr> else cl)"
| "cluster_step ops cl (AdapterDoes i e) =
     (if i < length (cs_nodes cl)
      then let nd = cs_nodes cl ! i; a = bo_own ops (nd_adapter nd) e
           in cl\<lparr>cs_nodes := (cs_nodes cl)[i := nd\<lparr>nd_adapter := a\<rparr>],
                 cs_bus := cs_bus cl @ drop (length (bo_out ops (nd_adapter nd))) (bo_out ops a)\<rparr>
      else cl)"
| "cluster_step ops cl (Delivers i k) =
     (if i < length (cs_nodes cl) \<and> k < length (cs_bus cl)
      then cl\<lparr>cs_nodes := (cs_nodes cl)[i := node_deliver ops (cs_bus cl ! k) (cs_nodes cl ! i)]\<rparr> else cl)"

definition reads :: "v8 \<Rightarrow> jsstr \<Rightarrow> adapter_message \<Rightarrow> bool" where
  "reads lib payload m \<longleftrightarrow> v8_deserialize lib (base64_decode payload) = Inr m"

text \<open>What both adapters promise the servers.\<close>

definition room_call_event :: "'e cluster_event \<Rightarrow> bool" where
  "room_call_event e = (case e of ServerDoes _ x \<Rightarrow> room_call [] x \<noteq> {#} | _ \<Rightarrow> False)"

definition room_calls :: "'e cluster_event list \<Rightarrow> nat" where
  "room_calls es = length (filter room_call_event es)"

lemma room_call_size: "size (room_call own e) \<le> 1" "size (room_call own e) = size (room_call [] e)"
  by (simp_all add: room_call_def split: sv_event.split)

lemma room_call_origin: "m \<in># room_call own e \<Longrightarrow> am_origin m = own"
  by (auto simp: room_call_def split: sv_event.splits)

lemma sum_list_map_update:
  fixes f :: "'x \<Rightarrow> 'y::comm_monoid_add"
  shows "i < length xs \<Longrightarrow> sum_list (map f (xs[i := y])) + f (xs ! i) = sum_list (map f xs) + f y"
  by (induction xs arbitrary: i) (auto simp: ac_simps split: nat.split)

definition fresh_server :: "server \<Rightarrow> bool" where
  "fresh_server sv \<longleftrightarrow> sv_published sv = [] \<and> sv_broadcasts sv = []"

lemma sum_list_all_zero:
  fixes f :: "'x \<Rightarrow> 'y::comm_monoid_add"
  shows "(\<And>x. x \<in> set xs \<Longrightarrow> f x = 0) \<Longrightarrow> sum_list (map f xs) = 0"
  by (induction xs) simp_all

lemma fresh_promised: "fresh_server sv \<Longrightarrow> promised sv = {#} \<and> sv_published sv = []"
  by (simp add: fresh_server_def promised_def List.map_filter_def)

locale message_bus =
  fixes ops :: "('a, 'e) bus_ops" and lib :: v8 and ok :: "'a \<Rightarrow> bool" and hears :: "'a \<Rightarrow> bool"
  assumes ok_publish: "ok a \<Longrightarrow> ok (bo_publish ops m a)"
    and ok_deliver: "ok a \<Longrightarrow> ok (bo_deliver ops payload a)"
    and ok_own: "ok a \<Longrightarrow> ok (bo_own ops a e)"
    and publish_accepted: "mset (bo_accepted ops (bo_publish ops m a)) \<subseteq># mset (bo_accepted ops a) + {#m#}"
    and publish_out: "bo_out ops (bo_publish ops m a) = bo_out ops a"
    and deliver_accepted: "bo_accepted ops (bo_deliver ops payload a) = bo_accepted ops a"
    and deliver_out: "bo_out ops (bo_deliver ops payload a) = bo_out ops a"
    and deliver_reads: "reads lib payload m \<Longrightarrow>
      bo_delivered ops (bo_deliver ops payload a) = bo_delivered ops a @ (if hears a then [m] else [])"
    and own_accepted: "bo_accepted ops (bo_own ops a e) = bo_accepted ops a"
    and own_out: "\<exists>ps. bo_out ops (bo_own ops a e) = bo_out ops a @ ps"
    and out_accepted: "ok a \<Longrightarrow> \<exists>ms. mset ms \<subseteq># mset (bo_accepted ops a) \<and> list_all2 (reads lib) (bo_out ops a) ms"
begin

definition node_ok :: "'a node \<Rightarrow> bool" where
  "node_ok nd \<longleftrightarrow> ok (nd_adapter nd) \<and> mset (bo_accepted ops (nd_adapter nd)) \<subseteq># mset (sv_published (nd_server nd))
     \<and> (\<forall>m \<in># promised (nd_server nd). am_origin m = sv_serverId (nd_server nd))"

definition node_grows :: "adapter_message multiset \<Rightarrow> 'a node \<Rightarrow> 'a node \<Rightarrow> bool" where
  "node_grows new nd nd' \<longleftrightarrow> node_ok nd' \<and> sv_serverId (nd_server nd') = sv_serverId (nd_server nd)
     \<and> bo_out ops (nd_adapter nd') = bo_out ops (nd_adapter nd)
     \<and> promised (nd_server nd') \<subseteq># promised (nd_server nd) + new"

lemma publish_all:
  "ok a \<Longrightarrow> ok (foldl (\<lambda>a m. bo_publish ops m a) a ms)
     \<and> bo_out ops (foldl (\<lambda>a m. bo_publish ops m a) a ms) = bo_out ops a
     \<and> mset (bo_accepted ops (foldl (\<lambda>a m. bo_publish ops m a) a ms)) \<subseteq># mset (bo_accepted ops a) + mset ms"
proof (induction ms rule: rev_induct)
  case (snoc m ms)
  let ?a = "foldl (\<lambda>a m. bo_publish ops m a) a ms"
  have "mset (bo_accepted ops (bo_publish ops m ?a)) \<subseteq># mset (bo_accepted ops a) + mset ms + {#m#}"
    using snoc by (intro subset_mset.order_trans [OF publish_accepted] subset_mset.add_mono) simp_all
  then show ?case using snoc by (simp add: ok_publish publish_out)
qed simp

lemma node_server_grows:
  assumes "node_ok nd"
  shows "node_grows (room_call (sv_serverId (nd_server nd)) e) nd (node_server ops e nd)"
proof -
  let ?sv = "nd_server nd" and ?sv' = "sv_step (nd_server nd) e"
  have g: "pub_grows ?sv ?sv' (room_call (sv_serverId ?sv) e)" by (rule sv_step_grows)
  then obtain ms where ms: "sv_published ?sv' = sv_published ?sv @ ms" by (auto simp: pub_grows_def)
  have "m \<in># promised ?sv' \<Longrightarrow> am_origin m = sv_serverId ?sv" for m
    using g assms room_call_origin by (auto simp: pub_grows_def node_ok_def dest!: mset_subset_eqD)
  moreover have "mset (bo_accepted ops (nd_adapter nd)) + mset ms \<subseteq># mset (sv_published ?sv')"
    using assms ms by (simp add: node_ok_def)
  ultimately show ?thesis
    using assms g publish_all [of "nd_adapter nd" ms] ms
      subset_mset.order_trans [of _ "mset (bo_accepted ops (nd_adapter nd)) + mset ms"]
    by (auto simp: node_grows_def node_ok_def node_server_def Let_def pub_grows_def simp del: sv_step.simps)
qed

lemma node_deliver_grows:
  assumes "node_ok nd"
  shows "node_grows {#} nd (node_deliver ops payload nd)"
proof -
  have "node_grows {#} nd (foldl (\<lambda>nd m. node_server ops (AdapterMessage m) nd) nd ms)" if "node_ok nd" for nd ms
  proof (induction ms rule: rev_induct)
    case Nil
    show ?case using that by (simp add: node_grows_def)
  next
    case (snoc m ms)
    let ?nd = "foldl (\<lambda>nd m. node_server ops (AdapterMessage m) nd) nd ms"
    have "node_grows {#} ?nd (node_server ops (AdapterMessage m) ?nd)"
      using snoc node_server_grows [of ?nd "AdapterMessage m"] by (simp add: node_grows_def room_call_def)
    then show ?case using snoc by (auto simp: node_grows_def)
  qed
  moreover have "node_ok (nd\<lparr>nd_adapter := bo_deliver ops payload (nd_adapter nd)\<rparr>)"
    using assms by (simp add: node_ok_def ok_deliver deliver_accepted)
  ultimately show ?thesis
    unfolding node_deliver_def Let_def by (fastforce simp: node_grows_def deliver_out)
qed

text \<open>
  The cluster: every payload on the bus was handed out by an adapter, and what is published or going to be
  is at most the number of calls.
\<close>

definition cluster_inv :: "jsstr list \<Rightarrow> nat \<Rightarrow> 'a cluster \<Rightarrow> bool" where
  "cluster_inv ids calls cl \<longleftrightarrow>
     map (\<lambda>nd. sv_serverId (nd_server nd)) (cs_nodes cl) = ids \<and> (\<forall>nd \<in> set (cs_nodes cl). node_ok nd)
     \<and> mset (cs_bus cl) = sum_list (map (\<lambda>nd. mset (bo_out ops (nd_adapter nd))) (cs_nodes cl))
     \<and> sum_list (map (\<lambda>nd. size (promised (nd_server nd))) (cs_nodes cl)) \<le> calls"

lemma cluster_update:
  assumes "cluster_inv ids calls cl" "i < length (cs_nodes cl)" "node_grows new (cs_nodes cl ! i) nd"
  shows "cluster_inv ids (calls + size new) (cl\<lparr>cs_nodes := (cs_nodes cl)[i := nd]\<rparr>)"
proof -
  let ?ns = "cs_nodes cl"
  have id: "map (\<lambda>nd. sv_serverId (nd_server nd)) (?ns[i := nd]) = ids"
    using assms by (simp add: cluster_inv_def node_grows_def map_update) (metis list_update_id map_update nth_map)
  have ok: "\<forall>nd \<in> set (?ns[i := nd]). node_ok nd"
    using assms by (auto simp: cluster_inv_def node_grows_def dest!: set_update_subset_insert [THEN subsetD])
  have "sum_list (map (\<lambda>nd. mset (bo_out ops (nd_adapter nd))) (?ns[i := nd]))
      = sum_list (map (\<lambda>nd. mset (bo_out ops (nd_adapter nd))) ?ns)"
    using assms(3) sum_list_map_update [OF assms(2), of "\<lambda>nd. mset (bo_out ops (nd_adapter nd))" nd]
    by (simp add: node_grows_def)
  moreover have "size (promised (nd_server nd)) \<le> size (promised (nd_server (?ns ! i))) + size new"
    using assms(3) by (auto simp: node_grows_def dest!: size_mset_mono)
  then have "sum_list (map (\<lambda>nd. size (promised (nd_server nd))) (?ns[i := nd])) \<le> calls + size new"
    using assms(1) sum_list_map_update [OF assms(2), of "\<lambda>nd. size (promised (nd_server nd))" nd]
    by (simp add: cluster_inv_def)
  ultimately show ?thesis using assms(1) id ok by (simp add: cluster_inv_def)
qed

lemma cluster_inv_mono: "cluster_inv ids n cl \<Longrightarrow> n \<le> k \<Longrightarrow> cluster_inv ids k cl"
  by (simp add: cluster_inv_def)

lemma cluster_own:
  assumes "cluster_inv ids calls cl" "i < length (cs_nodes cl)"
  shows "cluster_inv ids calls (cluster_step ops cl (AdapterDoes i e))"
proof -
  let ?nd = "cs_nodes cl ! i" and ?a = "bo_own ops (nd_adapter (cs_nodes cl ! i)) e"
  let ?ns' = "(cs_nodes cl)[i := (cs_nodes cl ! i)\<lparr>nd_adapter := bo_own ops (nd_adapter (cs_nodes cl ! i)) e\<rparr>]"
  obtain ps where ps: "bo_out ops ?a = bo_out ops (nd_adapter ?nd) @ ps" using own_out by blast
  have ok: "node_ok (?nd\<lparr>nd_adapter := ?a\<rparr>)"
    using assms by (auto simp: cluster_inv_def node_ok_def ok_own own_accepted)
  have same: "map (\<lambda>nd. f (nd_server nd)) ?ns' = map (\<lambda>nd. f (nd_server nd)) (cs_nodes cl)" for f :: "server \<Rightarrow> 'x"
    using assms(2) by (simp add: map_update) (metis list_update_id nth_map)
  have "\<forall>nd \<in> set ?ns'. node_ok nd"
    using assms ok by (auto simp: cluster_inv_def dest!: set_update_subset_insert [THEN subsetD])
  moreover have "mset (cs_bus cl @ ps) = sum_list (map (\<lambda>nd. mset (bo_out ops (nd_adapter nd))) ?ns')"
    using assms(1) ps sum_list_map_update [OF assms(2), of "\<lambda>nd. mset (bo_out ops (nd_adapter nd))" "?nd\<lparr>nd_adapter := ?a\<rparr>"]
    by (simp add: cluster_inv_def)
  ultimately show ?thesis
    using assms ps same [of sv_serverId] same [of "\<lambda>s. size (promised s)"] by (simp add: cluster_inv_def Let_def)
qed

lemma cluster_step_inv:
  assumes "cluster_inv ids calls cl"
  shows "cluster_inv ids (calls + room_calls [e]) (cluster_step ops cl e)"
proof (cases e)
  case (ServerDoes i x)
  show ?thesis
  proof (cases "i < length (cs_nodes cl) \<and> server_own x")
    case True
    let ?new = "room_call (sv_serverId (nd_server (cs_nodes cl ! i))) x"
    have "size ?new \<le> room_calls [e]"
      using room_call_size [of "sv_serverId (nd_server (cs_nodes cl ! i))" x] room_call_size(1) [of "[]" x] ServerDoes
      by (auto simp: room_calls_def room_call_event_def)
    moreover have "node_ok (cs_nodes cl ! i)" using assms True by (simp add: cluster_inv_def)
    ultimately show ?thesis
      using cluster_inv_mono [OF cluster_update [OF assms _ node_server_grows]] ServerDoes True by simp
  qed (use assms ServerDoes cluster_inv_mono in auto)
next
  case (AdapterDoes i x)
  then show ?thesis using cluster_own [OF assms] assms
    by (cases "i < length (cs_nodes cl)") (auto simp: room_calls_def room_call_event_def)
next
  case (Delivers i k)
  show ?thesis
  proof (cases "i < length (cs_nodes cl) \<and> k < length (cs_bus cl)")
    case True
    then have "node_ok (cs_nodes cl ! i)" using assms by (simp add: cluster_inv_def)
    then show ?thesis
      using cluster_update [OF assms _ node_deliver_grows] Delivers True by (simp add: room_calls_def room_call_event_def)
  qed (use assms Delivers cluster_inv_mono in auto)
qed

lemma cluster_run_inv: "cluster_inv ids 0 cl \<Longrightarrow> cluster_inv ids (room_calls es) (foldl (cluster_step ops) cl es)"
proof (induction es rule: rev_induct)
  case (snoc e es)
  have "room_calls (es @ [e]) = room_calls es + room_calls [e]" by (simp add: room_calls_def)
  then show ?case using cluster_step_inv [of ids "room_calls es" _ e] snoc by simp
qed (simp add: room_calls_def)

text \<open>What is on the bus, then: at most one payload for each call, and each is a message of one server.\<close>

lemma sum_list_size_mono:
  fixes f :: "'x \<Rightarrow> 'y multiset"
  shows "(\<And>x. x \<in> set xs \<Longrightarrow> size (f x) \<le> g x) \<Longrightarrow> size (sum_list (map f xs)) \<le> sum_list (map g xs)"
  by (induction xs) (auto simp: add_mono)

lemma out_promised:
  assumes "node_ok nd"
  shows "length (bo_out ops (nd_adapter nd)) \<le> size (promised (nd_server nd))"
    and "p \<in> set (bo_out ops (nd_adapter nd)) \<Longrightarrow>
      \<exists>m. reads lib p m \<and> m \<in> set (sv_published (nd_server nd)) \<and> am_origin m = sv_serverId (nd_server nd)"
proof -
  obtain ms where ms: "mset ms \<subseteq># mset (bo_accepted ops (nd_adapter nd))" "list_all2 (reads lib) (bo_out ops (nd_adapter nd)) ms"
    using assms out_accepted by (auto simp: node_ok_def)
  then have sub: "mset ms \<subseteq># mset (sv_published (nd_server nd))"
    using assms subset_mset.order_trans by (auto simp: node_ok_def)
  then have "mset ms \<subseteq># promised (nd_server nd)" using subset_mset.order_trans by (fastforce simp: promised_def)
  then show "length (bo_out ops (nd_adapter nd)) \<le> size (promised (nd_server nd))"
    using ms(2) size_mset_mono by (fastforce dest: list_all2_lengthD)
  assume "p \<in> set (bo_out ops (nd_adapter nd))"
  then obtain m where m: "m \<in> set ms" "reads lib p m"
    using ms(2) by (metis in_set_conv_nth list_all2_conv_all_nth)
  then have "m \<in> set (sv_published (nd_server nd))" using sub by (auto dest: mset_subset_eqD)
  then show "\<exists>m. reads lib p m \<and> m \<in> set (sv_published (nd_server nd)) \<and> am_origin m = sv_serverId (nd_server nd)"
    using m assms by (auto simp: node_ok_def promised_def)
qed

lemma bus_bound:
  assumes "cluster_inv ids calls cl"
  shows "length (cs_bus cl) \<le> calls"
proof -
  have "length (cs_bus cl) = size (mset (cs_bus cl))" by simp
  also have "\<dots> \<le> sum_list (map (\<lambda>nd. size (promised (nd_server nd))) (cs_nodes cl))"
    using assms out_promised(1) unfolding cluster_inv_def
    by (simp add: sum_list_size_mono)
  finally show ?thesis using assms by (simp add: cluster_inv_def)
qed

lemma bus_origin:
  assumes "cluster_inv ids calls cl" "p \<in> set (cs_bus cl)"
  shows "\<exists>i < length (cs_nodes cl). \<exists>m. reads lib p m \<and> m \<in> set (sv_published (nd_server (cs_nodes cl ! i)))
    \<and> am_origin m = ids ! i"
proof -
  have "p \<in># sum_list (map (\<lambda>nd. mset (bo_out ops (nd_adapter nd))) (cs_nodes cl))"
    using assms by (simp add: cluster_inv_def flip: set_mset_mset)
  then obtain nd where nd: "nd \<in> set (cs_nodes cl)" "p \<in> set (bo_out ops (nd_adapter nd))" by auto
  then obtain i where i: "i < length (cs_nodes cl)" "cs_nodes cl ! i = nd" by (auto simp: in_set_conv_nth)
  have "node_ok nd" using assms(1) nd(1) by (simp add: cluster_inv_def)
  moreover have "ids ! i = sv_serverId (nd_server nd)" using assms(1) i by (auto simp: cluster_inv_def)
  ultimately show ?thesis using out_promised(2) [OF _ nd(2)] i by metis
qed

text \<open>A payload reaches a server: nothing happens if the message is its own, else one local broadcast starts.\<close>

lemma delivery:
  assumes "reads lib payload m"
  shows "nd_server (node_deliver ops payload nd)
    = (if hears (nd_adapter nd) \<and> am_origin m \<noteq> sv_serverId (nd_server nd)
       then broadcastInternal (ToTagged (am_room m)) None (nd_server nd) else nd_server nd)"
  using deliver_reads [OF assms]
  by (simp add: node_deliver_def Let_def node_server_def receiveAdapterBroadcast_def)

lemma cluster_delivers:
  assumes "cluster_inv ids calls cl" "distinct ids" "k < length (cs_bus cl)"
  shows "\<exists>i < length (cs_nodes cl). \<exists>m \<in> set (sv_published (nd_server (cs_nodes cl ! i))). \<forall>j < length (cs_nodes cl).
    nd_server (cs_nodes (cluster_step ops cl (Delivers j k)) ! j)
      = (if j \<noteq> i \<and> hears (nd_adapter (cs_nodes cl ! j))
         then broadcastInternal (ToTagged (am_room m)) None (nd_server (cs_nodes cl ! j))
         else nd_server (cs_nodes cl ! j))"
proof -
  obtain i m where i: "i < length (cs_nodes cl)" "reads lib (cs_bus cl ! k) m"
    "m \<in> set (sv_published (nd_server (cs_nodes cl ! i)))" "am_origin m = ids ! i"
    using bus_origin [OF assms(1), of "cs_bus cl ! k"] assms(3) by auto
  have ids: "sv_serverId (nd_server (cs_nodes cl ! j)) = ids ! j" "length ids = length (cs_nodes cl)"
    if "j < length (cs_nodes cl)" for j
    using assms(1) that by (auto simp: cluster_inv_def)
  have "nd_server (cs_nodes (cluster_step ops cl (Delivers j k)) ! j)
      = (if j \<noteq> i \<and> hears (nd_adapter (cs_nodes cl ! j))
         then broadcastInternal (ToTagged (am_room m)) None (nd_server (cs_nodes cl ! j))
         else nd_server (cs_nodes cl ! j))" if "j < length (cs_nodes cl)" for j
    using delivery [OF i(2), of "cs_nodes cl ! j"] that assms(3) ids [OF that] i(4)
      nth_eq_iff_index_eq [OF assms(2), of i j] i(1) by auto
  then show ?thesis using i by blast
qed

lemma cluster_start:
  assumes "cs_bus cl = []" and "\<And>nd. nd \<in> set (cs_nodes cl) \<Longrightarrow> fresh_server (nd_server nd) \<and> ok (nd_adapter nd)
      \<and> bo_accepted ops (nd_adapter nd) = [] \<and> bo_out ops (nd_adapter nd) = []"
  shows "cluster_inv (map (\<lambda>nd. sv_serverId (nd_server nd)) (cs_nodes cl)) 0 cl"
  using assms by (simp add: cluster_inv_def node_ok_def fresh_promised sum_list_all_zero)

lemma cluster_rooms_of:
  assumes "cs_bus cl0 = []" and "\<And>nd. nd \<in> set (cs_nodes cl0) \<Longrightarrow> fresh_server (nd_server nd) \<and> ok (nd_adapter nd)
      \<and> bo_accepted ops (nd_adapter nd) = [] \<and> bo_out ops (nd_adapter nd) = []"
    and "distinct (map (\<lambda>nd. sv_serverId (nd_server nd)) (cs_nodes cl0))" and "cl = foldl (cluster_step ops) cl0 es"
  shows "length (cs_bus cl) \<le> room_calls es
    \<and> (\<forall>k < length (cs_bus cl). \<exists>i < length (cs_nodes cl). \<exists>m \<in> set (sv_published (nd_server (cs_nodes cl ! i))).
        \<forall>j < length (cs_nodes cl). nd_server (cs_nodes (cluster_step ops cl (Delivers j k)) ! j)
          = (if j \<noteq> i \<and> hears (nd_adapter (cs_nodes cl ! j))
             then broadcastInternal (ToTagged (am_room m)) None (nd_server (cs_nodes cl ! j))
             else nd_server (cs_nodes cl ! j)))"
proof -
  have i: "cluster_inv (map (\<lambda>nd. sv_serverId (nd_server nd)) (cs_nodes cl0)) (room_calls es) cl"
    unfolding assms(4) by (rule cluster_run_inv [OF cluster_start [OF assms(1,2)]])
  show ?thesis using bus_bound [OF i] cluster_delivers [OF i assms(3)] by blast
qed

end

section \<open>Both adapters provide it\<close>

definition v8_ok :: "v8 \<Rightarrow> bool" where
  "v8_ok lib \<longleftrightarrow> (\<forall>m bs. v8_serialize lib m = Inr bs \<longrightarrow> v8_deserialize lib bs = Inr m)"

definition hearing :: "('r, 'x) adapter_scheme \<Rightarrow> bool" where
  "hearing a \<longleftrightarrow> ad_listens a \<and> ad_receiver a \<noteq> None"

definition redis_ops :: "v8 \<Rightarrow> ('r redis, 'r redis_event) bus_ops" where
  "redis_ops lib =
     \<lparr>bo_publish = redis_publish, bo_deliver = redis_message lib,
      bo_own = (\<lambda>s e. case e of RedisPublish _ \<Rightarrow> s | RedisMessage _ \<Rightarrow> s | _ \<Rightarrow> redis_step lib s e),
      bo_accepted = ad_accepted, bo_out = ad_out, bo_delivered = (\<lambda>s. map snd (ad_delivered s))\<rparr>"

definition pg_ops :: "v8 \<Rightarrow> ('r postgres, 'r pg_event) bus_ops" where
  "pg_ops lib =
     \<lparr>bo_publish = pg_publish, bo_deliver = (\<lambda>p s. pg_notification lib (ad_channel s) (Some p) s),
      bo_own = (\<lambda>s e. case e of PgPublish _ \<Rightarrow> s | PgNotification _ _ \<Rightarrow> s | _ \<Rightarrow> pg_step lib s e),
      bo_accepted = ad_accepted, bo_out = ad_out, bo_delivered = (\<lambda>s. map snd (ad_delivered s))\<rparr>"

lemma publish_inv_out:
  assumes "publish_inv lib check a" "v8_ok lib"
  shows "\<exists>ms. mset ms \<subseteq># mset (ad_accepted a) \<and> list_all2 (reads lib) (ad_out a) ms"
proof -
  obtain d where d: "ad_accepted a = d @ ad_waiting a"
    "ad_out a = (if ad_start a = Started then map (payload_of lib) (filter (sendable lib check) d) else [])"
    using assms(1) by (auto simp: publish_inv_def)
  have "reads lib (payload_of lib m) m" if "sendable lib check m" for m
    using that assms(2) by (auto simp: reads_def payload_of_def sendable_def adapter_payload_def is_ok_iff
        bindR_eq_Inr base64_roundtrip v8_ok_def)
  then have "list_all2 (reads lib) (map (payload_of lib) (filter (sendable lib check) d)) (filter (sendable lib check) d)"
    by (simp add: list_all2_map1 list_all2_same)
  moreover have "mset (filter (sendable lib check) d) \<subseteq># mset (ad_accepted a)"
    using d(1) by (simp add: mset_filter multiset_filter_subset subset_mset.trans [OF multiset_filter_subset])
  ultimately show ?thesis
    using d(2) by (cases "ad_start a = Started") (auto intro: exI [of _ "filter (sendable lib check) d"] exI [of _ "[]"])
qed

lemma adapter_publish_same:
  "mset (ad_accepted (adapter_publish t1 t2 m a)) \<subseteq># add_mset m (mset (ad_accepted a))"
  "ad_out (adapter_publish t1 t2 m a) = ad_out a"
  by (simp_all add: adapter_publish_def)

lemma adapter_continue_same:
  "ad_accepted (adapter_continue lib check a) = ad_accepted a"
  "\<exists>ps. ad_out (adapter_continue lib check a) = ad_out a @ ps"
  by (auto simp: adapter_continue_def split: list.split start_state.split sum.split)

lemma adapter_receive_reads:
  "reads lib payload m \<Longrightarrow> map snd (ad_delivered (adapter_receive lib payload a))
     = map snd (ad_delivered a) @ (if ad_receiver a \<noteq> None then [m] else [])"
  by (auto simp: adapter_receive_def reads_def)

interpretation redis_bus: message_bus "redis_ops lib" lib "\<lambda>a. v8_ok lib \<and> publish_inv lib (\<lambda>_. Inr ()) a" hearing for lib
proof
  fix a :: "'a redis" and e
  show "\<exists>ps. bo_out (redis_ops lib) (bo_own (redis_ops lib) a e) = bo_out (redis_ops lib) a @ ps"
    using adapter_continue_same(2) [of lib "\<lambda>_. Inr ()" a]
    by (cases e) (auto simp: redis_ops_def redis_start_def adapter_start_def redis_connects_def redis_subscribes_def
        redis_continue_def redis_close_def split: sum.split)
  show "bo_accepted (redis_ops lib) (bo_own (redis_ops lib) a e) = bo_accepted (redis_ops lib) a"
    by (cases e) (auto simp: redis_ops_def redis_start_def adapter_start_def redis_connects_def redis_subscribes_def
        redis_continue_def adapter_continue_same redis_close_def split: sum.split)
  assume "v8_ok lib \<and> publish_inv lib (\<lambda>_. Inr ()) a"
  then show "v8_ok lib \<and> publish_inv lib (\<lambda>_. Inr ()) (bo_own (redis_ops lib) a e)"
    using redis_adapter.keeps by (cases e) (auto simp: redis_ops_def simp del: redis_step.simps)
next
  fix a :: "'a redis" and payload m
  assume "v8_ok lib \<and> publish_inv lib (\<lambda>_. Inr ()) a"
  then show "v8_ok lib \<and> publish_inv lib (\<lambda>_. Inr ()) (bo_publish (redis_ops lib) m a)"
    "v8_ok lib \<and> publish_inv lib (\<lambda>_. Inr ()) (bo_deliver (redis_ops lib) payload a)"
    using redis_adapter.keeps [of lib a "RedisPublish m"] redis_adapter.keeps [of lib a "RedisMessage payload"]
    by (simp_all add: redis_ops_def)
  then show "\<exists>ms. mset ms \<subseteq># mset (bo_accepted (redis_ops lib) a) \<and> list_all2 (reads lib) (bo_out (redis_ops lib) a) ms"
    using publish_inv_out \<open>v8_ok lib \<and> publish_inv lib (\<lambda>_. Inr ()) a\<close> by (auto simp: redis_ops_def)
qed (auto simp: redis_ops_def redis_publish_def adapter_publish_same redis_message_def adapter_receive_same
      adapter_receive_reads hearing_def)

interpretation pg_bus: message_bus "pg_ops lib" lib "\<lambda>a. v8_ok lib \<and> (\<exists>n. pg_inv lib n a)" hearing for lib
proof
  fix a :: "'a postgres" and e
  show "\<exists>ps. bo_out (pg_ops lib) (bo_own (pg_ops lib) a e) = bo_out (pg_ops lib) a @ ps"
    using adapter_continue_same(2) [of lib "pg_check (pg_maxPayload a)" a]
    by (cases e) (auto simp: pg_ops_def pg_start_def adapter_start_def pg_connects_def pg_listens_def pg_ended_def
        pg_continue_def pg_close_def closeClients_done_def closeClients_def start_settles_def Let_def
        split: sum.split list.split option.split)
  show "bo_accepted (pg_ops lib) (bo_own (pg_ops lib) a e) = bo_accepted (pg_ops lib) a"
    by (cases e) (auto simp: pg_ops_def pg_start_def adapter_start_def pg_connects_def pg_listens_def pg_ended_def
        pg_continue_def adapter_continue_same pg_close_def closeClients_done_def closeClients_def start_settles_def Let_def
        split: sum.split list.split option.split)
  assume "v8_ok lib \<and> (\<exists>n. pg_inv lib n a)"
  then show "v8_ok lib \<and> (\<exists>n. pg_inv lib n (bo_own (pg_ops lib) a e))"
    using pg_adapter.keeps by (cases e) (fastforce simp: pg_ops_def simp del: pg_step.simps)+
next
  fix a :: "'a postgres" and payload m
  assume a: "v8_ok lib \<and> (\<exists>n. pg_inv lib n a)"
  then show "v8_ok lib \<and> (\<exists>n. pg_inv lib n (bo_publish (pg_ops lib) m a))"
    "v8_ok lib \<and> (\<exists>n. pg_inv lib n (bo_deliver (pg_ops lib) payload a))"
    using pg_adapter.keeps [of lib _ a "PgPublish m"] pg_adapter.keeps [of lib _ a "PgNotification (ad_channel a) (Some payload)"]
    by (auto simp: pg_ops_def)
  show "\<exists>ms. mset ms \<subseteq># mset (bo_accepted (pg_ops lib) a) \<and> list_all2 (reads lib) (bo_out (pg_ops lib) a) ms"
    using publish_inv_out a by (auto simp: pg_ops_def pg_inv_def)
qed (auto simp: pg_ops_def pg_publish_def adapter_publish_same pg_notification_def handleNotification_def adapter_receive_same
      adapter_receive_reads hearing_def)

section \<open>A room across servers\<close>

lemma new_server_fresh: "new_server host i mp md iv cu = Inr sv \<Longrightarrow> fresh_server sv \<and> sv_serverId sv = i"
  by (auto simp: new_server_def bindR_eq_Inr fresh_server_def)

definition redis_cluster :: "jsstr option \<Rightarrow> 'r redis cluster \<Rightarrow> bool" where
  "redis_cluster channel cl \<longleftrightarrow> cs_bus cl = [] \<and> distinct (map (\<lambda>nd. sv_serverId (nd_server nd)) (cs_nodes cl))
     \<and> (\<forall>nd \<in> set (cs_nodes cl). nd_adapter nd = new_redis channel \<and> fresh_server (nd_server nd))"

definition pg_cluster :: "jsstr option \<Rightarrow> jsnum option \<Rightarrow> 'r postgres cluster \<Rightarrow> bool" where
  "pg_cluster channel limit cl \<longleftrightarrow> cs_bus cl = [] \<and> distinct (map (\<lambda>nd. sv_serverId (nd_server nd)) (cs_nodes cl))
     \<and> (\<forall>nd \<in> set (cs_nodes cl). new_postgres channel limit = Inr (nd_adapter nd) \<and> fresh_server (nd_server nd))"

lemma new_redis_inv: "publish_inv lib check (new_redis channel) \<and> ad_accepted (new_redis channel) = [] \<and> ad_out (new_redis channel) = []"
  by (simp add: new_redis_def new_adapter_def adapter.extend_def publish_inv_def)

lemma new_postgres_empty: "new_postgres channel limit = Inr a \<Longrightarrow> ad_accepted a = [] \<and> ad_out a = []"
  by (auto simp: new_postgres_def new_adapter_def adapter.extend_def Let_def split: if_splits jsnum.splits)

text \<open>
  C5: However servers and adapters behave and whenever the bus delivers what: there are never more payloads on the
  bus than calls of \<open>broadcastRoom\<close> and \<open>broadcastRoomExcept\<close>, so nothing is forwarded again; and each payload
  is a message that one server published, which does nothing when it comes back, while every other server that
  listens starts exactly one broadcast of its own, to its members of the room, that publishes nothing.
\<close>

theorem cluster_rooms:
  assumes "v8_ok lib" and "redis_cluster channel cl0" and "cl = foldl (cluster_step (redis_ops lib)) cl0 es"
  shows "length (cs_bus cl) \<le> room_calls es
    \<and> (\<forall>k < length (cs_bus cl). \<exists>i < length (cs_nodes cl). \<exists>m \<in> set (sv_published (nd_server (cs_nodes cl ! i))).
        \<forall>j < length (cs_nodes cl). nd_server (cs_nodes (cluster_step (redis_ops lib) cl (Delivers j k)) ! j)
          = (if j \<noteq> i \<and> hearing (nd_adapter (cs_nodes cl ! j))
             then broadcastInternal (ToTagged (am_room m)) None (nd_server (cs_nodes cl ! j))
             else nd_server (cs_nodes cl ! j)))"
  using assms(1,2) new_redis_inv [of lib "\<lambda>_. Inr ()" channel]
  by (intro redis_bus.cluster_rooms_of [OF _ _ _ assms(3)])
    (simp_all add: redis_cluster_def redis_ops_def)

text \<open>Two servers: \<open>a\<close> publishes, \<open>b\<close> hears it.\<close>

definition two_servers :: "server \<Rightarrow> unit redis cluster" where
  "two_servers sv =
     \<lparr>cs_nodes = [\<lparr>nd_server = sv\<lparr>sv_serverId := js ''a''\<rparr>, nd_adapter = new_redis None\<rparr>,
                  \<lparr>nd_server = sv\<lparr>sv_serverId := js ''b''\<rparr>, nd_adapter = new_redis None\<rparr>],
      cs_bus = []\<rparr>"

definition two_servers_run :: "unit redis_event cluster_event list" where
  "two_servers_run =
     [AdapterDoes 0 (RedisStart ()), AdapterDoes 0 (RedisConnects (Inr ())), AdapterDoes 0 (RedisSubscribes (Inr ())),
      AdapterDoes 1 (RedisStart ()), AdapterDoes 1 (RedisConnects (Inr ())), AdapterDoes 1 (RedisSubscribes (Inr ())),
      ServerDoes 0 (BroadcastsRoom (js ''r'') (js ''t'') []), AdapterDoes 0 RedisContinue]"

lemma one_message_ok: "v8_ok one_message_v8"
  by (auto simp: v8_ok_def one_message_v8_def split: if_splits)

lemma two_servers_result:
  assumes "sv_rooms sv = no_rooms" "fresh_server sv"
  defines "cl \<equiv> foldl (cluster_step (redis_ops one_message_v8)) (two_servers sv) two_servers_run"
  shows "length (cs_bus cl) = 1" "length (cs_nodes cl) = 2" "sv_published (nd_server (cs_nodes cl ! 1)) = []"
    "hearing (nd_adapter (cs_nodes cl ! 1))"
  using assms(1,2)
  by (simp_all add: cl_def two_servers_def two_servers_run_def redis_ops_def new_redis_def new_adapter_def
      adapter.extend_def redis_start_def adapter_start_def redis_connects_def redis_subscribes_def node_server_def
      broadcastRoom_def broadcastInternal_def no_rooms_def publish_def fresh_server_def redis_publish_def
      adapter_publish_def redis_continue_def adapter_continue_def adapter_payload_def one_message_v8_def one_message_def
      server_own_def hearing_def Let_def)

lemma two_servers_start: "fresh_server sv \<Longrightarrow> redis_cluster None (two_servers sv)"
  by (simp add: redis_cluster_def two_servers_def fresh_server_def)

lemma cluster_rooms_witness:
  "\<forall>core. \<exists>sv. new_server (empty_host core) [] 10 1000 0 False = Inr sv \<and>
     (let cl = foldl (cluster_step (redis_ops one_message_v8)) (two_servers sv) two_servers_run
      in cs_bus cl \<noteq> [] \<and> (\<exists>m :: adapter_message. nd_server (cs_nodes (cluster_step (redis_ops one_message_v8) cl (Delivers 1 0)) ! 1)
           = broadcastInternal (ToTagged (am_room m)) None (nd_server (cs_nodes cl ! 1))))"
proof
  fix core
  obtain sv where sv: "new_server (empty_host core) [] 10 1000 0 False = Inr sv" using empty_server by blast
  then have f: "fresh_server sv" "sv_rooms sv = no_rooms"
    using new_server_fresh [OF sv] by (auto simp: new_server_def bindR_eq_Inr)
  define cl where "cl = foldl (cluster_step (redis_ops one_message_v8)) (two_servers sv) two_servers_run"
  note r = two_servers_result [OF f(2,1), folded cl_def]
  have "0 < length (cs_bus cl)" using r(1) by simp
  with conjunct2 [OF cluster_rooms [OF one_message_ok two_servers_start [OF f(1)] cl_def]]
  obtain i m where i: "i < length (cs_nodes cl)" "m \<in> set (sv_published (nd_server (cs_nodes cl ! i)))"
    "\<forall>j < length (cs_nodes cl). nd_server (cs_nodes (cluster_step (redis_ops one_message_v8) cl (Delivers j 0)) ! j)
       = (if j \<noteq> i \<and> hearing (nd_adapter (cs_nodes cl ! j))
          then broadcastInternal (ToTagged (am_room m)) None (nd_server (cs_nodes cl ! j)) else nd_server (cs_nodes cl ! j))"
    by blast
  moreover have "i \<noteq> 1" using i(2) r(3) by auto
  ultimately have "nd_server (cs_nodes (cluster_step (redis_ops one_message_v8) cl (Delivers 1 0)) ! 1)
      = broadcastInternal (ToTagged (am_room m)) None (nd_server (cs_nodes cl ! 1))"
    using r by (simp del: cluster_step.simps)
  then have e: "\<exists>m :: adapter_message. nd_server (cs_nodes (cluster_step (redis_ops one_message_v8) cl (Delivers 1 0)) ! 1)
      = broadcastInternal (ToTagged (am_room m)) None (nd_server (cs_nodes cl ! 1))" by (rule exI)
  have b: "cs_bus cl \<noteq> []" using r(1) by auto
  show "\<exists>sv. new_server (empty_host core) [] 10 1000 0 False = Inr sv \<and>
     (let cl = foldl (cluster_step (redis_ops one_message_v8)) (two_servers sv) two_servers_run
      in cs_bus cl \<noteq> [] \<and> (\<exists>m :: adapter_message. nd_server (cs_nodes (cluster_step (redis_ops one_message_v8) cl (Delivers 1 0)) ! 1)
           = broadcastInternal (ToTagged (am_room m)) None (nd_server (cs_nodes cl ! 1))))"
    using sv b e unfolding Let_def cl_def by blast
qed

text \<open>The same over PostgreSQL.\<close>

lemma cluster_rooms_postgres:
  assumes "v8_ok lib" and "pg_cluster channel limit cl0" and "cl = foldl (cluster_step (pg_ops lib)) cl0 es"
  shows "length (cs_bus cl) \<le> room_calls es
    \<and> (\<forall>k < length (cs_bus cl). \<exists>i < length (cs_nodes cl). \<exists>m \<in> set (sv_published (nd_server (cs_nodes cl ! i))).
        \<forall>j < length (cs_nodes cl). nd_server (cs_nodes (cluster_step (pg_ops lib) cl (Delivers j k)) ! j)
          = (if j \<noteq> i \<and> hearing (nd_adapter (cs_nodes cl ! j))
             then broadcastInternal (ToTagged (am_room m)) None (nd_server (cs_nodes cl ! j))
             else nd_server (cs_nodes cl ! j)))"
proof (rule pg_bus.cluster_rooms_of [OF _ _ _ assms(3)])
  show "fresh_server (nd_server nd) \<and> (v8_ok lib \<and> (\<exists>n. pg_inv lib n (nd_adapter nd)))
      \<and> bo_accepted (pg_ops lib) (nd_adapter nd) = [] \<and> bo_out (pg_ops lib) (nd_adapter nd) = []"
    if "nd \<in> set (cs_nodes cl0)" for nd
    using that assms(1,2) new_postgres_inv [of channel limit "nd_adapter nd" lib] new_postgres_empty [of channel limit "nd_adapter nd"]
    by (auto simp: pg_cluster_def pg_ops_def)
qed (use assms(2) in \<open>simp_all add: pg_cluster_def\<close>)

end
