(* ===== verification/Debug_Server.thy ===== *)
theory Debug_Server
  imports Sonic_Server
begin

text \<open>
  The debug server: \<open>projects/ts/src/ws/debug/DebugServer.ts\<close>, a second SonicWS server that shows the
  connections and packets of a host to viewers. Its state is what the closures share: the statistics, the
  records of each connection, the viewers, and queues that match the first half of a hook with the second.
  Calls of the inner server are an output (\<open>DbgBroadcast\<close> is \<open>wss.broadcast\<close>, which goes to every connected
  viewer; \<open>DbgSend\<close> is the \<open>send\<close> of one viewer's connection). Times are rationals of the environment, and so is
  \<open>JSON.stringify\<close>, which may run code of the values. The page, the HTTP server and \<open>open\<close> are not modelled;
  tags are not names of inherited methods.
\<close>

section \<open>State\<close>

datatype debug_call =
    DbgBroadcast jsstr "jsval list"
  | DbgSend nat jsstr "jsval list"
  | DbgCloseLater nat
  | HostClose nat

text \<open>A viewer: \<open>authenticated\<close> and \<open>queue\<close> of its \<open>on_connect\<close> closure.\<close>

record viewer =
  vw_authenticated :: bool
  vw_queue :: "(jsstr \<times> jsval list) list"

text \<open>A connection of the host that the hooks saw connect; objects are named by their position.\<close>

record watched =
  wt_id :: nat
  wt_send :: "jsstr \<rightharpoonup> (jsval list \<times> rat \<times> rat) list"
  wt_recv :: "jsstr \<rightharpoonup> (u8 list \<times> rat \<times> rat) list"

record debug =
  dg_password :: jsstr
  dg_stats :: "int list"
  dg_stored :: "nat \<rightharpoonup> jsval list list"
  dg_viewers :: "viewer list"
  dg_watched :: "watched list"
  dg_inner :: "nat list"
  dg_bcasts :: "jsstr \<rightharpoonup> (jsval list \<times> rat \<times> rat) list"
  dg_calls :: "debug_call list"

text \<open>The port is checked before anything else.\<close>

definition port_ok :: "jsnum \<Rightarrow> bool" where
  "port_ok port = (case port of Fin r \<Rightarrow> \<not> (r < 0 \<or> 65536 \<le> r) | NotNum \<Rightarrow> True | _ \<Rightarrow> False)"

definition new_debug :: "jsnum option \<Rightarrow> jsstr option \<Rightarrow> int \<Rightarrow> debug result" where
  "new_debug port password startTime =
     (if \<not> port_ok (case port of None \<Rightarrow> Fin 0 | Some p \<Rightarrow> p) then Inl (Error ''Port out of range!'')
      else Inr \<lparr>dg_password = (case password of None \<Rightarrow> [] | Some p \<Rightarrow> p),
                dg_stats = [0, 0, 0, 0, 0, 0, startTime], dg_stored = Map.empty, dg_viewers = [],
                dg_watched = [], dg_inner = [], dg_bcasts = Map.empty, dg_calls = []\<rparr>)"

definition jint :: "int \<Rightarrow> jsval" where
  "jint i = JNum (Fin (of_int i))"

definition dbg_call :: "debug_call \<Rightarrow> debug \<Rightarrow> debug" where
  "dbg_call c d = d\<lparr>dg_calls := dg_calls d @ [c]\<rparr>"

section \<open>Statistics\<close>

text \<open>The keys of \<open>globalStats\<close> are their positions; the setter of the proxy announces every change.\<close>

definition set_stat :: "nat \<Rightarrow> int \<Rightarrow> debug \<Rightarrow> debug" where
  "set_stat i v d =
     (if dg_stats d ! i = v then d
      else dbg_call (DbgBroadcast (js ''stat'') [jint (int i), jint v]) (d\<lparr>dg_stats := (dg_stats d)[i := v]\<rparr>))"

definition add_stat :: "nat \<Rightarrow> int \<Rightarrow> debug \<Rightarrow> debug" where
  "add_stat i n d = set_stat i (dg_stats d ! i + n) d"

section \<open>Viewers\<close>

definition set_viewer :: "nat \<Rightarrow> viewer \<Rightarrow> debug \<Rightarrow> debug" where
  "set_viewer v w d = d\<lparr>dg_viewers := (dg_viewers d)[v := w]\<rparr>"

text \<open>The \<open>ws.send\<close> that replaces the one of the connection (\<open>ogs\<close>).\<close>

definition viewer_send :: "nat \<Rightarrow> jsstr \<Rightarrow> jsval list \<Rightarrow> debug \<Rightarrow> debug" where
  "viewer_send v tg vs d =
     (let w = dg_viewers d ! v
      in if vw_authenticated w then dbg_call (DbgSend v tg vs) d
         else set_viewer v (w\<lparr>vw_queue := vw_queue w @ [(tg, vs)]\<rparr>) d)"

fun viewer_sends :: "nat \<Rightarrow> (jsstr \<times> jsval list) list \<Rightarrow> debug \<Rightarrow> debug" where
  "viewer_sends v [] d = d"
| "viewer_sends v ((tg, vs) # xs) d = viewer_sends v xs (viewer_send v tg vs d)"

text \<open>What a new viewer is told about a connection of the host: its id and name, and the records kept.\<close>

definition introduction :: "(nat \<rightharpoonup> jsval list list) \<Rightarrow> nat \<times> jsstr \<Rightarrow> (jsstr \<times> jsval list) list" where
  "introduction stored c =
     [(js ''connection'', [jint (int (fst c))]), (js ''nameChange'', [jint (int (fst c)), JStr (snd c)])]
     @ (case stored (fst c) of None \<Rightarrow> [] | Some rs \<Rightarrow> map (\<lambda>r. (js ''packet'', r)) rs)"

definition viewer_connects :: "(nat \<times> jsstr) list \<Rightarrow> debug \<Rightarrow> debug" where
  "viewer_connects hosts d =
     viewer_sends (length (dg_viewers d))
       ((js ''stats'', map jint (dg_stats d)) # concat (map (introduction (dg_stored d)) hosts))
       (d\<lparr>dg_viewers := dg_viewers d @ [\<lparr>vw_authenticated = False, vw_queue = []\<rparr>]\<rparr>)"

fun flush_queue :: "nat \<Rightarrow> (jsstr \<times> jsval list) list \<Rightarrow> debug \<Rightarrow> debug" where
  "flush_queue v [] d = d"
| "flush_queue v ((tg, vs) # xs) d = flush_queue v xs (dbg_call (DbgSend v tg vs) d)"

definition viewer_password :: "nat \<Rightarrow> jsstr \<Rightarrow> debug \<Rightarrow> debug" where
  "viewer_password v pword d =
     (if dg_password d \<noteq> pword
      then dbg_call (DbgCloseLater v) (dbg_call (DbgSend v (js ''authenticated'') [JBool False]) d)
      else let d1 = set_viewer v ((dg_viewers d ! v)\<lparr>vw_authenticated := True\<rparr>) d;
               d2 = viewer_send v (js ''authenticated'') [JBool True] d1
           in flush_queue v (vw_queue (dg_viewers d2 ! v)) d2)"

text \<open>\<open>present\<close>: the host has a connection of that id.\<close>

definition viewer_close :: "nat \<Rightarrow> nat \<Rightarrow> bool \<Rightarrow> debug \<Rightarrow> debug" where
  "viewer_close v i present d =
     (if \<not> vw_authenticated (dg_viewers d ! v) then d else if present then dbg_call (HostClose i) d else d)"

section \<open>The hooks of the host\<close>

definition push_on :: "jsstr \<Rightarrow> 'x \<Rightarrow> (jsstr \<rightharpoonup> 'x list) \<Rightarrow> (jsstr \<rightharpoonup> 'x list)" where
  "push_on tg x m = m(tg \<mapsto> (case m tg of None \<Rightarrow> [] | Some xs \<Rightarrow> xs) @ [x])"

definition shift_from :: "jsstr \<Rightarrow> (jsstr \<rightharpoonup> 'x list) \<Rightarrow> ('x \<times> (jsstr \<rightharpoonup> 'x list)) result" where
  "shift_from tg m =
     (case m tg of
        None \<Rightarrow> Inl (TypeError ''shift'')
      | Some [] \<Rightarrow> Inl (TypeError ''undefined is not iterable'')
      | Some (x # xs) \<Rightarrow> Inr (x, m(tg \<mapsto> xs)))"

definition json_length :: "(jsval list \<Rightarrow> jsstr result) \<Rightarrow> jsval list \<Rightarrow> nat result" where
  "json_length stringify vs = bindR (stringify vs) (\<lambda>s. Inr (length (utf8_encode s)))"

definition set_watched :: "nat \<Rightarrow> watched \<Rightarrow> debug \<Rightarrow> debug" where
  "set_watched c w d = d\<lparr>dg_watched := (dg_watched d)[c := w]\<rparr>"

definition client_connects :: "nat \<Rightarrow> debug \<Rightarrow> debug" where
  "client_connects i d =
     (let d1 = add_stat 0 1 d
      in dbg_call (DbgBroadcast (js ''connection'') [jint (int i)])
           (d1\<lparr>dg_stored := (dg_stored d1)(i \<mapsto> []), dg_inner := dg_inner d1 @ [length (dg_watched d1)],
               dg_watched := dg_watched d1 @ [\<lparr>wt_id = i, wt_send = Map.empty, wt_recv = Map.empty\<rparr>]\<rparr>))"

definition name_change :: "nat \<Rightarrow> jsstr \<Rightarrow> debug \<Rightarrow> debug" where
  "name_change c nm d =
     dbg_call (DbgBroadcast (js ''nameChange'') [jint (int (wt_id (dg_watched d ! c))), JStr nm]) d"

definition send_pre :: "nat \<Rightarrow> jsstr \<Rightarrow> jsval list \<Rightarrow> rat \<Rightarrow> rat \<Rightarrow> debug \<Rightarrow> debug" where
  "send_pre c tg vs date perfTime d =
     (let w = dg_watched d ! c in set_watched c (w\<lparr>wt_send := push_on tg (vs, perfTime, date) (wt_send w)\<rparr>) d)"

text \<open>The record of a packet, kept for later viewers and announced: \<open>dir\<close> is 0 for sent, 1 for received.\<close>

definition keep_record ::
  "(jsval list \<Rightarrow> jsstr result) \<Rightarrow> nat \<Rightarrow> nat \<Rightarrow> jsstr \<Rightarrow> jsval list \<Rightarrow> nat \<Rightarrow> rat \<Rightarrow> rat \<Rightarrow> (debug, unit) st_result" where
  "keep_record stringify i dir tg vs dataLength date duration d =
     (case json_length stringify vs of
        Inl e \<Rightarrow> (Inl e, d)
      | Inr n \<Rightarrow>
          (let saved = int n - int dataLength; d1 = add_stat 5 saved d
           in (case stringify vs of
                 Inl e \<Rightarrow> (Inl e, d1)
               | Inr text \<Rightarrow>
                   (let record' = [JArr [jint (int i), jint (int dataLength + 1), jint saved], jint (int dir), JStr tg,
                                   JStr text, JArr [JNum (Fin date), JNum (Fin duration)]]
                    in (case dg_stored d1 i of
                          None \<Rightarrow> (Inl (TypeError ''push''), d1)
                        | Some rs \<Rightarrow>
                            (Inr (), dbg_call (DbgBroadcast (js ''packet'') record')
                                       (d1\<lparr>dg_stored := (dg_stored d1)(i \<mapsto> rs @ [record'])\<rparr>)))))))"

definition send_post ::
  "(jsval list \<Rightarrow> jsstr result) \<Rightarrow> nat \<Rightarrow> jsstr \<Rightarrow> nat \<Rightarrow> rat \<Rightarrow> (debug, unit) st_result" where
  "send_post stringify c tg sendSize now d =
     (let d1 = add_stat 1 1 (add_stat 3 (int sendSize) d); w = dg_watched d1 ! c
      in (case shift_from tg (wt_send w) of
            Inl e \<Rightarrow> (Inl e, d1)
          | Inr ((vs, perfTime, date), m) \<Rightarrow>
              keep_record stringify (wt_id w) 0 tg vs sendSize date (now - perfTime)
                (set_watched c (w\<lparr>wt_send := m\<rparr>) d1)))"

definition receive_pre :: "nat \<Rightarrow> jsstr \<Rightarrow> u8 list \<Rightarrow> nat \<Rightarrow> rat \<Rightarrow> rat \<Rightarrow> debug \<Rightarrow> debug" where
  "receive_pre c tg data recvSize now date d =
     (let d1 = add_stat 2 1 (add_stat 4 (int recvSize) d); w = dg_watched d1 ! c
      in set_watched c (w\<lparr>wt_recv := push_on tg (data, now, date) (wt_recv w)\<rparr>) d1)"

definition receive_post ::
  "(jsval list \<Rightarrow> jsstr result) \<Rightarrow> nat \<Rightarrow> jsstr \<Rightarrow> jsval list \<Rightarrow> rat \<Rightarrow> (debug, unit) st_result" where
  "receive_post stringify c tg vs now d =
     (let w = dg_watched d ! c
      in (case shift_from tg (wt_recv w) of
            Inl e \<Rightarrow> (Inl e, d)
          | Inr ((data, time, date), m) \<Rightarrow>
              keep_record stringify (wt_id w) 1 tg vs (length data) date (now - time)
                (set_watched c (w\<lparr>wt_recv := m\<rparr>) d)))"

text \<open>
  A connection closes: \<open>c\<close> is \<open>None\<close> for one that connected before the debug server was opened. \<open>indexOf\<close> then
  answers \<open>-1\<close> and \<open>splice\<close> takes the last element.
\<close>

definition disconnection :: "nat \<Rightarrow> int \<Rightarrow> jsstr option \<Rightarrow> debug_call" where
  "disconnection i code reason =
     DbgBroadcast (js ''disconnection'')
       [JArr [jint (int i), jint code],
        JArr [JStr (case reason of None \<Rightarrow> js ''UNKNOWN'' | Some r \<Rightarrow> r), JStr (js (getClosureCause code))]]"

definition client_disconnects :: "nat option \<Rightarrow> nat \<Rightarrow> int \<Rightarrow> jsstr option \<Rightarrow> debug \<Rightarrow> debug" where
  "client_disconnects c i code reason d =
     (let d1 = dbg_call (disconnection i code reason) (add_stat 0 (-1) d)
      in d1\<lparr>dg_stored := (dg_stored d1)(i := None),
            dg_inner := (case c of None \<Rightarrow> butlast (dg_inner d1) | Some k \<Rightarrow> splice_out k (dg_inner d1))\<rparr>)"

definition broadcast_pre :: "jsstr \<Rightarrow> jsval list \<Rightarrow> rat \<Rightarrow> rat \<Rightarrow> debug \<Rightarrow> debug" where
  "broadcast_pre tg vs now date d = d\<lparr>dg_bcasts := push_on tg (vs, now, date) (dg_bcasts d)\<rparr>"

text \<open>The recipients the debug server watches get both hooks of a send; a hook that throws is only reported.\<close>

fun broadcast_records ::
  "(jsval list \<Rightarrow> jsstr result) \<Rightarrow> nat option list \<Rightarrow> jsstr \<Rightarrow> jsval list \<Rightarrow> nat \<Rightarrow> rat \<Rightarrow> rat \<Rightarrow> rat \<Rightarrow> debug \<Rightarrow> debug"
where
  "broadcast_records stringify [] tg vs sendSize now time date d = d"
| "broadcast_records stringify (None # cs) tg vs sendSize now time date d =
     broadcast_records stringify cs tg vs sendSize now time date d"
| "broadcast_records stringify (Some c # cs) tg vs sendSize now time date d =
     broadcast_records stringify cs tg vs sendSize now time date
       (if c \<in> set (dg_inner d)
        then snd (send_post stringify c tg sendSize now (send_pre c tg vs date time d)) else d)"

definition broadcast_post ::
  "(jsval list \<Rightarrow> jsstr result) \<Rightarrow> jsstr \<Rightarrow> nat option list \<Rightarrow> nat \<Rightarrow> rat \<Rightarrow> (debug, unit) st_result" where
  "broadcast_post stringify tg recipients sendSize now d =
     (case shift_from tg (dg_bcasts d) of
        Inl e \<Rightarrow> (Inl e, d)
      | Inr ((vs, time, date), m) \<Rightarrow>
          (Inr (), broadcast_records stringify recipients tg vs sendSize now time date (d\<lparr>dg_bcasts := m\<rparr>)))"

section \<open>Every operation\<close>

datatype debug_event =
    ViewerConnects "(nat \<times> jsstr) list"
  | ViewerPassword nat jsstr
  | ViewerClose nat nat bool
  | HookConnect nat
  | HookName nat jsstr
  | HookSendPre nat jsstr "jsval list" rat rat
  | HookSendPost nat jsstr nat rat
  | HookReceivePre nat jsstr "u8 list" nat rat rat
  | HookReceivePost nat jsstr "jsval list" rat
  | HookDisconnect "nat option" nat int "jsstr option"
  | HookBroadcastPre jsstr "jsval list" rat rat
  | HookBroadcastPost jsstr "nat option list" nat rat

fun debug_step :: "(jsval list \<Rightarrow> jsstr result) \<Rightarrow> debug \<Rightarrow> debug_event \<Rightarrow> debug" where
  "debug_step sf d (ViewerConnects hosts) = viewer_connects hosts d"
| "debug_step sf d (ViewerPassword v pword) = (if v < length (dg_viewers d) then viewer_password v pword d else d)"
| "debug_step sf d (ViewerClose v i present) = (if v < length (dg_viewers d) then viewer_close v i present d else d)"
| "debug_step sf d (HookConnect i) = client_connects i d"
| "debug_step sf d (HookName c nm) = name_change c nm d"
| "debug_step sf d (HookSendPre c tg vs date perfTime) = send_pre c tg vs date perfTime d"
| "debug_step sf d (HookSendPost c tg n now) = snd (send_post sf c tg n now d)"
| "debug_step sf d (HookReceivePre c tg data n now date) = receive_pre c tg data n now date d"
| "debug_step sf d (HookReceivePost c tg vs now) = snd (receive_post sf c tg vs now d)"
| "debug_step sf d (HookDisconnect c i code reason) = client_disconnects c i code reason d"
| "debug_step sf d (HookBroadcastPre tg vs now date) = broadcast_pre tg vs now date d"
| "debug_step sf d (HookBroadcastPost tg cs n now) = snd (broadcast_post sf tg cs n now d)"

section \<open>What the password protects\<close>

text \<open>
  The hooks never look at a viewer, and what viewers do adds no broadcast: two debug servers that differ in
  their viewers only announce the same.
\<close>

fun is_broadcast :: "debug_call \<Rightarrow> bool" where
  "is_broadcast (DbgBroadcast _ _) = True"
| "is_broadcast _ = False"

definition broadcasts :: "debug \<Rightarrow> debug_call list" where
  "broadcasts d = filter is_broadcast (dg_calls d)"

definition viewer_event :: "debug_event \<Rightarrow> bool" where
  "viewer_event e =
     (case e of ViewerConnects _ \<Rightarrow> True | ViewerPassword _ _ \<Rightarrow> True | ViewerClose _ _ _ \<Rightarrow> True | _ \<Rightarrow> False)"

definition same_host :: "debug \<Rightarrow> debug \<Rightarrow> bool" where
  "same_host d d' \<longleftrightarrow> dg_password d' = dg_password d \<and> dg_stats d' = dg_stats d \<and> dg_stored d' = dg_stored d
     \<and> dg_watched d' = dg_watched d \<and> dg_inner d' = dg_inner d \<and> dg_bcasts d' = dg_bcasts d
     \<and> broadcasts d' = broadcasts d"

lemma same_host_refl [simp]: "same_host d d"
  by (simp add: same_host_def)

lemma same_host_trans: "same_host d d1 \<Longrightarrow> same_host d1 d2 \<Longrightarrow> same_host d d2"
  by (simp add: same_host_def)

lemma same_host_call: "\<not> is_broadcast c \<Longrightarrow> same_host d (dbg_call c d)"
  by (simp add: same_host_def dbg_call_def broadcasts_def)

lemma same_host_viewer: "same_host d (set_viewer v w d)"
  by (simp add: same_host_def set_viewer_def broadcasts_def)

lemma same_host_send: "same_host d (viewer_send v tg vs d)"
  by (simp add: viewer_send_def Let_def same_host_call same_host_viewer)

lemma same_host_sends: "same_host d (viewer_sends v xs d)"
  by (induction v xs d rule: viewer_sends.induct) (auto intro: same_host_trans [OF same_host_send])

lemma same_host_flush: "same_host d (flush_queue v xs d)"
proof (induction v xs d rule: flush_queue.induct)
  case (2 v tg vs xs d)
  then show ?case using same_host_trans [OF same_host_call [of "DbgSend v tg vs" d]] by simp
qed simp

lemma same_host_password: "same_host d (viewer_password v pword d)"
proof (cases "dg_password d = pword")
  case True
  let ?d1 = "set_viewer v ((dg_viewers d ! v)\<lparr>vw_authenticated := True\<rparr>) d"
  let ?d2 = "viewer_send v (js ''authenticated'') [JBool True] ?d1"
  have "same_host d ?d2" by (rule same_host_trans [OF same_host_viewer same_host_send])
  then show ?thesis
    using True same_host_trans [OF _ same_host_flush [of ?d2 v "vw_queue (dg_viewers ?d2 ! v)"]]
    by (simp add: viewer_password_def Let_def)
next
  case False
  then show ?thesis using same_host_trans [OF same_host_call same_host_call] by (simp add: viewer_password_def)
qed

lemma same_host_connects: "same_host d (viewer_connects hosts d)"
proof -
  have "same_host d (d\<lparr>dg_viewers := ws\<rparr>)" for ws by (simp add: same_host_def broadcasts_def)
  then show ?thesis unfolding viewer_connects_def by (rule same_host_trans [OF _ same_host_sends])
qed

lemma same_host_viewer_event: "viewer_event e \<Longrightarrow> same_host d (debug_step sf d e)"
  by (cases e) (simp_all add: viewer_event_def same_host_connects same_host_password viewer_close_def same_host_call)

text \<open>The hooks of two such servers, side by side.\<close>

lemma both_call: "same_host d d' \<Longrightarrow> same_host (dbg_call c d) (dbg_call c d')"
  by (cases c) (simp_all add: same_host_def dbg_call_def broadcasts_def)

lemma both_fields:
  "same_host d d' \<Longrightarrow> same_host (d\<lparr>dg_stats := a\<rparr>) (d'\<lparr>dg_stats := a\<rparr>)"
  "same_host d d' \<Longrightarrow> same_host (d\<lparr>dg_stored := b\<rparr>) (d'\<lparr>dg_stored := b\<rparr>)"
  "same_host d d' \<Longrightarrow> same_host (d\<lparr>dg_watched := w\<rparr>) (d'\<lparr>dg_watched := w\<rparr>)"
  "same_host d d' \<Longrightarrow> same_host (d\<lparr>dg_inner := n\<rparr>) (d'\<lparr>dg_inner := n\<rparr>)"
  "same_host d d' \<Longrightarrow> same_host (d\<lparr>dg_bcasts := m\<rparr>) (d'\<lparr>dg_bcasts := m\<rparr>)"
  by (simp_all add: same_host_def broadcasts_def)

lemma both_stat: "same_host d d' \<Longrightarrow> same_host (add_stat i n d) (add_stat i n d')"
proof -
  assume s: "same_host d d'"
  then have "dg_stats d' = dg_stats d" by (simp add: same_host_def)
  then show ?thesis using s both_call [OF both_fields(1) [OF s]] by (simp add: add_stat_def set_stat_def)
qed

lemma both_watched: "same_host d d' \<Longrightarrow> same_host (set_watched c w d) (set_watched c w d')"
proof -
  assume s: "same_host d d'"
  then have "dg_watched d' = dg_watched d" by (simp add: same_host_def)
  then show ?thesis using both_fields(3) [OF s] by (simp add: set_watched_def)
qed

lemma both_record:
  assumes "same_host d d'"
  shows "same_host (snd (keep_record sf i dir tg vs n date dur d)) (snd (keep_record sf i dir tg vs n date dur d'))"
proof -
  let ?d = "\<lambda>saved. add_stat 5 saved d" and ?d' = "\<lambda>saved. add_stat 5 saved d'"
  have s: "same_host (?d k) (?d' k)" for k by (rule both_stat [OF assms])
  then have st: "dg_stored (?d' k) = dg_stored (?d k)" for k by (simp add: same_host_def)
  show ?thesis
    using assms s both_call [OF both_fields(2) [OF s]]
    by (simp add: keep_record_def Let_def st split: sum.split option.split)
qed

lemma both_send_post:
  assumes "same_host d d'"
  shows "same_host (snd (send_post sf c tg n now d)) (snd (send_post sf c tg n now d'))"
proof -
  let ?d = "add_stat 1 1 (add_stat 3 (int n) d)" and ?d' = "add_stat 1 1 (add_stat 3 (int n) d')"
  have s: "same_host ?d ?d'" by (intro both_stat assms)
  then have w: "dg_watched ?d' = dg_watched ?d" by (simp add: same_host_def)
  show ?thesis
    using s w both_record [OF both_watched [OF s]] by (simp add: send_post_def Let_def split: sum.split)
qed

lemma both_send_pre:
  assumes "same_host d d'"
  shows "same_host (send_pre c tg vs a b d) (send_pre c tg vs a b d')"
proof -
  have "dg_watched d' = dg_watched d" using assms by (simp add: same_host_def)
  then show ?thesis unfolding send_pre_def Let_def by (simp add: both_watched [OF assms])
qed

lemma both_records:
  assumes "same_host d d'"
  shows "same_host (broadcast_records sf cs tg vs n now time date d) (broadcast_records sf cs tg vs n now time date d')"
  using assms
proof (induction cs arbitrary: d d')
  case (Cons x cs)
  show ?case
  proof (cases x)
    case None
    then show ?thesis using Cons by simp
  next
    case (Some c)
    have inner: "dg_inner d' = dg_inner d" using Cons.prems by (simp add: same_host_def)
    have "same_host (snd (send_post sf c tg n now (send_pre c tg vs date time d)))
        (snd (send_post sf c tg n now (send_pre c tg vs date time d')))"
      by (rule both_send_post [OF both_send_pre [OF Cons.prems]])
    then show ?thesis
      unfolding Some broadcast_records.simps inner
      by (cases "c \<in> set (dg_inner d)") (simp_all only: if_True if_False Cons.IH Cons.prems)
  qed
qed simp

lemma same_host_step:
  assumes "same_host d d'" "\<not> viewer_event e"
  shows "same_host (debug_step sf d e) (debug_step sf d' e)"
proof -
  have eqs: "dg_watched d' = dg_watched d" "dg_bcasts d' = dg_bcasts d" using assms(1) by (simp_all add: same_host_def)
  show ?thesis
  proof (cases e)
    case (HookConnect i)
    note s = both_stat [OF assms(1), of 0 1]
    then have "dg_stored (add_stat 0 1 d') = dg_stored (add_stat 0 1 d)" "dg_inner (add_stat 0 1 d') = dg_inner (add_stat 0 1 d)"
      "dg_watched (add_stat 0 1 d') = dg_watched (add_stat 0 1 d)" by (simp_all add: same_host_def)
    then show ?thesis
      using HookConnect by (simp add: client_connects_def Let_def both_call both_fields s)
  next
    case (HookName c nm)
    then show ?thesis using assms(1) eqs by (simp add: name_change_def both_call)
  next
    case (HookReceivePre c tg data n now date)
    note s = both_stat [OF both_stat [OF assms(1), of 4 "int n"], of 2 1]
    then have "dg_watched (add_stat 2 1 (add_stat 4 (int n) d')) = dg_watched (add_stat 2 1 (add_stat 4 (int n) d))"
      by (simp add: same_host_def)
    then show ?thesis using HookReceivePre both_watched [OF s] by (simp add: receive_pre_def Let_def)
  next
    case (HookReceivePost c tg vs now)
    then show ?thesis
      using assms(1) eqs both_record [OF both_watched [OF assms(1)]]
      by (simp add: receive_post_def Let_def split: sum.split)
  next
    case (HookDisconnect c i code reason)
    note s = both_call [OF both_stat [OF assms(1), of 0 "-1"], of "disconnection i code reason"]
    then have "dg_stored (dbg_call (disconnection i code reason) (add_stat 0 (-1) d'))
        = dg_stored (dbg_call (disconnection i code reason) (add_stat 0 (-1) d))"
      "dg_inner (dbg_call (disconnection i code reason) (add_stat 0 (-1) d'))
        = dg_inner (dbg_call (disconnection i code reason) (add_stat 0 (-1) d))" by (simp_all add: same_host_def)
    then show ?thesis
      using HookDisconnect by (cases c) (simp_all add: client_disconnects_def Let_def both_fields s)
  next
    case (HookBroadcastPost tg cs n now)
    then show ?thesis
      using assms(1) eqs both_records [OF both_fields(5) [OF assms(1)]] by (simp add: broadcast_post_def split: sum.split)
  qed (use assms eqs in \<open>simp_all add: viewer_event_def both_send_pre both_send_post broadcast_pre_def both_fields\<close>)
qed

lemma broadcasts_same:
  "same_host d d' \<Longrightarrow> same_host (foldl (debug_step sf) d es) (foldl (debug_step sf) d' (filter (\<lambda>e. \<not> viewer_event e) es))"
proof (induction es arbitrary: d d')
  case (Cons e es)
  show ?case
  proof (cases "viewer_event e")
    case True
    have "same_host (debug_step sf d e) d'"
      using same_host_viewer_event [OF True, of d sf] Cons.prems by (simp add: same_host_def)
    then show ?thesis using Cons.IH True by simp
  next
    case False
    then show ?thesis using Cons.IH [OF same_host_step [OF Cons.prems]] by simp
  qed
qed simp

text \<open>
  The other half: what is sent to a viewer itself, and what it can do. \<open>gs\<close> are the viewers that give the
  password during a run and \<open>cs\<close> the connections that one of these asks to close.
\<close>

definition permitted :: "nat set \<Rightarrow> nat set \<Rightarrow> debug_call \<Rightarrow> bool" where
  "permitted gs cs c =
     (case c of DbgSend u tg vs \<Rightarrow> u \<in> gs \<or> tg = js ''authenticated'' \<and> vs = [JBool False] | HostClose i \<Rightarrow> i \<in> cs | _ \<Rightarrow> True)"

definition locked :: "jsstr \<Rightarrow> nat set \<Rightarrow> nat set \<Rightarrow> debug \<Rightarrow> bool" where
  "locked p gs cs d \<longleftrightarrow> dg_password d = p \<and> (\<forall>u < length (dg_viewers d). vw_authenticated (dg_viewers d ! u) \<longrightarrow> u \<in> gs)
     \<and> (\<forall>c \<in> set (dg_calls d). permitted gs cs c)"

lemma locked_call: "locked p gs cs d \<Longrightarrow> permitted gs cs c \<Longrightarrow> locked p gs cs (dbg_call c d)"
  by (auto simp: locked_def dbg_call_def)

lemma locked_fields [simp]:
  "locked p gs cs (d\<lparr>dg_stats := a\<rparr>) = locked p gs cs d" "locked p gs cs (d\<lparr>dg_stored := b\<rparr>) = locked p gs cs d"
  "locked p gs cs (d\<lparr>dg_watched := w\<rparr>) = locked p gs cs d" "locked p gs cs (d\<lparr>dg_inner := n\<rparr>) = locked p gs cs d"
  "locked p gs cs (d\<lparr>dg_bcasts := m\<rparr>) = locked p gs cs d" "locked p gs cs (set_watched c x d) = locked p gs cs d"
  by (simp_all add: locked_def set_watched_def)

lemma locked_viewer:
  "locked p gs cs d \<Longrightarrow> (vw_authenticated w \<Longrightarrow> v \<in> gs) \<Longrightarrow> locked p gs cs (set_viewer v w d)"
  unfolding locked_def set_viewer_def by simp (metis nth_list_update_eq nth_list_update_neq)

lemma locked_broadcast: "locked p gs cs d \<Longrightarrow> locked p gs cs (dbg_call (DbgBroadcast tg vs) d)"
  by (rule locked_call) (simp_all add: permitted_def)

lemma locked_stat: "locked p gs cs d \<Longrightarrow> locked p gs cs (add_stat i n d)"
  by (simp add: add_stat_def set_stat_def locked_broadcast)

lemma locked_record: "locked p gs cs d \<Longrightarrow> locked p gs cs (snd (keep_record sf i dir tg vs n date dur d))"
  by (simp add: keep_record_def Let_def locked_stat locked_broadcast split: sum.split option.split)

lemma locked_send_post: "locked p gs cs d \<Longrightarrow> locked p gs cs (snd (send_post sf c tg n now d))"
  by (simp add: send_post_def Let_def locked_stat locked_record split: sum.split)

lemma locked_records:
  "locked p gs cs d \<Longrightarrow> locked p gs cs (broadcast_records sf ks tg vs n now time date d)"
  by (induction sf ks tg vs n now time date d rule: broadcast_records.induct)
    (simp_all add: locked_send_post send_pre_def Let_def)

lemma locked_send:
  assumes "locked p gs cs d" "v < length (dg_viewers d)"
  shows "locked p gs cs (viewer_send v tg vs d)"
proof -
  have "vw_authenticated (dg_viewers d ! v) \<Longrightarrow> v \<in> gs" using assms by (simp add: locked_def)
  then show ?thesis
    using assms(1) by (auto simp: viewer_send_def Let_def permitted_def intro!: locked_call locked_viewer)
qed

lemma viewer_send_length: "length (dg_viewers (viewer_send v tg vs d)) = length (dg_viewers d)"
  by (simp add: viewer_send_def Let_def dbg_call_def set_viewer_def)

lemma locked_sends:
  "locked p gs cs d \<Longrightarrow> v < length (dg_viewers d) \<Longrightarrow> locked p gs cs (viewer_sends v xs d)"
  by (induction v xs d rule: viewer_sends.induct) (simp_all add: locked_send viewer_send_length)

lemma locked_flush: "locked p gs cs d \<Longrightarrow> v \<in> gs \<Longrightarrow> locked p gs cs (flush_queue v xs d)"
  by (induction v xs d rule: flush_queue.induct) (simp_all add: locked_call permitted_def)

lemma locked_connects: "locked p gs cs d \<Longrightarrow> locked p gs cs (viewer_connects hosts d)"
  unfolding viewer_connects_def by (rule locked_sends) (auto simp: locked_def nth_append)

text \<open>The viewers that give the password are in \<open>gs\<close>, and what these close is in \<open>cs\<close>.\<close>

definition accounted :: "jsstr \<Rightarrow> nat set \<Rightarrow> nat set \<Rightarrow> debug_event \<Rightarrow> bool" where
  "accounted p gs cs e =
     (case e of ViewerPassword u pword \<Rightarrow> pword = p \<longrightarrow> u \<in> gs | ViewerClose u i _ \<Rightarrow> u \<in> gs \<longrightarrow> i \<in> cs | _ \<Rightarrow> True)"

lemma locked_hooks:
  assumes "locked p gs cs d"
  shows "locked p gs cs (client_connects i d)" "locked p gs cs (client_disconnects c i code reason d)"
    "locked p gs cs (name_change k nm d)" "locked p gs cs (receive_pre k tg data n now date d)"
    "locked p gs cs (snd (receive_post sf k tg vs now d))" "locked p gs cs (snd (broadcast_post sf tg ks n now d))"
proof -
  show "locked p gs cs (client_connects i d)"
    unfolding client_connects_def Let_def by (rule locked_broadcast) (simp add: locked_stat assms)
  show "locked p gs cs (client_disconnects c i code reason d)"
    unfolding client_disconnects_def Let_def disconnection_def by (simp add: locked_broadcast locked_stat assms)
  show "locked p gs cs (name_change k nm d)" unfolding name_change_def by (rule locked_broadcast [OF assms])
  show "locked p gs cs (receive_pre k tg data n now date d)" by (simp add: receive_pre_def Let_def locked_stat assms)
  show "locked p gs cs (snd (receive_post sf k tg vs now d))"
    by (simp add: receive_post_def Let_def locked_record assms split: sum.split)
  show "locked p gs cs (snd (broadcast_post sf tg ks n now d))"
    by (simp add: broadcast_post_def locked_records assms split: sum.split)
qed

lemma locked_password:
  assumes "locked p gs cs d" "pword = p \<longrightarrow> v \<in> gs" "v < length (dg_viewers d)"
  shows "locked p gs cs (viewer_password v pword d)"
proof (cases "pword = p")
  case True
  have "locked p gs cs (set_viewer v ((dg_viewers d ! v)\<lparr>vw_authenticated := True\<rparr>) d)"
    using True assms by (simp add: locked_viewer)
  then have "locked p gs cs (viewer_send v (js ''authenticated'') [JBool True]
      (set_viewer v ((dg_viewers d ! v)\<lparr>vw_authenticated := True\<rparr>) d))"
    using assms(3) by (intro locked_send) (simp_all add: set_viewer_def)
  then show ?thesis
    using True assms(1,2) by (simp add: viewer_password_def Let_def locked_flush locked_def [of p gs cs d] del: js_simps)
next
  case False
  moreover have "dg_password d = p" using assms(1) by (simp add: locked_def)
  ultimately show ?thesis
    using assms(1) by (auto simp: viewer_password_def permitted_def intro!: locked_call)
qed

lemma locked_close:
  "locked p gs cs d \<Longrightarrow> v \<in> gs \<longrightarrow> i \<in> cs \<Longrightarrow> v < length (dg_viewers d) \<Longrightarrow> locked p gs cs (viewer_close v i present d)"
  by (auto simp: viewer_close_def permitted_def locked_def dbg_call_def)

lemma locked_step: "locked p gs cs d \<Longrightarrow> accounted p gs cs e \<Longrightarrow> locked p gs cs (debug_step sf d e)"
  by (cases e) (simp_all add: accounted_def locked_connects locked_password locked_close locked_hooks locked_send_post
      send_pre_def broadcast_pre_def Let_def)

interpretation locked_out: machine_inv "\<lambda>d e. if accounted p gs cs e then debug_step sf d e else d" "locked p gs cs"
  for p gs cs sf
  by unfold_locales (simp add: locked_step)

lemma locked_run:
  "locked p gs cs d \<Longrightarrow> (\<And>e. e \<in> set es \<Longrightarrow> accounted p gs cs e) \<Longrightarrow> locked p gs cs (foldl (debug_step sf) d es)"
  by (induction es arbitrary: d) (simp_all add: locked_step)

text \<open>
  C11: A viewer that has not given the password itself is sent nothing but \<open>authenticated\<close> with \<open>false\<close>, and its
  requests to close a connection change nothing, whatever the other viewers gave or did: the host's
  connections are closed only where one that gave the password asked for it. But the password does not keep back
  the broadcasts, which carry every packet of the host with its values: they are the same, call for call,
  whatever viewers there are and whatever they do.
\<close>

theorem debug_password:
  assumes "new_debug port password startTime = Inr d0" and "d = foldl (debug_step sf) d0 es"
    and "ViewerPassword v (dg_password d0) \<notin> set es"
  shows "(\<forall>tg vs. DbgSend v tg vs \<in> set (dg_calls d) \<longrightarrow> tg = js ''authenticated'' \<and> vs = [JBool False])
    \<and> (\<forall>i present. debug_step sf d (ViewerClose v i present) = d)
    \<and> (\<forall>i. HostClose i \<in> set (dg_calls d) \<longrightarrow>
        (\<exists>u present. u \<noteq> v \<and> ViewerPassword u (dg_password d0) \<in> set es \<and> ViewerClose u i present \<in> set es))
    \<and> broadcasts d = broadcasts (foldl (debug_step sf) d0 (filter (\<lambda>e. \<not> viewer_event e) es))"
proof -
  define gs where "gs = {u. ViewerPassword u (dg_password d0) \<in> set es}"
  define cs where "cs = {i. \<exists>u present. u \<in> gs \<and> ViewerClose u i present \<in> set es}"
  have l0: "locked (dg_password d0) gs cs d0" using assms(1) by (auto simp: new_debug_def locked_def split: if_splits)
  have w: "accounted (dg_password d0) gs cs e" if "e \<in> set es" for e
    using that by (auto simp: accounted_def gs_def cs_def split: debug_event.split)
  have l: "locked (dg_password d0) gs cs d" unfolding assms(2) by (rule locked_run [OF l0 w])
  have out: "v \<notin> gs" using assms(3) by (simp add: gs_def)
  have "\<forall>c \<in> set (dg_calls d). permitted gs cs c" using l by (simp add: locked_def)
  then have "DbgSend v tg vs \<in> set (dg_calls d) \<Longrightarrow> tg = js ''authenticated'' \<and> vs = [JBool False]"
    "HostClose i \<in> set (dg_calls d) \<Longrightarrow> i \<in> cs" for tg vs i
    using out by (fastforce simp: permitted_def)+
  moreover have "debug_step sf d (ViewerClose v i present) = d" for i present
    using l out by (auto simp: locked_def viewer_close_def)
  moreover have "broadcasts d = broadcasts (foldl (debug_step sf) d0 (filter (\<lambda>e. \<not> viewer_event e) es))"
    unfolding assms(2) using broadcasts_same [OF same_host_refl, of sf d0 es] by (simp add: same_host_def)
  moreover have "i \<in> cs \<Longrightarrow> \<exists>u present. u \<noteq> v \<and> ViewerPassword u (dg_password d0) \<in> set es \<and> ViewerClose u i present \<in> set es" for i
    using out by (auto simp: cs_def gs_def)
  ultimately show ?thesis by blast
qed

definition closed_debug :: debug where
  "closed_debug =
     \<lparr>dg_password = js ''x'', dg_stats = [0, 0, 0, 0, 0, 0, 7], dg_stored = Map.empty, dg_viewers = [], dg_watched = [],
      dg_inner = [], dg_bcasts = Map.empty, dg_calls = []\<rparr>"

text \<open>Two viewers: the first guesses wrong, the second gives the password and closes connection 1.\<close>

definition two_viewers :: "debug_event list" where
  "two_viewers = [ViewerConnects [], ViewerConnects [], ViewerPassword 0 (js ''y''), ViewerPassword 1 (js ''x'')]"

definition watched_send :: "debug_event list" where
  "watched_send = two_viewers @
     [HookConnect 1, HookSendPre 0 (js ''t'') [JNull] 1 1, HookSendPost 0 (js ''t'') 2 3, ViewerClose 0 1 True,
      ViewerClose 1 1 True]"

lemma two_viewers_in:
  "\<exists>q r. foldl (debug_step sf) closed_debug two_viewers = closed_debug
    \<lparr>dg_viewers := [\<lparr>vw_authenticated = False, vw_queue = q\<rparr>, \<lparr>vw_authenticated = True, vw_queue = r\<rparr>],
     dg_calls := [DbgSend 0 (js ''authenticated'') [JBool False], DbgCloseLater 0,
       DbgSend 1 (js ''authenticated'') [JBool True], DbgSend 1 (js ''stats'') (map jint [0, 0, 0, 0, 0, 0, 7])]\<rparr>"
  by (simp add: closed_debug_def two_viewers_def viewer_connects_def viewer_password_def viewer_send_def set_viewer_def
      dbg_call_def Let_def js_inj del: js_simps)

lemma two_closed:
  "viewer_close 1 i True (viewer_close 0 i True (d\<lparr>dg_viewers := [\<lparr>vw_authenticated = False, vw_queue = q\<rparr>,
      \<lparr>vw_authenticated = True, vw_queue = r\<rparr>]\<rparr>))
    = dbg_call (HostClose i) (d\<lparr>dg_viewers := [\<lparr>vw_authenticated = False, vw_queue = q\<rparr>,
      \<lparr>vw_authenticated = True, vw_queue = r\<rparr>]\<rparr>)"
  by (simp add: viewer_close_def)

lemma sent_packet_calls:
  "\<exists>bs info tg tm. let d = foldl (debug_step (\<lambda>_. Inr (js ''secret''))) (closed_debug\<lparr>dg_viewers := ws, dg_calls := cs\<rparr>)
        [HookConnect 1, HookSendPre 0 (js ''t'') [JNull] 1 1, HookSendPost 0 (js ''t'') 2 3]
     in dg_viewers d = ws \<and> dg_calls d = cs @ map (case_prod DbgBroadcast) bs
          @ [DbgBroadcast (js ''packet'') [info, jint 0, tg, JStr (js ''secret''), tm]]"
proof -
  let ?d = "foldl (debug_step (\<lambda>_. Inr (js ''secret''))) (closed_debug\<lparr>dg_viewers := ws, dg_calls := cs\<rparr>)
        [HookConnect 1, HookSendPre 0 (js ''t'') [JNull] 1 1, HookSendPost 0 (js ''t'') 2 3]"
  obtain bs info tg tm where "dg_viewers ?d = ws \<and> dg_calls ?d = cs @ map (case_prod DbgBroadcast) bs
      @ [DbgBroadcast (js ''packet'') [info, jint 0, tg, JStr (js ''secret''), tm]]"
  proof
    have "utf8_encode (js ''secret'') = [115, 101, 99, 114, 101, 116]"
      by (simp add: utf8_encode_def js_def is_high_def is_low_def is_surrogate_def utf8_of_def)
    then show "dg_viewers ?d = ws \<and> dg_calls ?d = cs @ map (case_prod DbgBroadcast)
        [(js ''stat'', [jint 0, jint 1]), (js ''connection'', [jint 1]), (js ''stat'', [jint 3, jint 2]),
         (js ''stat'', [jint 1, jint 1]), (js ''stat'', [jint 5, jint 4])]
      @ [DbgBroadcast (js ''packet'') [JArr [jint 1, jint 3, jint 4], jint 0, JStr (js ''t''), JStr (js ''secret''),
           JArr [JNum (Fin 1), JNum (Fin 2)]]]"
      by (simp add: closed_debug_def client_connects_def add_stat_def set_stat_def send_pre_def send_post_def
        keep_record_def json_length_def push_on_def shift_from_def set_watched_def dbg_call_def Let_def js_inj del: js_simps)
  qed
  then show ?thesis by (auto simp: Let_def simp del: js_simps)
qed

lemma watched_send_calls:
  "\<exists>bs info tg tm.
     dg_calls (foldl (debug_step (\<lambda>_. Inr (js ''secret''))) closed_debug watched_send) =
       [DbgSend 0 (js ''authenticated'') [JBool False], DbgCloseLater 0, DbgSend 1 (js ''authenticated'') [JBool True],
        DbgSend 1 (js ''stats'') (map jint [0, 0, 0, 0, 0, 0, 7])] @ map (case_prod DbgBroadcast) bs
       @ [DbgBroadcast (js ''packet'') [info, jint 0, tg, JStr (js ''secret''), tm], HostClose 1]"
proof -
  let ?step = "debug_step (\<lambda>_. Inr (js ''secret''))"
  let ?ws = "\<lambda>q r. [\<lparr>vw_authenticated = False, vw_queue = q\<rparr>, \<lparr>vw_authenticated = True, vw_queue = r\<rparr>]"
  let ?cs = "[DbgSend 0 (js ''authenticated'') [JBool False], DbgCloseLater 0, DbgSend 1 (js ''authenticated'') [JBool True],
        DbgSend 1 (js ''stats'') (map jint [0, 0, 0, 0, 0, 0, 7])]"
  obtain q r where v: "foldl ?step closed_debug two_viewers = closed_debug\<lparr>dg_viewers := ?ws q r, dg_calls := ?cs\<rparr>"
    using two_viewers_in by blast
  let ?d = "foldl ?step (closed_debug\<lparr>dg_viewers := ?ws q r, dg_calls := ?cs\<rparr>)
        [HookConnect 1, HookSendPre 0 (js ''t'') [JNull] 1 1, HookSendPost 0 (js ''t'') 2 3]"
  obtain bs info tg tm where s: "dg_viewers ?d = ?ws q r" "dg_calls ?d = ?cs @ map (case_prod DbgBroadcast) bs
      @ [DbgBroadcast (js ''packet'') [info, jint 0, tg, JStr (js ''secret''), tm]]"
    using sent_packet_calls [where ws = "?ws q r" and cs = ?cs] by (auto simp only: Let_def)
  have "foldl ?step closed_debug watched_send = ?step (?step ?d (ViewerClose 0 1 True)) (ViewerClose 1 1 True)"
    by (simp only: watched_send_def foldl_append v foldl.simps append.simps)
  also have "\<dots> = dbg_call (HostClose 1) ?d"
    using s(1) by (simp only: debug_step.simps viewer_close_def) (simp add: dbg_call_def)
  finally show ?thesis using s(2) by (simp only: dbg_call_def) auto
qed

lemma closed_debug_new: "new_debug None (Some (js ''x'')) 7 = Inr closed_debug"
  by (simp add: new_debug_def port_ok_def closed_debug_def)

lemma debug_password_witness:
  "let d = foldl (debug_step (\<lambda>_. Inr (js ''secret''))) closed_debug watched_send
   in debug_step (\<lambda>_. Inr (js ''secret'')) d (ViewerClose 0 1 True) = d
    \<and> DbgSend 0 (js ''authenticated'') [JBool False] \<in> set (dg_calls d)
    \<and> DbgSend 1 (js ''authenticated'') [JBool True] \<in> set (dg_calls d)
    \<and> filter (\<lambda>c. c = HostClose 1) (dg_calls d) = [HostClose 1]
    \<and> (\<exists>info tg tm. DbgBroadcast (js ''packet'') [info, jint 0, tg, JStr (js ''secret''), tm] \<in> set (dg_calls d))"
proof -
  let ?d = "foldl (debug_step (\<lambda>_. Inr (js ''secret''))) closed_debug watched_send"
  have "ViewerPassword 0 (dg_password closed_debug) \<notin> set watched_send"
    by (simp add: closed_debug_def watched_send_def two_viewers_def)
  from debug_password [OF closed_debug_new refl this, of "\<lambda>_. Inr (js ''secret'')"]
  have "debug_step (\<lambda>_. Inr (js ''secret'')) ?d (ViewerClose 0 1 True) = ?d" by blast
  moreover have "DbgSend 0 (js ''authenticated'') [JBool False] \<in> set (dg_calls ?d)
    \<and> DbgSend 1 (js ''authenticated'') [JBool True] \<in> set (dg_calls ?d)
    \<and> filter (\<lambda>c. c = HostClose 1) (dg_calls ?d) = [HostClose 1]
    \<and> (\<exists>info tg tm. DbgBroadcast (js ''packet'') [info, jint 0, tg, JStr (js ''secret''), tm] \<in> set (dg_calls ?d))"
    using watched_send_calls by (auto simp: filter_map comp_def case_prod_beta ex_disj_distrib simp del: js_simps)
  ultimately show ?thesis by (simp add: Let_def)
qed

section \<open>A viewer's copy\<close>

text \<open>The right password: the viewer is told, then gets what waited for it, in order.\<close>

lemma flush_calls: "dg_calls (flush_queue v xs d) = dg_calls d @ map (\<lambda>(tg, vs). DbgSend v tg vs) xs"
  by (induction v xs d rule: flush_queue.induct) (simp_all add: dbg_call_def)

lemma debug_authenticated:
  assumes "v < length (dg_viewers d)"
  shows "dg_calls (viewer_password v (dg_password d) d) = dg_calls d @
    DbgSend v (js ''authenticated'') [JBool True] # map (\<lambda>(tg, vs). DbgSend v tg vs) (vw_queue (dg_viewers d ! v))"
  using assms by (simp add: viewer_password_def viewer_send_def set_viewer_def dbg_call_def flush_calls Let_def del: js_simps)

text \<open>The queue is not emptied: the password given again sends everything again.\<close>

lemma debug_password_repeats:
  assumes "v < length (dg_viewers d)"
  shows "dg_calls (viewer_password v (dg_password d) (viewer_password v (dg_password d) d)) =
    dg_calls (viewer_password v (dg_password d) d) @ drop (length (dg_calls d)) (dg_calls (viewer_password v (dg_password d) d))"
proof -
  have f: "dg_viewers (flush_queue v xs d) = dg_viewers d \<and> dg_password (flush_queue v xs d) = dg_password d" for xs d
    by (induction v xs d rule: flush_queue.induct) (simp_all add: dbg_call_def)
  let ?d = "viewer_password v (dg_password d) d"
  have "dg_viewers ?d = (dg_viewers d)[v := (dg_viewers d ! v)\<lparr>vw_authenticated := True\<rparr>]" "dg_password ?d = dg_password d"
    using assms f by (simp_all add: viewer_password_def viewer_send_def set_viewer_def dbg_call_def Let_def del: js_simps)
  then show ?thesis using assms debug_authenticated [of v ?d] debug_authenticated [of v d] by (simp del: js_simps)
qed

text \<open>A viewer that applies the announced changes to the statistics of some moment has those of a later one.\<close>

fun apply_stat :: "int list \<Rightarrow> debug_call \<Rightarrow> int list" where
  "apply_stat st (DbgBroadcast tg [JNum (Fin i), JNum (Fin v)]) = (if tg = js ''stat'' then st[nat \<lfloor>i\<rfloor> := \<lfloor>v\<rfloor>] else st)"
| "apply_stat st _ = st"

definition mirrors :: "int list \<Rightarrow> nat \<Rightarrow> debug \<Rightarrow> bool" where
  "mirrors st n d \<longleftrightarrow> dg_stats d = foldl apply_stat st (drop n (dg_calls d)) \<and> n \<le> length (dg_calls d)"

lemma mirrors_call: "mirrors st n d \<Longrightarrow> (\<And>s. apply_stat s c = s) \<Longrightarrow> mirrors st n (dbg_call c d)"
  by (simp add: mirrors_def dbg_call_def)

lemma mirrors_stat: "mirrors st n d \<Longrightarrow> mirrors st n (add_stat i k d)"
  by (simp add: add_stat_def set_stat_def mirrors_def dbg_call_def jint_def)

lemma mirrors_fields [simp]:
  "mirrors st n (d\<lparr>dg_stored := b\<rparr>) = mirrors st n d" "mirrors st n (d\<lparr>dg_watched := w\<rparr>) = mirrors st n d"
  "mirrors st n (d\<lparr>dg_inner := k\<rparr>) = mirrors st n d" "mirrors st n (d\<lparr>dg_bcasts := m\<rparr>) = mirrors st n d"
  "mirrors st n (d\<lparr>dg_viewers := vs\<rparr>) = mirrors st n d" "mirrors st n (set_watched c x d) = mirrors st n d"
  "mirrors st n (set_viewer v y d) = mirrors st n d"
  by (simp_all add: mirrors_def set_watched_def set_viewer_def)

lemma mirrors_record: "mirrors st n d \<Longrightarrow> mirrors st n (snd (keep_record sf i dir tg vs k date dur d))"
  by (simp add: keep_record_def Let_def mirrors_stat mirrors_call split: sum.split option.split)

lemma mirrors_send_post: "mirrors st n d \<Longrightarrow> mirrors st n (snd (send_post sf c tg k now d))"
  by (simp add: send_post_def Let_def mirrors_stat mirrors_record split: sum.split)

lemma mirrors_records: "mirrors st n d \<Longrightarrow> mirrors st n (broadcast_records sf cs tg vs k now time date d)"
proof (induction cs arbitrary: d)
  case (Cons x cs)
  then show ?case by (cases x) (simp_all add: mirrors_send_post send_pre_def Let_def)
qed simp

lemma mirrors_send: "mirrors st n d \<Longrightarrow> mirrors st n (viewer_send v tg vs d)"
  by (simp add: viewer_send_def Let_def mirrors_call)

lemma mirrors_sends: "mirrors st n d \<Longrightarrow> mirrors st n (viewer_sends v xs d)"
  by (induction v xs d rule: viewer_sends.induct) (simp_all add: mirrors_send)

lemma mirrors_flush: "mirrors st n d \<Longrightarrow> mirrors st n (flush_queue v xs d)"
  by (induction v xs d rule: flush_queue.induct) (simp_all add: mirrors_call)

lemma mirrors_step: "mirrors st n d \<Longrightarrow> mirrors st n (debug_step sf d e)"
  by (cases e) (simp_all add: viewer_connects_def mirrors_sends viewer_password_def mirrors_flush mirrors_send mirrors_call
      viewer_close_def client_connects_def mirrors_stat jint_def name_change_def send_pre_def mirrors_send_post
      receive_pre_def receive_post_def mirrors_record client_disconnects_def disconnection_def broadcast_pre_def
      broadcast_post_def mirrors_records Let_def split: sum.split del: js_simps)

interpretation mirrored: machine_inv "debug_step sf" "mirrors st n" for sf st n
  by unfold_locales (rule mirrors_step)

lemma debug_stats_mirror:
  "dg_stats (foldl (debug_step sf) d es)
     = foldl apply_stat (dg_stats d) (drop (length (dg_calls d)) (dg_calls (foldl (debug_step sf) d es)))"
proof -
  have "mirrors (dg_stats d) (length (dg_calls d)) d" by (simp add: mirrors_def)
  from mirrored.run_inv [OF this, of sf es] show ?thesis by (simp add: mirrors_def)
qed

section \<open>Where it goes wrong\<close>

text \<open>
  A send that another hook cancels, or that fails, leaves its first half in the queue of its tag: the next
  packet of that tag is recorded with the values of the one that was never sent.
\<close>

lemma debug_stale_values:
  assumes "c < length (dg_watched d)" "wt_send (dg_watched d ! c) tg = None" "stringify vs1 = Inr text1"
    and "dg_stored d (wt_id (dg_watched d ! c)) = Some rs"
    and "d' = snd (send_post stringify c tg n now (send_pre c tg vs2 t2 p2 (send_pre c tg vs1 t1 p1 d)))"
  shows "\<exists>info tm. last (dg_calls d') = DbgBroadcast (js ''packet'') [info, jint 0, JStr tg, JStr text1, tm]"
  using assms(1-4)
  by (simp add: assms(5) send_pre_def send_post_def push_on_def shift_from_def set_watched_def add_stat_def set_stat_def
      dbg_call_def keep_record_def json_length_def Let_def del: js_simps)

text \<open>
  The close of a connection that the debug server never saw connect takes another one out of \<open>innerConns\<close>, whose
  broadcasts are not recorded any more, and counts one socket too few.
\<close>

lemma debug_forgets_another:
  "dg_inner (client_disconnects None i code reason d) = butlast (dg_inner d)"
  "dg_stats d \<noteq> [] \<Longrightarrow> dg_stats (client_disconnects None i code reason d) ! 0 = dg_stats d ! 0 - 1"
  by (simp_all add: client_disconnects_def dbg_call_def add_stat_def set_stat_def Let_def)

end
