(* ===== verification/Debug_Client.thy ===== *)
theory Debug_Client
  imports Debug_Server
begin

text \<open>
  The debug menu of a browser client: \<open>_loadDebugScript\<close> of \<open>projects/ts/src/ws/debug/DebugClient.ts\<close>. Modelled are
  the hooks, the counters with their texts, the list of packets, the status line and the moving of the
  window. The browser's layout gives rectangles as inputs; the elements, their styles and the input that
  evaluates code are not modelled, nor are the locale's number format and the date of a packet.
\<close>

section \<open>Amounts\<close>

definition byte_units :: "string list" where
  "byte_units = [''B'', ''KB'', ''MB'', ''GB'', ''TB'']"

text \<open>The loop of \<open>convertBytes\<close>: divisions by 1024 are exact.\<close>

function scale_bytes :: "rat \<Rightarrow> nat \<Rightarrow> rat \<times> nat" where
  "scale_bytes v i = (if v \<ge> 1024 \<and> i < length byte_units - 1 then scale_bytes (v / 1024) (i + 1) else (v, i))"
  by pat_completeness auto
termination by (relation "measure (\<lambda>(v, i). length byte_units - i)") auto

declare scale_bytes.simps [simp del]

text \<open>\<open>toFixed(2)\<close> of a number that is not negative: the closest hundredth, the larger of two.\<close>

definition hundredths :: "rat \<Rightarrow> nat" where
  "hundredths v = nat \<lfloor>100 * v + 1 / 2\<rfloor>"

definition fixed_2 :: "rat \<Rightarrow> jsstr" where
  "fixed_2 v = (let n = hundredths v
     in js_of_nat (n div 100) @ js ''.'' @ js_of_nat (n mod 100 div 10) @ js_of_nat (n mod 10))"

definition convertBytes :: "int \<Rightarrow> jsstr \<times> string" where
  "convertBytes bytes =
     (if bytes < 0 then (js ''0'', ''B'')
      else case scale_bytes (of_int bytes) 0 of
             (v, i) \<Rightarrow> (if i = 0 then js_of_nat (nat \<lfloor>v\<rfloor>) else fixed_2 v, byte_units ! i))"

definition bytes_text :: "int \<Rightarrow> jsstr" where
  "bytes_text n = (case convertBytes n of (amt, u) \<Rightarrow> amt @ js u)"

section \<open>State\<close>

datatype direction = Sent | Received

record shown_packet =
  sp_direction :: direction
  sp_tag :: jsstr
  sp_data :: jsstr
  sp_bytes :: int
  sp_saved :: int
  sp_time :: rat

record debug_menu =
  dm_send :: "jsstr \<rightharpoonup> (jsval list \<times> rat) list"
  dm_recv :: "jsstr \<rightharpoonup> (u8 list \<times> rat) list"
  dm_sent :: int
  dm_received :: int
  dm_sentBytes :: int
  dm_receivedBytes :: int
  dm_savedBytes :: int
  dm_sentText :: jsstr
  dm_receivedText :: jsstr
  dm_savedText :: jsstr
  dm_packets :: "shown_packet list"
  dm_status :: "string \<times> string"
  dm_minimized :: bool
  dm_drag :: "(rat \<times> rat \<times> rat \<times> rat) option"
  dm_resize :: "(rat \<times> rat \<times> rat \<times> rat) option"
  dm_left :: rat
  dm_top :: rat
  dm_size :: "(rat \<times> rat) option"

definition setStatus :: "nat \<Rightarrow> debug_menu \<Rightarrow> debug_menu" where
  "setStatus wsStatus d =
     d\<lparr>dm_status := (if wsStatus = 3 then (''Closed'', ''#f00'') else if wsStatus = 2 then (''Closing'', ''#fa0'')
        else if wsStatus = 1 then (''Open'', ''#0f0'') else if wsStatus = 0 then (''Connecting'', ''#ff0'')
        else (''Unknown'', ''#777''))\<rparr>"

definition addPacket :: "direction \<Rightarrow> jsstr \<Rightarrow> nat \<Rightarrow> jsstr \<Rightarrow> rat \<Rightarrow> debug_menu \<Rightarrow> debug_menu" where
  "addPacket dir tg rawLength data time d =
     (let bytes = int rawLength + (if dir = Sent then 1 else 0);
          saved = int (length (utf8_encode data)) - bytes + 1;
          d1 = d\<lparr>dm_packets := dm_packets d @
                 [\<lparr>sp_direction = dir, sp_tag = tg, sp_data = data, sp_bytes = bytes, sp_saved = saved, sp_time = time\<rparr>]\<rparr>;
          d2 = (if dir = Sent
                then d1\<lparr>dm_sent := dm_sent d1 + 1, dm_sentBytes := dm_sentBytes d1 + bytes,
                        dm_sentText := bytes_text (dm_sentBytes d1 + bytes)\<rparr>
                else d1\<lparr>dm_received := dm_received d1 + 1, dm_receivedBytes := dm_receivedBytes d1 + bytes,
                        dm_receivedText := bytes_text (dm_receivedBytes d1 + bytes)\<rparr>)
      in d2\<lparr>dm_savedBytes := dm_savedBytes d2 + saved, dm_savedText := bytes_text (dm_savedBytes d2 + saved)\<rparr>)"

section \<open>Hooks\<close>

fun upper_hex :: "nat \<Rightarrow> jsstr" where
  "upper_hex n = (if n < 16 then [] else upper_hex (n div 16)) @
     [of_nat (if n mod 16 < 10 then 48 + n mod 16 else 55 + n mod 16)]"

declare upper_hex.simps [simp del]

definition packet_title :: "jsstr \<Rightarrow> nat \<Rightarrow> jsstr" where
  "packet_title tg key = tg @ js '' (0x'' @ upper_hex key @ js '')''"

definition menu_receive_pre :: "jsstr \<Rightarrow> u8 list \<Rightarrow> rat \<Rightarrow> debug_menu \<Rightarrow> debug_menu" where
  "menu_receive_pre tg data now d = d\<lparr>dm_recv := push_on tg (data, now) (dm_recv d)\<rparr>"

definition menu_receive_post ::
  "(jsval list \<Rightarrow> jsstr result) \<Rightarrow> holder \<Rightarrow> jsstr \<Rightarrow> jsval list \<Rightarrow> rat \<Rightarrow> (debug_menu, unit) st_result" where
  "menu_receive_post stringify table tg vs now d =
     (case shift_from tg (dm_recv d) of
        Inl e \<Rightarrow> (Inl e, d)
      | Inr ((data, time), m) \<Rightarrow>
          (case bindR (getKey table tg) (\<lambda>k. bindR (stringify vs) (\<lambda>text. Inr (k, text))) of
             Inl e \<Rightarrow> (Inl e, d\<lparr>dm_recv := m\<rparr>)
           | Inr (k, text) \<Rightarrow>
               (Inr (), addPacket Received (packet_title tg k) (length data) text (now - time) (d\<lparr>dm_recv := m\<rparr>))))"

definition menu_send_pre :: "jsstr \<Rightarrow> jsval list \<Rightarrow> rat \<Rightarrow> debug_menu \<Rightarrow> debug_menu" where
  "menu_send_pre tg vs now d = d\<lparr>dm_send := push_on tg (vs, now) (dm_send d)\<rparr>"

definition menu_send_post ::
  "(jsval list \<Rightarrow> jsstr result) \<Rightarrow> holder \<Rightarrow> jsstr \<Rightarrow> u8 list \<Rightarrow> rat \<Rightarrow> (debug_menu, unit) st_result" where
  "menu_send_post stringify table tg data now d =
     (case shift_from tg (dm_send d) of
        Inl e \<Rightarrow> (Inl e, d)
      | Inr ((vs, time), m) \<Rightarrow>
          (case bindR (getKey table tg) (\<lambda>k. bindR (stringify vs) (\<lambda>text. Inr (k, text))) of
             Inl e \<Rightarrow> (Inl e, d\<lparr>dm_send := m\<rparr>)
           | Inr (k, text) \<Rightarrow>
               (Inr (), addPacket Sent (packet_title tg k) (length data) text (now - time) (d\<lparr>dm_send := m\<rparr>))))"

section \<open>The window\<close>

record rect =
  rt_left :: rat
  rt_top :: rat
  rt_width :: rat
  rt_height :: rat

definition clampToViewport :: "rat \<Rightarrow> rat \<Rightarrow> rect \<Rightarrow> debug_menu \<Rightarrow> debug_menu" where
  "clampToViewport innerWidth innerHeight rect d =
     (let maxLeft = innerWidth - rt_width rect; maxTop = innerHeight - rt_height rect
      in d\<lparr>dm_left := min (max 0 (rt_left rect)) (max 0 maxLeft), dm_top := min (max 0 (rt_top rect)) (max 0 maxTop)\<rparr>)"

text \<open>\<open>after\<close> is the rectangle once the styles before it are applied.\<close>

definition toggle_menu :: "rat \<Rightarrow> rat \<Rightarrow> rect \<Rightarrow> debug_menu \<Rightarrow> debug_menu" where
  "toggle_menu w h after d =
     (let d1 = d\<lparr>dm_minimized := \<not> dm_minimized d\<rparr>
      in clampToViewport w h after (if dm_minimized d1 then d1\<lparr>dm_size := None\<rparr> else d1))"

definition start_drag :: "rat \<Rightarrow> rat \<Rightarrow> rect \<Rightarrow> debug_menu \<Rightarrow> debug_menu" where
  "start_drag x y rect d = d\<lparr>dm_drag := Some (x, y, rt_left rect, rt_top rect)\<rparr>"

definition start_resize :: "rat \<Rightarrow> rat \<Rightarrow> rect \<Rightarrow> debug_menu \<Rightarrow> debug_menu" where
  "start_resize x y rect d = d\<lparr>dm_resize := Some (x, y, rt_width rect, rt_height rect)\<rparr>"

definition move_mouse :: "rat \<Rightarrow> rat \<Rightarrow> rat \<Rightarrow> rat \<Rightarrow> (debug_menu \<Rightarrow> rect) \<Rightarrow> debug_menu \<Rightarrow> debug_menu" where
  "move_mouse w h x y layout d =
     (let d1 = (case dm_drag d of
                  None \<Rightarrow> d
                | Some (x0, y0, l, t) \<Rightarrow>
                    let e = d\<lparr>dm_left := l + x - x0, dm_top := t + y - y0\<rparr> in clampToViewport w h (layout e) e)
      in case dm_resize d1 of
           None \<Rightarrow> d1
         | Some (x0, y0, cw, ch) \<Rightarrow>
             if dm_minimized d1 then d1
             else let e = d1\<lparr>dm_size := Some (cw + x - x0, ch + y - y0)\<rparr> in clampToViewport w h (layout e) e)"

definition release_mouse :: "debug_menu \<Rightarrow> debug_menu" where
  "release_mouse d = d\<lparr>dm_drag := None, dm_resize := None\<rparr>"

text \<open>After a clamp the window is inside the viewport whenever it fits, and its corner always is.\<close>

lemma clamped_inside:
  assumes "rt_width rect \<le> w" "rt_height rect \<le> h"
  shows "0 \<le> dm_left (clampToViewport w h rect d) \<and> dm_left (clampToViewport w h rect d) + rt_width rect \<le> w
    \<and> 0 \<le> dm_top (clampToViewport w h rect d) \<and> dm_top (clampToViewport w h rect d) + rt_height rect \<le> h"
  using assms by (simp add: clampToViewport_def Let_def) (simp add: min_def max_def)

lemma clamped_again:
  assumes "rt_left rect = dm_left (clampToViewport w h r d)" "rt_top rect = dm_top (clampToViewport w h r d)"
    and "rt_width rect = rt_width r" "rt_height rect = rt_height r"
  shows "clampToViewport w h rect (clampToViewport w h r d) = clampToViewport w h r d"
  using assms by (simp add: clampToViewport_def Let_def)

section \<open>Every operation\<close>

datatype menu_event =
    MenuReceivePre jsstr "u8 list" rat
  | MenuReceivePost holder jsstr "jsval list" rat
  | MenuSendPre jsstr "jsval list" rat
  | MenuSendPost holder jsstr "u8 list" rat
  | MenuStatus nat
  | MenuToggle rat rat rect
  | MenuDrag rat rat rect
  | MenuResize rat rat rect
  | MenuMove rat rat rat rat "debug_menu \<Rightarrow> rect"
  | MenuRelease
  | WindowResized rat rat rect

fun menu_step :: "(jsval list \<Rightarrow> jsstr result) \<Rightarrow> debug_menu \<Rightarrow> menu_event \<Rightarrow> debug_menu" where
  "menu_step sf d (MenuReceivePre tg data now) = menu_receive_pre tg data now d"
| "menu_step sf d (MenuReceivePost table tg vs now) = snd (menu_receive_post sf table tg vs now d)"
| "menu_step sf d (MenuSendPre tg vs now) = menu_send_pre tg vs now d"
| "menu_step sf d (MenuSendPost table tg data now) = snd (menu_send_post sf table tg data now d)"
| "menu_step sf d (MenuStatus s) = setStatus s d"
| "menu_step sf d (MenuToggle w h r) = toggle_menu w h r d"
| "menu_step sf d (MenuDrag x y r) = start_drag x y r d"
| "menu_step sf d (MenuResize x y r) = start_resize x y r d"
| "menu_step sf d (MenuMove w h x y layout) = move_mouse w h x y layout d"
| "menu_step sf d MenuRelease = release_mouse d"
| "menu_step sf d (WindowResized w h r) = clampToViewport w h r d"

section \<open>What is shown\<close>

text \<open>The unit is the largest that keeps the amount at 1 or more, and the amount is off by half a hundredth at most.\<close>

lemma scale_step:
  "scale_bytes v i = (v', j) \<Longrightarrow> i \<le> 4 \<Longrightarrow> (0 < i \<Longrightarrow> 1 \<le> v) \<Longrightarrow>
     v' * 1024 ^ j = v * 1024 ^ i \<and> j \<le> 4 \<and> (j < 4 \<longrightarrow> v' < 1024) \<and> (0 < j \<longrightarrow> 1 \<le> v')"
proof (induction v i rule: scale_bytes.induct)
  case (1 v i)
  show ?case
  proof (cases "1024 \<le> v \<and> i < 4")
    case True
    then have "scale_bytes (v / 1024) (i + 1) = (v', j)" using 1(2) by (subst (asm) scale_bytes.simps) (simp add: byte_units_def)
    then show ?thesis using 1(1) True by (simp add: byte_units_def)
  next
    case False
    then show ?thesis using 1 by (subst (asm) (2) scale_bytes.simps) (auto simp: byte_units_def)
  qed
qed

lemma hundredths_close: "0 \<le> v \<Longrightarrow> \<bar>of_nat (hundredths v) / 100 - v\<bar> \<le> 1 / 200"
proof -
  assume "0 \<le> v"
  then have n: "rat_of_nat (hundredths v) = of_int \<lfloor>100 * v + 1 / 2\<rfloor>" by (simp add: hundredths_def)
  have "of_int \<lfloor>100 * v + 1 / 2\<rfloor> \<le> 100 * v + 1 / 2" "100 * v + 1 / 2 < of_int \<lfloor>100 * v + 1 / 2\<rfloor> + 1" by linarith+
  then show ?thesis unfolding n by linarith
qed

lemma convertBytes_close:
  assumes "0 \<le> bytes"
  shows "\<exists>v i. convertBytes bytes = (if i = 0 then js_of_nat (nat bytes) else fixed_2 v, byte_units ! i)
    \<and> i \<le> 4 \<and> v * 1024 ^ i = of_int bytes \<and> (i < 4 \<longrightarrow> v < 1024) \<and> (0 < i \<longrightarrow> 1 \<le> v)
    \<and> \<bar>of_nat (hundredths v) / 100 - v\<bar> \<le> 1 / 200"
proof -
  obtain v i where s: "scale_bytes (of_int bytes) 0 = (v, i)" by fastforce
  then have "v * 1024 ^ i = of_int bytes \<and> i \<le> 4 \<and> (i < 4 \<longrightarrow> v < 1024) \<and> (0 < i \<longrightarrow> 1 \<le> v)"
    using scale_step [OF s] by simp
  moreover have "0 \<le> v" using calculation assms by (cases "i = 0") auto
  ultimately show ?thesis using hundredths_close assms s by (intro exI [of _ v] exI [of _ i]) (auto simp: convertBytes_def)
qed

text \<open>
  The counters are those of the packets in the list, and their texts those of the counters; the texts of the
  page stand until the first packet.
\<close>

definition shown :: "direction \<Rightarrow> debug_menu \<Rightarrow> shown_packet list" where
  "shown dir d = filter (\<lambda>p. sp_direction p = dir) (dm_packets d)"

definition counters_ok :: "debug_menu \<Rightarrow> bool" where
  "counters_ok d \<longleftrightarrow>
     dm_sent d = int (length (shown Sent d)) \<and> dm_received d = int (length (shown Received d))
     \<and> dm_sentBytes d = sum_list (map sp_bytes (shown Sent d))
     \<and> dm_receivedBytes d = sum_list (map sp_bytes (shown Received d))
     \<and> dm_savedBytes d = sum_list (map sp_saved (dm_packets d))
     \<and> (shown Sent d \<noteq> [] \<longrightarrow> dm_sentText d = bytes_text (dm_sentBytes d))
     \<and> (shown Received d \<noteq> [] \<longrightarrow> dm_receivedText d = bytes_text (dm_receivedBytes d))
     \<and> (dm_packets d \<noteq> [] \<longrightarrow> dm_savedText d = bytes_text (dm_savedBytes d))"

lemma counters_add: "counters_ok d \<Longrightarrow> counters_ok (addPacket dir tg n data time d)"
  by (cases dir) (auto simp: counters_ok_def addPacket_def shown_def Let_def)

definition counts :: "debug_menu \<Rightarrow> shown_packet list \<times> int list \<times> jsstr list" where
  "counts d = (dm_packets d, [dm_sent d, dm_received d, dm_sentBytes d, dm_receivedBytes d, dm_savedBytes d],
     [dm_sentText d, dm_receivedText d, dm_savedText d])"

lemma counters_same: "counts d' = counts d \<Longrightarrow> counters_ok d \<Longrightarrow> counters_ok d'"
  by (simp add: counts_def counters_ok_def shown_def)

lemma counts_fields [simp]:
  "counts (d\<lparr>dm_send := a\<rparr>) = counts d" "counts (d\<lparr>dm_recv := b\<rparr>) = counts d" "counts (d\<lparr>dm_status := s\<rparr>) = counts d"
  "counts (d\<lparr>dm_left := l\<rparr>) = counts d" "counts (d\<lparr>dm_top := t\<rparr>) = counts d" "counts (d\<lparr>dm_size := z\<rparr>) = counts d"
  "counts (d\<lparr>dm_minimized := m\<rparr>) = counts d" "counts (d\<lparr>dm_drag := x\<rparr>) = counts d" "counts (d\<lparr>dm_resize := y\<rparr>) = counts d"
  by (simp_all add: counts_def)

lemma counts_window [simp]:
  "counts (setStatus n d) = counts d" "counts (clampToViewport w h r d) = counts d" "counts (toggle_menu w h r d) = counts d"
  "counts (start_drag x y r d) = counts d" "counts (start_resize x y r d) = counts d" "counts (release_mouse d) = counts d"
  by (simp_all add: setStatus_def clampToViewport_def toggle_menu_def start_drag_def start_resize_def release_mouse_def Let_def)

lemma counts_move [simp]: "counts (move_mouse w h x y layout d) = counts d"
proof -
  have "counts (case dm_drag d of None \<Rightarrow> d | Some (x0, y0, l, t) \<Rightarrow>
      let e = d\<lparr>dm_left := l + x - x0, dm_top := t + y - y0\<rparr> in clampToViewport w h (layout e) e) = counts d"
    by (simp add: Let_def split: option.split)
  then show ?thesis unfolding move_mouse_def Let_def by (simp split: option.split)
qed

lemma counters_receive:
  assumes "counters_ok d"
  shows "counters_ok (snd (menu_receive_post sf table tg vs now d))"
proof (cases "shift_from tg (dm_recv d)")
  case (Inr z)
  obtain x time m where z: "z = ((x, time), m)" by (cases z) auto
  have "counters_ok (d\<lparr>dm_recv := m\<rparr>)" by (rule counters_same [OF _ assms]) simp
  then show ?thesis
    using Inr z by (cases "bindR (getKey table tg) (\<lambda>k. bindR (sf vs) (\<lambda>text. Inr (k, text)))")
      (auto simp: menu_receive_post_def counters_add)
qed (simp add: menu_receive_post_def assms)

lemma counters_send:
  assumes "counters_ok d"
  shows "counters_ok (snd (menu_send_post sf table tg data now d))"
proof (cases "shift_from tg (dm_send d)")
  case (Inr z)
  obtain x time m where z: "z = ((x, time), m)" by (cases z) auto
  have "counters_ok (d\<lparr>dm_send := m\<rparr>)" by (rule counters_same [OF _ assms]) simp
  then show ?thesis
    using Inr z by (cases "bindR (getKey table tg) (\<lambda>k. bindR (sf x) (\<lambda>text. Inr (k, text)))")
      (auto simp: menu_send_post_def counters_add)
qed (simp add: menu_send_post_def assms)

lemma counters_step: "counters_ok d \<Longrightarrow> counters_ok (menu_step sf d e)"
proof -
  assume c: "counters_ok d"
  have "counters_ok d'" if "counts d' = counts d" for d' by (rule counters_same [OF that c])
  then show ?thesis by (cases e) (simp_all add: counters_receive counters_send c menu_receive_pre_def menu_send_pre_def)
qed

interpretation menu: machine_inv "menu_step sf" counters_ok for sf
  by unfold_locales (rule counters_step)

definition new_menu :: debug_menu where
  "new_menu = setStatus 0
     \<lparr>dm_send = Map.empty, dm_recv = Map.empty, dm_sent = 0, dm_received = 0, dm_sentBytes = 0, dm_receivedBytes = 0,
      dm_savedBytes = 0, dm_sentText = js ''0'', dm_receivedText = js ''0'', dm_savedText = js ''0'', dm_packets = [],
      dm_status = ([], []), dm_minimized = False, dm_drag = None, dm_resize = None, dm_left = 50, dm_top = 50, dm_size = None\<rparr>"

lemma menu_counters: "counters_ok (foldl (menu_step sf) new_menu es)"
  by (rule menu.run_inv) (simp add: counters_ok_def new_menu_def setStatus_def shown_def)

text \<open>
  A received packet counts without its key byte, which a sent one has: of the same packet the two sides of a
  connection show different sizes, and the receiver shows one byte saved too many.
\<close>

lemma received_without_key:
  "sp_bytes (last (dm_packets (addPacket Received tg n data time d))) + 1 = sp_bytes (last (dm_packets (addPacket Sent tg n data time d)))"
  "sp_saved (last (dm_packets (addPacket Received tg n data time d))) = sp_saved (last (dm_packets (addPacket Sent tg n data time d))) + 1"
  by (simp_all add: addPacket_def Let_def)

end
