(* ===== verification/Type_Declarations.thy ===== *)
theory Type_Declarations
  imports Packet_Wire Packet_Holder
begin

text \<open>
  The TypeScript declarations a server writes for its clients: \<open>packetTypesDeclaration\<close> and what it calls in
  \<open>projects/ts/src/ws/server/SonicWSServer.ts\<close>, and \<open>serializePackets\<close> as the list of files it writes
  (\<open>dirname\<close> and the file system are the environment's). Tags and field names go through \<open>JSON.stringify\<close>.
\<close>

section \<open>JSON strings\<close>

definition hex_digit :: "nat \<Rightarrow> 16 word" where
  "hex_digit n = of_nat (if n < 10 then 48 + n else 87 + n)"

definition unicode_escape :: "16 word \<Rightarrow> jsstr" where
  "unicode_escape u = (let n = unat u
     in [92, 117, hex_digit (n div 4096 mod 16), hex_digit (n div 256 mod 16), hex_digit (n div 16 mod 16), hex_digit (n mod 16)])"

definition escape_unit :: "16 word \<Rightarrow> jsstr" where
  "escape_unit u =
     (let n = unat u
      in if n = 34 \<or> n = 92 then [92, u] else if n = 8 then [92, 98] else if n = 9 then [92, 116]
         else if n = 10 then [92, 110] else if n = 12 then [92, 102] else if n = 13 then [92, 114]
         else if n < 32 \<or> 0xD800 \<le> n \<and> n \<le> 0xDFFF then unicode_escape u else [u])"

text \<open>A surrogate stands for itself only as part of a pair.\<close>

definition is_pair :: "16 word \<Rightarrow> 16 word \<Rightarrow> bool" where
  "is_pair u v \<longleftrightarrow> 0xD800 \<le> unat u \<and> unat u \<le> 0xDBFF \<and> 0xDC00 \<le> unat v \<and> unat v \<le> 0xDFFF"

fun json_escape :: "jsstr \<Rightarrow> jsstr" where
  "json_escape [] = []"
| "json_escape [u] = escape_unit u"
| "json_escape (u # v # us) =
     (if is_pair u v then u # v # json_escape us else escape_unit u @ json_escape (v # us))"

definition json_quote :: "jsstr \<Rightarrow> jsstr" where
  "json_quote s = [34] @ json_escape s @ [34]"

section \<open>Declarations\<close>

definition packetValueType :: "nat \<Rightarrow> string" where
  "packetValueType ty =
     (if ty = PT_NONE then ''undefined''
      else if ty = PT_RAW then ''Uint8Array''
      else if ty \<in> {PT_STRINGS_ASCII, PT_STRINGS_UTF16, PT_HEX} then ''string''
      else if ty = PT_BOOLEANS then ''boolean''
      else if ty \<in> {PT_JSON, PT_ENUMS} then ''any''
      else ''number'')"

fun join_with :: "jsstr \<Rightarrow> jsstr list \<Rightarrow> jsstr" where
  "join_with sep [] = []"
| "join_with sep [s] = s"
| "join_with sep (s # t # ss) = s @ sep @ join_with sep (t # ss)"

definition objectType :: "jsstr list \<Rightarrow> jsstr \<Rightarrow> jsstr" where
  "objectType fields' valueType =
     js ''{ '' @ join_with (js ''; '') (map (\<lambda>f. json_quote f @ js '': '' @ valueType) fields') @ js '' }''"

text \<open>The three members of an entry.\<close>

definition entry_of :: "jsstr \<Rightarrow> jsstr \<Rightarrow> jsstr \<Rightarrow> jsstr" where
  "entry_of sendArgs listenerArgs received =
     js ''{ sendArgs: '' @ sendArgs @ js ''; listenerArgs: '' @ listenerArgs @ js ''; receive: '' @ received @ js '' }''"

definition in_array :: "jsstr \<Rightarrow> jsstr" where
  "in_array s = js ''['' @ s @ js '']''"

definition packetTypeEntry :: "packet \<Rightarrow> jsstr" where
  "packetTypeEntry p =
     (if pk_isParent p then
        let event = js ''{ variant: string; payload: any; permutation?: Record<string, boolean> }''
        in entry_of (js ''[]'') (in_array event) event
      else
        let valueType = (if pk_object p then js ''any'' else js (packetValueType (hd (pk_types p))))
        in case pk_fields p of
             Some (f # fs) \<Rightarrow>
               let rec' = objectType (f # fs) valueType;
                   payload = (if pk_autoFlatten p then js ''Array<'' @ rec' @ js ''>'' else rec')
               in entry_of (in_array payload) (in_array payload) payload
           | _ \<Rightarrow>
               if \<not> pk_object p \<and> hd (pk_types p) = PT_NONE then entry_of (js ''[]'') (js ''[undefined]'') (js ''undefined'')
               else if pk_dontSpread p
               then entry_of (valueType @ js ''[]'') (in_array (valueType @ js ''[]'')) (valueType @ js ''[]'')
               else entry_of (valueType @ js ''[]'') (valueType @ js ''[]'') valueType)"

definition newline :: "16 word" where
  "newline = 10"

definition packet_line :: "packet \<Rightarrow> jsstr" where
  "packet_line p = js ''        '' @ json_quote (pk_tag p) @ js '': '' @ packetTypeEntry p @ js '';''"

definition packetMapType :: "packet list \<Rightarrow> jsstr" where
  "packetMapType packets = js_join newline ([js ''{''] @ map packet_line packets @ [js ''    }''])"

definition packetTypesDeclaration :: "jsstr \<Rightarrow> packet list \<Rightarrow> packet list \<Rightarrow> jsstr" where
  "packetTypesDeclaration typeName clientPackets serverPackets =
     js_join newline
       [js ''/* Generated by SonicWS. Do not edit manually. */'', [], js ''export type '' @ typeName @ js '' = {'',
        js ''    client: '' @ packetMapType clientPackets @ js '';'',
        js ''    server: '' @ packetMapType serverPackets @ js '';'', js ''};'', []]"

text \<open>What \<open>serializePackets\<close> writes, in order: the manifest, and the types if a path is given for them.\<close>

record serialize_options =
  sz_path :: jsstr
  sz_typesPath :: "jsstr option"
  sz_typeName :: "jsstr option"

definition serializePackets ::
  "js_lib \<Rightarrow> serialize_options \<Rightarrow> packet list \<Rightarrow> packet list \<Rightarrow> (jsstr \<times> u8 list) list result" where
  "serializePackets lib opts clientPackets serverPackets =
     bindR (CreatePacketManifest lib clientPackets serverPackets) (\<lambda>manifest.
       let typeName = (case sz_typeName opts of None \<Rightarrow> js ''SonicWSPacketTypes'' | Some n \<Rightarrow> n)
       in Inr ((sz_path opts, manifest) #
               (if \<not> truthy_str (sz_typesPath opts) then []
                else [(the (sz_typesPath opts),
                       utf8_encode (packetTypesDeclaration typeName clientPackets serverPackets))])))"

section \<open>Reading strings back\<close>

definition hex_value :: "16 word \<Rightarrow> nat" where
  "hex_value u = (let n = unat u in if n < 58 then n - 48 else n - 87)"

text \<open>A string literal after its opening quote, with what follows it.\<close>

fun read_string :: "jsstr \<Rightarrow> (jsstr \<times> jsstr) option" where
  "read_string [] = None"
| "read_string (u # us) =
     (if u = 34 then Some ([], us)
      else if u \<noteq> 92 then map_option (\<lambda>(s, rest). (u # s, rest)) (read_string us)
      else (case us of
              v # vs \<Rightarrow>
                if v = 117 then
                  (case vs of
                     a # b # c # d # ws \<Rightarrow>
                       map_option (\<lambda>(s, rest). (of_nat (4096 * hex_value a + 256 * hex_value b + 16 * hex_value c + hex_value d) # s, rest))
                         (read_string ws)
                   | _ \<Rightarrow> None)
                else map_option (\<lambda>(s, rest). ((if v = 98 then 8 else if v = 116 then 9 else if v = 110 then 10
                       else if v = 102 then 12 else if v = 114 then 13 else v) # s, rest)) (read_string vs)
            | [] \<Rightarrow> None))"

lemma unat_hex_digit: "n < 16 \<Longrightarrow> unat (hex_digit n) = (if n < 10 then 48 + n else 87 + n)"
  by (simp add: hex_digit_def unat_of_nat)

lemma hex_value_digit: "n < 16 \<Longrightarrow> hex_value (hex_digit n) = n"
  by (simp add: hex_value_def unat_hex_digit)

lemma four_digits: "n < 65536 \<Longrightarrow> 4096 * (n div 4096 mod 16) + 256 * (n div 256 mod 16) + 16 * (n div 16 mod 16) + n mod 16 = (n :: nat)"
proof -
  assume "n < 65536"
  then have "n div 4096 mod 16 = n div 4096" by simp
  moreover have "n div 16 div 16 = n div 256" "n div 256 div 16 = n div 4096" by (simp_all flip: div_mult2_eq)
  ultimately have "n = 16 * (n div 16) + n mod 16" "n div 16 = 16 * (n div 256) + n div 16 mod 16"
    "n div 256 = 16 * (n div 4096) + n div 256 mod 16" "n div 4096 mod 16 = n div 4096"
    using mult_div_mod_eq [of 16 "n div 16"] mult_div_mod_eq [of 16 "n div 256"] by simp_all
  then show ?thesis by linarith
qed

lemma read_unicode:
  "read_string (unicode_escape u @ t) = map_option (\<lambda>(s, rest). (u # s, rest)) (read_string t)"
proof -
  have "unat u < 65536" using unsigned_less [of u] by simp
  then have "(of_nat (4096 * (unat u div 4096 mod 16) + 256 * (unat u div 256 mod 16) + 16 * (unat u div 16 mod 16) + unat u mod 16) :: 16 word) = u"
    by (simp only: four_digits) simp
  then show ?thesis by (simp add: unicode_escape_def Let_def hex_value_digit)
qed

lemma unat_is: "unat u = n \<Longrightarrow> u = of_nat n" for u :: "16 word"
  by auto

lemma read_unit: "read_string (escape_unit u @ t) = map_option (\<lambda>(s, rest). (u # s, rest)) (read_string t)"
proof (cases "u \<in> {34, 92, 8, 9, 10, 12, 13}")
  case True
  then consider "u = 34" | "u = 92" | "u = 8" | "u = 9" | "u = 10" | "u = 12" | "u = 13" by blast
  then show ?thesis by cases (simp_all add: escape_unit_def)
next
  case False
  then have "unat u \<noteq> 34 \<and> unat u \<noteq> 92 \<and> unat u \<noteq> 8 \<and> unat u \<noteq> 9 \<and> unat u \<noteq> 10 \<and> unat u \<noteq> 12 \<and> unat u \<noteq> 13"
    using unat_is [of u] by fastforce
  then have "escape_unit u = (if unat u < 32 \<or> 0xD800 \<le> unat u \<and> unat u \<le> 0xDFFF then unicode_escape u else [u])"
    by (simp add: escape_unit_def Let_def)
  then show ?thesis using False by (simp add: read_unicode)
qed

lemma read_pair: "is_pair u v \<Longrightarrow> u \<noteq> 34 \<and> u \<noteq> 92 \<and> v \<noteq> 34 \<and> v \<noteq> 92"
  by (auto simp: is_pair_def)

lemma read_escaped: "read_string (json_escape s @ 34 # rest) = Some (s, rest)"
proof (induction s rule: json_escape.induct)
  case (3 u v us)
  then show ?case using read_pair [of u v] by (auto simp: read_unit)
qed (simp_all add: read_unit)

text \<open>So a quoted string ends where it should, whatever it contains, and never spans lines.\<close>

lemma read_quoted: "read_string (tl (json_quote s @ rest)) = Some (s, rest)"
  by (simp add: json_quote_def read_escaped)

lemma escape_one_line: "10 \<notin> set (escape_unit u)"
proof -
  have "unat (hex_digit n) \<noteq> 10" if "n < 16" for n using unat_hex_digit [OF that] by simp
  then have "hex_digit n \<noteq> 10" if "n < 16" for n using that by fastforce
  then show ?thesis by (auto simp: escape_unit_def unicode_escape_def Let_def)
qed

lemma quoted_one_line: "10 \<notin> set (json_quote s)"
proof -
  have "10 \<notin> set (json_escape s)"
    by (induction s rule: json_escape.induct) (auto simp: escape_one_line is_pair_def)
  then show ?thesis by (simp add: json_quote_def)
qed

lemma join_one_line: "10 \<notin> set sep \<Longrightarrow> (\<And>s. s \<in> set ss \<Longrightarrow> 10 \<notin> set s) \<Longrightarrow> 10 \<notin> set (join_with sep ss)"
  by (induction sep ss rule: join_with.induct) auto

lemma object_one_line [simp]: "10 \<notin> set valueType \<Longrightarrow> 10 \<notin> set (objectType fs valueType)"
proof -
  assume "10 \<notin> set valueType"
  then have "10 \<notin> set (join_with (js ''; '') (map (\<lambda>f. json_quote f @ js '': '' @ valueType) fs))"
    by (intro join_one_line) (auto simp: quoted_one_line)
  then show "10 \<notin> set (objectType fs valueType)" by (simp add: objectType_def)
qed

lemma value_one_line [simp]: "10 \<notin> set (js (packetValueType ty))"
  by (simp add: packetValueType_def)

lemma parts_one_line [simp]:
  "10 \<in> set (entry_of a b c) \<longleftrightarrow> 10 \<in> set a \<or> 10 \<in> set b \<or> 10 \<in> set c" "10 \<in> set (in_array a) \<longleftrightarrow> 10 \<in> set a"
  by (simp_all add: entry_of_def in_array_def)

lemma packet_one_line: "10 \<notin> set (packet_line p)"
  by (simp add: packet_line_def packetTypeEntry_def Let_def quoted_one_line split: option.split list.split)

section \<open>The files\<close>

text \<open>
  The text by lines: three lines of head, then both tables with a line for each packet, whose tag is read from
  it like any TypeScript string.
\<close>

lemma join_inner: "ys \<noteq> [] \<Longrightarrow> js_join c (xs @ js_join c ys # zs) = js_join c (xs @ ys @ zs)"
proof (induction xs)
  case Nil
  have "js_join c (ys @ zs) = (if zs = [] then js_join c ys else js_join c ys @ c # js_join c zs)" if "ys \<noteq> []" for ys
    using that
  proof (induction ys rule: induct_list012)
    case (2 y)
    then show ?case by (cases zs) simp_all
  qed simp_all
  then show ?case using Nil by (cases zs) simp_all
next
  case (Cons x xs)
  then show ?case by (cases xs; cases ys) simp_all
qed

lemma join_ends: "a @ js_join c (x # xs @ [y]) @ b = js_join c ((a @ x) # xs @ [y @ b])"
proof -
  have "js_join c (x # xs @ [y]) @ b = js_join c (x # xs @ [y @ b])" for x
    by (induction xs arbitrary: x) simp_all
  then show ?thesis by (cases xs) simp_all
qed

definition declaration_lines :: "jsstr \<Rightarrow> packet list \<Rightarrow> packet list \<Rightarrow> jsstr list" where
  "declaration_lines typeName cs ss =
     [js ''/* Generated by SonicWS. Do not edit manually. */'', [], js ''export type '' @ typeName @ js '' = {'',
      js ''    client: {''] @ map packet_line cs @ [js ''    };'', js ''    server: {''] @ map packet_line ss
     @ [js ''    };'', js ''};'', []]"

lemma declaration_text: "packetTypesDeclaration typeName cs ss = js_join newline (declaration_lines typeName cs ss)"
proof -
  have m: "a @ packetMapType ps @ b = js_join newline ((a @ js ''{'') # map packet_line ps @ [js ''    }'' @ b])" for a b ps
    unfolding packetMapType_def append_Cons append_Nil by (rule join_ends)
  let ?c = "(js ''    client: '' @ js ''{'') # map packet_line cs @ [js ''    }'' @ js '';'']"
  let ?s = "(js ''    server: '' @ js ''{'') # map packet_line ss @ [js ''    }'' @ js '';'']"
  let ?h = "[js ''/* Generated by SonicWS. Do not edit manually. */'', [], js ''export type '' @ typeName @ js '' = {'']"
  have "packetTypesDeclaration typeName cs ss = js_join newline (?h @ js_join newline ?c # js_join newline ?s # [js ''};'', []])"
    by (simp only: packetTypesDeclaration_def m append_Cons append_Nil)
  also have "\<dots> = js_join newline (?h @ ?c @ ?s @ [js ''};'', []])"
    using join_inner [of ?s newline "?h @ ?c" "[js ''};'', []]"] join_inner [of ?c newline ?h "js_join newline ?s # [js ''};'', []]"]
    by (simp only: append_assoc list.distinct simp_thms append_Cons append_Nil)
  finally show ?thesis by (simp add: declaration_lines_def)
qed

definition tag_of_line :: "jsstr \<Rightarrow> jsstr option" where
  "tag_of_line l = map_option fst (read_string (drop 9 l))"

lemma tag_of_packet: "tag_of_line (packet_line p) = Some (pk_tag p)"
  using read_escaped by (simp add: tag_of_line_def packet_line_def json_quote_def)

text \<open>
  The declarations a server generates name its packets: whatever characters the tags have, each table has one
  line per packet, in order, whose property name is the tag when read as a TypeScript string.
\<close>

theorem declaration_roundtrip:
  assumes "10 \<notin> set typeName" and "ls = js_split newline (packetTypesDeclaration typeName cs ss)"
  shows "length ls = length cs + length ss + 9
    \<and> map tag_of_line (take (length cs) (drop 4 ls)) = map (Some \<circ> pk_tag) cs
    \<and> map tag_of_line (take (length ss) (drop (length cs + 6) ls)) = map (Some \<circ> pk_tag) ss"
proof -
  have "newline \<notin> set l" if "l \<in> set (declaration_lines typeName cs ss)" for l
    using that assms(1) packet_one_line by (auto simp: declaration_lines_def newline_def)
  then have "ls = declaration_lines typeName cs ss"
    unfolding assms(2) declaration_text by (intro js_split_join) (simp_all add: declaration_lines_def)
  then obtain A B C where "ls = A @ map packet_line cs @ B @ map packet_line ss @ C" "length A = 4" "length B = 2" "length C = 3"
    unfolding declaration_lines_def by (fastforce intro: that)
  then show ?thesis by (simp add: tag_of_packet comp_def)
qed

lemma declaration_roundtrip_witness:
  "\<forall>p. let ls = js_split newline (packetTypesDeclaration (js ''T'') [p] [])
    in length ls = 10 \<and> map tag_of_line (take 1 (drop 4 ls)) = [Some (pk_tag p)]"
proof
  fix p :: packet
  show "let ls = js_split newline (packetTypesDeclaration (js ''T'') [p] [])
    in length ls = 10 \<and> map tag_of_line (take 1 (drop 4 ls)) = [Some (pk_tag p)]"
    using declaration_roundtrip [of "js ''T''" _ "[p]" "[]", OF _ refl] by (simp add: Let_def)
qed

end
