(* ===== verification/Codec_Loading.thy ===== *)
theory Codec_Loading
  imports Js_Double Packet_Wire "HOL-Library.Sublist"
begin

text \<open>
  How the Rust codec is found and loaded: the module state of \<open>projects/ts/src/native/wrapper.ts\<close>
  (\<open>loadedCore\<close>, \<open>wasmInitialization\<close>), and the \<open>fetch\<close> a browser uses meanwhile, which falls back on a CDN
  whose version has to match. \<open>fetch\<close>, \<open>require\<close>, \<open>import\<close> and the path of a URL are the environment's; a codec is
  a value of which only the exported functions matter here. Errors name no status or version.
\<close>

section \<open>Numbers written as text\<close>

text \<open>\<open>String.prototype.trim\<close> and \<open>Number\<close> of ECMAScript, which decide what a version file says.\<close>

definition js_space :: "16 word \<Rightarrow> bool" where
  "js_space u \<longleftrightarrow> (let n = unat u in 9 \<le> n \<and> n \<le> 13 \<or> 8192 \<le> n \<and> n \<le> 8202
     \<or> n \<in> {32, 160, 5760, 8232, 8233, 8239, 8287, 12288, 65279})"

definition js_trim :: "jsstr \<Rightarrow> jsstr" where
  "js_trim s = rev (dropWhile js_space (rev (dropWhile js_space s)))"

definition digit_value :: "16 word \<Rightarrow> nat" where
  "digit_value u =
     (let n = unat u
      in if 48 \<le> n \<and> n \<le> 57 then n - 48
         else if 97 \<le> n \<and> n \<le> 122 then n - 87 else if 65 \<le> n \<and> n \<le> 90 then n - 55 else 36)"

fun radix_value :: "nat \<Rightarrow> nat \<Rightarrow> jsstr \<Rightarrow> nat option" where
  "radix_value b acc [] = Some acc"
| "radix_value b acc (u # us) = (if digit_value u < b then radix_value b (acc * b + digit_value u) us else None)"

definition is_digit :: "16 word \<Rightarrow> bool" where
  "is_digit u \<longleftrightarrow> digit_value u < 10"

text \<open>The exponent part of a decimal literal, which may be missing.\<close>

definition exponent_value :: "jsstr \<Rightarrow> int option" where
  "exponent_value s =
     (case s of
        [] \<Rightarrow> Some 0
      | u # us \<Rightarrow>
          if unat u \<noteq> 101 \<and> unat u \<noteq> 69 then None
          else let (sgn, ds) = (case us of v # vs \<Rightarrow> if unat v = 45 then (- 1, vs) else if unat v = 43 then (1, vs) else (1, us)
                                | [] \<Rightarrow> (1, []))
               in if ds = [] then None else map_option (\<lambda>n. sgn * int n) (radix_value 10 0 ds))"

definition decimal_value :: "jsstr \<Rightarrow> rat option" where
  "decimal_value s =
     (let whole = takeWhile is_digit s; rest = dropWhile is_digit s;
          frac = (case rest of u # us \<Rightarrow> if unat u = 46 then takeWhile is_digit us else [] | [] \<Rightarrow> []);
          tail = (case rest of u # us \<Rightarrow> if unat u = 46 then dropWhile is_digit us else rest | [] \<Rightarrow> [])
      in if whole @ frac = [] then None
         else case (radix_value 10 0 (whole @ frac), exponent_value tail) of
                (Some n, Some e) \<Rightarrow> Some (of_nat n * 10 powi (e - int (length frac)))
              | _ \<Rightarrow> None)"

definition signed_value :: "jsstr \<Rightarrow> jsnum" where
  "signed_value s =
     (let (neg, ds) = (case s of u # us \<Rightarrow> if unat u = 45 then (True, us) else if unat u = 43 then (False, us) else (False, s)
                       | [] \<Rightarrow> (False, []))
      in if ds = js ''Infinity'' then (if neg then NegInf else PosInf)
         else case decimal_value ds of None \<Rightarrow> NotNum | Some r \<Rightarrow> to_double (if neg then - r else r))"

definition js_number :: "jsstr \<Rightarrow> jsnum" where
  "js_number str =
     (let s = js_trim str
      in if s = [] then Fin 0
         else case s of
                z # x # ds \<Rightarrow>
                  let b = (if unat z \<noteq> 48 then 0 else if unat x \<in> {120, 88} then 16
                           else if unat x \<in> {111, 79} then 8 else if unat x \<in> {98, 66} then 2 else 0)
                  in if b = 0 then signed_value s
                     else if ds = [] then NotNum
                     else (case radix_value b 0 ds of None \<Rightarrow> NotNum | Some n \<Rightarrow> to_double (of_nat n))
              | _ \<Rightarrow> signed_value s)"

section \<open>Fetching\<close>

definition CDN_RELEASE :: jsstr where
  "CDN_RELEASE = js ''https://cdn.jsdelivr.net/gh/liwybloc/sonic-ws/release''"

definition CDN_WASM :: jsstr where
  "CDN_WASM = CDN_RELEASE @ js ''/bundle.wasm''"

definition CDN_VERSION :: jsstr where
  "CDN_VERSION = CDN_RELEASE @ js ''/version''"

text \<open>A response; reading its body may fail.\<close>

record response =
  rs_ok :: bool
  rs_body :: "u8 list result"

datatype fetch_input = FetchString jsstr | FetchUrl jsstr | FetchRequest jsstr

definition fetchUrl :: "fetch_input \<Rightarrow> jsstr" where
  "fetchUrl input = (case input of FetchString s \<Rightarrow> s | FetchUrl href \<Rightarrow> href | FetchRequest url \<Rightarrow> url)"

definition isWasm :: "response \<Rightarrow> bool result" where
  "isWasm r =
     (if \<not> rs_ok r then Inr False
      else bindR (rs_body r) (\<lambda>bytes.
        Inr (4 \<le> length bytes \<and> bytes ! 0 = 0x00 \<and> bytes ! 1 = 0x61 \<and> bytes ! 2 = 0x73 \<and> bytes ! 3 = 0x6d)))"

definition version_matches :: "jsnum \<Rightarrow> bool" where
  "version_matches remote = (case remote of Fin r \<Rightarrow> rat_is_int r \<and> r = of_nat VERSION | _ \<Rightarrow> False)"

definition fetchCdnWasm :: "(jsstr \<Rightarrow> response result) \<Rightarrow> response result" where
  "fetchCdnWasm fetcher =
     bindR (fetcher CDN_VERSION) (\<lambda>version.
     if \<not> rs_ok version then Inl (Error ''Unable to verify SonicWS CDN protocol version'')
     else bindR (rs_body version) (\<lambda>text.
     if \<not> version_matches (js_number (js_trim (utf8_decode text))) then Inl (Error ''SonicWS CDN protocol mismatch'')
     else bindR (fetcher CDN_WASM) (\<lambda>wasm.
     bindR (isWasm wasm) (\<lambda>ok.
     if \<not> ok then Inl (Error ''SonicWS CDN returned an invalid WASM module'') else Inr wasm))))"

text \<open>The \<open>window.fetch\<close> that is in place while the module is imported.\<close>

definition browser_fetch ::
  "(jsstr \<Rightarrow> jsstr result) \<Rightarrow> (jsstr \<Rightarrow> response result) \<Rightarrow> fetch_input \<Rightarrow> response result" where
  "browser_fetch pathname originalFetch input =
     (let url = fetchUrl input
      in if url = CDN_WASM then originalFetch url
         else bindR (pathname url) (\<lambda>path.
           if \<not> suffix (js ''/bundle.wasm'') path then originalFetch url
           else (case bindR (originalFetch url) (\<lambda>local. bindR (isWasm local) (\<lambda>ok. Inr (local, ok))) of
                   Inr (local, True) \<Rightarrow> Inr local
                 | _ \<Rightarrow> fetchCdnWasm originalFetch)))"

text \<open>A version file may be padded, and a number in any notation.\<close>

lemmas number_simps = js_number_def js_trim_def js_space_def signed_value_def decimal_value_def exponent_value_def is_digit_def
  digit_value_def version_matches_def VERSION_def Let_def

lemma version_text:
  "version_matches (js_number (js_trim (js '' 25'')))" "version_matches (js_number (js ''0x19''))"
  "\<not> version_matches (js_number (js ''25a''))" "\<not> version_matches (js_number (js ''24''))"
  using to_double_int [of 25] to_double_int [of 24] by (simp_all add: number_simps)

text \<open>
  Whatever a browser loads as \<open>bundle.wasm\<close> begins like a WASM module, and what does not come from its own
  server is the file of the CDN whose version file denotes the protocol version of this library.
\<close>

lemma isWasm_ok: "isWasm r = Inr True \<Longrightarrow> \<exists>bytes. rs_body r = Inr bytes \<and> take 4 bytes = [0x00, 0x61, 0x73, 0x6d]"
proof -
  assume "isWasm r = Inr True"
  then obtain bytes where b: "rs_body r = Inr bytes" "4 \<le> length bytes" "bytes ! 0 = 0x00" "bytes ! 1 = 0x61"
    "bytes ! 2 = 0x73" "bytes ! 3 = 0x6d"
    by (auto simp: isWasm_def bindR_eq_Inr split: if_splits)
  then obtain w x y z rest where "bytes = w # x # y # z # rest"
    by (auto simp: numeral_eq_Suc Suc_le_length_iff)
  then show ?thesis using b by simp
qed

lemma wasm_checked:
  assumes "browser_fetch pathname fetcher input = Inr r" and "fetchUrl input \<noteq> CDN_WASM"
    and "pathname (fetchUrl input) = Inr path" and "suffix (js ''/bundle.wasm'') path"
  shows "(\<exists>bytes. rs_body r = Inr bytes \<and> take 4 bytes = [0x00, 0x61, 0x73, 0x6d])
    \<and> (fetcher (fetchUrl input) = Inr r
       \<or> fetcher CDN_WASM = Inr r \<and> (\<exists>version text. fetcher CDN_VERSION = Inr version \<and> rs_body version = Inr text
           \<and> js_number (js_trim (utf8_decode text)) = Fin (of_nat VERSION)))"
  using assms
  by (auto simp: browser_fetch_def fetchCdnWasm_def version_matches_def Let_def bindR_eq_Inr isWasm_ok
      split: sum.splits if_splits bool.splits jsnum.splits)

section \<open>The module\<close>

definition core_functions :: "string list" where
  "core_functions =
     [''encodeSigned'', ''decodeSigned'', ''encodeUnsigned'', ''decodeUnsigned'', ''encodeFloats'', ''decodeFloats'',
      ''encodeStrings'', ''decodeStrings'', ''encodeBooleans'', ''decodeBooleans'', ''decodeRaw'', ''encodeHex'',
      ''decodeHex'', ''frameObject'', ''unframeObject'', ''encodeBatch'', ''decodeBatch'', ''deflateRaw'',
      ''inflateRaw'', ''validateEncoded'', ''validateEnum'', ''validateObject'']"

fun comma_join :: "string list \<Rightarrow> string" where
  "comma_join [] = []"
| "comma_join [s] = s"
| "comma_join (s # t # ss) = s @ '', '' @ comma_join (t # ss)"

definition assertNativeCore :: "('c \<Rightarrow> string \<Rightarrow> bool) \<Rightarrow> 'c \<Rightarrow> unit result" where
  "assertNativeCore exports core =
     (let missing = filter (\<lambda>f. \<not> exports core f) core_functions
      in if missing \<noteq> [] then Inl (Error (''Invalid SonicWS codec module; missing: '' @ comma_join missing)) else Inr ())"

text \<open>
  \<open>ld_outcome\<close> is what the running initialization will give, once its module was set; \<open>ld_waiting\<close> are the
  calls that share its promise. Observed: the number of calls and what each was answered.
\<close>

record 'c loader =
  ld_core :: "'c option"
  ld_running :: bool
  ld_patched :: bool
  ld_outcome :: "'c result option"
  ld_calls :: nat
  ld_waiting :: "nat list"
  ld_answers :: "(nat \<times> 'c result) list"

definition new_loader :: "'c loader" where
  "new_loader = \<lparr>ld_core = None, ld_running = False, ld_patched = False, ld_outcome = None, ld_calls = 0,
     ld_waiting = [], ld_answers = []\<rparr>"

definition setNativeCore :: "('c \<Rightarrow> string \<Rightarrow> bool) \<Rightarrow> 'c \<Rightarrow> ('c loader, unit) st_result" where
  "setNativeCore exports core ld =
     (case assertNativeCore exports core of Inl e \<Rightarrow> (Inl e, ld) | Inr _ \<Rightarrow> (Inr (), ld\<lparr>ld_core := Some core\<rparr>))"

text \<open>The module arrived, or did not: the end of \<open>initializeBrowserWasm\<close>, or the whole body in Node.\<close>

definition module_set :: "('c \<Rightarrow> string \<Rightarrow> bool) \<Rightarrow> 'c result \<Rightarrow> 'c loader \<Rightarrow> 'c loader" where
  "module_set exports loaded ld =
     (case loaded of
        Inl e \<Rightarrow> ld\<lparr>ld_outcome := Some (Inl e)\<rparr>
      | Inr core \<Rightarrow>
          (case setNativeCore exports core ld of
             (Inl e, ld1) \<Rightarrow> ld1\<lparr>ld_outcome := Some (Inl e)\<rparr>
           | (Inr _, ld1) \<Rightarrow> ld1\<lparr>ld_outcome := Some (Inr core)\<rparr>))"

text \<open>\<open>initializeWasmCore\<close>; \<open>required\<close> is what \<open>require\<close> gives in Node, where the body runs at once.\<close>

definition initializeWasmCore :: "('c \<Rightarrow> string \<Rightarrow> bool) \<Rightarrow> bool \<Rightarrow> 'c result \<Rightarrow> 'c loader \<Rightarrow> 'c loader" where
  "initializeWasmCore exports window required ld =
     (let n = ld_calls ld; ld1 = ld\<lparr>ld_calls := n + 1\<rparr>
      in case ld_core ld of
           Some core \<Rightarrow> ld1\<lparr>ld_answers := ld_answers ld @ [(n, Inr core)]\<rparr>
         | None \<Rightarrow>
             if ld_running ld then ld1\<lparr>ld_waiting := ld_waiting ld @ [n]\<rparr>
             else let ld2 = ld1\<lparr>ld_running := True, ld_outcome := None, ld_waiting := [n]\<rparr>
                  in if window then ld2\<lparr>ld_patched := True\<rparr> else module_set exports required ld2)"

definition import_settles :: "('c \<Rightarrow> string \<Rightarrow> bool) \<Rightarrow> 'c result \<Rightarrow> 'c loader \<Rightarrow> 'c loader" where
  "import_settles exports loaded ld =
     (if ld_patched ld then (module_set exports loaded ld)\<lparr>ld_patched := False\<rparr> else ld)"

text \<open>\<open>finally\<close>, and the answers of all that share the promise.\<close>

definition initialization_ends :: "'c loader \<Rightarrow> 'c loader" where
  "initialization_ends ld =
     (case ld_outcome ld of
        None \<Rightarrow> ld
      | Some r \<Rightarrow> ld\<lparr>ld_running := False, ld_outcome := None, ld_waiting := [],
                      ld_answers := ld_answers ld @ map (\<lambda>n. (n, r)) (ld_waiting ld)\<rparr>)"

definition loadNativeCore :: "('c \<Rightarrow> string \<Rightarrow> bool) \<Rightarrow> bool \<Rightarrow> 'c result \<Rightarrow> ('c loader, 'c) st_result" where
  "loadNativeCore exports window required ld =
     (case ld_core ld of
        Some core \<Rightarrow> (Inr core, ld)
      | None \<Rightarrow>
          if window then (Inl (Error ''SonicWS codec is not initialized; await initializeWasmCore() in browsers.''), ld)
          else (case bindR required (\<lambda>core. bindR (assertNativeCore exports core) (\<lambda>_. Inr core)) of
                  Inl e \<Rightarrow> (Inl (Error ''Unable to load the packaged SonicWS Node WASM codec''), ld)
                | Inr core \<Rightarrow> (Inr core, ld\<lparr>ld_core := Some core\<rparr>)))"

datatype 'c load_event =
    Initialize "'c result" | ImportSettles "'c result" | InitializationEnds | LoadNow "'c result" | InjectCore 'c

fun load_step :: "('c \<Rightarrow> string \<Rightarrow> bool) \<Rightarrow> bool \<Rightarrow> 'c loader \<Rightarrow> 'c load_event \<Rightarrow> 'c loader" where
  "load_step exports window ld (Initialize required) = initializeWasmCore exports window required ld"
| "load_step exports window ld (ImportSettles loaded) = import_settles exports loaded ld"
| "load_step exports window ld InitializationEnds = initialization_ends ld"
| "load_step exports window ld (LoadNow required) = snd (loadNativeCore exports window required ld)"
| "load_step exports window ld (InjectCore core) = snd (setNativeCore exports core ld)"

section \<open>Every caller gets a whole codec, once\<close>

definition whole :: "('c \<Rightarrow> string \<Rightarrow> bool) \<Rightarrow> 'c \<Rightarrow> bool" where
  "whole exports core \<longleftrightarrow> (\<forall>f \<in> set core_functions. exports core f)"

lemma assert_whole: "assertNativeCore exports core = Inr () \<longleftrightarrow> whole exports core"
  by (auto simp: assertNativeCore_def whole_def Let_def filter_empty_conv)

definition answers_ok :: "('c \<Rightarrow> string \<Rightarrow> bool) \<Rightarrow> 'c loader \<Rightarrow> bool" where
  "answers_ok exports ld \<longleftrightarrow>
     (\<forall>core. ld_core ld = Some core \<longrightarrow> whole exports core)
     \<and> (\<forall>core. ld_outcome ld = Some (Inr core) \<longrightarrow> whole exports core)
     \<and> (\<forall>n core. (n, Inr core) \<in> set (ld_answers ld) \<longrightarrow> whole exports core)
     \<and> distinct (ld_waiting ld @ map fst (ld_answers ld)) \<and> set (ld_waiting ld @ map fst (ld_answers ld)) = {..< ld_calls ld}
     \<and> (ld_waiting ld \<noteq> [] \<longleftrightarrow> ld_running ld) \<and> (ld_running ld \<longleftrightarrow> ld_patched ld \<or> ld_outcome ld \<noteq> None)
     \<and> \<not> (ld_patched ld \<and> ld_outcome ld \<noteq> None)"

lemma answers_set: "answers_ok exports ld \<Longrightarrow> answers_ok exports (snd (setNativeCore exports core ld))"
  using assert_whole [of exports core] by (auto simp: answers_ok_def setNativeCore_def split: sum.split)

lemma answers_load: "answers_ok exports ld \<Longrightarrow> answers_ok exports (snd (loadNativeCore exports window required ld))"
  by (auto simp: answers_ok_def loadNativeCore_def bindR_eq_Inr assert_whole split: sum.split option.split)

lemma answers_module:
  assumes "answers_ok exports (ld\<lparr>ld_patched := True\<rparr>)" "ld_outcome ld = None"
  shows "answers_ok exports ((module_set exports loaded ld)\<lparr>ld_patched := False\<rparr>)"
  using assms assert_whole [of exports] by (auto simp: answers_ok_def module_set_def setNativeCore_def split: sum.splits)

lemma answers_initialize:
  assumes a: "answers_ok exports ld"
  shows "answers_ok exports (initializeWasmCore exports window required ld)"
proof (cases "ld_core ld = None \<and> \<not> ld_running ld")
  case True
  let ?ld = "ld\<lparr>ld_calls := ld_calls ld + 1, ld_running := True, ld_outcome := None, ld_waiting := [ld_calls ld]\<rparr>"
  have p: "\<not> ld_patched ld" using True a by (auto simp: answers_ok_def)
  have o: "answers_ok exports (?ld\<lparr>ld_patched := True\<rparr>)" using True a by (simp add: answers_ok_def lessThan_Suc) auto
  have "(module_set exports required ?ld)\<lparr>ld_patched := False\<rparr> = module_set exports required ?ld"
    using p by (auto simp: module_set_def setNativeCore_def split: sum.split)
  then show ?thesis using answers_module [OF o, of required] o True by (auto simp: initializeWasmCore_def Let_def)
next
  case False
  let ?called = "\<lambda>w as. ld\<lparr>ld_calls := ld_calls ld + 1, ld_waiting := w, ld_answers := as\<rparr>"
  have "answers_ok exports (?called (ld_waiting ld) (ld_answers ld @ [(ld_calls ld, Inr c)]))" if "ld_core ld = Some c" for c
    using a that by (auto simp: answers_ok_def lessThan_Suc)
  moreover have "answers_ok exports (?called (ld_waiting ld @ [ld_calls ld]) (ld_answers ld))" if "ld_running ld"
    using a that by (auto simp: answers_ok_def lessThan_Suc)
  ultimately show ?thesis using False by (auto simp: initializeWasmCore_def Let_def split: option.split)
qed

lemma answers_import:
  assumes a: "answers_ok exports ld"
  shows "answers_ok exports (import_settles exports loaded ld)"
proof (cases "ld_patched ld")
  case True
  then have e: "ld\<lparr>ld_patched := True\<rparr> = ld" by simp
  have "answers_ok exports (ld\<lparr>ld_patched := True\<rparr>)" using a by (simp only: e)
  moreover have "ld_outcome ld = None" using a True by (simp add: answers_ok_def)
  ultimately show ?thesis using True answers_module by (simp add: import_settles_def)
qed (simp add: import_settles_def a)

lemma answers_end: "answers_ok exports ld \<Longrightarrow> answers_ok exports (initialization_ends ld)"
  by (simp add: answers_ok_def initialization_ends_def comp_def image_Un image_image split: option.split) auto

interpretation loading: machine_inv "load_step exports window" "answers_ok exports" for exports window
proof
  fix ld :: "'a loader" and e
  assume "answers_ok exports ld"
  then show "answers_ok exports (load_step exports window ld e)"
    by (cases e) (simp_all add: answers_set answers_load answers_initialize answers_import answers_end)
qed

text \<open>
  C31: Whatever modules arrive, and in whatever order callers ask: every call of \<open>initializeWasmCore\<close> is answered
  exactly once or waits for the one initialization that runs, and whatever anyone is given has all
  functions of the codec.
\<close>

theorem codec_loading:
  assumes "ld = foldl (load_step exports window) new_loader es"
  shows "distinct (ld_waiting ld @ map fst (ld_answers ld)) \<and> set (ld_waiting ld @ map fst (ld_answers ld)) = {..< ld_calls ld} \<and> (ld_waiting ld \<noteq> [] \<longleftrightarrow> ld_running ld)
    \<and> (\<forall>core n. ld_core ld = Some core \<or> (n, Inr core) \<in> set (ld_answers ld) \<longrightarrow> (\<forall>f \<in> set core_functions. exports core f))
    \<and> (ld_outcome ld \<noteq> None \<longrightarrow> ld_waiting (initialization_ends ld) = [])"
proof -
  have "answers_ok exports (new_loader :: 'a loader)" by (simp add: answers_ok_def new_loader_def)
  then have "answers_ok exports ld" unfolding assms by (rule loading.run_inv)
  then show ?thesis by (auto simp: answers_ok_def whole_def initialization_ends_def)
qed

text \<open>Two calls while the module is imported, then a third.\<close>

lemma codec_loading_witness:
  "let ld = foldl (load_step (\<lambda>_ _. True) True) new_loader
      [Initialize (Inl (Error [])), Initialize (Inl (Error [])), ImportSettles (Inr ()), InitializationEnds, Initialize (Inl (Error []))]
   in ld_answers ld = [(0, Inr ()), (1, Inr ()), (2, Inr ())] \<and> distinct (map fst (ld_answers ld))"
proof -
  let ?es = "[Initialize (Inl (Error [])), Initialize (Inl (Error [])), ImportSettles (Inr ()), InitializationEnds, Initialize (Inl (Error []))]"
  let ?ld = "foldl (load_step (\<lambda>_ _. True) True) new_loader ?es"
  have "ld_answers ?ld = [(0, Inr ()), (1, Inr ()), (2, Inr ())]"
    by (simp add: new_loader_def initializeWasmCore_def import_settles_def module_set_def setNativeCore_def assertNativeCore_def
        initialization_ends_def)
  moreover have "distinct (map fst (ld_answers ?ld))"
    using codec_loading [of ?ld "\<lambda>_ _. True" True ?es, OF refl] by (simp only: distinct_append)
  ultimately show ?thesis by (simp only: Let_def)
qed

end
