(* ===== verification/Server_Services.thy ===== *)
theory Server_Services
  imports Sonic_Server Debug_Server Codec_Loading
begin

text \<open>
  The calls around the core of a server and its connections: \<open>sendSafe\<close>, \<open>sendVariant\<close> and the like, the options
  at the end of an RPC request, the routes for the browser's files, the check for updates and \<open>OpenDebug\<close>
  (\<open>projects/ts/src/ws/server/SonicWSServer.ts\<close>, \<open>SonicWSConnection.ts\<close> and, where it has the same, the client's
  \<open>ws/client/core/ClientCore.ts\<close>). What \<open>send\<close> answers, the file system and the path of a URL are inputs.
\<close>

section \<open>Sending with a net\<close>

text \<open>
  The handler an application may give for failed sends; it may throw itself. Without one the error is printed.
\<close>

definition handleSendError :: "(js_error \<Rightarrow> unit result) option \<Rightarrow> js_error \<Rightarrow> unit result" where
  "handleSendError handler e = (case handler of None \<Rightarrow> Inr () | Some h \<Rightarrow> h e)"

definition sendSafe :: "(js_error \<Rightarrow> unit result) option \<Rightarrow> unit result \<Rightarrow> bool result" where
  "sendSafe handler sent = (case sent of Inr _ \<Rightarrow> Inr True | Inl e \<Rightarrow> bindR (handleSendError handler e) (\<lambda>_. Inr False))"

definition broadcastSafe :: "(js_error \<Rightarrow> unit result) option \<Rightarrow> unit result \<Rightarrow> bool result" where
  "broadcastSafe = sendSafe"

definition cl_sendSafe :: "unit result \<Rightarrow> bool" where
  "cl_sendSafe sent = (case sent of Inr _ \<Rightarrow> True | Inl _ \<Rightarrow> False)"

text \<open>A variant is a packet of its own: its tag is sent with the same values.\<close>

definition sendVariant :: "holder \<Rightarrow> (jsstr \<Rightarrow> jsval list \<Rightarrow> 'a) \<Rightarrow> jsstr \<Rightarrow> jsstr \<Rightarrow> jsval list \<Rightarrow> 'a result" where
  "sendVariant h send parent variant vs = bindR (getVariantTag h parent variant) (\<lambda>tg. Inr (send tg vs))"

definition sendPermutation ::
  "holder \<Rightarrow> (jsstr \<Rightarrow> jsval list \<Rightarrow> 'a) \<Rightarrow> jsstr \<Rightarrow> selection \<Rightarrow> jsval list \<Rightarrow> 'a result" where
  "sendPermutation h send parent selection vs = bindR (getPermutationVariant h parent selection) (\<lambda>tg. Inr (send tg vs))"

lemma send_safe_settles: "sendSafe None sent = Inr (is_ok sent)"
  by (cases sent) (simp_all add: sendSafe_def handleSendError_def)

section \<open>Options of a request\<close>

text \<open>
  The last of several values is taken for options if it is an object whose only keys are \<open>timeoutMs\<close>; the keys of
  bytes are their indexes.
\<close>

definition looks_like_options :: "jsval \<Rightarrow> bool" where
  "looks_like_options v =
     (case v of JObj kvs \<Rightarrow> list_all (\<lambda>(k, _). k = js ''timeoutMs'') kvs | JBytes bs \<Rightarrow> bs = [] | _ \<Rightarrow> False)"

definition request_options :: "jsval list \<Rightarrow> jsval \<times> jsval list" where
  "request_options valuesAndOptions =
     (if length valuesAndOptions > 1 \<and> looks_like_options (last valuesAndOptions)
      then (case last valuesAndOptions of JObj kvs \<Rightarrow> obj_get kvs (js ''timeoutMs'') | _ \<Rightarrow> JUndef, butlast valuesAndOptions)
      else (JUndef, valuesAndOptions))"

definition request_timeout :: "jsval list \<Rightarrow> jsval" where
  "request_timeout valuesAndOptions =
     (case fst (request_options valuesAndOptions) of JUndef \<Rightarrow> JNum (Fin 5000) | JNull \<Rightarrow> JNum (Fin 5000) | t \<Rightarrow> t)"

lemma options_read:
  "vs \<noteq> [] \<Longrightarrow> request_options (vs @ [JObj [(js ''timeoutMs'', t)]]) = (t, vs)"
  by (simp add: request_options_def looks_like_options_def obj_get_def)

lemma no_options_kept:
  "\<not> looks_like_options (last vs) \<Longrightarrow> request_options vs = (JUndef, vs)"
  by (simp add: request_options_def)

text \<open>A last value that is an empty object or empty bytes is dropped, and a lone options object is sent.\<close>

lemma empty_value_dropped:
  "vs \<noteq> [] \<Longrightarrow> request_options (vs @ [JObj []]) = (JUndef, vs)"
  "vs \<noteq> [] \<Longrightarrow> request_options (vs @ [JBytes []]) = (JUndef, vs)"
  "request_options [JObj [(js ''timeoutMs'', t)]] = (JUndef, [JObj [(js ''timeoutMs'', t)]])"
  by (simp_all add: request_options_def looks_like_options_def obj_get_def)

section \<open>The files for browsers\<close>

text \<open>
  The handler that goes before those of the application: \<open>new URL\<close> throws for a request line such as \<open>//\<close>, and
  nothing catches it. The application's handlers are called in order; a throw of one ends that too.
\<close>

datatype route_answer =
    Answered nat "(string \<times> jsstr) list" "u8 list"
  | Passed nat

definition browser_asset :: "jsstr \<Rightarrow> (string \<times> string) option" where
  "browser_asset path =
     (if path = js ''/SonicWS/bundle.js'' then Some (''bundle.js'', ''text/javascript; charset=utf-8'')
      else if path = js ''/SonicWS/bundle.wasm'' then Some (''bundle.wasm'', ''application/wasm'') else None)"

definition asset_request ::
  "(jsstr \<Rightarrow> jsstr result) \<Rightarrow> (string \<Rightarrow> u8 list result) \<Rightarrow> nat \<Rightarrow> jsstr option \<Rightarrow> route_answer result" where
  "asset_request pathname readFile listeners url =
     bindR (pathname (case url of None \<Rightarrow> js ''/'' | Some u \<Rightarrow> u)) (\<lambda>path.
       case browser_asset path of
         None \<Rightarrow> Inr (Passed listeners)
       | Some (file, ctype) \<Rightarrow>
           (case readFile file of
              Inr data \<Rightarrow> Inr (Answered 200 [(''content-type'', js ctype), (''content-length'', js_of_nat (length data)),
                                            (''cache-control'', js ''public, max-age=3600'')] data)
            | Inl e \<Rightarrow> Inr (Answered 500 [(''content-type'', js ''text/plain; charset=utf-8'')]
                             (utf8_encode (js ''Unable to load SonicWS browser asset: '' @ error_message e)))))"

lemma only_two_files:
  "asset_request pathname readFile n url = Inr (Answered 200 hs data) \<Longrightarrow>
   readFile ''bundle.js'' = Inr data \<or> readFile ''bundle.wasm'' = Inr data"
  by (auto simp: asset_request_def browser_asset_def bindR_eq_Inr split: if_splits sum.splits option.splits)

lemma malformed_url_throws: "pathname u = Inl e \<Longrightarrow> asset_request pathname readFile n (Some u) = Inl e"
  by (simp add: asset_request_def)

section \<open>Updates\<close>

text \<open>\<open>parseInt\<close>: leading space, a sign, \<open>0x\<close>, and as many digits as there are.\<close>

definition parse_int :: "jsstr \<Rightarrow> jsnum" where
  "parse_int str =
     (let s = dropWhile js_space str;
          (neg, t) = (case s of u # us \<Rightarrow> if unat u = 45 then (True, us) else if unat u = 43 then (False, us) else (False, s)
                      | [] \<Rightarrow> (False, []));
          (b, ds) = (case t of z # x # us \<Rightarrow> if unat z = 48 \<and> unat x \<in> {120, 88} then (16, us) else (10, t) | _ \<Rightarrow> (10, t));
          lead = takeWhile (\<lambda>u. digit_value u < b) ds
      in if lead = [] then NotNum
         else case radix_value b 0 lead of
                None \<Rightarrow> NotNum | Some n \<Rightarrow> to_double (if neg then - of_nat n else of_nat n))"

definition outdated :: "jsstr \<Rightarrow> bool" where
  "outdated version = num_less (Fin (of_nat VERSION)) (parse_int version)"

text \<open>The answer is not looked at: the page a server sends for a missing file counts as version 404.\<close>

lemma outdated_text: "outdated (js ''26'' @ [10])" "\<not> outdated (js ''25'' @ [10])" "outdated (js ''404: Not Found'')"
  using to_double_int [of 26] to_double_int [of 25] to_double_int [of 404]
  by (simp_all add: outdated_def parse_int_def js_space_def digit_value_def Let_def VERSION_def num_less_def)

section \<open>The debug server\<close>

definition openDebug :: "debug option \<Rightarrow> jsnum option \<Rightarrow> jsstr option \<Rightarrow> int \<Rightarrow> debug result" where
  "openDebug running port password startTime =
     (if running \<noteq> None then Inl (Error ''A debug server is already running'') else new_debug port password startTime)"

end
