(* ===== verification/Spec2Isabelle.thy ===== *)
theory Spec2Isabelle
  imports Server_Lanes Server_Limits Client_Bindings Server_Delivery Cluster Debug_Client Type_Declarations Server_Services
begin

text \<open>
  Verification of Sonic-WS (\<open>src/projects/ts/src\<close>), a TypeScript library that sends typed, compressed packets
  over WebSockets: a server, a client for browsers and Node, and the codecs, tables, queues and limits the two
  share. Paths below are relative to \<open>src/projects/ts/src\<close>, \<open>util\<close> is \<open>ws/util\<close> and \<open>packets\<close> is
  \<open>ws/util/packets\<close>.

  \<^bold>\<open>How the program works.\<close> A server creates its packets (\<open>packets/PacketUtils.ts\<close>) and puts them in two tables
  (\<open>packets/PacketHolder.ts\<close>), one per direction. When a client connects, the first frame (the hello) carries
  version, id, heartbeat, session id and both tables as bytes; from then on a frame is a key byte, then the
  payload, where key 0 is a control frame (\<open>packets/ControlProtocol.ts\<close>: heartbeat, request, response, error,
  replay, resume). Values are mapped to wire values by the packet's schema (\<open>ws/packets/Packets.ts\<close>), encoded
  by a Rust codec compiled to WASM behind \<open>native/wrapper.ts\<close>, collected into batches
  (\<open>packets/BatchHelper.ts\<close>) and sent through a queue per connection; the receiver validates, unbatches, takes the
  lock of the packet's lane, calls listeners and releases it. Around that: rate limits, middleware, metrics,
  backpressure, heartbeats, rooms, and the recovery of a session after a reconnect.

  \<^bold>\<open>Conventions.\<close> A function that may throw returns \<open>'a result\<close>, with the error as \<open>Inl\<close>; a number of JavaScript
  is a \<open>jsnum\<close> (rationals, infinities, NaN), or a nat or int where the code keeps to integers; where the code
  uses 32-bit operators the wrap-around is written out. A string is the list of its UTF-16 units
  (\<open>16 word list\<close>), bytes are an \<open>8 word list\<close>. An object with state is a record, returned updated; a whole component is a step
  function over its events (\<open>conn_step\<close>, \<open>sc_step\<close>, \<open>sv_step\<close>, \<open>cl_step\<close>, \<open>hb_step\<close>, \<open>reconnect_step\<close>,
  \<open>redis_step\<close>, \<open>pg_step\<close>, \<open>cluster_step\<close>, \<open>debug_step\<close>, \<open>load_step\<close>, \<open>bound_step\<close>), in the order in which the
  event loop runs them. What the application supplies (callbacks, validators, middleware,
  the clock, random ids, what a listener calls while it runs) is a parameter or part of the event. Within one event
  nothing else happens: what the platform buffers changes between events only.

  \<^bold>\<open>The theories, from the bottom up.\<close>
  \<^item> \<open>Sonic_Prelude\<close>: results, bytes, the locales \<open>offset_codec\<close> (a decoder that reads at an offset) and
    \<open>machine_inv\<close> (an invariant of a step function), both interpreted on every codec and machine below;
    \<open>Js_Value\<close>, \<open>Js_Double\<close>: JavaScript values, rounding to doubles.
  \<^item> \<open>Varint\<close> (\<open>packets/CompressionUtil.ts\<close>), \<open>Text_Codec\<close> (\<open>util/StringUtil.ts\<close>), \<open>Buffer_Util\<close>
    (\<open>util/BufferUtil.ts\<close>), \<open>Json_Number\<close> and \<open>Json_Codec\<close> (\<open>util/JSONUtil.ts\<close>), \<open>Control\<close>
    (\<open>packets/ControlProtocol.ts\<close>): every codec with its round trip, the exact set of accepted inputs and what is
    lost outside it.
  \<^item> \<open>Rust_Core\<close> (\<open>src/projects/core\<close>, only what TypeScript writes or reads itself) and \<open>Native\<close>
    (\<open>native/wrapper.ts\<close>): the two sides of the language border agree on varints and batches; counts that
    Rust takes as \<open>u32\<close> wrap on the way.
  \<^item> \<open>Enums\<close>, \<open>Packets\<close>, \<open>Packet_Values\<close>, \<open>Packet_Wire\<close>, \<open>Packet_Wire_Proofs\<close>, \<open>Packet_Creation\<close>,
    \<open>Variant_Permutation\<close>, \<open>Packet_Holder\<close>, \<open>Hashing\<close>: packet definitions: creating, validating, mapping
    values (quantization with error feedback), schema bytes, manifests and the lookups of a table, whose
    validation is compared with a specification of its own (\<open>table_spec\<close>). What a peer reads of a packet is
    its view \<open>received\<close>: limits that are not written come back at their defaults.
  \<^item> \<open>Send_Queue\<close> (\<open>processPacket\<close>, \<open>listenPacket\<close>) refines a sequential machine; \<open>Batching\<close>; \<open>Rate_Limit\<close> (with
    the interface \<open>rate_gate\<close>); \<open>Middleware\<close> (with metrics and logger); \<open>Transport\<close> (\<open>ws/Connection.ts\<close>).
  \<^item> \<open>Server_Connection\<close> (\<open>ws/server/SonicWSConnection.ts\<close>): \<open>sc_step\<close>. \<open>Server_Connection_Proofs\<close>: which frames
    are accepted, the application handshake and what control frames do before it. \<open>Server_Lanes\<close>: delivery in a lane is that of a FIFO queue.
    \<open>Server_Limits\<close>: the rate limit seen from the handlers.
  \<^item> \<open>Rooms\<close>, \<open>Recovery\<close>, \<open>Schema_Handshake\<close>, \<open>Heartbeat\<close>, \<open>Sonic_Server\<close> (\<open>ws/server/SonicWSServer.ts\<close>):
    \<open>sv_step\<close> over the registry of connections, ids, rooms, sessions and broadcasts. \<open>Rooms\<close> refines the two
    membership maps to one relation (interface \<open>room_store\<close>). \<open>Sonic_Server_Proofs\<close>: the registry invariant, by
    rule induction over \<open>registry_move\<close>, which every operation is, what a close removes for good, and the locale \<open>server_frame\<close>: what a step
    leaves alone is shown once for every relation that ignores the parts it writes; \<open>Server_Delivery\<close>: recipients and resuming, with
    as many replayed frames as the outbound rate limit leaves room for.
  \<^item> \<open>Reconnect\<close> (with the listeners that run before the timer is armed), \<open>Client_Core\<close>
    (\<open>ws/client/core/ClientCore.ts\<close>): \<open>cl_step\<close>. \<open>Client_Proofs\<close>: replayed frames are
    handled exactly once. \<open>Client_Frames\<close>: nested replays end, frames before the hello are kept.
  \<^item> \<open>Base64\<close> (Node's encoding, with its round trip) and \<open>Adapters\<close> (\<open>src/projects/adapters-ts\<close>): the Redis and
    the PostgreSQL adapter, \<open>redis_step\<close> and \<open>pg_step\<close>: what is published, and that closing leaves no client
    open. \<open>Cluster\<close>: several servers and their adapters on one channel; the locale \<open>message_bus\<close> is what a
    server needs of an adapter, interpreted on both, and no room broadcast is repeated or echoed.
  \<^item> \<open>Debug_Server\<close> (\<open>ws/debug/DebugServer.ts\<close>): \<open>debug_step\<close>; what the password protects, for each viewer
    whatever the others give, and by a run with and a run without viewers side by side, and what it does not. \<open>Debug_Client\<close> (\<open>ws/debug/DebugClient.ts\<close>):
    \<open>menu_step\<close>, its counters, amounts and window.
  \<^item> \<open>Client_Bindings\<close> (\<open>ws/client/browser\<close>, \<open>ws/client/node\<close>): \<open>bound_step\<close> around \<open>cl_step\<close>: \<open>connect\<close> and
    \<open>antiTamper\<close>. The locale \<open>client_view\<close> of \<open>Client_Proofs\<close> shows once what an operation of the client leaves
    alone. \<open>Codec_Loading\<close> (\<open>native/wrapper.ts\<close>): \<open>load_step\<close>, and the \<open>fetch\<close> that falls back on a CDN.
  \<^item> \<open>Type_Declarations\<close> and \<open>Server_Services\<close> (\<open>ws/server/SonicWSServer.ts\<close>, \<open>ws/server/SonicWSConnection.ts\<close>): the
    types a server writes to disk, read back line by line; safe sends, options of requests, the routes for
    the browser's files and the update check.
  \<^item> This theory: server and client together, a session resumed from end to end.

  \<^bold>\<open>Bounds and termination.\<close> No fuel is used. A varint has at most eight sectors (53 bits), which is where
  the code's own limit \<open>MAX_UVARINT\<close> stands. \<open>dataHandler\<close> and \<open>cl_handleControl\<close> call each other on nested replay
  frames; they end by the length of the frame (\<open>replay_nesting_ends\<close>). Loops over strings, bytes and tables are
  recursion on the list or on the distance to its end.

  \<^bold>\<open>Not modelled.\<close> The part of the Rust core that TypeScript only calls (its functions are parameters);
  sockets, HTTP, \<open>fetch\<close>, files and timers of the platform (their events and answers are inputs); the page of
  the debug server and the elements of the debug client (HTML, styles and the evaluation of typed code);
  methods that only forward their arguments or store a listener; the Python and Rust packages, the examples
  and the benchmarks, which are other programs; the types of TypeScript that no code remains of. Where the
  model stops inside a function the text before its definition says so.
\<close>

section \<open>Server and client together\<close>

lemma resumed_frame:
  assumes "encodeResumed True k = Inr r"
  shows "cl_messageHandler env r cl = cl_resumed True k cl"
proof -
  have k: "k \<le> MAX_UVARINT" and r: "r = CONTROL_KEY # 5 # 1 # varint_digits k"
    using assms by (auto simp: encodeResumed_def bindR_eq_Inr convertVarInt_Inr_iff)
  have "decodeControl r = Inr (ControlResumed True k)"
    using read_at_3 [OF k, of CONTROL_KEY 5 1] by (simp add: r decodeControl_def Let_def Suc_le_eq CONTROL_KEY_def)
  moreover have "frame_key r = Some 0" "length r \<noteq> 1" "\<not> length r < 1" by (simp_all add: r frame_key_def CONTROL_KEY_def)
  ultimately show ?thesis by (simp add: cl_messageHandler_def cl_control_def dataHandler.simps cl_handleControl.simps)
qed

text \<open>What a replayed packet leaves alone.\<close>

lemma resume_fields_replay:
  assumes "n \<le> MAX_UVARINT" "frame_key p \<noteq> Some 0"
  shows "cl_pendingResume (cl_messageHandler env (replay_bytes n p) cl) = cl_pendingResume cl
    \<and> cl_sessionId (cl_messageHandler env (replay_bytes n p) cl) = cl_sessionId cl
    \<and> cl_recovered (cl_messageHandler env (replay_bytes n p) cl) = cl_recovered cl"
  using assms(2) by (simp add: handle_replay [OF assms(1)] dataHandler.simps start_frame_def Let_def cl_set_lane_def
      cl_throw_def cl_add_task_def split: sum.splits prod.splits)

lemma resume_fields_replays:
  assumes "length fs \<le> MAX_UVARINT" "plain_frames fs"
  shows "cl_pendingResume (foldl (\<lambda>c x. cl_messageHandler env x c) cl (map snd (drop k (numbered fs)))) = cl_pendingResume cl
    \<and> cl_sessionId (foldl (\<lambda>c x. cl_messageHandler env x c) cl (map snd (drop k (numbered fs)))) = cl_sessionId cl
    \<and> cl_recovered (foldl (\<lambda>c x. cl_messageHandler env x c) cl (map snd (drop k (numbered fs)))) = cl_recovered cl"
  using assms
proof (induction fs rule: rev_induct)
  case (snoc f fs)
  then show ?case by (simp add: numbered_drop_snoc plain_frames_def resume_fields_replay)
qed (simp add: numbered_def)

text \<open>The first \<open>n\<close> of the frames of a replay.\<close>

lemma replayed_part:
  assumes "length fs \<le> MAX_UVARINT" "plain_frames fs" "cl_lastReplay cl \<le> k"
    and "c = foldl (\<lambda>c x. cl_messageHandler env x c) cl (take n (map snd (drop k (numbered fs))))"
  shows "cl_replayed c = cl_replayed cl @ take n (drop k fs) \<and> cl_pendingResume c = cl_pendingResume cl
    \<and> cl_sessionId c = cl_sessionId cl \<and> cl_recovered c = cl_recovered cl"
proof -
  let ?fs = "take (k + n) fs"
  have f: "length ?fs \<le> MAX_UVARINT" "plain_frames ?fs"
    using assms(1,2) by (auto simp: plain_frames_def list_all_iff dest: in_set_takeD)
  have "take n (map snd (drop k (numbered fs))) = map snd (drop k (numbered ?fs))"
    by (simp add: take_map drop_take flip: take_numbered)
  then have c: "c = foldl (\<lambda>c x. cl_messageHandler env x c) cl (map snd (drop k (numbered ?fs)))"
    using assms(4) by simp
  have "cl_replayed c = cl_replayed cl @ drop k ?fs"
    using replay_frames_once [OF f(1) f(2) [unfolded plain_frames_def], of env cl k] assms(3)
    by (simp add: c replay_view_def max_absorb2)
  then show ?thesis using resume_fields_replays [OF f, of env cl k] by (simp add: c drop_take)
qed



end
